(* ===== verification/Cremona_Prelude.thy ===== *)
theory Cremona_Prelude
  imports "HOL-Library.Word"
begin

text \<open>
  Shared ground of the development: the machine integer types of the C code, the
  outcome of running a piece of C (a value, or a fault that the C standard or the
  kernel leaves without a result), its sequencing operator, and generic lemmas on
  lists and words.
\<close>

unbundle bit_operations_syntax

type_synonym u8 = "8 word"
type_synonym u16 = "16 word"
type_synonym u32 = "32 word"
type_synonym u64 = "64 word"
type_synonym bytes = "u8 list"

named_theorems outcome_simps \<open>rules that run a sequence of outcomes\<close>
named_theorems word_bounds \<open>ranges of machine integers\<close>

subsection \<open>Outcomes\<close>

text \<open>
  A C function may stop without returning: an access outside an object, a dereference of
  NULL or of freed memory, a failed \<open>mpack_assert\<close> (which expands to
  \<open>__builtin_unreachable\<close> when \<open>MPACK_DEBUG\<close> is off), or a lock that is never
  released. Every such way is a value of type \<open>fault\<close>.
\<close>

datatype fault =
    Oob_read            \<comment> \<open>a read outside the bytes of an object\<close>
  | Oob_write           \<comment> \<open>a write outside the bytes of an object\<close>
  | Null_deref
  | Use_after_free
  | Assert_failed       \<comment> \<open>\<open>mpack_assert\<close> is \<open>__builtin_unreachable()\<close> here\<close>
  | Uninit_read         \<comment> \<open>a read of memory, or of a union member, that nobody has stored\<close>
  | Deadlock            \<comment> \<open>a semaphore that no thread will release\<close>
  | Diverged            \<comment> \<open>the fuel of a loop of the model ran out\<close>

datatype 'a outcome = Ret 'a | Fault fault

primrec and_then :: "'a outcome \<Rightarrow> ('a \<Rightarrow> 'b outcome) \<Rightarrow> 'b outcome" where
  "and_then (Ret x) f = f x"
| "and_then (Fault e) f = Fault e"

primrec returns :: "'a outcome \<Rightarrow> bool" where
  "returns (Ret x) = True"
| "returns (Fault e) = False"

lemma and_then_eq_Ret [outcome_simps]:
  "and_then m f = Ret y \<longleftrightarrow> (\<exists>x. m = Ret x \<and> f x = Ret y)"
  by (cases m) auto

lemma and_then_eq_Fault [outcome_simps]:
  "and_then m f = Fault e \<longleftrightarrow> m = Fault e \<or> (\<exists>x. m = Ret x \<and> f x = Fault e)"
  by (cases m) auto

lemma and_then_cong [fundef_cong]:
  "m = m' \<Longrightarrow> (\<And>x. m' = Ret x \<Longrightarrow> f x = f' x) \<Longrightarrow> and_then m f = and_then m' f'"
  by (cases m') auto

lemma and_then_assoc: "and_then (and_then m f) g = and_then m (\<lambda>x. and_then (f x) g)"
  by (cases m) auto

lemma returns_iff: "returns m \<longleftrightarrow> (\<exists>x. m = Ret x)"
  by (cases m) auto

text \<open>\<open>mpack_assert(c)\<close>: with \<open>MPACK_DEBUG\<close> off, running past a false assertion is undefined.\<close>

definition mpack_assert :: "bool \<Rightarrow> 'a outcome \<Rightarrow> 'a outcome" where
  "mpack_assert c k = (if c then k else Fault Assert_failed)"

lemma mpack_assert_True [simp]: "c \<Longrightarrow> mpack_assert c k = k"
  by (simp add: mpack_assert_def)

lemma mpack_assert_eq_Ret [outcome_simps]: "mpack_assert c k = Ret x \<longleftrightarrow> c \<and> k = Ret x"
  by (simp add: mpack_assert_def)

lemma mpack_assert_cong [fundef_cong]:
  "c = c' \<Longrightarrow> (c' \<Longrightarrow> k = k') \<Longrightarrow> mpack_assert c k = mpack_assert c' k'"
  by (simp add: mpack_assert_def)

subsection \<open>Words\<close>

lemma unat_u8_less [word_bounds]: "unat (x :: u8) < 256"
  using unsigned_less [of x, where ?'a = nat] by simp

lemma unat_u16_less [word_bounds]: "unat (x :: u16) < 65536"
  using unsigned_less [of x, where ?'a = nat] by simp

lemma unat_u32_less [word_bounds]: "unat (x :: u32) < 4294967296"
  using unsigned_less [of x, where ?'a = nat] by simp

lemma unat_u64_less [word_bounds]: "unat (x :: u64) < 18446744073709551616"
  using unsigned_less [of x, where ?'a = nat] by simp

lemma uint_less [word_bounds]:
  "uint (a :: u8) < 256" "uint (b :: u16) < 65536" "uint (c :: u32) < 4294967296"
  "uint (d :: u64) < 18446744073709551616"
  using unsigned_less [of a, where ?'a = int] unsigned_less [of b, where ?'a = int]
    unsigned_less [of c, where ?'a = int] unsigned_less [of d, where ?'a = int] by simp_all

lemma sint_range [word_bounds]:
  "sint (a :: u8) < 128" "sint (b :: u16) < 32768" "sint (c :: u32) < 2147483648"
  "sint (d :: u64) < 9223372036854775808"
  "- 128 \<le> sint a" "- 32768 \<le> sint b" "- 2147483648 \<le> sint c"
  "- 9223372036854775808 \<le> sint d"
  using sint_lt [of a] sint_lt [of b] sint_lt [of c] sint_lt [of d]
    sint_ge [of a] sint_ge [of b] sint_ge [of c] sint_ge [of d] by simp_all

text \<open>A claim about all bytes is a claim about 256 numerals, which the simplifier can check.\<close>

lemma all_u8_iff: "(\<forall>x :: u8. P x) \<longleftrightarrow> (\<forall>n \<in> set [0..<256]. P (of_nat n))"
proof
  assume h: "\<forall>n \<in> set [0..<256]. P (of_nat n)"
  show "\<forall>x :: u8. P x"
  proof
    fix x :: u8
    have "unat x \<in> set [0..<256]" using unat_u8_less [of x] by simp
    with h have "P (of_nat (unat x))" by blast
    then show "P x" by simp
  qed
qed simp

lemma unat_ucast_up: "LENGTH('a) \<le> LENGTH('b) \<Longrightarrow>
  unat (ucast (x :: 'a::len word) :: 'b::len word) = unat x"
  by (simp add: unsigned_ucast_eq take_bit_nat_eq_self order_less_le_trans [OF unsigned_less])

lemma unat_ucast_widen [simp]:
  "unat (ucast (a :: u8) :: u16) = unat a" "unat (ucast (a :: u8) :: u32) = unat a"
  "unat (ucast (a :: u8) :: u64) = unat a" "unat (ucast (b :: u16) :: u32) = unat b"
  "unat (ucast (b :: u16) :: u64) = unat b" "unat (ucast (c :: u32) :: u64) = unat c"
  by (simp_all add: unat_ucast_up)

text \<open>\<open>x & 0xFF\<close> before a cast to \<open>uint8_t\<close> keeps the byte the cast keeps.\<close>

lemma ucast_and_255 [simp]: "(ucast (x AND 255) :: u8) = ucast (x :: 'a::len word)"
proof -
  have m: "(255 :: 'a word) = mask 8"
    by (simp add: mask_eq_exp_minus_1)
  show ?thesis
    unfolding m by (rule bit_word_eqI) (auto simp: bit_simps dest: bit_imp_le_length)
qed

text \<open>One byte of a wider word, cut out and put back in its place.\<close>

lemma bit_byte_part:
  "bit (push_bit k (ucast (ucast (drop_bit k v) :: u8)) :: 'a word) n
     \<longleftrightarrow> k \<le> n \<and> n < k + 8 \<and> bit (v :: 'a::len word) n"
  by (auto simp: bit_simps dest: bit_imp_le_length)

lemma bit_byte_part_0:
  "bit (ucast (ucast v :: u8) :: 'a word) n \<longleftrightarrow> n < 8 \<and> bit (v :: 'a::len word) n"
  by (auto simp: bit_simps dest: bit_imp_le_length)

text \<open>A shifted field and a field below it do not overlap, so \<open>|\<close> adds them.\<close>

lemma take_bit_eq_self_of_unat: "unat (b :: 'a::len word) < 2 ^ k \<Longrightarrow> take_bit k b = b"
  by (intro word_unat_eq_iff [THEN iffD2]) (simp add: unsigned_take_bit_eq take_bit_nat_eq_self)

lemma push_bit_or_add:
  assumes "unat (b :: 'a::len word) < 2 ^ k"
  shows "push_bit k a OR b = push_bit k a + b"
proof -
  have "push_bit k a OR take_bit k b = push_bit k a + take_bit k b"
    by (rule disjunctive_add [symmetric]) (simp add: bit_simps)
  then show ?thesis using assms by (simp add: take_bit_eq_self_of_unat)
qed

lemma unat_push_bit:
  assumes "unat (a :: 'a::len word) * 2 ^ k < 2 ^ LENGTH('a)"
  shows "unat (push_bit k a) = unat a * 2 ^ k"
  unfolding unsigned_push_bit_eq using assms by (simp add: push_bit_eq_mult take_bit_nat_eq_self)

lemma unat_drop_bit: "unat (drop_bit k (a :: 'a::len word)) = unat a div 2 ^ k"
  unfolding unsigned_drop_bit_eq by (simp add: drop_bit_eq_div take_bit_nat_eq_self)

lemma unat_take_bit: "unat (take_bit k (a :: 'a::len word)) = unat a mod 2 ^ k"
  unfolding unsigned_take_bit_eq by (simp add: take_bit_eq_mod)

text \<open>The top bits of a byte, and the bits below them.\<close>

lemma unat_and_not_mask: "unat ((b :: 'a::len word) AND NOT (mask k)) = unat b div 2 ^ k * 2 ^ k"
proof -
  have "b AND NOT (mask k) = push_bit k (drop_bit k b)"
    by (rule bit_word_eqI) (auto simp: bit_simps)
  moreover have "unat (drop_bit k b) * 2 ^ k < 2 ^ LENGTH('a)"
    unfolding unat_drop_bit by (rule order_le_less_trans [OF div_times_less_eq_dividend unsigned_less])
  ultimately show ?thesis
    by (simp only: unat_push_bit unat_drop_bit)
qed

lemma unat_low_bits:
  "unat ((ucast (b :: u8) :: u32) AND NOT (mask 8 AND NOT (mask k))) = unat b mod 2 ^ min 8 k"
proof -
  have "(ucast b :: u32) AND NOT (mask 8 AND NOT (mask k)) = ucast (take_bit (min 8 k) b)"
    by (rule bit_word_eqI) (auto simp: bit_simps dest: bit_imp_le_length)
  then show ?thesis
    by (simp only: unat_ucast_widen unat_take_bit)
qed

text \<open>A signed reading that is not negative is the unsigned one.\<close>

lemma uint_of_nonneg_sint:
  assumes "0 \<le> sint (w :: 'a::len word)"
  shows "uint w = sint w"
proof -
  have "sint w < 2 ^ (LENGTH('a) - 1)" by (rule sint_lt)
  also have "\<dots> \<le> (2 :: int) ^ LENGTH('a)" by (rule power_increasing) simp_all
  finally show ?thesis
    using assms by (simp add: uint_sint take_bit_int_eq_self)
qed

lemma top_index: "k - Suc 0 \<le> n \<Longrightarrow> n < k \<Longrightarrow> n = k - Suc 0"
  by arith

text \<open>Narrowing casts keep a value that fits the narrow type.\<close>

lemma uint_ucast_fits:
  "uint (w :: 'a::len word) < 2 ^ LENGTH('b) \<Longrightarrow> uint (ucast w :: 'b::len word) = uint w"
  by (simp add: unsigned_ucast_eq take_bit_int_eq_self)

lemma sint_ucast_fits:
  assumes "LENGTH('b) \<le> LENGTH('a)" "- (2 ^ (LENGTH('b) - 1)) \<le> sint w"
    "sint w < 2 ^ (LENGTH('b) - 1)"
  shows "sint (ucast (w :: 'a::len word) :: 'b::len word) = sint w"
proof -
  have "sint (ucast w :: 'b word) = signed_take_bit (LENGTH('b) - 1) (sint w)"
    using assms(1)
    by (intro bit_eqI)
      (auto simp: bit_signed_take_bit_iff bit_sint_iff bit_simps min_def not_less
        dest: top_index dest!: leI)
  then show ?thesis
    using assms by (simp add: signed_take_bit_int_eq_self)
qed

subsection \<open>Sizes\<close>

text \<open>\<open>size_t\<close> is a 64-bit unsigned integer: numbers below \<open>2 ^ 64\<close> with the wrap-around written out.\<close>

definition SIZE_MAX :: nat where
  "SIZE_MAX = 18446744073709551615"

definition size_add :: "nat \<Rightarrow> nat \<Rightarrow> nat" where
  "size_add a b = (a + b) mod (SIZE_MAX + 1)"

definition size_sub :: "nat \<Rightarrow> nat \<Rightarrow> nat" where
  "size_sub a b = (a + (SIZE_MAX + 1) - b) mod (SIZE_MAX + 1)"

lemma size_add_eq: "a + b \<le> SIZE_MAX \<Longrightarrow> size_add a b = a + b"
  by (simp add: size_add_def)

lemma size_sub_eq: "b \<le> a \<Longrightarrow> a \<le> SIZE_MAX \<Longrightarrow> size_sub a b = a - b"
proof -
  assume "b \<le> a" "a \<le> SIZE_MAX"
  then have "a + (SIZE_MAX + 1) - b = (a - b) + (SIZE_MAX + 1)" "a - b < SIZE_MAX + 1"
    by simp_all
  then show ?thesis unfolding size_sub_def by (metis mod_add_self2 mod_less)
qed

subsection \<open>Lists\<close>

lemma take_append_exact [simp]: "length xs = n \<Longrightarrow> take n (xs @ ys) = xs"
  by simp

lemma drop_append_exact [simp]: "length xs = n \<Longrightarrow> drop n (xs @ ys) = ys"
  by simp

lemma sum_list_take_Suc:
  "n < length xs \<Longrightarrow> sum_list (take (Suc n) xs) = sum_list (take n xs) + (xs ! n :: nat)"
  by (simp add: take_Suc_conv_app_nth)

end
