(* ===== verification/Mpack_Bytes.thy ===== *)
theory Mpack_Bytes
  imports Cremona_Prelude
begin

text \<open>
  The unaligned big-endian loads and stores of \<open>mpack.h\<close> (the portable branches; the
  byte-swapping builtins compute the same values). A store is the list of bytes it puts at
  \<open>p\<close>; a load reads the front of a list of bytes.
\<close>

subsection \<open>Loads and stores\<close>

definition mpack_load_u8 :: "bytes \<Rightarrow> u8" where
  "mpack_load_u8 p = p ! 0"

definition mpack_load_u16 :: "bytes \<Rightarrow> u16" where
  "mpack_load_u16 p = push_bit 8 (ucast (p ! 0)) OR ucast (p ! 1)"

definition mpack_load_u32 :: "bytes \<Rightarrow> u32" where
  "mpack_load_u32 p =
     push_bit 24 (ucast (p ! 0)) OR push_bit 16 (ucast (p ! 1)) OR
     push_bit 8 (ucast (p ! 2)) OR ucast (p ! 3)"

definition mpack_load_u64 :: "bytes \<Rightarrow> u64" where
  "mpack_load_u64 p =
     push_bit 56 (ucast (p ! 0)) OR push_bit 48 (ucast (p ! 1)) OR
     push_bit 40 (ucast (p ! 2)) OR push_bit 32 (ucast (p ! 3)) OR
     push_bit 24 (ucast (p ! 4)) OR push_bit 16 (ucast (p ! 5)) OR
     push_bit 8 (ucast (p ! 6)) OR ucast (p ! 7)"

definition mpack_store_u8 :: "u8 \<Rightarrow> bytes" where
  "mpack_store_u8 val = [val]"

definition mpack_store_u16 :: "u16 \<Rightarrow> bytes" where
  "mpack_store_u16 val = [ucast (drop_bit 8 val AND 0xFF), ucast (val AND 0xFF)]"

definition mpack_store_u32 :: "u32 \<Rightarrow> bytes" where
  "mpack_store_u32 val =
     [ucast (drop_bit 24 val AND 0xFF), ucast (drop_bit 16 val AND 0xFF),
      ucast (drop_bit 8 val AND 0xFF), ucast (val AND 0xFF)]"

definition mpack_store_u64 :: "u64 \<Rightarrow> bytes" where
  "mpack_store_u64 val =
     [ucast (drop_bit 56 val AND 0xFF), ucast (drop_bit 48 val AND 0xFF),
      ucast (drop_bit 40 val AND 0xFF), ucast (drop_bit 32 val AND 0xFF),
      ucast (drop_bit 24 val AND 0xFF), ucast (drop_bit 16 val AND 0xFF),
      ucast (drop_bit 8 val AND 0xFF), ucast (val AND 0xFF)]"

text \<open>
  Signed loads and stores reinterpret the unsigned ones: a signed integer of the code is a
  word read with \<open>sint\<close>, so the casts \<open>(int8_t)\<close> to \<open>(int64_t)\<close> are the identity.
\<close>

definition mpack_load_i8 :: "bytes \<Rightarrow> u8" where
  "mpack_load_i8 p = mpack_load_u8 p"

definition mpack_load_i16 :: "bytes \<Rightarrow> u16" where
  "mpack_load_i16 p = mpack_load_u16 p"

definition mpack_load_i32 :: "bytes \<Rightarrow> u32" where
  "mpack_load_i32 p = mpack_load_u32 p"

definition mpack_load_i64 :: "bytes \<Rightarrow> u64" where
  "mpack_load_i64 p = mpack_load_u64 p"

definition mpack_store_i8 :: "u8 \<Rightarrow> bytes" where
  "mpack_store_i8 val = mpack_store_u8 val"

definition mpack_store_i16 :: "u16 \<Rightarrow> bytes" where
  "mpack_store_i16 val = mpack_store_u16 val"

definition mpack_store_i32 :: "u32 \<Rightarrow> bytes" where
  "mpack_store_i32 val = mpack_store_u32 val"

definition mpack_store_i64 :: "u64 \<Rightarrow> bytes" where
  "mpack_store_i64 val = mpack_store_u64 val"

lemmas signed_access_defs =
  mpack_load_i8_def mpack_load_i16_def mpack_load_i32_def mpack_load_i64_def
  mpack_store_i8_def mpack_store_i16_def mpack_store_i32_def mpack_store_i64_def

text \<open>
  \<open>load_at\<close> is a load of \<open>n\<close> bytes at offset \<open>off\<close> of an object: outside the object it
  is a fault.
\<close>

definition load_at :: "nat \<Rightarrow> (bytes \<Rightarrow> 'a) \<Rightarrow> bytes \<Rightarrow> nat \<Rightarrow> 'a outcome" where
  "load_at n f mem off =
     (if off + n \<le> length mem then Ret (f (take n (drop off mem))) else Fault Oob_read)"

text \<open>\<open>store_at\<close> copies bytes into an object at an offset, with the same bounds.\<close>

definition store_at :: "bytes \<Rightarrow> nat \<Rightarrow> bytes \<Rightarrow> bytes outcome" where
  "store_at mem off bs =
     (if off + length bs \<le> length mem
      then Ret (take off mem @ bs @ drop (off + length bs) mem) else Fault Oob_write)"

text \<open>
  The memory functions at the top of \<open>mpack.c\<close>, byte by byte. \<open>mpack_strlen\<close> reads past the
  object when it holds no NUL. \<open>mpack_memmove\<close> works inside one object, from offset \<open>p2\<close> to
  offset \<open>p1\<close>; it copies downwards when the destination starts inside the source.
\<close>

fun mpack_memcmp :: "bytes \<Rightarrow> bytes \<Rightarrow> nat \<Rightarrow> int outcome" where
  "mpack_memcmp us1 us2 0 = Ret 0"
| "mpack_memcmp (a # us1) (b # us2) (Suc n) =
     (if a \<noteq> b then Ret (if a < b then - 1 else 1) else mpack_memcmp us1 us2 n)"
| "mpack_memcmp _ _ (Suc n) = Fault Oob_read"

fun mpack_strlen :: "bytes \<Rightarrow> nat outcome" where
  "mpack_strlen [] = Fault Oob_read"
| "mpack_strlen (c # p) = (if c \<noteq> 0 then and_then (mpack_strlen p) (\<lambda>n. Ret (n + 1)) else Ret 0)"

definition copy_byte :: "bytes \<Rightarrow> nat \<Rightarrow> nat \<Rightarrow> bytes outcome" where
  "copy_byte m p1 p2 =
     (if p2 < length m then
        if p1 < length m then Ret (m[p1 := m ! p2]) else Fault Oob_write
      else Fault Oob_read)"

fun copy_up :: "bytes \<Rightarrow> nat \<Rightarrow> nat \<Rightarrow> nat \<Rightarrow> bytes outcome" where
  "copy_up m p1 p2 0 = Ret m"
| "copy_up m p1 p2 (Suc n) = and_then (copy_byte m p1 p2) (\<lambda>m. copy_up m (p1 + 1) (p2 + 1) n)"

fun copy_down :: "bytes \<Rightarrow> nat \<Rightarrow> nat \<Rightarrow> nat \<Rightarrow> bytes outcome" where
  "copy_down m p1 p2 0 = Ret m"
| "copy_down m p1 p2 (Suc n) =
     and_then (copy_byte m (p1 + n) (p2 + n)) (\<lambda>m. copy_down m p1 p2 n)"

definition mpack_memmove :: "bytes \<Rightarrow> nat \<Rightarrow> nat \<Rightarrow> nat \<Rightarrow> bytes outcome" where
  "mpack_memmove m p1 p2 n =
     (if p2 < p1 \<and> p1 < p2 + n then copy_down m p1 p2 n else copy_up m p1 p2 n)"

text \<open>
  The search for a key among C strings, which the enumerations of the node API and of the expect API
  share: the index of the first one that equals the key, or the number of strings.
\<close>

fun enum_scan :: "bytes \<Rightarrow> nat \<Rightarrow> bytes list \<Rightarrow> nat \<Rightarrow> nat outcome" where
  "enum_scan key keylen [] i = Ret i"
| "enum_scan key keylen (other # strings) i =
     and_then (mpack_strlen other) (\<lambda>otherlen.
       if keylen = otherlen then
         and_then (mpack_memcmp key other keylen) (\<lambda>c.
           if c = 0 then Ret i else enum_scan key keylen strings (i + 1))
       else enum_scan key keylen strings (i + 1))"

text \<open>
  The byte order of the format: the \<open>n\<close> low bytes of an integer, the highest one first. The
  byte with \<open>8 * k\<close> bits below it is \<open>drop_bit (8 * k) i\<close>, that is \<open>i div 256 ^ k\<close>, modulo 256.
\<close>

definition be_bytes :: "nat \<Rightarrow> int \<Rightarrow> bytes" where
  "be_bytes n i = map (\<lambda>k. word_of_int (drop_bit (8 * k) i)) (rev [0..<n])"

subsection \<open>Facts\<close>

lemma byte_of_int: "(word_of_int (drop_bit k i) :: u8) = word_of_int (i div 2 ^ k)"
  by (simp add: drop_bit_eq_div)

lemma byte_of_uint:
  "(word_of_int (drop_bit k (uint v)) :: u8) = ucast (drop_bit k (v :: 'a::len word))"
  by (rule bit_word_eqI) (auto simp: bit_simps)

lemma byte_of_sint:
  "k + 8 \<le> LENGTH('a) \<Longrightarrow>
     (word_of_int (drop_bit k (sint v)) :: u8) = ucast (drop_bit k (v :: 'a::len word))"
  by (rule bit_word_eqI)
    (auto simp: bit_simps bit_sint_iff min_def dest: bit_imp_le_length top_index)

lemma scast_byte: "8 \<le> LENGTH('a) \<Longrightarrow> (scast (v :: 'a::len word) :: u8) = ucast v"
  using byte_of_sint [of 0 v] by simp

lemma length_be_bytes [simp]: "length (be_bytes n i) = n"
  by (simp add: be_bytes_def)

lemma store_be_bytes:
  "mpack_store_u8 a = be_bytes 1 (uint a)" "mpack_store_u16 b = be_bytes 2 (uint b)"
  "mpack_store_u32 c = be_bytes 4 (uint c)" "mpack_store_u64 d = be_bytes 8 (uint d)"
  by (simp_all add: be_bytes_def byte_of_uint upt_rec mpack_store_u8_def mpack_store_u16_def
      mpack_store_u32_def mpack_store_u64_def)

lemma store_signed_be_bytes:
  "mpack_store_i8 a = be_bytes 1 (sint a)" "mpack_store_i16 b = be_bytes 2 (sint b)"
  "mpack_store_i32 c = be_bytes 4 (sint c)" "mpack_store_i64 d = be_bytes 8 (sint d)"
  by (simp_all add: be_bytes_def byte_of_sint scast_byte upt_rec mpack_store_u8_def mpack_store_u16_def
      mpack_store_u32_def mpack_store_u64_def signed_access_defs)


lemma store_lengths [simp]:
  "length (mpack_store_u8 a) = 1" "length (mpack_store_u16 b) = 2"
  "length (mpack_store_u32 c) = 4" "length (mpack_store_u64 d) = 8"
  "length (mpack_store_i8 a) = 1" "length (mpack_store_i16 b) = 2"
  "length (mpack_store_i32 c) = 4" "length (mpack_store_i64 d) = 8"
  by (simp_all add: signed_access_defs mpack_store_u8_def mpack_store_u16_def
      mpack_store_u32_def mpack_store_u64_def)

lemma load_store_u8 [simp]: "mpack_load_u8 (mpack_store_u8 v) = v"
  by (simp add: mpack_load_u8_def mpack_store_u8_def)

lemma load_store_u16 [simp]: "mpack_load_u16 (mpack_store_u16 v) = v"
proof (rule bit_word_eqI)
  fix n
  assume "n < LENGTH(16)"
  then show "bit (mpack_load_u16 (mpack_store_u16 v)) n \<longleftrightarrow> bit v n"
    unfolding mpack_load_u16_def mpack_store_u16_def
    by (simp add: bit_or_iff bit_byte_part bit_byte_part_0) arith
qed

lemma load_store_u32 [simp]: "mpack_load_u32 (mpack_store_u32 v) = v"
proof (rule bit_word_eqI)
  fix n
  assume "n < LENGTH(32)"
  then show "bit (mpack_load_u32 (mpack_store_u32 v)) n \<longleftrightarrow> bit v n"
    unfolding mpack_load_u32_def mpack_store_u32_def
    by (simp add: bit_or_iff bit_byte_part bit_byte_part_0) arith
qed

lemma load_store_u64 [simp]: "mpack_load_u64 (mpack_store_u64 v) = v"
proof (rule bit_word_eqI)
  fix n
  assume "n < LENGTH(64)"
  then show "bit (mpack_load_u64 (mpack_store_u64 v)) n \<longleftrightarrow> bit v n"
    unfolding mpack_load_u64_def mpack_store_u64_def
    by (simp add: bit_or_iff bit_byte_part bit_byte_part_0) arith
qed

lemma load_store_signed [simp]:
  "mpack_load_i8 (mpack_store_i8 a) = a" "mpack_load_i16 (mpack_store_i16 b) = b"
  "mpack_load_i32 (mpack_store_i32 c) = c" "mpack_load_i64 (mpack_store_i64 d) = d"
  by (simp_all add: signed_access_defs)

lemma load_at_append:
  "length enc = n \<Longrightarrow> off = length pre \<Longrightarrow> load_at n f (pre @ enc @ post) off = Ret (f enc)"
  by (simp add: load_at_def)

lemma load_at_returns: "off + n \<le> length mem \<Longrightarrow> \<exists>v. load_at n f mem off = Ret v"
  by (simp add: load_at_def)

subsection \<open>The memory functions copy and compare\<close>

text \<open>A C string is the bytes in front of its first NUL.\<close>

lemma mpack_strlen_eq:
  "mpack_strlen m = (if 0 \<in> set m then Ret (length (takeWhile (\<lambda>c. c \<noteq> 0) m)) else Fault Oob_read)"
  by (induction m) auto

lemma strlen_cstr [simp]: "0 \<notin> set s \<Longrightarrow> mpack_strlen (s @ 0 # rest) = Ret (length s)"
  by (induction s) auto

lemma memcmp_eq_0:
  "n \<le> length a \<Longrightarrow> n \<le> length b \<Longrightarrow> mpack_memcmp a b n = Ret 0 \<longleftrightarrow> take n a = take n b"
  by (induction a b n rule: mpack_memcmp.induct) auto

lemma memcmp_returns:
  "n \<le> length a \<Longrightarrow> n \<le> length b \<Longrightarrow> returns (mpack_memcmp a b n)"
  by (induction a b n rule: mpack_memcmp.induct) auto

lemma copy_up_nth:
  assumes "p2 + n \<le> length m" "p1 + n \<le> length m" "p1 \<le> p2 \<or> p2 + n \<le> p1"
  shows "\<exists>m'. copy_up m p1 p2 n = Ret m' \<and> length m' = length m \<and>
    (\<forall>i < length m. m' ! i = (if p1 \<le> i \<and> i < p1 + n then m ! (i - p1 + p2) else m ! i))"
  using assms
proof (induction n arbitrary: m p1 p2)
  case (Suc n)
  let ?m = "m[p1 := m ! p2]"
  obtain m' where m': "copy_up ?m (p1 + 1) (p2 + 1) n = Ret m'" "length m' = length m"
    "\<forall>i < length m. m' ! i = (if p1 + 1 \<le> i \<and> i < p1 + 1 + n then ?m ! (i - (p1 + 1) + (p2 + 1)) else ?m ! i)"
    using Suc.IH [of "p2 + 1" ?m "p1 + 1"] Suc.prems by auto
  have "m' ! i = (if p1 \<le> i \<and> i < p1 + Suc n then m ! (i - p1 + p2) else m ! i)" if "i < length m" for i
  proof -
    consider "i < p1" | "i = p1" | "p1 < i" "i < p1 + Suc n" | "p1 + Suc n \<le> i" by linarith
    then show ?thesis
    proof cases
      case 3
      then have "i - (p1 + 1) + (p2 + 1) = i - p1 + p2" "i - p1 + p2 \<noteq> p1"
        using Suc.prems by arith+
      then show ?thesis using m'(3) that 3 by simp
    qed (use m'(3) that Suc.prems in auto)
  qed
  with m'(1,2) Suc.prems show ?case by (simp add: copy_byte_def)
qed auto

lemma copy_down_nth:
  assumes "p2 + n \<le> length m" "p1 + n \<le> length m" "p2 < p1"
  shows "\<exists>m'. copy_down m p1 p2 n = Ret m' \<and> length m' = length m \<and>
    (\<forall>i < length m. m' ! i = (if p1 \<le> i \<and> i < p1 + n then m ! (i - p1 + p2) else m ! i))"
  using assms
proof (induction n arbitrary: m)
  case (Suc n)
  let ?m = "m[p1 + n := m ! (p2 + n)]"
  obtain m' where m': "copy_down ?m p1 p2 n = Ret m'" "length m' = length m"
    "\<forall>i < length m. m' ! i = (if p1 \<le> i \<and> i < p1 + n then ?m ! (i - p1 + p2) else ?m ! i)"
    using Suc.IH [of ?m] Suc.prems by auto
  have "m' ! i = (if p1 \<le> i \<and> i < p1 + Suc n then m ! (i - p1 + p2) else m ! i)" if "i < length m" for i
  proof -
    consider "i < p1" | "p1 \<le> i" "i < p1 + n" | "i = p1 + n" | "p1 + Suc n \<le> i" by linarith
    then show ?thesis
    proof cases
      case 2
      then have "i - p1 + p2 \<noteq> p1 + n" using Suc.prems by arith
      then show ?thesis using m'(3) that 2 by simp
    qed (use m'(3) that Suc.prems in \<open>auto simp: add.commute\<close>)
  qed
  with m'(1,2) Suc.prems show ?case by (simp add: copy_byte_def)
qed auto

lemma memmove_copies:
  assumes "p2 + n \<le> length m" "p1 + n \<le> length m"
  shows "mpack_memmove m p1 p2 n = Ret (take p1 m @ take n (drop p2 m) @ drop (p1 + n) m)"
proof -
  obtain m' where m': "mpack_memmove m p1 p2 n = Ret m'" "length m' = length m"
    "\<forall>i < length m. m' ! i = (if p1 \<le> i \<and> i < p1 + n then m ! (i - p1 + p2) else m ! i)"
    using copy_up_nth [OF assms] copy_down_nth [OF assms]
    by (cases "p2 < p1 \<and> p1 < p2 + n") (auto simp: mpack_memmove_def not_less)
  moreover have "m' = take p1 m @ take n (drop p2 m) @ drop (p1 + n) m"
    using m'(2,3) assms by (intro nth_equalityI) (auto simp: nth_append min_def add.commute,
        (rule arg_cong [where f = "(!) m"], arith)?)
  ultimately show ?thesis by simp
qed

subsection \<open>Overlapping ranges\<close>

text \<open>
  \<open>mpack_memmove\<close> inside one object copies the source as it was before the call, whether or
  not the two ranges overlap, and touches nothing else.
\<close>

theorem memmove_overlapping:
  assumes "p2 + n \<le> length m" "p1 + n \<le> length m"
  shows "mpack_memmove m p1 p2 n = Ret (take p1 m @ take n (drop p2 m) @ drop (p1 + n) m)"
  using assms by (rule memmove_copies)

theorem memmove_overlapping_witness:
  "mpack_memmove [1, 2, 3, 4, 5, 6] 2 0 4 = Ret [1, 2, 1, 2, 3, 4] \<and>
   mpack_memmove [1, 2, 3, 4, 5, 6] 0 2 4 = Ret [3, 4, 5, 6, 5, 6]"
  using memmove_overlapping [of 0 4 "[1, 2, 3, 4, 5, 6]" 2]
    memmove_overlapping [of 2 4 "[1, 2, 3, 4, 5, 6]" 0] by simp

end
