(* ===== verification/Mpack_Tag.thy ===== *)
theory Mpack_Tag
  imports Mpack_Bytes
begin

text \<open>
  The error codes, the type codes and the tags of MPack (\<open>mpack.h\<close>), and the total order on
  tags that \<open>mpack_tag_cmp\<close> computes. A tag is a tagged union, so it is a datatype with one
  constructor per type; reading the wrong member is what the accessors assert against. The two
  float types are compiled out (\<open>MPACK_SSE_ENABLED\<close> is undefined in the kernel build).
\<close>

subsection \<open>Error and type codes\<close>

datatype mpack_error_t =
    mpack_ok | mpack_error_io | mpack_error_invalid | mpack_error_unsupported | mpack_error_type
  | mpack_error_too_big | mpack_error_memory | mpack_error_bug | mpack_error_data | mpack_error_eof

datatype mpack_type_t =
    mpack_type_missing | mpack_type_nil | mpack_type_bool | mpack_type_int | mpack_type_uint
  | mpack_type_float | mpack_type_double | mpack_type_str | mpack_type_bin | mpack_type_array
  | mpack_type_map

primrec mpack_error_code :: "mpack_error_t \<Rightarrow> nat" where
  "mpack_error_code mpack_ok = 0"
| "mpack_error_code mpack_error_io = 2"
| "mpack_error_code mpack_error_invalid = 3"
| "mpack_error_code mpack_error_unsupported = 4"
| "mpack_error_code mpack_error_type = 5"
| "mpack_error_code mpack_error_too_big = 6"
| "mpack_error_code mpack_error_memory = 7"
| "mpack_error_code mpack_error_bug = 8"
| "mpack_error_code mpack_error_data = 9"
| "mpack_error_code mpack_error_eof = 10"

primrec mpack_type_code :: "mpack_type_t \<Rightarrow> int" where
  "mpack_type_code mpack_type_missing = 0"
| "mpack_type_code mpack_type_nil = 1"
| "mpack_type_code mpack_type_bool = 2"
| "mpack_type_code mpack_type_int = 3"
| "mpack_type_code mpack_type_uint = 4"
| "mpack_type_code mpack_type_float = 5"
| "mpack_type_code mpack_type_double = 6"
| "mpack_type_code mpack_type_str = 7"
| "mpack_type_code mpack_type_bin = 8"
| "mpack_type_code mpack_type_array = 9"
| "mpack_type_code mpack_type_map = 10"

lemma mpack_type_code_eq [simp]: "mpack_type_code s = mpack_type_code t \<longleftrightarrow> s = t"
  by (cases s; cases t) simp_all

text \<open>The names of the constants, as strings; the two floats have no case in this build.\<close>

primrec mpack_error_to_string :: "mpack_error_t \<Rightarrow> string outcome" where
  "mpack_error_to_string mpack_ok = Ret ''mpack_ok''"
| "mpack_error_to_string mpack_error_io = Ret ''mpack_error_io''"
| "mpack_error_to_string mpack_error_invalid = Ret ''mpack_error_invalid''"
| "mpack_error_to_string mpack_error_unsupported = Ret ''mpack_error_unsupported''"
| "mpack_error_to_string mpack_error_type = Ret ''mpack_error_type''"
| "mpack_error_to_string mpack_error_too_big = Ret ''mpack_error_too_big''"
| "mpack_error_to_string mpack_error_memory = Ret ''mpack_error_memory''"
| "mpack_error_to_string mpack_error_bug = Ret ''mpack_error_bug''"
| "mpack_error_to_string mpack_error_data = Ret ''mpack_error_data''"
| "mpack_error_to_string mpack_error_eof = Ret ''mpack_error_eof''"

primrec mpack_type_to_string :: "mpack_type_t \<Rightarrow> string outcome" where
  "mpack_type_to_string mpack_type_missing = Ret ''mpack_type_missing''"
| "mpack_type_to_string mpack_type_nil = Ret ''mpack_type_nil''"
| "mpack_type_to_string mpack_type_bool = Ret ''mpack_type_bool''"
| "mpack_type_to_string mpack_type_int = Ret ''mpack_type_int''"
| "mpack_type_to_string mpack_type_uint = Ret ''mpack_type_uint''"
| "mpack_type_to_string mpack_type_float = Fault Assert_failed"
| "mpack_type_to_string mpack_type_double = Fault Assert_failed"
| "mpack_type_to_string mpack_type_str = Ret ''mpack_type_str''"
| "mpack_type_to_string mpack_type_bin = Ret ''mpack_type_bin''"
| "mpack_type_to_string mpack_type_array = Ret ''mpack_type_array''"
| "mpack_type_to_string mpack_type_map = Ret ''mpack_type_map''"

lemma to_string_inj:
  "mpack_error_to_string e = mpack_error_to_string e' \<longleftrightarrow> e = e'"
  "mpack_type_to_string s = Ret x \<Longrightarrow> mpack_type_to_string t = Ret x \<Longrightarrow> s = t"
  by (cases e; cases e'; simp) (cases s; cases t; auto)

text \<open>The order \<open>(int)left.type < (int)right.type\<close> of the source.\<close>

instantiation mpack_type_t :: linorder
begin

definition "less_eq_mpack_type_t s t \<longleftrightarrow> mpack_type_code s \<le> mpack_type_code t"
definition "less_mpack_type_t s t \<longleftrightarrow> mpack_type_code s < mpack_type_code t"

instance
  by standard (auto simp: less_eq_mpack_type_t_def less_mpack_type_t_def)

end

subsection \<open>Tags\<close>

text \<open>A signed 64-bit value is a word read with \<open>sint\<close>.\<close>

datatype mpack_tag =
    Tag_missing
  | Tag_nil
  | Tag_bool bool
  | Tag_int u64
  | Tag_uint u64
  | Tag_str u32
  | Tag_bin u32
  | Tag_array u32
  | Tag_map u32

primrec mpack_tag_type :: "mpack_tag \<Rightarrow> mpack_type_t" where
  "mpack_tag_type Tag_missing = mpack_type_missing"
| "mpack_tag_type Tag_nil = mpack_type_nil"
| "mpack_tag_type (Tag_bool b) = mpack_type_bool"
| "mpack_tag_type (Tag_int i) = mpack_type_int"
| "mpack_tag_type (Tag_uint u) = mpack_type_uint"
| "mpack_tag_type (Tag_str l) = mpack_type_str"
| "mpack_tag_type (Tag_bin l) = mpack_type_bin"
| "mpack_tag_type (Tag_array n) = mpack_type_array"
| "mpack_tag_type (Tag_map n) = mpack_type_map"

definition mpack_tag_make_nil :: mpack_tag where "mpack_tag_make_nil = Tag_nil"
definition mpack_tag_make_bool :: "bool \<Rightarrow> mpack_tag" where "mpack_tag_make_bool = Tag_bool"
definition mpack_tag_make_true :: mpack_tag where "mpack_tag_make_true = Tag_bool True"
definition mpack_tag_make_false :: mpack_tag where "mpack_tag_make_false = Tag_bool False"
definition mpack_tag_make_int :: "u64 \<Rightarrow> mpack_tag" where "mpack_tag_make_int = Tag_int"
definition mpack_tag_make_uint :: "u64 \<Rightarrow> mpack_tag" where "mpack_tag_make_uint = Tag_uint"
definition mpack_tag_make_array :: "u32 \<Rightarrow> mpack_tag" where "mpack_tag_make_array = Tag_array"
definition mpack_tag_make_map :: "u32 \<Rightarrow> mpack_tag" where "mpack_tag_make_map = Tag_map"
definition mpack_tag_make_str :: "u32 \<Rightarrow> mpack_tag" where "mpack_tag_make_str = Tag_str"
definition mpack_tag_make_bin :: "u32 \<Rightarrow> mpack_tag" where "mpack_tag_make_bin = Tag_bin"

lemmas tag_make_defs =
  mpack_tag_make_nil_def mpack_tag_make_bool_def mpack_tag_make_true_def mpack_tag_make_false_def
  mpack_tag_make_int_def mpack_tag_make_uint_def mpack_tag_make_array_def mpack_tag_make_map_def
  mpack_tag_make_str_def mpack_tag_make_bin_def

fun mpack_tag_bool_value :: "mpack_tag \<Rightarrow> bool outcome" where
  "mpack_tag_bool_value (Tag_bool b) = Ret b"
| "mpack_tag_bool_value _ = Fault Assert_failed"

fun mpack_tag_int_value :: "mpack_tag \<Rightarrow> u64 outcome" where
  "mpack_tag_int_value (Tag_int i) = Ret i"
| "mpack_tag_int_value _ = Fault Assert_failed"

fun mpack_tag_uint_value :: "mpack_tag \<Rightarrow> u64 outcome" where
  "mpack_tag_uint_value (Tag_uint u) = Ret u"
| "mpack_tag_uint_value _ = Fault Assert_failed"

fun mpack_tag_array_count :: "mpack_tag \<Rightarrow> u32 outcome" where
  "mpack_tag_array_count (Tag_array n) = Ret n"
| "mpack_tag_array_count _ = Fault Assert_failed"

fun mpack_tag_map_count :: "mpack_tag \<Rightarrow> u32 outcome" where
  "mpack_tag_map_count (Tag_map n) = Ret n"
| "mpack_tag_map_count _ = Fault Assert_failed"

fun mpack_tag_str_length :: "mpack_tag \<Rightarrow> u32 outcome" where
  "mpack_tag_str_length (Tag_str l) = Ret l"
| "mpack_tag_str_length _ = Fault Assert_failed"

fun mpack_tag_bin_length :: "mpack_tag \<Rightarrow> u32 outcome" where
  "mpack_tag_bin_length (Tag_bin l) = Ret l"
| "mpack_tag_bin_length _ = Fault Assert_failed"

fun mpack_tag_bytes :: "mpack_tag \<Rightarrow> u32 outcome" where
  "mpack_tag_bytes (Tag_str l) = Ret l"
| "mpack_tag_bytes (Tag_bin l) = Ret l"
| "mpack_tag_bytes _ = Fault Assert_failed"

subsection \<open>Comparison\<close>

text \<open>The first two statements of \<open>mpack_tag_cmp\<close>: a non-negative int becomes a uint.\<close>

fun tag_int_to_uint :: "mpack_tag \<Rightarrow> mpack_tag" where
  "tag_int_to_uint (Tag_int i) = (if 0 \<le> sint i then Tag_uint i else Tag_int i)"
| "tag_int_to_uint t = t"

definition cmp_values :: "int \<Rightarrow> int \<Rightarrow> int" where
  "cmp_values l r = (if l = r then 0 else if l < r then - 1 else 1)"

definition mpack_tag_cmp :: "mpack_tag \<Rightarrow> mpack_tag \<Rightarrow> int" where
  "mpack_tag_cmp left right =
     (let left = tag_int_to_uint left; right = tag_int_to_uint right in
      if mpack_tag_type left \<noteq> mpack_tag_type right
      then (if mpack_type_code (mpack_tag_type left) < mpack_type_code (mpack_tag_type right)
            then - 1 else 1)
      else (case (left, right) of
              (Tag_bool l, Tag_bool r) \<Rightarrow> of_bool l - of_bool r
            | (Tag_int l, Tag_int r) \<Rightarrow> cmp_values (sint l) (sint r)
            | (Tag_uint l, Tag_uint r) \<Rightarrow> cmp_values (uint l) (uint r)
            | (Tag_array l, Tag_array r) \<Rightarrow> cmp_values (uint l) (uint r)
            | (Tag_map l, Tag_map r) \<Rightarrow> cmp_values (uint l) (uint r)
            | (Tag_str l, Tag_str r) \<Rightarrow> cmp_values (uint l) (uint r)
            | (Tag_bin l, Tag_bin r) \<Rightarrow> cmp_values (uint l) (uint r)
            | _ \<Rightarrow> 0))"

definition mpack_tag_equal :: "mpack_tag \<Rightarrow> mpack_tag \<Rightarrow> bool" where
  "mpack_tag_equal left right \<longleftrightarrow> mpack_tag_cmp left right = 0"

text \<open>
  What the order means: a tag denotes a type and an integer, where the two integer types are
  one type of numbers; tags are compared lexicographically by these keys.
\<close>

fun tag_key :: "mpack_tag \<Rightarrow> int \<times> int" where
  "tag_key Tag_missing = (0, 0)"
| "tag_key Tag_nil = (1, 0)"
| "tag_key (Tag_bool b) = (2, of_bool b)"
| "tag_key (Tag_int i) = (if sint i < 0 then 3 else 4, sint i)"
| "tag_key (Tag_uint u) = (4, uint u)"
| "tag_key (Tag_str l) = (7, uint l)"
| "tag_key (Tag_bin l) = (8, uint l)"
| "tag_key (Tag_array n) = (9, uint n)"
| "tag_key (Tag_map n) = (10, uint n)"

definition cmp_keys :: "int \<times> int \<Rightarrow> int \<times> int \<Rightarrow> int" where
  "cmp_keys x y =
     (if fst x \<noteq> fst y then cmp_values (fst x) (fst y) else cmp_values (snd x) (snd y))"

lemma tag_cmp_keys: "mpack_tag_cmp s t = cmp_keys (tag_key s) (tag_key t)"
  by (cases s; cases t)
    (simp_all add: mpack_tag_cmp_def cmp_keys_def cmp_values_def uint_of_nonneg_sint not_less)

subsection \<open>The property\<close>

text \<open>
  \<open>mpack_tag_cmp\<close> is a total order on tags: its sign is antisymmetric and transitive, and it
  is zero exactly when the two tags denote the same value, where a non-negative signed integer and
  the unsigned integer of the same number are the same value.
\<close>

theorem tag_cmp_total_order:
  "mpack_tag_cmp s t = - mpack_tag_cmp t s \<and>
   \<not> (mpack_tag_cmp s t \<le> 0 \<and> mpack_tag_cmp t u \<le> 0 \<and> mpack_tag_cmp s u > 0) \<and>
   (mpack_tag_equal s t \<longleftrightarrow> tag_key s = tag_key t)"
  unfolding mpack_tag_equal_def tag_cmp_keys cmp_keys_def cmp_values_def
  by (auto simp: prod_eq_iff)

end
