(* ===== verification/Mpack_Utf8.thy ===== *)
theory Mpack_Utf8
  imports Mpack_Bytes
begin

text \<open>
  The UTF-8 check of \<open>mpack.c\<close>. The model walks the bytes as the C loop does; the
  specification is the encoding of a list of Unicode scalar values, and the check accepts
  exactly the encodings.
\<close>

subsection \<open>The check\<close>

fun mpack_utf8_check_impl :: "bytes \<Rightarrow> bool \<Rightarrow> bool" where
  "mpack_utf8_check_impl [] allow_null = True"
| "mpack_utf8_check_impl (lead # str) allow_null =
     (if \<not> allow_null \<and> lead = 0 then False
      else if lead \<le> 0x7F then mpack_utf8_check_impl str allow_null
      else if lead AND 0xE0 = 0xC0 then
        (case str of
           cont # str' \<Rightarrow>
             if cont AND 0xC0 \<noteq> 0x80 then False
             else
               let z = push_bit 6 (ucast lead AND NOT 0xE0) OR (ucast cont AND NOT 0xC0) :: u32
               in if z < 0x80 then False else mpack_utf8_check_impl str' allow_null
         | _ \<Rightarrow> False)
      else if lead AND 0xF0 = 0xE0 then
        (case str of
           cont1 # cont2 # str' \<Rightarrow>
             if cont1 AND 0xC0 \<noteq> 0x80 then False
             else if cont2 AND 0xC0 \<noteq> 0x80 then False
             else
               let z = push_bit 12 (ucast lead AND NOT 0xF0) OR
                       push_bit 6 (ucast cont1 AND NOT 0xC0) OR
                       (ucast cont2 AND NOT 0xC0) :: u32
               in if z < 0x800 then False
                  else if z \<ge> 0xD800 \<and> z \<le> 0xDFFF then False
                  else mpack_utf8_check_impl str' allow_null
         | _ \<Rightarrow> False)
      else if lead AND 0xF8 = 0xF0 then
        (case str of
           cont1 # cont2 # cont3 # str' \<Rightarrow>
             if cont1 AND 0xC0 \<noteq> 0x80 then False
             else if cont2 AND 0xC0 \<noteq> 0x80 then False
             else if cont3 AND 0xC0 \<noteq> 0x80 then False
             else
               let z = push_bit 18 (ucast lead AND NOT 0xF8) OR
                       push_bit 12 (ucast cont1 AND NOT 0xC0) OR
                       push_bit 6 (ucast cont2 AND NOT 0xC0) OR
                       (ucast cont3 AND NOT 0xC0) :: u32
               in if z < 0x10000 then False
                  else if z > 0x10FFFF then False
                  else mpack_utf8_check_impl str' allow_null
         | _ \<Rightarrow> False)
      else False)"

definition mpack_utf8_check :: "bytes \<Rightarrow> bool" where
  "mpack_utf8_check str = mpack_utf8_check_impl str True"

definition mpack_utf8_check_no_null :: "bytes \<Rightarrow> bool" where
  "mpack_utf8_check_no_null str = mpack_utf8_check_impl str False"

fun mpack_str_check_no_null :: "bytes \<Rightarrow> bool" where
  "mpack_str_check_no_null [] = True"
| "mpack_str_check_no_null (c # str) = (if c = 0 then False else mpack_str_check_no_null str)"

subsection \<open>The encoding it checks for\<close>

definition utf8_scalar :: "nat \<Rightarrow> bool" where
  "utf8_scalar c \<longleftrightarrow> c < 0xD800 \<or> 0xE000 \<le> c \<and> c \<le> 0x10FFFF"

definition utf8_encode :: "nat \<Rightarrow> bytes" where
  "utf8_encode c =
     (if c < 0x80 then [of_nat c]
      else if c < 0x800 then [of_nat (0xC0 + c div 64), of_nat (0x80 + c mod 64)]
      else if c < 0x10000 then
        [of_nat (0xE0 + c div 4096), of_nat (0x80 + c div 64 mod 64), of_nat (0x80 + c mod 64)]
      else
        [of_nat (0xF0 + c div 262144), of_nat (0x80 + c div 4096 mod 64),
         of_nat (0x80 + c div 64 mod 64), of_nat (0x80 + c mod 64)])"

definition utf8_encodes :: "nat list \<Rightarrow> bytes" where
  "utf8_encodes cs = concat (map utf8_encode cs)"

subsection \<open>Reading the bit tests as arithmetic\<close>

lemma mask_consts:
  "(0xE0 :: u8) = NOT (mask 5)" "(0xF0 :: u8) = NOT (mask 4)" "(0xF8 :: u8) = NOT (mask 3)"
  "(0xC0 :: u8) = NOT (mask 6)"
  "(0xE0 :: u32) = mask 8 AND NOT (mask 5)" "(0xF0 :: u32) = mask 8 AND NOT (mask 4)"
  "(0xF8 :: u32) = mask 8 AND NOT (mask 3)" "(0xC0 :: u32) = mask 8 AND NOT (mask 6)"
  by (simp_all add: mask_eq_exp_minus_1)

lemma lead_tests:
  fixes b :: u8
  shows "b AND 0xE0 = 0xC0 \<longleftrightarrow> unat b div 32 = 6"
    and "b AND 0xF0 = 0xE0 \<longleftrightarrow> unat b div 16 = 14"
    and "b AND 0xF8 = 0xF0 \<longleftrightarrow> unat b div 8 = 30"
    and "b AND 0xC0 = 0x80 \<longleftrightarrow> unat b div 64 = 2"
  using unat_and_not_mask [of b 5] unat_and_not_mask [of b 4] unat_and_not_mask [of b 3]
    unat_and_not_mask [of b 6]
  unfolding word_unat_eq_iff mask_consts(1-4) [symmetric] by simp_all

lemma payload_bits:
  fixes b :: u8
  shows "unat ((ucast b :: u32) AND NOT 0xE0) = unat b mod 32"
    and "unat ((ucast b :: u32) AND NOT 0xF0) = unat b mod 16"
    and "unat ((ucast b :: u32) AND NOT 0xF8) = unat b mod 8"
    and "unat ((ucast b :: u32) AND NOT 0xC0) = unat b mod 64"
  using unat_low_bits [of b 5] unat_low_bits [of b 4] unat_low_bits [of b 3]
    unat_low_bits [of b 6]
  unfolding mask_consts(5-8) [symmetric] by simp_all

lemma unat_or_field:
  fixes a b :: u32
  assumes "unat b < 2 ^ k" "unat a * 2 ^ k + unat b < 2 ^ 32"
  shows "unat (push_bit k a OR b) = unat a * 2 ^ k + unat b"
proof -
  have "unat a * 2 ^ k < 2 ^ LENGTH(32)" using assms by simp
  then have p: "unat (push_bit k a) = unat a * 2 ^ k" by (rule unat_push_bit)
  with assms show ?thesis
    by (simp add: push_bit_or_add [OF assms(1)] unat_word_ariths)
qed

declare mpack_utf8_check_impl.simps(2) [simp del]
text \<open>The code point that two, three or four bytes carry.\<close>

definition code_point_2 :: "u8 \<Rightarrow> u8 \<Rightarrow> nat" where
  "code_point_2 a b = unat a mod 32 * 64 + unat b mod 64"

definition code_point_3 :: "u8 \<Rightarrow> u8 \<Rightarrow> u8 \<Rightarrow> nat" where
  "code_point_3 a b c = unat a mod 16 * 4096 + (unat b mod 64 * 64 + unat c mod 64)"

definition code_point_4 :: "u8 \<Rightarrow> u8 \<Rightarrow> u8 \<Rightarrow> u8 \<Rightarrow> nat" where
  "code_point_4 a b c d =
     unat a mod 8 * 262144 + (unat b mod 64 * 4096 + (unat c mod 64 * 64 + unat d mod 64))"

lemma unat_or_field_eq:
  fixes a b :: u32
  assumes "unat a = x" "unat b = y" "y < 2 ^ k" "x * 2 ^ k + y < 2 ^ 32"
  shows "unat (push_bit k a OR b) = x * 2 ^ k + y"
  using assms unat_or_field [of b k a] by simp

lemma field_2:
  "unat (push_bit 6 (ucast a AND NOT 0xE0) OR (ucast b AND NOT 0xC0) :: u32) = code_point_2 a b"
  using unat_or_field_eq [OF payload_bits(1) [of a] payload_bits(4) [of b], where k = 6]
    mod_less_divisor [of 32 "unat a"] mod_less_divisor [of 64 "unat b"]
  unfolding code_point_2_def by simp

lemma field_tail:
  "unat (push_bit 6 (ucast (b :: u8) AND NOT 0xC0) OR (ucast (c :: u8) AND NOT 0xC0) :: u32)
     = unat b mod 64 * 64 + unat c mod 64"
  using unat_or_field_eq [OF payload_bits(4) [of b] payload_bits(4) [of c], where k = 6]
    mod_less_divisor [of 64 "unat b"] mod_less_divisor [of 64 "unat c"] by simp

lemma field_3:
  "unat (push_bit 12 (ucast a AND NOT 0xF0) OR push_bit 6 (ucast b AND NOT 0xC0) OR
         (ucast c AND NOT 0xC0) :: u32) = code_point_3 a b c"
  using unat_or_field_eq [OF payload_bits(2) [of a] field_tail [of b c], where k = 12]
    mod_less_divisor [of 16 "unat a"] mod_less_divisor [of 64 "unat b"]
    mod_less_divisor [of 64 "unat c"]
  unfolding code_point_3_def by simp

lemma field_tail_3:
  "unat (push_bit 12 (ucast (b :: u8) AND NOT 0xC0) OR push_bit 6 (ucast (c :: u8) AND NOT 0xC0) OR
         (ucast (d :: u8) AND NOT 0xC0) :: u32)
     = unat b mod 64 * 4096 + (unat c mod 64 * 64 + unat d mod 64)"
  using unat_or_field_eq [OF payload_bits(4) [of b] field_tail [of c d], where k = 12]
    mod_less_divisor [of 64 "unat b"] mod_less_divisor [of 64 "unat c"]
    mod_less_divisor [of 64 "unat d"] by simp

lemma field_4:
  "unat (push_bit 18 (ucast a AND NOT 0xF8) OR push_bit 12 (ucast b AND NOT 0xC0) OR
         push_bit 6 (ucast c AND NOT 0xC0) OR (ucast d AND NOT 0xC0) :: u32)
     = code_point_4 a b c d"
  using unat_or_field_eq [OF payload_bits(3) [of a] field_tail_3 [of b c d], where k = 18]
    mod_less_divisor [of 8 "unat a"] mod_less_divisor [of 64 "unat b"]
    mod_less_divisor [of 64 "unat c"] mod_less_divisor [of 64 "unat d"]
  unfolding code_point_4_def by simp

lemmas check_unfold = mpack_utf8_check_impl.simps(2) [unfolded lead_tests Let_def
  word_less_nat_alt word_le_nat_alt field_2 field_3 field_4]

lemma check_ascii:
  "unat lead < 128 \<Longrightarrow> mpack_utf8_check_impl (lead # str) an \<longleftrightarrow>
     (an \<or> lead \<noteq> 0) \<and> mpack_utf8_check_impl str an"
  by (subst check_unfold) auto

lemma check_2:
  assumes "unat lead div 32 = 6"
  shows "mpack_utf8_check_impl (lead # str) an \<longleftrightarrow>
     (case str of b # rest \<Rightarrow> unat b div 64 = 2 \<and> 0x80 \<le> code_point_2 lead b \<and>
        mpack_utf8_check_impl rest an | _ \<Rightarrow> False)"
proof -
  have "\<not> unat lead \<le> 127" "lead \<noteq> 0" using assms by auto
  with assms show ?thesis
    by (subst check_unfold) (auto simp: not_less split: list.split)
qed

lemma check_3:
  assumes "unat lead div 16 = 14"
  shows "mpack_utf8_check_impl (lead # str) an \<longleftrightarrow>
     (case str of b # c # rest \<Rightarrow> unat b div 64 = 2 \<and> unat c div 64 = 2 \<and>
        0x800 \<le> code_point_3 lead b c \<and> utf8_scalar (code_point_3 lead b c) \<and>
        mpack_utf8_check_impl rest an | _ \<Rightarrow> False)"
proof -
  have "\<not> unat lead \<le> 127" "lead \<noteq> 0" "unat lead div 32 \<noteq> 6" using assms by auto
  moreover have "code_point_3 lead b c \<le> 0x10FFFF" for b c
    unfolding code_point_3_def by simp
  ultimately show ?thesis
    by (subst check_unfold) (auto simp: not_less assms utf8_scalar_def split: list.split)
qed

lemma check_4:
  assumes "unat lead div 8 = 30"
  shows "mpack_utf8_check_impl (lead # str) an \<longleftrightarrow>
     (case str of b # c # d # rest \<Rightarrow> unat b div 64 = 2 \<and> unat c div 64 = 2 \<and> unat d div 64 = 2 \<and>
        0x10000 \<le> code_point_4 lead b c d \<and> utf8_scalar (code_point_4 lead b c d) \<and>
        mpack_utf8_check_impl rest an | _ \<Rightarrow> False)"
proof -
  have "\<not> unat lead \<le> 127" "lead \<noteq> 0" "unat lead div 32 \<noteq> 6" "unat lead div 16 \<noteq> 14" using assms by auto
  then show ?thesis
    by (subst check_unfold) (auto simp: not_less assms utf8_scalar_def split: list.split)
qed

lemma check_bad:
  assumes "128 \<le> unat lead" "unat lead div 32 \<noteq> 6" "unat lead div 16 \<noteq> 14" "unat lead div 8 \<noteq> 30"
  shows "\<not> mpack_utf8_check_impl (lead # str) an"
  using assms by (subst check_unfold) auto

lemma unat_byte_of_nat: "n < 256 \<Longrightarrow> unat (of_nat n :: u8) = n"
  by (simp add: unat_of_nat)

lemma encode_shapes:
  "c < 0x80 \<Longrightarrow> utf8_encode c = [of_nat c]"
  "0x80 \<le> c \<Longrightarrow> c < 0x800 \<Longrightarrow> utf8_encode c = [of_nat (0xC0 + c div 64), of_nat (0x80 + c mod 64)]"
  "0x800 \<le> c \<Longrightarrow> c < 0x10000 \<Longrightarrow> utf8_encode c =
     [of_nat (0xE0 + c div 4096), of_nat (0x80 + c div 64 mod 64), of_nat (0x80 + c mod 64)]"
  "0x10000 \<le> c \<Longrightarrow> utf8_encode c =
     [of_nat (0xF0 + c div 262144), of_nat (0x80 + c div 4096 mod 64),
      of_nat (0x80 + c div 64 mod 64), of_nat (0x80 + c mod 64)]"
  by (simp_all add: utf8_encode_def)


lemma byte_fields:
  "k < 32 \<Longrightarrow> unat (of_nat (0xC0 + k) :: u8) = 0xC0 + k"
  "k < 16 \<Longrightarrow> unat (of_nat (0xE0 + k) :: u8) = 0xE0 + k"
  "k < 8 \<Longrightarrow> unat (of_nat (0xF0 + k) :: u8) = 0xF0 + k"
  "unat (of_nat (0x80 + n mod 64) :: u8) = 0x80 + n mod 64"
  by (rule unat_byte_of_nat, use mod_less_divisor [of 64 n] in simp)+

lemma field_mods:
  "k < 32 \<Longrightarrow> (0xC0 + k) mod 32 = (k :: nat)" "k < 16 \<Longrightarrow> (0xE0 + k) mod 16 = (k :: nat)"
  "k < 8 \<Longrightarrow> (0xF0 + k) mod 8 = (k :: nat)" "(0x80 + n mod 64) mod 64 = (n mod 64 :: nat)"
  by (simp_all add: mod_add_eq [symmetric])

lemma field_divs:
  "k < 32 \<Longrightarrow> (0xC0 + k) div 32 = (6 :: nat)" "k < 16 \<Longrightarrow> (0xE0 + k) div 16 = (14 :: nat)"
  "k < 8 \<Longrightarrow> (0xF0 + k) div 8 = (30 :: nat)" "(0x80 + n mod 64) div 64 = (2 :: nat)"
  by simp_all

lemma nat_digits:
  "(c :: nat) div 64 * 64 + c mod 64 = c"
  "c div 4096 * 4096 + (c div 64 mod 64 * 64 + c mod 64) = c"
  "c div 262144 * 262144 + (c div 4096 mod 64 * 4096 + (c div 64 mod 64 * 64 + c mod 64)) = c"
proof -
  show 1: "c div 64 * 64 + c mod 64 = c" for c :: nat by simp
  have d: "c div 4096 = c div 64 div 64" "c div 262144 = c div 4096 div 64" for c :: nat
    by (simp_all add: div_mult2_eq [symmetric])
  show 2: "c div 4096 * 4096 + (c div 64 mod 64 * 64 + c mod 64) = c"
    unfolding d using div_mult_mod_eq [of "c div 64" 64] div_mult_mod_eq [of c 64] by linarith
  show "c div 262144 * 262144 + (c div 4096 mod 64 * 4096 + (c div 64 mod 64 * 64 + c mod 64)) = c"
    unfolding d(2) using div_mult_mod_eq [of "c div 4096" 64] 2 by linarith
qed

lemmas encode_arith = byte_fields field_mods field_divs nat_digits
  code_point_2_def code_point_3_def code_point_4_def

text \<open>One scalar value in front is accepted, whatever follows.\<close>

lemma check_encode:
  assumes "utf8_scalar c"
  shows "mpack_utf8_check_impl (utf8_encode c @ str) an \<longleftrightarrow>
           (an \<or> c \<noteq> 0) \<and> mpack_utf8_check_impl str an"
proof -
  consider "c < 0x80" | "0x80 \<le> c" "c < 0x800" | "0x800 \<le> c" "c < 0x10000"
    | "0x10000 \<le> c" "c \<le> 0x10FFFF"
    using assms unfolding utf8_scalar_def by arith
  then show ?thesis
  proof cases
    case 1
    then have "unat (of_nat c :: u8) = c" by (simp add: unat_byte_of_nat)
    with 1 show ?thesis by (simp add: encode_shapes check_ascii word_unat_eq_iff)
  next
    case 2
    then have "c div 64 < 32" by simp
    then show ?thesis
      using 2 by (simp del: of_nat_add add: encode_shapes check_2 encode_arith)
  next
    case 3
    then have "c div 4096 < 16" by simp
    then show ?thesis
      using 3 assms by (simp del: of_nat_add add: encode_shapes check_3 encode_arith)
  next
    case 4
    then have "c div 262144 < 8" by simp
    then show ?thesis
      using 4 assms by (simp del: of_nat_add add: encode_shapes check_4 encode_arith)
  qed
qed


text \<open>Conversely, every group of bytes the check lets through is the encoding of its code point.\<close>

lemma byte_of_digits: "unat (b :: u8) = n \<Longrightarrow> of_nat n = b"
  by auto

lemma cont_byte:
  assumes "unat (b :: u8) div 64 = 2"
  shows "of_nat (0x80 + unat b mod 64) = b"
  by (rule byte_of_digits) (use assms div_mult_mod_eq [of "unat b" 64] in linarith)


lemma digit:
  "r < 64 \<Longrightarrow> (q * 64 + r) div 64 = (q :: nat)" "r < 64 \<Longrightarrow> (q * 64 + r) mod 64 = (r :: nat)"
  by simp_all

lemma div_4096_262144: "(c :: nat) div 4096 = c div 64 div 64" "c div 262144 = c div 64 div 64 div 64"
  by (simp_all add: div_mult2_eq [symmetric])

lemma code_point_digits:
  "code_point_2 a b = unat a mod 32 * 64 + unat b mod 64"
  "code_point_3 a b c = (unat a mod 16 * 64 + unat b mod 64) * 64 + unat c mod 64"
  "code_point_4 a b c d =
     ((unat a mod 8 * 64 + unat b mod 64) * 64 + unat c mod 64) * 64 + unat d mod 64"
  by (simp_all add: code_point_2_def code_point_3_def code_point_4_def)

lemma lead_byte:
  "unat (a :: u8) div 32 = 6 \<Longrightarrow> of_nat (0xC0 + unat a mod 32) = a"
  "unat a div 16 = 14 \<Longrightarrow> of_nat (0xE0 + unat a mod 16) = a"
  "unat a div 8 = 30 \<Longrightarrow> of_nat (0xF0 + unat a mod 8) = a"
  by (rule byte_of_digits,
      use div_mult_mod_eq [of "unat a" 32] div_mult_mod_eq [of "unat a" 16]
        div_mult_mod_eq [of "unat a" 8] in linarith)+

lemma code_point_bounds:
  "code_point_2 a b < 0x800" "code_point_3 a b c < 0x10000"
  using mod_less_divisor [of 32 "unat a"] mod_less_divisor [of 16 "unat a"]
    mod_less_divisor [of 64 "unat b"] mod_less_divisor [of 64 "unat c"]
  unfolding code_point_2_def code_point_3_def by linarith+

lemma encode_code_point:
  "unat a div 32 = 6 \<Longrightarrow> unat b div 64 = 2 \<Longrightarrow> 0x80 \<le> code_point_2 a b \<Longrightarrow>
     utf8_encode (code_point_2 a b) = [a, b]"
  "unat a div 16 = 14 \<Longrightarrow> unat b div 64 = 2 \<Longrightarrow> unat c div 64 = 2 \<Longrightarrow>
     0x800 \<le> code_point_3 a b c \<Longrightarrow> utf8_encode (code_point_3 a b c) = [a, b, c]"
  "unat a div 8 = 30 \<Longrightarrow> unat b div 64 = 2 \<Longrightarrow> unat c div 64 = 2 \<Longrightarrow> unat d div 64 = 2 \<Longrightarrow>
     0x10000 \<le> code_point_4 a b c d \<Longrightarrow> utf8_encode (code_point_4 a b c d) = [a, b, c, d]"
  using code_point_bounds(1) [of a b] code_point_bounds(2) [of a b c]
  by (simp_all only: encode_shapes)
    (simp_all only: code_point_digits div_4096_262144 digit mod_less_divisor zero_less_numeral
      cont_byte lead_byte)

lemma utf8_encodes_simps [simp]:
  "utf8_encodes [] = []" "utf8_encodes (c # cs) = utf8_encode c @ utf8_encodes cs"
  by (simp_all add: utf8_encodes_def)

text \<open>A non-empty string the check accepts starts with the encoding of a scalar value.\<close>

lemma check_decode:
  assumes "mpack_utf8_check_impl str an" "str \<noteq> []"
  obtains c rest where "utf8_scalar c" "an \<or> c \<noteq> 0" "str = utf8_encode c @ rest"
    "mpack_utf8_check_impl rest an" "length rest < length str"
proof -
  obtain a s where str: "str = a # s" using assms(2) by (cases str) auto
  consider "unat a < 128" | "unat a div 32 = 6" | "unat a div 16 = 14" | "unat a div 8 = 30"
    using check_bad [of a s an] assms str by (meson not_less)
  then show thesis
  proof cases
    case 1
    then have "utf8_encode (unat a) = [a]" "utf8_scalar (unat a)"
      by (simp_all add: encode_shapes utf8_scalar_def)
    with 1 show ?thesis
      using that [of "unat a" s] assms(1) str by (auto simp: check_ascii unat_eq_0)
  next
    case 2
    then obtain b rest where s: "s = b # rest" "unat b div 64 = 2" "0x80 \<le> code_point_2 a b"
        "mpack_utf8_check_impl rest an"
      using assms(1) unfolding str by (auto simp: check_2 split: list.splits)
    moreover have "utf8_scalar (code_point_2 a b)"
      using code_point_bounds(1) [of a b] by (simp add: utf8_scalar_def)
    ultimately show ?thesis
      using that [of "code_point_2 a b" rest] encode_code_point(1) [OF 2] str by simp
  next
    case 3
    then obtain b c rest where s: "s = b # c # rest" "unat b div 64 = 2" "unat c div 64 = 2"
        "0x800 \<le> code_point_3 a b c" "utf8_scalar (code_point_3 a b c)"
        "mpack_utf8_check_impl rest an"
      using assms(1) unfolding str by (auto simp: check_3 split: list.splits)
    then show ?thesis
      using that [of "code_point_3 a b c" rest] encode_code_point(2) [OF 3] str by simp
  next
    case 4
    then obtain b c d rest where s: "s = b # c # d # rest" "unat b div 64 = 2" "unat c div 64 = 2"
        "unat d div 64 = 2" "0x10000 \<le> code_point_4 a b c d" "utf8_scalar (code_point_4 a b c d)"
        "mpack_utf8_check_impl rest an"
      using assms(1) unfolding str by (auto simp: check_4 split: list.splits)
    then show ?thesis
      using that [of "code_point_4 a b c d" rest] encode_code_point(3) [OF 4] str by simp
  qed
qed

lemma check_encodes:
  "list_all utf8_scalar cs \<Longrightarrow> an \<or> 0 \<notin> set cs \<Longrightarrow> mpack_utf8_check_impl (utf8_encodes cs) an"
  by (induction cs) (auto simp: check_encode)

lemma check_decodes:
  "mpack_utf8_check_impl str an \<Longrightarrow>
     \<exists>cs. list_all utf8_scalar cs \<and> (an \<or> 0 \<notin> set cs) \<and> str = utf8_encodes cs"
proof (induction str rule: length_induct)
  case (1 str)
  show ?case
  proof (cases "str = []")
    case True
    then show ?thesis by (intro exI [of _ "[]"]) simp
  next
    case False
    with 1 obtain c rest where c: "utf8_scalar c" "an \<or> c \<noteq> 0" "str = utf8_encode c @ rest"
        "mpack_utf8_check_impl rest an" "length rest < length str"
      by (metis check_decode)
    with 1 obtain cs where "list_all utf8_scalar cs" "an \<or> 0 \<notin> set cs" "rest = utf8_encodes cs"
      by blast
    with c show ?thesis by (intro exI [of _ "c # cs"]) auto
  qed
qed

text \<open>
  The check accepts a byte string exactly when it is the encoding of a list of Unicode scalar
  values, without U+0000 unless the caller allows it: no overlong form, no surrogate, nothing
  above U+10FFFF, no truncated group.
\<close>

lemma mpack_utf8_check_impl_iff:
  "mpack_utf8_check_impl str an \<longleftrightarrow>
     (\<exists>cs. list_all utf8_scalar cs \<and> (an \<or> 0 \<notin> set cs) \<and> str = utf8_encodes cs)"
  using check_decodes [of str an] check_encodes [of _ an] by blast

lemma utf8_check_append:
  "mpack_utf8_check_impl a an \<Longrightarrow> mpack_utf8_check_impl b an \<Longrightarrow> mpack_utf8_check_impl (a @ b) an"
proof -
  assume "mpack_utf8_check_impl a an" and b: "mpack_utf8_check_impl b an"
  then obtain cs where "list_all utf8_scalar cs" "an \<or> 0 \<notin> set cs" "a = utf8_encodes cs"
    using mpack_utf8_check_impl_iff by blast
  then show ?thesis
    using b by (induction cs arbitrary: a) (auto simp: check_encode)
qed

lemma str_check_no_null_iff [simp]: "mpack_str_check_no_null str \<longleftrightarrow> 0 \<notin> set str"
  by (induction str) auto

subsection \<open>The property\<close>

text \<open>
  C22. \<open>mpack_utf8_check\<close> accepts a byte string exactly when it is the UTF-8 encoding of some list
  of Unicode scalar values, and \<open>mpack_utf8_check_no_null\<close> when none of them is U+0000; so overlong
  forms, surrogates, values above U+10FFFF and truncated groups are all rejected.
\<close>

theorem utf8_check_accepts_exactly_encodings:
  "(mpack_utf8_check str \<longleftrightarrow> (\<exists>cs. list_all utf8_scalar cs \<and> str = utf8_encodes cs)) \<and>
   (mpack_utf8_check_no_null str \<longleftrightarrow>
      (\<exists>cs. list_all utf8_scalar cs \<and> 0 \<notin> set cs \<and> str = utf8_encodes cs))"
  unfolding mpack_utf8_check_def mpack_utf8_check_no_null_def mpack_utf8_check_impl_iff by simp

end
