(* ===== verification/Mpack_Writer.thy ===== *)
theory Mpack_Writer
  imports Mpack_Tag Mpack_Utf8
begin

text \<open>
  The MPack writer (\<open>mpack.c\<close>, \<open>mpack.h\<close>) in the kernel configuration: a caller's buffer,
  a position in it and a sticky error. The flush callback is the parameter \<open>fl\<close> of every
  operation; the module sets none and runs with \<open>None\<close>. The error callback is never set, and write
  tracking is compiled out.
\<close>

subsection \<open>State\<close>

record mpack_writer =
  wbuffer :: bytes              \<comment> \<open>the memory from \<open>buffer\<close> to \<open>end\<close>\<close>
  wcurrent :: nat               \<comment> \<open>\<open>current - buffer\<close>\<close>
  werror :: mpack_error_t

text \<open>
  A writer may carry more fields, for its context. What a flush callback is given to write is either the
  first bytes of the writer's own buffer, which it can tell by the pointer, or bytes of the caller.
\<close>

type_synonym 's writer = "'s mpack_writer_scheme"

datatype flush_data = From_buffer nat | From_caller bytes

type_synonym 's flush_fn = "'s writer \<Rightarrow> flush_data \<Rightarrow> 's writer outcome"
type_synonym 's mpack_flush = "'s flush_fn option"
type_synonym 's write_op = "'s writer \<Rightarrow> 's writer outcome"

definition mpack_writer_init :: "bytes option \<Rightarrow> mpack_writer outcome" where
  "mpack_writer_init buffer =
     (case buffer of
        None \<Rightarrow> Fault Assert_failed
      | Some m \<Rightarrow> Ret \<lparr>wbuffer = m, wcurrent = 0, werror = mpack_ok\<rparr>)"

definition mpack_writer_init_error :: "mpack_error_t \<Rightarrow> mpack_writer" where
  "mpack_writer_init_error error = \<lparr>wbuffer = [], wcurrent = 0, werror = error\<rparr>"

definition mpack_writer_buffer_used :: "'s writer \<Rightarrow> nat" where
  "mpack_writer_buffer_used w = wcurrent w"

definition mpack_writer_buffer_left :: "'s writer \<Rightarrow> nat" where
  "mpack_writer_buffer_left w = length (wbuffer w) - wcurrent w"

definition mpack_writer_buffer_size :: "'s writer \<Rightarrow> nat" where
  "mpack_writer_buffer_size w = length (wbuffer w)"

definition mpack_writer_flag_error :: "mpack_error_t \<Rightarrow> 's writer \<Rightarrow> 's writer" where
  "mpack_writer_flag_error error w = (if werror w = mpack_ok then w\<lparr>werror := error\<rparr> else w)"

definition MPACK_WRITER_MINIMUM_BUFFER_SIZE :: nat where
  "MPACK_WRITER_MINIMUM_BUFFER_SIZE = 32"

text \<open>\<open>mpack_writer_set_flush\<close> either installs the callback or flags a bug and keeps the old one.\<close>

definition mpack_writer_set_flush ::
    "'s mpack_flush \<Rightarrow> 's mpack_flush \<Rightarrow> 's writer \<Rightarrow> 's mpack_flush \<times> 's writer" where
  "mpack_writer_set_flush old fl w =
     (if mpack_writer_buffer_size w < MPACK_WRITER_MINIMUM_BUFFER_SIZE
      then (old, mpack_writer_flag_error mpack_error_bug w) else (fl, w))"

subsection \<open>Flushing and raw bytes\<close>

definition mpack_writer_flush_unchecked ::
    "'s flush_fn \<Rightarrow> 's write_op" where
  "mpack_writer_flush_unchecked f w =
     f (w\<lparr>wcurrent := 0\<rparr>) (From_buffer (mpack_writer_buffer_used w))"

definition mpack_writer_flush_message :: "'s mpack_flush \<Rightarrow> 's write_op" where
  "mpack_writer_flush_message fl w =
     (if werror w \<noteq> mpack_ok then Ret w
      else case fl of
          None \<Rightarrow> Ret (mpack_writer_flag_error mpack_error_bug w)
        | Some f \<Rightarrow> if mpack_writer_buffer_used w > 0 then mpack_writer_flush_unchecked f w
                    else Ret w)"

definition mpack_writer_ensure ::
    "'s mpack_flush \<Rightarrow> nat \<Rightarrow> 's writer \<Rightarrow> (bool \<times> 's writer) outcome" where
  "mpack_writer_ensure fl count w =
     mpack_assert (count \<noteq> 0)
     (mpack_assert (count \<le> MPACK_WRITER_MINIMUM_BUFFER_SIZE)
     (mpack_assert (count > mpack_writer_buffer_left w)
       (if werror w \<noteq> mpack_ok then Ret (False, w)
        else case fl of
            None \<Rightarrow> Ret (False, mpack_writer_flag_error mpack_error_too_big w)
          | Some f \<Rightarrow>
              and_then (mpack_writer_flush_unchecked f w) (\<lambda>w.
                if werror w \<noteq> mpack_ok then Ret (False, w)
                else if mpack_writer_buffer_left w \<ge> count then Ret (True, w)
                else Ret (False, mpack_writer_flag_error mpack_error_io w)))))"

text \<open>\<open>mpack_memcpy\<close> to \<open>current\<close> and the advance of \<open>current\<close> by \<open>sz\<close>.\<close>

definition put_current :: "bytes \<Rightarrow> nat \<Rightarrow> 's write_op" where
  "put_current bs sz w =
     and_then (store_at (wbuffer w) (wcurrent w) bs) (\<lambda>m.
       Ret (w\<lparr>wbuffer := m, wcurrent := wcurrent w + sz\<rparr>))"

definition mpack_write_native_straddle :: "'s mpack_flush \<Rightarrow> bytes \<Rightarrow> 's write_op" where
  "mpack_write_native_straddle fl p w =
     (if werror w \<noteq> mpack_ok then Ret w
      else mpack_assert (length p > mpack_writer_buffer_left w)
        (case fl of
            None \<Rightarrow> Ret (mpack_writer_flag_error mpack_error_too_big w)
          | Some f \<Rightarrow>
              and_then (mpack_writer_flush_unchecked f w) (\<lambda>w.
                if werror w \<noteq> mpack_ok then Ret w
                else if length p > mpack_writer_buffer_left w then f w (From_caller p)
                else put_current p (length p) w)))"

definition mpack_write_native :: "'s mpack_flush \<Rightarrow> bytes \<Rightarrow> 's write_op" where
  "mpack_write_native fl p w =
     (if mpack_writer_buffer_left w < length p then mpack_write_native_straddle fl p w
      else put_current p (length p) w)"

text \<open>The result of the C function is the error of the writer afterwards.\<close>

definition mpack_writer_destroy :: "'s mpack_flush \<Rightarrow> 's write_op option \<Rightarrow> 's write_op" where
  "mpack_writer_destroy fl teardown w =
     and_then
       (case fl of
          None \<Rightarrow> Ret w
        | Some f \<Rightarrow>
            if werror w = mpack_ok \<and> mpack_writer_buffer_used w \<noteq> 0
            then f w (From_buffer (mpack_writer_buffer_used w)) else Ret w)
       (case teardown of None \<Rightarrow> Ret | Some td \<Rightarrow> td)"

text \<open>The macro \<open>MPACK_WRITE_ENCODED\<close>: room first, then the encoder writes in place.\<close>

definition write_encoded :: "'s mpack_flush \<Rightarrow> bytes outcome \<Rightarrow> nat \<Rightarrow> 's write_op" where
  "write_encoded fl enc sz w =
     and_then
       (if mpack_writer_buffer_left w \<ge> sz then Ret (True, w) else mpack_writer_ensure fl sz w)
       (\<lambda>(room, w).
          if room then and_then enc (\<lambda>bs. put_current bs sz w) else Ret w)"

subsection \<open>Encoders\<close>

text \<open>Each encoder returns the bytes it stores at \<open>p\<close>, after its assertion on the value.\<close>

definition mpack_encode_fixuint :: "u8 \<Rightarrow> bytes outcome" where
  "mpack_encode_fixuint value =
     mpack_assert (uint value \<le> 127) (Ret (mpack_store_u8 value))"

definition mpack_encode_u8 :: "u8 \<Rightarrow> bytes outcome" where
  "mpack_encode_u8 value =
     mpack_assert (uint value > 127) (Ret (mpack_store_u8 0xCC @ mpack_store_u8 value))"

definition mpack_encode_u16 :: "u16 \<Rightarrow> bytes outcome" where
  "mpack_encode_u16 value =
     mpack_assert (uint value > 255) (Ret (mpack_store_u8 0xCD @ mpack_store_u16 value))"

definition mpack_encode_u32 :: "u32 \<Rightarrow> bytes outcome" where
  "mpack_encode_u32 value =
     mpack_assert (uint value > 65535) (Ret (mpack_store_u8 0xCE @ mpack_store_u32 value))"

definition mpack_encode_u64 :: "u64 \<Rightarrow> bytes outcome" where
  "mpack_encode_u64 value =
     mpack_assert (uint value > 4294967295) (Ret (mpack_store_u8 0xCF @ mpack_store_u64 value))"

definition mpack_encode_fixint :: "u8 \<Rightarrow> bytes outcome" where
  "mpack_encode_fixint value =
     mpack_assert (sint value \<ge> - 32) (Ret (mpack_store_i8 value))"

definition mpack_encode_i8 :: "u8 \<Rightarrow> bytes outcome" where
  "mpack_encode_i8 value =
     mpack_assert (sint value < - 32) (Ret (mpack_store_u8 0xD0 @ mpack_store_i8 value))"

definition mpack_encode_i16 :: "u16 \<Rightarrow> bytes outcome" where
  "mpack_encode_i16 value =
     mpack_assert (sint value < - 128) (Ret (mpack_store_u8 0xD1 @ mpack_store_i16 value))"

definition mpack_encode_i32 :: "u32 \<Rightarrow> bytes outcome" where
  "mpack_encode_i32 value =
     mpack_assert (sint value < - 32768) (Ret (mpack_store_u8 0xD2 @ mpack_store_i32 value))"

definition mpack_encode_i64 :: "u64 \<Rightarrow> bytes outcome" where
  "mpack_encode_i64 value =
     mpack_assert (sint value < - 2147483648) (Ret (mpack_store_u8 0xD3 @ mpack_store_i64 value))"

definition mpack_encode_fixarray :: "u8 \<Rightarrow> bytes outcome" where
  "mpack_encode_fixarray count =
     mpack_assert (uint count \<le> 15) (Ret (mpack_store_u8 (0x90 OR count)))"

definition mpack_encode_array16 :: "u16 \<Rightarrow> bytes outcome" where
  "mpack_encode_array16 count =
     mpack_assert (uint count > 15) (Ret (mpack_store_u8 0xDC @ mpack_store_u16 count))"

definition mpack_encode_array32 :: "u32 \<Rightarrow> bytes outcome" where
  "mpack_encode_array32 count =
     mpack_assert (uint count > 65535) (Ret (mpack_store_u8 0xDD @ mpack_store_u32 count))"

definition mpack_encode_fixmap :: "u8 \<Rightarrow> bytes outcome" where
  "mpack_encode_fixmap count =
     mpack_assert (uint count \<le> 15) (Ret (mpack_store_u8 (0x80 OR count)))"

definition mpack_encode_map16 :: "u16 \<Rightarrow> bytes outcome" where
  "mpack_encode_map16 count =
     mpack_assert (uint count > 15) (Ret (mpack_store_u8 0xDE @ mpack_store_u16 count))"

definition mpack_encode_map32 :: "u32 \<Rightarrow> bytes outcome" where
  "mpack_encode_map32 count =
     mpack_assert (uint count > 65535) (Ret (mpack_store_u8 0xDF @ mpack_store_u32 count))"

definition mpack_encode_fixstr :: "u8 \<Rightarrow> bytes outcome" where
  "mpack_encode_fixstr count =
     mpack_assert (uint count \<le> 31) (Ret (mpack_store_u8 (0xA0 OR count)))"

definition mpack_encode_str8 :: "u8 \<Rightarrow> bytes outcome" where
  "mpack_encode_str8 count =
     mpack_assert (uint count > 31) (Ret (mpack_store_u8 0xD9 @ mpack_store_u8 count))"

definition mpack_encode_str16 :: "u16 \<Rightarrow> bytes outcome" where
  "mpack_encode_str16 count =
     mpack_assert (uint count > 31) (Ret (mpack_store_u8 0xDA @ mpack_store_u16 count))"

definition mpack_encode_str32 :: "u32 \<Rightarrow> bytes outcome" where
  "mpack_encode_str32 count =
     mpack_assert (uint count > 65535) (Ret (mpack_store_u8 0xDB @ mpack_store_u32 count))"

definition mpack_encode_bin8 :: "u8 \<Rightarrow> bytes outcome" where
  "mpack_encode_bin8 count =
     Ret (mpack_store_u8 0xC4 @ mpack_store_u8 count)"

definition mpack_encode_bin16 :: "u16 \<Rightarrow> bytes outcome" where
  "mpack_encode_bin16 count =
     mpack_assert (uint count > 255) (Ret (mpack_store_u8 0xC5 @ mpack_store_u16 count))"

definition mpack_encode_bin32 :: "u32 \<Rightarrow> bytes outcome" where
  "mpack_encode_bin32 count =
     mpack_assert (uint count > 65535) (Ret (mpack_store_u8 0xC6 @ mpack_store_u32 count))"

lemmas encode_defs =
  mpack_encode_fixuint_def mpack_encode_u8_def mpack_encode_u16_def
  mpack_encode_u32_def mpack_encode_u64_def mpack_encode_fixint_def
  mpack_encode_i8_def mpack_encode_i16_def mpack_encode_i32_def
  mpack_encode_i64_def mpack_encode_fixarray_def mpack_encode_array16_def
  mpack_encode_array32_def mpack_encode_fixmap_def mpack_encode_map16_def
  mpack_encode_map32_def mpack_encode_fixstr_def mpack_encode_str8_def
  mpack_encode_str16_def mpack_encode_str32_def mpack_encode_bin8_def
  mpack_encode_bin16_def mpack_encode_bin32_def

text \<open>The sizes of the tags (\<open>MPACK_TAG_SIZE_*\<close>).\<close>

abbreviation (input) MPACK_TAG_SIZE_FIXUINT :: nat where "MPACK_TAG_SIZE_FIXUINT \<equiv> 1"
abbreviation (input) MPACK_TAG_SIZE_U8 :: nat where "MPACK_TAG_SIZE_U8 \<equiv> 2"
abbreviation (input) MPACK_TAG_SIZE_U16 :: nat where "MPACK_TAG_SIZE_U16 \<equiv> 3"
abbreviation (input) MPACK_TAG_SIZE_U32 :: nat where "MPACK_TAG_SIZE_U32 \<equiv> 5"
abbreviation (input) MPACK_TAG_SIZE_U64 :: nat where "MPACK_TAG_SIZE_U64 \<equiv> 9"
abbreviation (input) MPACK_TAG_SIZE_FIXINT :: nat where "MPACK_TAG_SIZE_FIXINT \<equiv> 1"
abbreviation (input) MPACK_TAG_SIZE_I8 :: nat where "MPACK_TAG_SIZE_I8 \<equiv> 2"
abbreviation (input) MPACK_TAG_SIZE_I16 :: nat where "MPACK_TAG_SIZE_I16 \<equiv> 3"
abbreviation (input) MPACK_TAG_SIZE_I32 :: nat where "MPACK_TAG_SIZE_I32 \<equiv> 5"
abbreviation (input) MPACK_TAG_SIZE_I64 :: nat where "MPACK_TAG_SIZE_I64 \<equiv> 9"
abbreviation (input) MPACK_TAG_SIZE_FIXARRAY :: nat where "MPACK_TAG_SIZE_FIXARRAY \<equiv> 1"
abbreviation (input) MPACK_TAG_SIZE_ARRAY16 :: nat where "MPACK_TAG_SIZE_ARRAY16 \<equiv> 3"
abbreviation (input) MPACK_TAG_SIZE_ARRAY32 :: nat where "MPACK_TAG_SIZE_ARRAY32 \<equiv> 5"
abbreviation (input) MPACK_TAG_SIZE_FIXMAP :: nat where "MPACK_TAG_SIZE_FIXMAP \<equiv> 1"
abbreviation (input) MPACK_TAG_SIZE_MAP16 :: nat where "MPACK_TAG_SIZE_MAP16 \<equiv> 3"
abbreviation (input) MPACK_TAG_SIZE_MAP32 :: nat where "MPACK_TAG_SIZE_MAP32 \<equiv> 5"
abbreviation (input) MPACK_TAG_SIZE_FIXSTR :: nat where "MPACK_TAG_SIZE_FIXSTR \<equiv> 1"
abbreviation (input) MPACK_TAG_SIZE_STR8 :: nat where "MPACK_TAG_SIZE_STR8 \<equiv> 2"
abbreviation (input) MPACK_TAG_SIZE_STR16 :: nat where "MPACK_TAG_SIZE_STR16 \<equiv> 3"
abbreviation (input) MPACK_TAG_SIZE_STR32 :: nat where "MPACK_TAG_SIZE_STR32 \<equiv> 5"
abbreviation (input) MPACK_TAG_SIZE_BIN8 :: nat where "MPACK_TAG_SIZE_BIN8 \<equiv> 2"
abbreviation (input) MPACK_TAG_SIZE_BIN16 :: nat where "MPACK_TAG_SIZE_BIN16 \<equiv> 3"
abbreviation (input) MPACK_TAG_SIZE_BIN32 :: nat where "MPACK_TAG_SIZE_BIN32 \<equiv> 5"

subsection \<open>Single elements\<close>

definition mpack_write_byte_element :: "'s mpack_flush \<Rightarrow> u8 \<Rightarrow> 's write_op" where
  "mpack_write_byte_element fl value = write_encoded fl (Ret [value]) 1"

definition mpack_write_nil :: "'s mpack_flush \<Rightarrow> 's write_op" where
  "mpack_write_nil fl = mpack_write_byte_element fl 0xC0"

definition mpack_write_bool :: "'s mpack_flush \<Rightarrow> bool \<Rightarrow> 's write_op" where
  "mpack_write_bool fl value = mpack_write_byte_element fl (0xC2 OR (if value then 1 else 0))"

definition mpack_write_true :: "'s mpack_flush \<Rightarrow> 's write_op" where
  "mpack_write_true fl = mpack_write_byte_element fl 0xC3"

definition mpack_write_false :: "'s mpack_flush \<Rightarrow> 's write_op" where
  "mpack_write_false fl = mpack_write_byte_element fl 0xC2"

definition mpack_write_object_bytes :: "'s mpack_flush \<Rightarrow> bytes \<Rightarrow> 's write_op" where
  "mpack_write_object_bytes fl data = mpack_write_native fl data"

definition mpack_write_u8 :: "'s mpack_flush \<Rightarrow> u8 \<Rightarrow> 's write_op" where
  "mpack_write_u8 fl value =
     (if uint value \<le> 127 then
        write_encoded fl (mpack_encode_fixuint value) MPACK_TAG_SIZE_FIXUINT
      else write_encoded fl (mpack_encode_u8 value) MPACK_TAG_SIZE_U8)"

definition mpack_write_u16 :: "'s mpack_flush \<Rightarrow> u16 \<Rightarrow> 's write_op" where
  "mpack_write_u16 fl value =
     (if uint value \<le> 127 then
        write_encoded fl (mpack_encode_fixuint (ucast value)) MPACK_TAG_SIZE_FIXUINT
      else if uint value \<le> 255 then
         write_encoded fl (mpack_encode_u8 (ucast value)) MPACK_TAG_SIZE_U8
      else write_encoded fl (mpack_encode_u16 value) MPACK_TAG_SIZE_U16)"

definition mpack_write_u32 :: "'s mpack_flush \<Rightarrow> u32 \<Rightarrow> 's write_op" where
  "mpack_write_u32 fl value =
     (if uint value \<le> 127 then
        write_encoded fl (mpack_encode_fixuint (ucast value)) MPACK_TAG_SIZE_FIXUINT
      else if uint value \<le> 255 then
         write_encoded fl (mpack_encode_u8 (ucast value)) MPACK_TAG_SIZE_U8
      else if uint value \<le> 65535 then
         write_encoded fl (mpack_encode_u16 (ucast value)) MPACK_TAG_SIZE_U16
      else write_encoded fl (mpack_encode_u32 value) MPACK_TAG_SIZE_U32)"

definition mpack_write_u64 :: "'s mpack_flush \<Rightarrow> u64 \<Rightarrow> 's write_op" where
  "mpack_write_u64 fl value =
     (if uint value \<le> 127 then
        write_encoded fl (mpack_encode_fixuint (ucast value)) MPACK_TAG_SIZE_FIXUINT
      else if uint value \<le> 255 then
         write_encoded fl (mpack_encode_u8 (ucast value)) MPACK_TAG_SIZE_U8
      else if uint value \<le> 65535 then
         write_encoded fl (mpack_encode_u16 (ucast value)) MPACK_TAG_SIZE_U16
      else if uint value \<le> 4294967295 then
         write_encoded fl (mpack_encode_u32 (ucast value)) MPACK_TAG_SIZE_U32
      else write_encoded fl (mpack_encode_u64 value) MPACK_TAG_SIZE_U64)"

definition mpack_write_i8 :: "'s mpack_flush \<Rightarrow> u8 \<Rightarrow> 's write_op" where
  "mpack_write_i8 fl value =
     (if sint value \<ge> - 32 then
        write_encoded fl (mpack_encode_fixint value) MPACK_TAG_SIZE_FIXINT
      else write_encoded fl (mpack_encode_i8 value) MPACK_TAG_SIZE_I8)"

definition mpack_write_i16 :: "'s mpack_flush \<Rightarrow> u16 \<Rightarrow> 's write_op" where
  "mpack_write_i16 fl value =
     (if sint value \<ge> - 32 then
        (if sint value \<le> 127 then
           write_encoded fl (mpack_encode_fixint (ucast value)) MPACK_TAG_SIZE_FIXINT
         else if sint value \<le> 255 then
            write_encoded fl (mpack_encode_u8 (ucast value)) MPACK_TAG_SIZE_U8
         else write_encoded fl (mpack_encode_u16 value) MPACK_TAG_SIZE_U16)
      else if sint value \<ge> - 128 then
         write_encoded fl (mpack_encode_i8 (ucast value)) MPACK_TAG_SIZE_I8
      else write_encoded fl (mpack_encode_i16 value) MPACK_TAG_SIZE_I16)"

definition mpack_write_i32 :: "'s mpack_flush \<Rightarrow> u32 \<Rightarrow> 's write_op" where
  "mpack_write_i32 fl value =
     (if sint value \<ge> - 32 then
        (if sint value \<le> 127 then
           write_encoded fl (mpack_encode_fixint (ucast value)) MPACK_TAG_SIZE_FIXINT
         else if sint value \<le> 255 then
            write_encoded fl (mpack_encode_u8 (ucast value)) MPACK_TAG_SIZE_U8
         else if sint value \<le> 65535 then
            write_encoded fl (mpack_encode_u16 (ucast value)) MPACK_TAG_SIZE_U16
         else write_encoded fl (mpack_encode_u32 value) MPACK_TAG_SIZE_U32)
      else if sint value \<ge> - 128 then
         write_encoded fl (mpack_encode_i8 (ucast value)) MPACK_TAG_SIZE_I8
      else if sint value \<ge> - 32768 then
         write_encoded fl (mpack_encode_i16 (ucast value)) MPACK_TAG_SIZE_I16
      else write_encoded fl (mpack_encode_i32 value) MPACK_TAG_SIZE_I32)"

definition mpack_write_i64 :: "'s mpack_flush \<Rightarrow> u64 \<Rightarrow> 's write_op" where
  "mpack_write_i64 fl value =
     (if sint value \<ge> - 32 then
        (if sint value \<le> 127 then
           write_encoded fl (mpack_encode_fixint (ucast value)) MPACK_TAG_SIZE_FIXINT
         else if sint value \<le> 255 then
            write_encoded fl (mpack_encode_u8 (ucast value)) MPACK_TAG_SIZE_U8
         else if sint value \<le> 65535 then
            write_encoded fl (mpack_encode_u16 (ucast value)) MPACK_TAG_SIZE_U16
         else if sint value \<le> 4294967295 then
            write_encoded fl (mpack_encode_u32 (ucast value)) MPACK_TAG_SIZE_U32
         else write_encoded fl (mpack_encode_u64 value) MPACK_TAG_SIZE_U64)
      else if sint value \<ge> - 128 then
         write_encoded fl (mpack_encode_i8 (ucast value)) MPACK_TAG_SIZE_I8
      else if sint value \<ge> - 32768 then
         write_encoded fl (mpack_encode_i16 (ucast value)) MPACK_TAG_SIZE_I16
      else if sint value \<ge> - 2147483648 then
         write_encoded fl (mpack_encode_i32 (ucast value)) MPACK_TAG_SIZE_I32
      else write_encoded fl (mpack_encode_i64 value) MPACK_TAG_SIZE_I64)"

definition mpack_write_int :: "'s mpack_flush \<Rightarrow> u64 \<Rightarrow> 's write_op" where
  "mpack_write_int fl value = mpack_write_i64 fl value"

definition mpack_write_uint :: "'s mpack_flush \<Rightarrow> u64 \<Rightarrow> 's write_op" where
  "mpack_write_uint fl value = mpack_write_u64 fl value"

subsection \<open>Headers of compound elements\<close>

definition mpack_start_array :: "'s mpack_flush \<Rightarrow> u32 \<Rightarrow> 's write_op" where
  "mpack_start_array fl count =
     (if uint count \<le> 15 then
        write_encoded fl (mpack_encode_fixarray (ucast count)) MPACK_TAG_SIZE_FIXARRAY
      else if uint count \<le> 65535 then
         write_encoded fl (mpack_encode_array16 (ucast count)) MPACK_TAG_SIZE_ARRAY16
      else write_encoded fl (mpack_encode_array32 count) MPACK_TAG_SIZE_ARRAY32)"

definition mpack_start_map :: "'s mpack_flush \<Rightarrow> u32 \<Rightarrow> 's write_op" where
  "mpack_start_map fl count =
     (if uint count \<le> 15 then
        write_encoded fl (mpack_encode_fixmap (ucast count)) MPACK_TAG_SIZE_FIXMAP
      else if uint count \<le> 65535 then
         write_encoded fl (mpack_encode_map16 (ucast count)) MPACK_TAG_SIZE_MAP16
      else write_encoded fl (mpack_encode_map32 count) MPACK_TAG_SIZE_MAP32)"

definition mpack_start_str_notrack :: "'s mpack_flush \<Rightarrow> u32 \<Rightarrow> 's write_op" where
  "mpack_start_str_notrack fl count =
     (if uint count \<le> 31 then
        write_encoded fl (mpack_encode_fixstr (ucast count)) MPACK_TAG_SIZE_FIXSTR
      else if uint count \<le> 255 then
         write_encoded fl (mpack_encode_str8 (ucast count)) MPACK_TAG_SIZE_STR8
      else if uint count \<le> 65535 then
         write_encoded fl (mpack_encode_str16 (ucast count)) MPACK_TAG_SIZE_STR16
      else write_encoded fl (mpack_encode_str32 count) MPACK_TAG_SIZE_STR32)"

definition mpack_start_bin_notrack :: "'s mpack_flush \<Rightarrow> u32 \<Rightarrow> 's write_op" where
  "mpack_start_bin_notrack fl count =
     (if uint count \<le> 255 then
        write_encoded fl (mpack_encode_bin8 (ucast count)) MPACK_TAG_SIZE_BIN8
      else if uint count \<le> 65535 then
         write_encoded fl (mpack_encode_bin16 (ucast count)) MPACK_TAG_SIZE_BIN16
      else write_encoded fl (mpack_encode_bin32 count) MPACK_TAG_SIZE_BIN32)"

definition mpack_start_str :: "'s mpack_flush \<Rightarrow> u32 \<Rightarrow> 's write_op" where
  "mpack_start_str fl count = mpack_start_str_notrack fl count"

definition mpack_start_bin :: "'s mpack_flush \<Rightarrow> u32 \<Rightarrow> 's write_op" where
  "mpack_start_bin fl count = mpack_start_bin_notrack fl count"

definition mpack_write_tag :: "'s mpack_flush \<Rightarrow> mpack_tag \<Rightarrow> 's write_op" where
  "mpack_write_tag fl value =
     (case value of
        Tag_missing \<Rightarrow> (\<lambda>w. Ret (mpack_writer_flag_error mpack_error_bug w))
      | Tag_nil \<Rightarrow> mpack_write_nil fl
      | Tag_bool b \<Rightarrow> mpack_write_bool fl b
      | Tag_int i \<Rightarrow> mpack_write_int fl i
      | Tag_uint u \<Rightarrow> mpack_write_uint fl u
      | Tag_str l \<Rightarrow> mpack_start_str fl l
      | Tag_bin l \<Rightarrow> mpack_start_bin fl l
      | Tag_array n \<Rightarrow> mpack_start_array fl n
      | Tag_map n \<Rightarrow> mpack_start_map fl n)"

subsection \<open>Strings and binary data\<close>

text \<open>
  The data pointer is \<open>None\<close> for NULL. \<open>count\<close> is the \<open>uint32_t\<close> argument: reading \<open>count\<close> bytes
  from a shorter object faults.
\<close>

definition read_data :: "bytes option \<Rightarrow> nat \<Rightarrow> bytes outcome" where
  "read_data data n =
     (case data of None \<Rightarrow> Fault Assert_failed | Some m \<Rightarrow> load_at n (\<lambda>bs. bs) m 0)"

definition mpack_write_bytes :: "'s mpack_flush \<Rightarrow> bytes option \<Rightarrow> nat \<Rightarrow> 's write_op" where
  "mpack_write_bytes fl data count w =
     and_then (read_data data count) (\<lambda>bs. mpack_write_native fl bs w)"

definition mpack_write_str :: "'s mpack_flush \<Rightarrow> bytes option \<Rightarrow> u32 \<Rightarrow> 's write_op" where
  "mpack_write_str fl data count w =
     and_then (read_data data (unat count)) (\<lambda>bs.
       if uint count \<le> 31 then
         write_encoded fl
           (and_then (mpack_encode_fixstr (ucast count)) (\<lambda>tag. Ret (tag @ bs)))
           (unat count + MPACK_TAG_SIZE_FIXSTR) w
       else if uint count \<le> 255 then
         (if unat count + MPACK_TAG_SIZE_STR8 \<le> mpack_writer_buffer_left w then
            and_then (mpack_encode_str8 (ucast count)) (\<lambda>tag.
              put_current (tag @ bs) (unat count + MPACK_TAG_SIZE_STR8) w)
          else
            and_then (write_encoded fl (mpack_encode_str8 (ucast count)) MPACK_TAG_SIZE_STR8 w)
              (mpack_write_native fl bs))
       else if uint count \<le> 65535 then
         and_then (write_encoded fl (mpack_encode_str16 (ucast count)) MPACK_TAG_SIZE_STR16 w)
           (mpack_write_native fl bs)
       else
         and_then (write_encoded fl (mpack_encode_str32 count) MPACK_TAG_SIZE_STR32 w)
           (mpack_write_native fl bs))"

definition mpack_write_bin :: "'s mpack_flush \<Rightarrow> bytes option \<Rightarrow> u32 \<Rightarrow> 's write_op" where
  "mpack_write_bin fl data count w =
     mpack_assert (data \<noteq> None)
       (and_then (mpack_start_bin fl count w) (mpack_write_bytes fl data (unat count)))"

definition mpack_write_cstr :: "'s mpack_flush \<Rightarrow> bytes option \<Rightarrow> 's write_op" where
  "mpack_write_cstr fl cstr w =
     (case cstr of
        None \<Rightarrow> Fault Assert_failed
      | Some m \<Rightarrow>
          and_then (mpack_strlen m) (\<lambda>len.
            mpack_write_str fl cstr (of_nat len)
              (if len > 4294967295 then mpack_writer_flag_error mpack_error_invalid w else w)))"

definition mpack_write_cstr_or_nil :: "'s mpack_flush \<Rightarrow> bytes option \<Rightarrow> 's write_op" where
  "mpack_write_cstr_or_nil fl cstr =
     (if cstr \<noteq> None then mpack_write_cstr fl cstr else mpack_write_nil fl)"

definition mpack_write_utf8 :: "'s mpack_flush \<Rightarrow> bytes option \<Rightarrow> u32 \<Rightarrow> 's write_op" where
  "mpack_write_utf8 fl str len w =
     and_then (read_data str (unat len)) (\<lambda>bs.
       if \<not> mpack_utf8_check bs then Ret (mpack_writer_flag_error mpack_error_invalid w)
       else mpack_write_str fl str len w)"

definition mpack_write_utf8_cstr :: "'s mpack_flush \<Rightarrow> bytes option \<Rightarrow> 's write_op" where
  "mpack_write_utf8_cstr fl cstr w =
     (case cstr of
        None \<Rightarrow> Fault Assert_failed
      | Some m \<Rightarrow>
          and_then (mpack_strlen m) (\<lambda>len.
            if len > 4294967295 then Ret (mpack_writer_flag_error mpack_error_invalid w)
            else mpack_write_utf8 fl cstr (of_nat len) w))"

definition mpack_write_utf8_cstr_or_nil :: "'s mpack_flush \<Rightarrow> bytes option \<Rightarrow> 's write_op" where
  "mpack_write_utf8_cstr_or_nil fl cstr =
     (if cstr \<noteq> None then mpack_write_utf8_cstr fl cstr else mpack_write_nil fl)"

subsection \<open>Sequences of writes\<close>

fun write_all :: "'s write_op list \<Rightarrow> 's write_op" where
  "write_all [] w = Ret w"
| "write_all (oper # ops) w = and_then (oper w) (write_all ops)"

end
