(* ===== verification/Mpack_Tree.thy ===== *)
theory Mpack_Tree
  imports Mpack_Tag
begin

text \<open>
  The MPack tree parser (\<open>mpack.c\<close>) in the kernel configuration: no allocator, so the nodes come
  from a pool of the caller and the parse stack has a fixed depth. The model keeps the parser's
  state as the code does. Pointers into the pool are indices; the data pointer is an offset into
  the object it points into, whose length may differ from the length the caller claims.
\<close>

subsection \<open>State\<close>

text \<open>The union of a node; reading another member than the one stored is a fault.\<close>

datatype node_value =
    Val_none
  | Val_b bool
  | Val_i u64
  | Val_u u64
  | Val_offset nat
  | Val_children nat

record mpack_node_data =
  ntype :: mpack_type_t
  nlen :: u32
  nvalue :: node_value

datatype mpack_tree_parse_state = Not_started | In_progress | Parsed

record mpack_level =
  lchild :: nat
  lleft :: nat

record mpack_tree =
  terror :: mpack_error_t
  tread_fn :: bool                       \<comment> \<open>a read callback is set\<close>
  tdata_obj :: bytes                     \<comment> \<open>the object \<open>data\<close> points into\<close>
  tdata :: nat                           \<comment> \<open>the offset of \<open>data\<close> in it\<close>
  tdata_length :: nat
  tsize :: nat
  tnode_count :: nat
  tmax_size :: nat
  tmax_nodes :: nat
  tstate :: mpack_tree_parse_state
  tpossible_nodes_left :: nat
  tnodes :: nat
  tnodes_left :: nat
  tcurrent_node_reserved :: nat
  tlevel :: nat
  tstack :: "mpack_level list"
  troot :: nat
  tpool :: "mpack_node_data list option"
  tpool_count :: nat

type_synonym 'a tree_op = "mpack_tree \<Rightarrow> ('a \<times> mpack_tree) outcome"

definition MPACK_NODE_MAX_DEPTH_WITHOUT_MALLOC :: nat where
  "MPACK_NODE_MAX_DEPTH_WITHOUT_MALLOC = 32"

definition mpack_tree_flag_error :: "mpack_error_t \<Rightarrow> mpack_tree \<Rightarrow> mpack_tree" where
  "mpack_tree_flag_error error t = (if terror t = mpack_ok then t\<lparr>terror := error\<rparr> else t)"

text \<open>The zeroed tree; \<open>nil_node\<close> and \<open>missing_node\<close> are constants of the node functions.\<close>

definition mpack_tree_init_clear :: mpack_tree where
  "mpack_tree_init_clear =
     \<lparr>terror = mpack_ok, tread_fn = False, tdata_obj = [], tdata = 0, tdata_length = 0, tsize = 0,
      tnode_count = 0, tmax_size = SIZE_MAX, tmax_nodes = SIZE_MAX, tstate = Not_started,
      tpossible_nodes_left = 0, tnodes = 0, tnodes_left = 0, tcurrent_node_reserved = 0,
      tlevel = 0,
      tstack = replicate MPACK_NODE_MAX_DEPTH_WITHOUT_MALLOC \<lparr>lchild = 0, lleft = 0\<rparr>,
      troot = 0, tpool = None, tpool_count = 0\<rparr>"

definition mpack_tree_init_pool ::
    "bytes \<Rightarrow> nat \<Rightarrow> mpack_node_data list \<Rightarrow> nat \<Rightarrow> mpack_tree" where
  "mpack_tree_init_pool data len node_pool node_pool_count =
     (if node_pool_count = 0 then mpack_tree_flag_error mpack_error_bug mpack_tree_init_clear
      else mpack_tree_init_clear
        \<lparr>tdata_obj := data, tdata := 0, tdata_length := len,
         tpool := Some node_pool, tpool_count := node_pool_count\<rparr>)"

definition mpack_tree_init_error :: "mpack_error_t \<Rightarrow> mpack_tree" where
  "mpack_tree_init_error error = mpack_tree_init_clear\<lparr>terror := error\<rparr>"

definition mpack_tree_set_limits :: "nat \<Rightarrow> nat \<Rightarrow> mpack_tree \<Rightarrow> mpack_tree outcome" where
  "mpack_tree_set_limits max_message_size max_message_nodes t =
     mpack_assert (max_message_size > 0) (mpack_assert (max_message_nodes > 0)
       (Ret (t\<lparr>tmax_size := max_message_size, tmax_nodes := max_message_nodes\<rparr>)))"

definition mpack_tree_destroy :: "mpack_tree \<Rightarrow> mpack_error_t" where
  "mpack_tree_destroy t = terror t"

subsection \<open>Memory accesses of the parser\<close>

definition read_node :: "nat \<Rightarrow> mpack_tree \<Rightarrow> mpack_node_data outcome" where
  "read_node i t =
     (case tpool t of
        None \<Rightarrow> Fault Null_deref
      | Some p \<Rightarrow> if i < length p then Ret (p ! i) else Fault Oob_read)"

definition upd_node ::
    "nat \<Rightarrow> (mpack_node_data \<Rightarrow> mpack_node_data) \<Rightarrow> mpack_tree \<Rightarrow> mpack_tree outcome" where
  "upd_node i f t =
     (case tpool t of
        None \<Rightarrow> Fault Null_deref
      | Some p \<Rightarrow> if i < length p then Ret (t\<lparr>tpool := Some (p[i := f (p ! i)])\<rparr>)
                  else Fault Oob_write)"

definition read_level :: "nat \<Rightarrow> mpack_tree \<Rightarrow> mpack_level outcome" where
  "read_level k t = (if k < length (tstack t) then Ret (tstack t ! k) else Fault Oob_read)"

definition write_level :: "nat \<Rightarrow> mpack_level \<Rightarrow> mpack_tree \<Rightarrow> mpack_tree outcome" where
  "write_level k l t =
     (if k < length (tstack t) then Ret (t\<lparr>tstack := (tstack t)[k := l]\<rparr>) else Fault Oob_write)"

text \<open>A load at \<open>tree->data + tree->size + d\<close>.\<close>

definition load_data :: "nat \<Rightarrow> (bytes \<Rightarrow> 'a) \<Rightarrow> nat \<Rightarrow> mpack_tree \<Rightarrow> 'a outcome" where
  "load_data n f d t = load_at n f (tdata_obj t) (tdata t + tsize t + d)"

subsection \<open>Reserving bytes and nodes\<close>

definition mpack_tree_reserve_bytes :: "nat \<Rightarrow> bool tree_op" where
  "mpack_tree_reserve_bytes extra_bytes t =
     mpack_assert (tstate t = In_progress)
       (if size_add (tcurrent_node_reserved t) extra_bytes > SIZE_MAX
        then Ret (False, mpack_tree_flag_error mpack_error_invalid t)
        else
          let t = t\<lparr>tcurrent_node_reserved := size_add (tcurrent_node_reserved t) extra_bytes\<rparr>
          in Ret (tcurrent_node_reserved t \<le> tpossible_nodes_left t, t))"

definition mpack_tree_parser_stack_capacity :: "mpack_tree \<Rightarrow> nat" where
  "mpack_tree_parser_stack_capacity t = length (tstack t)"

definition mpack_tree_push_stack :: "nat \<Rightarrow> nat \<Rightarrow> bool tree_op" where
  "mpack_tree_push_stack first_child tot t =
     mpack_assert (tstate t = In_progress)
       (if tot = 0 then Ret (True, t)
        else if size_add (tlevel t) 1 = mpack_tree_parser_stack_capacity t
        then Ret (False, mpack_tree_flag_error mpack_error_too_big t)
        else
          let t = t\<lparr>tlevel := size_add (tlevel t) 1\<rparr>
          in and_then (write_level (tlevel t) \<lparr>lchild = first_child, lleft = tot\<rparr> t) (\<lambda>t.
               Ret (True, t)))"

definition mpack_tree_parse_children :: "nat \<Rightarrow> bool tree_op" where
  "mpack_tree_parse_children node t =
     mpack_assert (tstate t = In_progress)
       (and_then (read_node node t) (\<lambda>nd.
          if ntype nd = mpack_type_map \<and> unat (nlen nd) * 2 > SIZE_MAX
          then Ret (False, mpack_tree_flag_error mpack_error_too_big t)
          else
            let total = (if ntype nd = mpack_type_map then unat (nlen nd) * 2 else unat (nlen nd));
                t = t\<lparr>tnode_count := size_add (tnode_count t) total\<rparr>
            in if tnode_count t > tmax_nodes t
               then Ret (False, mpack_tree_flag_error mpack_error_too_big t)
               else
                 and_then (mpack_tree_reserve_bytes total t) (\<lambda>(enough, t).
                   if \<not> enough then Ret (False, t)
                   else if total \<le> tnodes_left t then
                     let first = tnodes t in
                     and_then (upd_node node (\<lambda>nd. nd\<lparr>nvalue := Val_children first\<rparr>) t) (\<lambda>t.
                       mpack_tree_push_stack first total
                         (t\<lparr>tnodes := size_add first total,
                            tnodes_left := size_sub (tnodes_left t) total\<rparr>))
                   else Ret (False, mpack_tree_flag_error mpack_error_too_big t))))"

definition mpack_tree_parse_bytes :: "nat \<Rightarrow> bool tree_op" where
  "mpack_tree_parse_bytes node t =
     and_then
       (upd_node node
          (\<lambda>nd. nd\<lparr>nvalue :=
             Val_offset (size_add (size_add (tsize t) (tcurrent_node_reserved t)) 1)\<rparr>) t) (\<lambda>t.
     and_then (read_node node t) (\<lambda>nd.
       mpack_tree_reserve_bytes (unat (nlen nd)) t))"

subsection \<open>Parsing one node\<close>

definition set_type :: "mpack_type_t \<Rightarrow> mpack_node_data \<Rightarrow> mpack_node_data" where
  "set_type ty nd = nd\<lparr>ntype := ty\<rparr>"

definition set_len :: "u32 \<Rightarrow> mpack_node_data \<Rightarrow> mpack_node_data" where
  "set_len l nd = nd\<lparr>nlen := l\<rparr>"

definition set_value :: "node_value \<Rightarrow> mpack_node_data \<Rightarrow> mpack_node_data" where
  "set_value v nd = nd\<lparr>nvalue := v\<rparr>"

text \<open>\<open>if (!mpack_tree_reserve_bytes(tree, n)) return false;\<close> and the load behind the type byte.\<close>

definition reserve_and_load ::
    "nat \<Rightarrow> (bytes \<Rightarrow> 'a) \<Rightarrow> ('a \<Rightarrow> bool tree_op) \<Rightarrow> bool tree_op" where
  "reserve_and_load n f k t =
     and_then (mpack_tree_reserve_bytes n t) (\<lambda>(enough, t).
       if \<not> enough then Ret (False, t)
       else and_then (load_data n f 1 t) (\<lambda>v. k v t))"

definition done_after :: "mpack_tree outcome \<Rightarrow> (bool \<times> mpack_tree) outcome" where
  "done_after m = and_then m (\<lambda>t. Ret (True, t))"

text \<open>The types whose value or length is in the type byte.\<close>

definition parse_fix :: "u8 \<Rightarrow> nat \<Rightarrow> bool tree_op" where
  "parse_fix ty node t =
     (if ty \<le> 0x7F then
        done_after (upd_node node (set_value (Val_u (ucast ty)) \<circ> set_type mpack_type_uint) t)
      else if ty \<ge> 0xE0 then
        done_after (upd_node node (set_value (Val_i (scast ty)) \<circ> set_type mpack_type_int) t)
      else if ty \<le> 0x8F then
        and_then (upd_node node (set_len (ucast ty AND NOT 0xF0) \<circ> set_type mpack_type_map) t)
          (mpack_tree_parse_children node)
      else if ty \<le> 0x9F then
        and_then (upd_node node (set_len (ucast ty AND NOT 0xF0) \<circ> set_type mpack_type_array) t)
          (mpack_tree_parse_children node)
      else
        and_then (upd_node node (set_len (ucast ty AND NOT 0xE0) \<circ> set_type mpack_type_str) t)
          (mpack_tree_parse_bytes node))"

definition parse_bin :: "nat \<Rightarrow> (bytes \<Rightarrow> u32) \<Rightarrow> nat \<Rightarrow> bool tree_op" where
  "parse_bin n f node t =
     and_then (upd_node node (set_type mpack_type_bin) t)
       (reserve_and_load n f (\<lambda>len t.
          and_then (upd_node node (set_len len) t) (mpack_tree_parse_bytes node)))"

definition parse_nil_bool_bin :: "u8 \<Rightarrow> nat \<Rightarrow> bool tree_op" where
  "parse_nil_bool_bin ty node t =
     (if ty = 0xC0 then done_after (upd_node node (set_type mpack_type_nil) t)
      else if ty = 0xC2 \<or> ty = 0xC3 then
        done_after (upd_node node (set_value (Val_b (ty AND 1 \<noteq> 0)) \<circ> set_type mpack_type_bool) t)
      else if ty = 0xC4 then parse_bin 1 (ucast \<circ> mpack_load_u8) node t
      else if ty = 0xC5 then parse_bin 2 (ucast \<circ> mpack_load_u16) node t
      else parse_bin 4 mpack_load_u32 node t)"

definition parse_number ::
    "mpack_type_t \<Rightarrow> nat \<Rightarrow> (bytes \<Rightarrow> node_value) \<Rightarrow> nat \<Rightarrow> bool tree_op" where
  "parse_number ty n f node t =
     and_then (upd_node node (set_type ty) t)
       (reserve_and_load n f (\<lambda>v t. done_after (upd_node node (set_value v) t)))"

definition parse_uint_int :: "u8 \<Rightarrow> nat \<Rightarrow> bool tree_op" where
  "parse_uint_int ty node t =
     (if ty = 0xCC then parse_number mpack_type_uint 1 (Val_u \<circ> ucast \<circ> mpack_load_u8) node t
      else if ty = 0xCD then parse_number mpack_type_uint 2 (Val_u \<circ> ucast \<circ> mpack_load_u16) node t
      else if ty = 0xCE then parse_number mpack_type_uint 4 (Val_u \<circ> ucast \<circ> mpack_load_u32) node t
      else if ty = 0xCF then parse_number mpack_type_uint 8 (Val_u \<circ> mpack_load_u64) node t
      else if ty = 0xD0 then parse_number mpack_type_int 1 (Val_i \<circ> scast \<circ> mpack_load_i8) node t
      else if ty = 0xD1 then parse_number mpack_type_int 2 (Val_i \<circ> scast \<circ> mpack_load_i16) node t
      else if ty = 0xD2 then parse_number mpack_type_int 4 (Val_i \<circ> scast \<circ> mpack_load_i32) node t
      else parse_number mpack_type_int 8 (Val_i \<circ> mpack_load_i64) node t)"

text \<open>Strings, arrays and maps with a length field set the length first, then the type.\<close>

definition parse_sized ::
    "mpack_type_t \<Rightarrow> nat \<Rightarrow> (bytes \<Rightarrow> u32) \<Rightarrow> (nat \<Rightarrow> bool tree_op) \<Rightarrow> nat \<Rightarrow> bool tree_op" where
  "parse_sized ty n f k node t =
     reserve_and_load n f (\<lambda>len t.
       and_then (upd_node node (set_type ty \<circ> set_len len) t) (k node)) t"

definition parse_str_tags :: "u8 \<Rightarrow> nat \<Rightarrow> bool tree_op" where
  "parse_str_tags ty node t =
     (if ty = 0xD9 then
        parse_sized mpack_type_str 1 (ucast \<circ> mpack_load_u8) mpack_tree_parse_bytes node t
      else if ty = 0xDA then
        parse_sized mpack_type_str 2 (ucast \<circ> mpack_load_u16) mpack_tree_parse_bytes node t
      else parse_sized mpack_type_str 4 mpack_load_u32 mpack_tree_parse_bytes node t)"

definition parse_container_tags :: "u8 \<Rightarrow> nat \<Rightarrow> bool tree_op" where
  "parse_container_tags ty node t =
     (if ty = 0xDC then
        parse_sized mpack_type_array 2 (ucast \<circ> mpack_load_u16) mpack_tree_parse_children node t
      else if ty = 0xDD then
        parse_sized mpack_type_array 4 mpack_load_u32 mpack_tree_parse_children node t
      else if ty = 0xDE then
        parse_sized mpack_type_map 2 (ucast \<circ> mpack_load_u16) mpack_tree_parse_children node t
      else parse_sized mpack_type_map 4 mpack_load_u32 mpack_tree_parse_children node t)"

text \<open>
  What the \<open>switch\<close> leaves: the reserved byte, the extension types, and the two float types,
  whose cases are compiled out and which therefore reach \<open>mpack_assert(0)\<close> at its end.
\<close>

definition parse_other :: "u8 \<Rightarrow> bool tree_op" where
  "parse_other ty t =
     (if ty = 0xC1 then Ret (False, mpack_tree_flag_error mpack_error_invalid t)
      else if 0xC7 \<le> ty \<and> ty \<le> 0xC9 \<or> 0xD4 \<le> ty \<and> ty \<le> 0xD8
      then Ret (False, mpack_tree_flag_error mpack_error_unsupported t)
      else mpack_assert False (Ret (False, t)))"

definition mpack_tree_parse_node_contents :: "nat \<Rightarrow> bool tree_op" where
  "mpack_tree_parse_node_contents node t =
     mpack_assert (tstate t = In_progress) (mpack_assert (tdata_length t > tsize t)
       (and_then (load_data 1 mpack_load_u8 0 t) (\<lambda>ty.
          let t = t\<lparr>tcurrent_node_reserved := 0\<rparr> in
          if ty \<le> 0xBF \<or> 0xE0 \<le> ty then parse_fix ty node t
          else if ty = 0xC0 \<or> 0xC2 \<le> ty \<and> ty \<le> 0xC6 then parse_nil_bool_bin ty node t
          else if 0xCC \<le> ty \<and> ty \<le> 0xD3 then parse_uint_int ty node t
          else if 0xD9 \<le> ty \<and> ty \<le> 0xDB then parse_str_tags ty node t
          else if 0xDC \<le> ty then parse_container_tags ty node t
          else parse_other ty t)))"

definition mpack_tree_parse_node :: "nat \<Rightarrow> bool tree_op" where
  "mpack_tree_parse_node node t =
     and_then (mpack_tree_parse_node_contents node t) (\<lambda>(parsed, t).
       if \<not> parsed then Ret (False, t)
       else and_then (read_node node t) (\<lambda>nd.
         let t = t\<lparr>tpossible_nodes_left :=
                     size_sub (tpossible_nodes_left t) (tcurrent_node_reserved t)\<rparr>;
             node_size = size_add (tcurrent_node_reserved t) 1;
             node_size = (if ntype nd = mpack_type_array then size_sub node_size (unat (nlen nd))
                          else if ntype nd = mpack_type_map
                          then size_sub node_size (unat (nlen nd * 2)) else node_size)
         in Ret (True, t\<lparr>tsize := size_add (tsize t) node_size\<rparr>)))"

subsection \<open>The parse loop\<close>

text \<open>\<open>while (stack[level].left == 0) { if (level == 0) return true; --level; }\<close>\<close>

fun pop_levels :: "nat \<Rightarrow> bool tree_op" where
  "pop_levels lvl t =
     and_then (read_level lvl t) (\<lambda>l.
       if lleft l \<noteq> 0 then Ret (False, t\<lparr>tlevel := lvl\<rparr>)
       else case lvl of 0 \<Rightarrow> Ret (True, t\<lparr>tlevel := 0\<rparr>) | Suc k \<Rightarrow> pop_levels k t)"

declare pop_levels.simps [simp del]

text \<open>One round of the outer loop: the first component tells whether the stack is empty.\<close>

datatype round_result = Stop bool | Again

definition parse_round :: "round_result tree_op" where
  "parse_round t =
     and_then (read_level (tlevel t) t) (\<lambda>top.
       let lvl = tlevel t in
       and_then (mpack_tree_parse_node (lchild top) t) (\<lambda>(parsed, t).
         if \<not> parsed then Ret (Stop False, t)
         else
           and_then (read_level lvl t) (\<lambda>l.
           and_then
             (write_level lvl \<lparr>lchild = size_add (lchild l) 1, lleft = size_sub (lleft l) 1\<rparr> t) (\<lambda>t.
           mpack_assert (terror t = mpack_ok)
             (and_then (pop_levels (tlevel t) t) (\<lambda>(empty, t).
                Ret (if empty then Stop True else Again, t)))))))"

text \<open>The fuel bounds the number of rounds; each round consumes a byte of the data.\<close>

fun parse_loop :: "nat \<Rightarrow> bool tree_op" where
  "parse_loop 0 t = Fault Diverged"
| "parse_loop (Suc n) t =
     and_then (parse_round t) (\<lambda>(r, t).
       case r of Stop b \<Rightarrow> Ret (b, t) | Again \<Rightarrow> parse_loop n t)"

definition mpack_tree_continue_parsing :: "bool tree_op" where
  "mpack_tree_continue_parsing t =
     (if terror t \<noteq> mpack_ok then Ret (False, t)
      else mpack_assert (tstate t = In_progress) (parse_loop (tdata_length t + 1) t))"

definition mpack_tree_parse_start :: "bool tree_op" where
  "mpack_tree_parse_start t =
     (if terror t \<noteq> mpack_ok then Ret (False, t)
      else mpack_assert (tstate t \<noteq> In_progress)
        (let t = t\<lparr>tstate := In_progress, tcurrent_node_reserved := 0\<rparr>;
             t = (if tsize t > 0
                  then t\<lparr>tdata := tdata t + tsize t,
                         tdata_length := size_sub (tdata_length t) (tsize t),
                         tsize := 0, tnode_count := 0\<rparr> else t);
             t = t\<lparr>tpossible_nodes_left := tdata_length t\<rparr>
         in and_then (mpack_tree_reserve_bytes 1 t) (\<lambda>(enough, t).
              if \<not> enough then Ret (False, t\<lparr>tstate := Not_started\<rparr>)
              else
                let t = t\<lparr>tpossible_nodes_left := size_sub (tpossible_nodes_left t) 1,
                          tnode_count := 1\<rparr>
                in mpack_assert (tpool t \<noteq> None)
                     (let t = t\<lparr>tnodes := 1, tnodes_left := size_sub (tpool_count t) 1,
                                troot := 0, tlevel := 0\<rparr>
                      in done_after (write_level 0 \<lparr>lchild = 0, lleft = 1\<rparr> t)))))"

definition parse_failure :: "mpack_tree \<Rightarrow> mpack_error_t" where
  "parse_failure t = (if tread_fn t then mpack_error_io else mpack_error_invalid)"

definition mpack_tree_parse :: "mpack_tree \<Rightarrow> mpack_tree outcome" where
  "mpack_tree_parse t =
     (if terror t \<noteq> mpack_ok then Ret t
      else
        and_then (if tstate t \<noteq> In_progress then mpack_tree_parse_start t else Ret (True, t))
          (\<lambda>(started, t).
             if \<not> started then Ret (mpack_tree_flag_error (parse_failure t) t)
             else
               and_then (mpack_tree_continue_parsing t) (\<lambda>(parsed, t).
                 if \<not> parsed then
                   (if terror t \<noteq> mpack_ok then Ret t
                    else Ret (mpack_tree_flag_error (parse_failure t) t))
                 else mpack_assert (terror t = mpack_ok) (mpack_assert (tlevel t = 0)
                        (Ret (t\<lparr>tstate := Parsed\<rparr>))))))"

definition mpack_tree_try_parse :: "bool tree_op" where
  "mpack_tree_try_parse t =
     (if terror t \<noteq> mpack_ok then Ret (False, t)
      else
        and_then (if tstate t \<noteq> In_progress then mpack_tree_parse_start t else Ret (True, t))
          (\<lambda>(started, t).
             if \<not> started then Ret (False, t)
             else
               and_then (mpack_tree_continue_parsing t) (\<lambda>(parsed, t).
                 if \<not> parsed then Ret (False, t)
                 else mpack_assert (terror t = mpack_ok) (mpack_assert (tlevel t = 0)
                        (Ret (True, t\<lparr>tstate := Parsed\<rparr>))))))"

text \<open>A node handle points into the pool or to one of the two constant nodes of the tree.\<close>

datatype mpack_node = Pool_node nat | Nil_node | Missing_node

definition mpack_tree_root :: "mpack_tree \<Rightarrow> mpack_node \<times> mpack_tree" where
  "mpack_tree_root t =
     (if terror t \<noteq> mpack_ok then (Nil_node, t)
      else if tstate t \<noteq> Parsed then (Nil_node, mpack_tree_flag_error mpack_error_bug t)
      else (Pool_node (troot t), t))"

end
