(* ===== verification/Mpack_Node.thy ===== *)
theory Mpack_Node
  imports Mpack_Tree Mpack_Utf8
begin

text \<open>
  The node API of MPack (\<open>mpack.c\<close>): typed access to the nodes of a parsed tree. Every function
  first looks at the error of the tree; in an error state it returns its default and does nothing.
  A pointer into the data is an offset into the object the tree was given.
\<close>

subsection \<open>Access to a node\<close>

definition nil_node_data :: mpack_node_data where
  "nil_node_data = \<lparr>ntype = mpack_type_nil, nlen = 0, nvalue = Val_none\<rparr>"

definition missing_node_data :: mpack_node_data where
  "missing_node_data = \<lparr>ntype = mpack_type_missing, nlen = 0, nvalue = Val_none\<rparr>"

definition node_data :: "mpack_node \<Rightarrow> mpack_tree \<Rightarrow> mpack_node_data outcome" where
  "node_data node t =
     (case node of
        Pool_node i \<Rightarrow> read_node i t
      | Nil_node \<Rightarrow> Ret nil_node_data
      | Missing_node \<Rightarrow> Ret missing_node_data)"

text \<open>The members of the union.\<close>

definition value_b :: "mpack_node_data \<Rightarrow> bool outcome" where
  "value_b nd = (case nvalue nd of Val_b b \<Rightarrow> Ret b | _ \<Rightarrow> Fault Uninit_read)"

definition value_i :: "mpack_node_data \<Rightarrow> u64 outcome" where
  "value_i nd = (case nvalue nd of Val_i i \<Rightarrow> Ret i | _ \<Rightarrow> Fault Uninit_read)"

definition value_u :: "mpack_node_data \<Rightarrow> u64 outcome" where
  "value_u nd = (case nvalue nd of Val_u u \<Rightarrow> Ret u | _ \<Rightarrow> Fault Uninit_read)"

definition value_offset :: "mpack_node_data \<Rightarrow> nat outcome" where
  "value_offset nd = (case nvalue nd of Val_offset off \<Rightarrow> Ret off | _ \<Rightarrow> Fault Uninit_read)"

definition value_children :: "mpack_node_data \<Rightarrow> nat outcome" where
  "value_children nd = (case nvalue nd of Val_children c \<Rightarrow> Ret c | _ \<Rightarrow> Fault Uninit_read)"

lemmas value_defs = value_b_def value_i_def value_u_def value_offset_def value_children_def

definition mpack_node_child :: "mpack_node_data \<Rightarrow> nat \<Rightarrow> nat outcome" where
  "mpack_node_child nd child = and_then (value_children nd) (\<lambda>c. Ret (c + child))"

definition mpack_node_flag_error :: "'a \<Rightarrow> mpack_error_t \<Rightarrow> 'a tree_op" where
  "mpack_node_flag_error result error t = Ret (result, mpack_tree_flag_error error t)"

text \<open>\<open>if (mpack_node_error(node) != mpack_ok) return dflt;\<close> and the use of \<open>node.data\<close>.\<close>

definition with_node ::
    "'a \<Rightarrow> (mpack_node_data \<Rightarrow> 'a tree_op) \<Rightarrow> mpack_node \<Rightarrow> 'a tree_op" where
  "with_node dflt k node t =
     (if terror t \<noteq> mpack_ok then Ret (dflt, t) else and_then (node_data node t) (\<lambda>nd. k nd t))"

definition mpack_node_data_unchecked :: "mpack_node_data \<Rightarrow> mpack_tree \<Rightarrow> nat outcome" where
  "mpack_node_data_unchecked nd t =
     mpack_assert (terror t = mpack_ok)
       (mpack_assert (ntype nd = mpack_type_str \<or> ntype nd = mpack_type_bin)
         (and_then (value_offset nd) (\<lambda>off. Ret (tdata t + off))))"

definition node_bytes :: "mpack_node_data \<Rightarrow> mpack_tree \<Rightarrow> bytes outcome" where
  "node_bytes nd t =
     and_then (mpack_node_data_unchecked nd t) (\<lambda>p.
       load_at (unat (nlen nd)) (\<lambda>bs. bs) (tdata_obj t) p)"

subsection \<open>Types and scalars\<close>

definition mpack_node_type :: "mpack_node \<Rightarrow> mpack_type_t tree_op" where
  "mpack_node_type = with_node mpack_type_nil (\<lambda>nd t. Ret (ntype nd, t))"

definition mpack_node_is_nil :: "mpack_node \<Rightarrow> bool tree_op" where
  "mpack_node_is_nil = with_node True (\<lambda>nd t. Ret (ntype nd = mpack_type_nil, t))"

definition mpack_node_is_missing :: "mpack_node \<Rightarrow> bool tree_op" where
  "mpack_node_is_missing = with_node False (\<lambda>nd t. Ret (ntype nd = mpack_type_missing, t))"

definition mpack_node_nil :: "mpack_node \<Rightarrow> unit tree_op" where
  "mpack_node_nil = with_node () (\<lambda>nd.
     if ntype nd \<noteq> mpack_type_nil then mpack_node_flag_error () mpack_error_type
     else (\<lambda>t. Ret ((), t)))"

definition mpack_node_missing :: "mpack_node \<Rightarrow> unit tree_op" where
  "mpack_node_missing = with_node () (\<lambda>nd.
     if ntype nd \<noteq> mpack_type_missing then mpack_node_flag_error () mpack_error_type
     else (\<lambda>t. Ret ((), t)))"

definition mpack_node_bool :: "mpack_node \<Rightarrow> bool tree_op" where
  "mpack_node_bool = with_node False (\<lambda>nd t.
     if ntype nd = mpack_type_bool then and_then (value_b nd) (\<lambda>b. Ret (b, t))
     else mpack_node_flag_error False mpack_error_type t)"

definition mpack_node_true :: "mpack_node \<Rightarrow> unit tree_op" where
  "mpack_node_true node t =
     and_then (mpack_node_bool node t) (\<lambda>(b, t).
       if b \<noteq> True then mpack_node_flag_error () mpack_error_type t else Ret ((), t))"

definition mpack_node_false :: "mpack_node \<Rightarrow> unit tree_op" where
  "mpack_node_false node t =
     and_then (mpack_node_bool node t) (\<lambda>(b, t).
       if b \<noteq> False then mpack_node_flag_error () mpack_error_type t else Ret ((), t))"

text \<open>
  The integer readers differ in the range they accept: \<open>umax\<close> for a node of type uint, and
  \<open>imin\<close> to \<open>imax\<close> for a node of type int; a value in range is cast to the result type.
\<close>

definition node_number :: "int \<Rightarrow> int \<Rightarrow> int \<Rightarrow> mpack_node \<Rightarrow> 'a::len word tree_op" where
  "node_number umax imin imax = with_node 0 (\<lambda>nd t.
     if ntype nd = mpack_type_uint then
       and_then (value_u nd) (\<lambda>u.
         if uint u \<le> umax then Ret (ucast u, t) else mpack_node_flag_error 0 mpack_error_type t)
     else if ntype nd = mpack_type_int then
       and_then (value_i nd) (\<lambda>i.
         if sint i \<ge> imin \<and> sint i \<le> imax then Ret (ucast i, t)
         else mpack_node_flag_error 0 mpack_error_type t)
     else mpack_node_flag_error 0 mpack_error_type t)"

definition mpack_node_u8 :: "mpack_node \<Rightarrow> u8 tree_op" where
  "mpack_node_u8 = node_number 255 0 255"

definition mpack_node_i8 :: "mpack_node \<Rightarrow> u8 tree_op" where
  "mpack_node_i8 = node_number 127 (- 128) 127"

definition mpack_node_u16 :: "mpack_node \<Rightarrow> u16 tree_op" where
  "mpack_node_u16 = node_number 65535 0 65535"

definition mpack_node_i16 :: "mpack_node \<Rightarrow> u16 tree_op" where
  "mpack_node_i16 = node_number 32767 (- 32768) 32767"

definition mpack_node_u32 :: "mpack_node \<Rightarrow> u32 tree_op" where
  "mpack_node_u32 = node_number 4294967295 0 4294967295"

definition mpack_node_i32 :: "mpack_node \<Rightarrow> u32 tree_op" where
  "mpack_node_i32 = node_number 2147483647 (- 2147483648) 2147483647"

definition mpack_node_u64 :: "mpack_node \<Rightarrow> u64 tree_op" where
  "mpack_node_u64 = node_number 18446744073709551615 0 9223372036854775807"

definition mpack_node_i64 :: "mpack_node \<Rightarrow> u64 tree_op" where
  "mpack_node_i64 = node_number 9223372036854775807 (- 9223372036854775808) 9223372036854775807"

definition mpack_node_uint :: "mpack_node \<Rightarrow> u32 tree_op" where
  "mpack_node_uint = mpack_node_u32"

definition mpack_node_int :: "mpack_node \<Rightarrow> u32 tree_op" where
  "mpack_node_int = mpack_node_i32"

lemmas node_number_defs =
  mpack_node_u8_def mpack_node_i8_def mpack_node_u16_def mpack_node_i16_def mpack_node_u32_def
  mpack_node_i32_def mpack_node_u64_def mpack_node_i64_def mpack_node_uint_def mpack_node_int_def

subsection \<open>Strings and binary data\<close>

definition mpack_node_check_utf8 :: "mpack_node \<Rightarrow> unit tree_op" where
  "mpack_node_check_utf8 = with_node () (\<lambda>nd t.
     if ntype nd \<noteq> mpack_type_str then mpack_node_flag_error () mpack_error_type t
     else and_then (node_bytes nd t) (\<lambda>bs.
       if \<not> mpack_utf8_check bs then mpack_node_flag_error () mpack_error_type t else Ret ((), t)))"

definition mpack_node_check_utf8_cstr :: "mpack_node \<Rightarrow> unit tree_op" where
  "mpack_node_check_utf8_cstr = with_node () (\<lambda>nd t.
     if ntype nd \<noteq> mpack_type_str then mpack_node_flag_error () mpack_error_type t
     else and_then (node_bytes nd t) (\<lambda>bs.
       if \<not> mpack_utf8_check_no_null bs then mpack_node_flag_error () mpack_error_type t
       else Ret ((), t)))"

text \<open>
  The copying functions return the caller's buffer as they leave it; \<open>None\<close> is NULL. \<open>bufsize\<close>
  is the size the caller claims.
\<close>

definition copy_bytes :: "bytes option \<Rightarrow> nat \<Rightarrow> bytes \<Rightarrow> bytes option outcome" where
  "copy_bytes buffer off bs =
     (case buffer of
        None \<Rightarrow> if bs = [] then Ret None else Fault Null_deref
      | Some m \<Rightarrow> and_then (store_at m off bs) (\<lambda>m. Ret (Some m)))"

definition mpack_node_copy_data ::
    "mpack_node \<Rightarrow> bytes option \<Rightarrow> nat \<Rightarrow> (nat \<times> bytes option) tree_op" where
  "mpack_node_copy_data node buffer bufsize = with_node (0, buffer) (\<lambda>nd t.
     mpack_assert (bufsize = 0 \<or> buffer \<noteq> None)
       (if ntype nd \<noteq> mpack_type_str \<and> ntype nd \<noteq> mpack_type_bin
        then mpack_node_flag_error (0, buffer) mpack_error_type t
        else if unat (nlen nd) > bufsize
        then mpack_node_flag_error (0, buffer) mpack_error_too_big t
        else and_then (node_bytes nd t) (\<lambda>bs.
               and_then (copy_bytes buffer 0 bs) (\<lambda>buffer.
                 Ret ((unat (nlen nd), buffer), t))))) node"

definition mpack_node_copy_utf8 ::
    "mpack_node \<Rightarrow> bytes option \<Rightarrow> nat \<Rightarrow> (nat \<times> bytes option) tree_op" where
  "mpack_node_copy_utf8 node buffer bufsize = with_node (0, buffer) (\<lambda>nd t.
     mpack_assert (bufsize = 0 \<or> buffer \<noteq> None)
       (if ntype nd \<noteq> mpack_type_str
        then mpack_node_flag_error (0, buffer) mpack_error_type t
        else if unat (nlen nd) > bufsize
        then mpack_node_flag_error (0, buffer) mpack_error_too_big t
        else and_then (node_bytes nd t) (\<lambda>bs.
               if \<not> mpack_utf8_check bs
               then mpack_node_flag_error (0, buffer) mpack_error_type t
               else and_then (copy_bytes buffer 0 bs) (\<lambda>buffer.
                 Ret ((unat (nlen nd), buffer), t))))) node"

text \<open>\<open>mpack_node_copy_cstr\<close> and \<open>mpack_node_copy_utf8_cstr\<close> differ in the check they make.\<close>

definition copy_terminated ::
    "(bytes \<Rightarrow> bool) \<Rightarrow> mpack_node \<Rightarrow> bytes option \<Rightarrow> nat \<Rightarrow> bytes tree_op" where
  "copy_terminated check node buffer bufsize t =
     (case buffer of
        None \<Rightarrow> Fault Assert_failed
      | Some m \<Rightarrow>
          mpack_assert (bufsize \<ge> 1)
            (let fail = (\<lambda>t. and_then (store_at m 0 [0]) (\<lambda>m. Ret (m, t))) in
             if terror t \<noteq> mpack_ok then fail t
             else and_then (node_data node t) (\<lambda>nd.
               if ntype nd \<noteq> mpack_type_str
               then fail (mpack_tree_flag_error mpack_error_type t)
               else if unat (nlen nd) > bufsize - 1
               then fail (mpack_tree_flag_error mpack_error_too_big t)
               else and_then (node_bytes nd t) (\<lambda>bs.
                 if \<not> check bs then fail (mpack_tree_flag_error mpack_error_type t)
                 else and_then (store_at m 0 bs) (\<lambda>m.
                      and_then (store_at m (unat (nlen nd)) [0]) (\<lambda>m. Ret (m, t)))))))"

definition mpack_node_copy_cstr :: "mpack_node \<Rightarrow> bytes option \<Rightarrow> nat \<Rightarrow> bytes tree_op" where
  "mpack_node_copy_cstr = copy_terminated mpack_str_check_no_null"

definition mpack_node_copy_utf8_cstr :: "mpack_node \<Rightarrow> bytes option \<Rightarrow> nat \<Rightarrow> bytes tree_op" where
  "mpack_node_copy_utf8_cstr = copy_terminated mpack_utf8_check_no_null"

definition mpack_node_data_len :: "mpack_node \<Rightarrow> u32 tree_op" where
  "mpack_node_data_len = with_node 0 (\<lambda>nd t.
     if ntype nd = mpack_type_str \<or> ntype nd = mpack_type_bin then Ret (nlen nd, t)
     else mpack_node_flag_error 0 mpack_error_type t)"

definition mpack_node_strlen :: "mpack_node \<Rightarrow> nat tree_op" where
  "mpack_node_strlen = with_node 0 (\<lambda>nd t.
     if ntype nd = mpack_type_str then Ret (unat (nlen nd), t)
     else mpack_node_flag_error 0 mpack_error_type t)"

definition node_pointer :: "mpack_type_t set \<Rightarrow> mpack_node \<Rightarrow> nat option tree_op" where
  "node_pointer types = with_node None (\<lambda>nd t.
     if ntype nd \<in> types
     then and_then (mpack_node_data_unchecked nd t) (\<lambda>p. Ret (Some p, t))
     else mpack_node_flag_error None mpack_error_type t)"

definition mpack_node_str :: "mpack_node \<Rightarrow> nat option tree_op" where
  "mpack_node_str = node_pointer {mpack_type_str}"

definition mpack_node_data_fn :: "mpack_node \<Rightarrow> nat option tree_op" where
  "mpack_node_data_fn = node_pointer {mpack_type_str, mpack_type_bin}"

definition mpack_node_bin_data :: "mpack_node \<Rightarrow> nat option tree_op" where
  "mpack_node_bin_data = node_pointer {mpack_type_bin}"

definition mpack_node_bin_size :: "mpack_node \<Rightarrow> nat tree_op" where
  "mpack_node_bin_size = with_node 0 (\<lambda>nd t.
     if ntype nd = mpack_type_bin then Ret (unat (nlen nd), t)
     else mpack_node_flag_error 0 mpack_error_type t)"

subsection \<open>Arrays\<close>

definition mpack_node_array_length :: "mpack_node \<Rightarrow> nat tree_op" where
  "mpack_node_array_length = with_node 0 (\<lambda>nd t.
     if ntype nd \<noteq> mpack_type_array then mpack_node_flag_error 0 mpack_error_type t
     else Ret (unat (nlen nd), t))"

definition mpack_node_array_at :: "mpack_node \<Rightarrow> nat \<Rightarrow> mpack_node tree_op" where
  "mpack_node_array_at node index = with_node Nil_node (\<lambda>nd t.
     if ntype nd \<noteq> mpack_type_array then mpack_node_flag_error Nil_node mpack_error_type t
     else if index \<ge> unat (nlen nd) then mpack_node_flag_error Nil_node mpack_error_data t
     else and_then (mpack_node_child nd index) (\<lambda>c. Ret (Pool_node c, t))) node"

subsection \<open>Maps\<close>

definition mpack_node_map_count :: "mpack_node \<Rightarrow> nat tree_op" where
  "mpack_node_map_count = with_node 0 (\<lambda>nd t.
     if ntype nd \<noteq> mpack_type_map then mpack_node_flag_error 0 mpack_error_type t
     else Ret (unat (nlen nd), t))"

definition mpack_node_map_at :: "mpack_node \<Rightarrow> nat \<Rightarrow> nat \<Rightarrow> mpack_node tree_op" where
  "mpack_node_map_at node index off = with_node Nil_node (\<lambda>nd t.
     if ntype nd \<noteq> mpack_type_map then mpack_node_flag_error Nil_node mpack_error_type t
     else if index \<ge> unat (nlen nd) then mpack_node_flag_error Nil_node mpack_error_data t
     else and_then (mpack_node_child nd (index * 2 + off)) (\<lambda>c. Ret (Pool_node c, t))) node"

definition mpack_node_map_key_at :: "mpack_node \<Rightarrow> nat \<Rightarrow> mpack_node tree_op" where
  "mpack_node_map_key_at node index = mpack_node_map_at node index 0"

definition mpack_node_map_value_at :: "mpack_node \<Rightarrow> nat \<Rightarrow> mpack_node tree_op" where
  "mpack_node_map_value_at node index = mpack_node_map_at node index 1"

text \<open>
  The loop of the three lookups: from pair \<open>i\<close> on, \<open>n\<close> pairs to go, \<open>found\<close> the value found so
  far. A second match is an error.
\<close>

type_synonym key_match = "mpack_node_data \<Rightarrow> mpack_tree \<Rightarrow> bool outcome"

fun map_scan ::
    "key_match \<Rightarrow> mpack_node_data \<Rightarrow> nat \<Rightarrow> nat \<Rightarrow> nat option \<Rightarrow> nat option tree_op" where
  "map_scan matches nd i 0 found t = Ret (found, t)"
| "map_scan matches nd i (Suc n) found t =
     and_then (mpack_node_child nd (i * 2)) (\<lambda>k.
     and_then (read_node k t) (\<lambda>key.
     and_then (matches key t) (\<lambda>hit.
       if hit then
         (if found \<noteq> None then mpack_node_flag_error None mpack_error_data t
          else and_then (mpack_node_child nd (i * 2 + 1)) (\<lambda>c.
                 map_scan matches nd (i + 1) n (Some c) t))
       else map_scan matches nd (i + 1) n found t)))"

definition map_lookup :: "key_match \<Rightarrow> mpack_node \<Rightarrow> nat option tree_op" where
  "map_lookup matches = with_node None (\<lambda>nd t.
     if ntype nd \<noteq> mpack_type_map then mpack_node_flag_error None mpack_error_type t
     else map_scan matches nd 0 (unat (nlen nd)) None t)"

definition int_key :: "u64 \<Rightarrow> key_match" where
  "int_key num key t =
     (if ntype key = mpack_type_int then and_then (value_i key) (\<lambda>i. Ret (i = num))
      else if ntype key = mpack_type_uint \<and> sint num \<ge> 0
      then and_then (value_u key) (\<lambda>u. Ret (u = num)) else Ret False)"

definition uint_key :: "u64 \<Rightarrow> key_match" where
  "uint_key num key t =
     (if ntype key = mpack_type_uint then and_then (value_u key) (\<lambda>u. Ret (u = num))
      else if ntype key = mpack_type_int
      then and_then (value_i key) (\<lambda>i. Ret (sint i \<ge> 0 \<and> i = num)) else Ret False)"

definition str_key :: "bytes \<Rightarrow> nat \<Rightarrow> key_match" where
  "str_key str len key t =
     (if ntype key = mpack_type_str \<and> unat (nlen key) = len
      then and_then (mpack_node_data_unchecked key t) (\<lambda>p.
           and_then (mpack_memcmp str (drop p (tdata_obj t)) len) (\<lambda>c. Ret (c = 0)))
      else Ret False)"

definition mpack_node_map_int_impl :: "mpack_node \<Rightarrow> u64 \<Rightarrow> nat option tree_op" where
  "mpack_node_map_int_impl node num = map_lookup (int_key num) node"

definition mpack_node_map_uint_impl :: "mpack_node \<Rightarrow> u64 \<Rightarrow> nat option tree_op" where
  "mpack_node_map_uint_impl node num = map_lookup (uint_key num) node"

text \<open>The key is asserted not to be NULL, unless it is empty, once the tree is known to have no error.\<close>

definition mpack_node_map_str_impl :: "mpack_node \<Rightarrow> bytes option \<Rightarrow> nat \<Rightarrow> nat option tree_op" where
  "mpack_node_map_str_impl node str len t =
     (if terror t = mpack_ok \<and> len \<noteq> 0 \<and> str = None then Fault Assert_failed
      else map_lookup (str_key (case str of None \<Rightarrow> [] | Some key \<Rightarrow> key) len) node t)"

definition mpack_node_wrap_lookup :: "nat option \<Rightarrow> mpack_tree \<Rightarrow> mpack_node \<times> mpack_tree" where
  "mpack_node_wrap_lookup data t =
     (case data of
        None \<Rightarrow> (Nil_node, mpack_tree_flag_error mpack_error_data t)
      | Some i \<Rightarrow> (Pool_node i, t))"

definition mpack_node_wrap_lookup_optional ::
    "nat option \<Rightarrow> mpack_tree \<Rightarrow> mpack_node \<times> mpack_tree" where
  "mpack_node_wrap_lookup_optional data t =
     (case data of
        None \<Rightarrow> (if terror t = mpack_ok then Missing_node else Nil_node, t)
      | Some i \<Rightarrow> (Pool_node i, t))"

definition wrapped ::
    "(nat option \<Rightarrow> mpack_tree \<Rightarrow> 'a \<times> mpack_tree) \<Rightarrow> nat option tree_op \<Rightarrow> 'a tree_op" where
  "wrapped wrap lookup t = and_then (lookup t) (\<lambda>(found, t). Ret (wrap found t))"

definition contains :: "nat option \<Rightarrow> mpack_tree \<Rightarrow> bool \<times> mpack_tree" where
  "contains found t = (found \<noteq> None, t)"

definition mpack_node_map_int :: "mpack_node \<Rightarrow> u64 \<Rightarrow> mpack_node tree_op" where
  "mpack_node_map_int node num =
     wrapped mpack_node_wrap_lookup (mpack_node_map_int_impl node num)"

definition mpack_node_map_int_optional :: "mpack_node \<Rightarrow> u64 \<Rightarrow> mpack_node tree_op" where
  "mpack_node_map_int_optional node num =
     wrapped mpack_node_wrap_lookup_optional (mpack_node_map_int_impl node num)"

definition mpack_node_map_contains_int :: "mpack_node \<Rightarrow> u64 \<Rightarrow> bool tree_op" where
  "mpack_node_map_contains_int node num = wrapped contains (mpack_node_map_int_impl node num)"

definition mpack_node_map_uint :: "mpack_node \<Rightarrow> u64 \<Rightarrow> mpack_node tree_op" where
  "mpack_node_map_uint node num =
     wrapped mpack_node_wrap_lookup (mpack_node_map_uint_impl node num)"

definition mpack_node_map_uint_optional :: "mpack_node \<Rightarrow> u64 \<Rightarrow> mpack_node tree_op" where
  "mpack_node_map_uint_optional node num =
     wrapped mpack_node_wrap_lookup_optional (mpack_node_map_uint_impl node num)"

definition mpack_node_map_contains_uint :: "mpack_node \<Rightarrow> u64 \<Rightarrow> bool tree_op" where
  "mpack_node_map_contains_uint node num = wrapped contains (mpack_node_map_uint_impl node num)"

definition mpack_node_map_str :: "mpack_node \<Rightarrow> bytes option \<Rightarrow> nat \<Rightarrow> mpack_node tree_op" where
  "mpack_node_map_str node str len =
     wrapped mpack_node_wrap_lookup (mpack_node_map_str_impl node str len)"

definition mpack_node_map_str_optional :: "mpack_node \<Rightarrow> bytes option \<Rightarrow> nat \<Rightarrow> mpack_node tree_op" where
  "mpack_node_map_str_optional node str len =
     wrapped mpack_node_wrap_lookup_optional (mpack_node_map_str_impl node str len)"

definition mpack_node_map_contains_str :: "mpack_node \<Rightarrow> bytes option \<Rightarrow> nat \<Rightarrow> bool tree_op" where
  "mpack_node_map_contains_str node str len = wrapped contains (mpack_node_map_str_impl node str len)"

text \<open>A C string is the memory from its first byte on; \<open>None\<close> is NULL.\<close>

definition with_cstr :: "bytes option \<Rightarrow> (bytes option \<Rightarrow> nat \<Rightarrow> 'a tree_op) \<Rightarrow> 'a tree_op" where
  "with_cstr cstr k t =
     (case cstr of
        None \<Rightarrow> Fault Assert_failed
      | Some m \<Rightarrow> and_then (mpack_strlen m) (\<lambda>len. k (Some m) len t))"

definition mpack_node_map_cstr :: "mpack_node \<Rightarrow> bytes option \<Rightarrow> mpack_node tree_op" where
  "mpack_node_map_cstr node cstr = with_cstr cstr (mpack_node_map_str node)"

definition mpack_node_map_cstr_optional :: "mpack_node \<Rightarrow> bytes option \<Rightarrow> mpack_node tree_op" where
  "mpack_node_map_cstr_optional node cstr = with_cstr cstr (mpack_node_map_str_optional node)"

definition mpack_node_map_contains_cstr :: "mpack_node \<Rightarrow> bytes option \<Rightarrow> bool tree_op" where
  "mpack_node_map_contains_cstr node cstr = with_cstr cstr (mpack_node_map_contains_str node)"

subsection \<open>Enumerations\<close>

definition mpack_node_enum_optional :: "mpack_node \<Rightarrow> bytes list \<Rightarrow> nat tree_op" where
  "mpack_node_enum_optional node strings t =
     (if terror t \<noteq> mpack_ok then Ret (length strings, t)
      else
        and_then (mpack_node_type node t) (\<lambda>(ty, t).
          if ty \<noteq> mpack_type_str then Ret (length strings, t)
          else
            and_then (mpack_node_str node t) (\<lambda>(key, t).
            and_then (mpack_node_strlen node t) (\<lambda>(keylen, t).
              mpack_assert (terror t = mpack_ok)
                (case key of
                   None \<Rightarrow> Fault Null_deref
                 | Some p \<Rightarrow>
                     and_then (enum_scan (drop p (tdata_obj t)) keylen strings 0) (\<lambda>i.
                       Ret (i, t)))))))"

definition mpack_node_enum :: "mpack_node \<Rightarrow> bytes list \<Rightarrow> nat tree_op" where
  "mpack_node_enum node strings t =
     and_then (mpack_node_enum_optional node strings t) (\<lambda>(i, t).
       if i = length strings then mpack_node_flag_error i mpack_error_type t else Ret (i, t))"

subsection \<open>The tag of a node\<close>

definition mpack_node_tag :: "mpack_node \<Rightarrow> mpack_tag tree_op" where
  "mpack_node_tag = with_node Tag_nil (\<lambda>nd t.
     (case ntype nd of
        mpack_type_missing \<Rightarrow> Ret (Tag_missing, t)
      | mpack_type_nil \<Rightarrow> Ret (Tag_nil, t)
      | mpack_type_bool \<Rightarrow> and_then (value_b nd) (\<lambda>b. Ret (Tag_bool b, t))
      | mpack_type_int \<Rightarrow> and_then (value_i nd) (\<lambda>i. Ret (Tag_int i, t))
      | mpack_type_uint \<Rightarrow> and_then (value_u nd) (\<lambda>u. Ret (Tag_uint u, t))
      | mpack_type_str \<Rightarrow> Ret (Tag_str (nlen nd), t)
      | mpack_type_bin \<Rightarrow> Ret (Tag_bin (nlen nd), t)
      | mpack_type_array \<Rightarrow> Ret (Tag_array (nlen nd), t)
      | mpack_type_map \<Rightarrow> Ret (Tag_map (nlen nd), t)
      | _ \<Rightarrow> Fault Assert_failed))"

end
