(* ===== verification/Cremona_Serializer.thy ===== *)
theory Cremona_Serializer
  imports Mpack_Writer Mpack_Node
begin

text \<open>
  The messages between the driver and its daemon (\<open>message.h\<close>, \<open>buffer.h\<close>, \<open>serializer.c\<close>):
  the message numbers, the structs, and the functions that write and read them as MessagePack
  arrays. A C \<open>int\<close> is a 32-bit word read with \<open>sint\<close>.
\<close>

subsection \<open>Buffers and message numbers\<close>

text \<open>\<open>bbuf\<close> is the memory from \<open>buf\<close> to the end of its object; the sizes are what the code claims.\<close>

record crmna_buf =
  bbuf :: bytes
  bbuf_size :: nat
  bused_size :: nat

definition DEFINE_CRMNA_BUF :: "bytes \<Rightarrow> nat \<Rightarrow> crmna_buf" where
  "DEFINE_CRMNA_BUF content sz = \<lparr>bbuf = content, bbuf_size = sz, bused_size = 0\<rparr>"

definition DEFINE_CRMNA_BUF_FROM_MEMORY :: "bytes \<Rightarrow> nat \<Rightarrow> crmna_buf" where
  "DEFINE_CRMNA_BUF_FROM_MEMORY address sz =
     \<lparr>bbuf = address, bbuf_size = sz, bused_size = sz\<rparr>"

definition NLMSG_MIN_TYPE :: nat where "NLMSG_MIN_TYPE = 0x10"
definition CRMNA_GET_HEALTH :: nat where "CRMNA_GET_HEALTH = NLMSG_MIN_TYPE * 2"
definition CRMNA_GET_HEALTH_RESULT :: nat where "CRMNA_GET_HEALTH_RESULT = NLMSG_MIN_TYPE * 3"
definition CRMNA_CREATE_DEVICE :: nat where "CRMNA_CREATE_DEVICE = NLMSG_MIN_TYPE * 4"
definition CRMNA_CREATE_DEVICE_RESULT :: nat where
  "CRMNA_CREATE_DEVICE_RESULT = NLMSG_MIN_TYPE * 5"
definition CRMNA_DESTROY_DEVICE :: nat where "CRMNA_DESTROY_DEVICE = NLMSG_MIN_TYPE * 6"
definition CRMNA_DESTROY_DEVICE_RESULT :: nat where
  "CRMNA_DESTROY_DEVICE_RESULT = NLMSG_MIN_TYPE * 7"
definition CRMNA_NEW_TOOT :: nat where "CRMNA_NEW_TOOT = NLMSG_MIN_TYPE * 8"
definition CRMNA_NEW_TOOT_RESULT :: nat where "CRMNA_NEW_TOOT_RESULT = NLMSG_MIN_TYPE * 9"
definition CRMNA_ADD_TOOT_TEXT :: nat where "CRMNA_ADD_TOOT_TEXT = NLMSG_MIN_TYPE * 10"
definition CRMNA_ADD_TOOT_TEXT_RESULT :: nat where
  "CRMNA_ADD_TOOT_TEXT_RESULT = NLMSG_MIN_TYPE * 11"
definition CRMNA_SEND_TOOT :: nat where "CRMNA_SEND_TOOT = NLMSG_MIN_TYPE * 12"
definition CRMNA_SEND_TOOT_RESULT :: nat where "CRMNA_SEND_TOOT_RESULT = NLMSG_MIN_TYPE * 13"

lemmas message_type_defs =
  NLMSG_MIN_TYPE_def CRMNA_GET_HEALTH_def CRMNA_GET_HEALTH_RESULT_def CRMNA_CREATE_DEVICE_def
  CRMNA_CREATE_DEVICE_RESULT_def CRMNA_DESTROY_DEVICE_def CRMNA_DESTROY_DEVICE_RESULT_def
  CRMNA_NEW_TOOT_def CRMNA_NEW_TOOT_RESULT_def CRMNA_ADD_TOOT_TEXT_def
  CRMNA_ADD_TOOT_TEXT_RESULT_def CRMNA_SEND_TOOT_def CRMNA_SEND_TOOT_RESULT_def

subsection \<open>Message structs\<close>

record get_health_t = gh_device_id :: u32

record get_health_result_t =
  ghr_device_id :: u32
  ghr_status :: bool

record create_device_t =
  cd_name :: bytes                  \<comment> \<open>\<open>char name[50]\<close>\<close>
  cd_uid :: u32

record create_device_result_t = cdr_id :: u32

record destroy_device_t = dd_id :: u32

record destroy_device_result_t = ddr_id :: u32

record new_toot_t =
  nt_toot_id :: u32
  nt_device_id :: u32

record new_toot_result_t =
  ntr_toot_id :: u32
  ntr_device_id :: u32
  ntr_result :: u32

record add_toot_text_t =
  att_toot_id :: u32
  att_device_id :: u32
  att_element_id :: u32
  att_index :: u32
  att_text :: "bytes option"        \<comment> \<open>the memory from \<open>text\<close> on, or NULL\<close>

record add_toot_text_result_t =
  atr_toot_id :: u32
  atr_device_id :: u32
  atr_element_id :: u32
  atr_result :: u32

record send_toot_t =
  st_toot_id :: u32
  st_device_id :: u32

record send_toot_result_t =
  str_toot_id :: u32
  str_device_id :: u32
  str_result :: u32

subsection \<open>Serialization\<close>

text \<open>
  The frame all serializers share: set up the writer, write, destroy. \<open>on_error\<close> is what the
  function returns when the writer has an error. A claimed size beyond the object counts as a
  fault at once. \<open>mpack_finish_array\<close> only does write tracking, which is compiled out.
\<close>

definition serialize_with :: "unit write_op list \<Rightarrow> bool \<Rightarrow> crmna_buf \<Rightarrow> (bool \<times> crmna_buf) outcome" where
  "serialize_with ops on_error dest =
     (if bbuf_size dest > length (bbuf dest) then Fault Oob_write
      else
        and_then (mpack_writer_init (Some (take (bbuf_size dest) (bbuf dest)))) (\<lambda>w.
        and_then (write_all ops w) (\<lambda>w.
        and_then (mpack_writer_destroy None None w) (\<lambda>w.
          let dest = dest\<lparr>bbuf := wbuffer w @ drop (bbuf_size dest) (bbuf dest)\<rparr> in
          if werror w \<noteq> mpack_ok then Ret (on_error, dest)
          else Ret (True, dest\<lparr>bused_size := mpack_writer_buffer_used w\<rparr>)))))"

definition serialize_get_health_result ::
    "get_health_result_t \<Rightarrow> crmna_buf \<Rightarrow> (bool \<times> crmna_buf) outcome" where
  "serialize_get_health_result data =
     serialize_with
       [mpack_start_array None 2, mpack_write_u32 None (ghr_device_id data),
        mpack_write_bool None (ghr_status data)] False"

definition serialize_create_device_result ::
    "create_device_result_t \<Rightarrow> crmna_buf \<Rightarrow> (bool \<times> crmna_buf) outcome" where
  "serialize_create_device_result data =
     serialize_with [mpack_start_array None 1, mpack_write_u32 None (cdr_id data)] False"

text \<open>\<open>return -1\<close> of a function that returns \<open>bool\<close> is \<open>true\<close>.\<close>

definition serialize_destroy_device_result ::
    "destroy_device_result_t \<Rightarrow> crmna_buf \<Rightarrow> (bool \<times> crmna_buf) outcome" where
  "serialize_destroy_device_result data =
     serialize_with [mpack_start_array None 1, mpack_write_u32 None (ddr_id data)] True"

definition serialize_new_toot ::
    "new_toot_t \<Rightarrow> crmna_buf \<Rightarrow> (bool \<times> crmna_buf) outcome" where
  "serialize_new_toot data =
     serialize_with
       [mpack_start_array None 2, mpack_write_u32 None (nt_toot_id data),
        mpack_write_u32 None (nt_device_id data)] False"

definition serialize_add_toot_element ::
    "add_toot_text_t \<Rightarrow> crmna_buf \<Rightarrow> (bool \<times> crmna_buf) outcome" where
  "serialize_add_toot_element data =
     serialize_with
       [mpack_start_array None 5, mpack_write_u32 None (att_toot_id data),
        mpack_write_u32 None (att_device_id data), mpack_write_u32 None (att_element_id data),
        mpack_write_u32 None (att_index data),
        mpack_write_utf8_cstr_or_nil None (att_text data)] False"

definition serialize_send_toot ::
    "send_toot_t \<Rightarrow> crmna_buf \<Rightarrow> (bool \<times> crmna_buf) outcome" where
  "serialize_send_toot data =
     serialize_with
       [mpack_start_array None 2, mpack_write_u32 None (st_toot_id data),
        mpack_write_u32 None (st_device_id data)] False"

subsection \<open>Deserialization\<close>

text \<open>
  The functions parse into 50 nodes of their stack frame; \<open>nodes\<close> is what that memory holds
  before. Every field of the result is assigned also when the message turns out to be wrong.
\<close>

definition parse_message ::
    "mpack_node_data list \<Rightarrow> crmna_buf \<Rightarrow> (mpack_node \<times> mpack_tree) outcome" where
  "parse_message nodes data =
     and_then (mpack_tree_parse (mpack_tree_init_pool (bbuf data) (bused_size data) nodes 50))
       (\<lambda>t. Ret (mpack_tree_root t))"

definition u32_at :: "mpack_node \<Rightarrow> nat \<Rightarrow> u32 tree_op" where
  "u32_at root k t =
     and_then (mpack_node_array_at root k t) (\<lambda>(node, t). mpack_node_u32 node t)"

definition i32_at :: "mpack_node \<Rightarrow> nat \<Rightarrow> u32 tree_op" where
  "i32_at root k t =
     and_then (mpack_node_array_at root k t) (\<lambda>(node, t). mpack_node_i32 node t)"

definition name_at :: "bytes \<Rightarrow> mpack_node \<Rightarrow> nat \<Rightarrow> bytes tree_op" where
  "name_at name root k t =
     and_then (mpack_node_array_at root k t) (\<lambda>(node, t).
       mpack_node_copy_utf8_cstr node (Some name) (length name) t)"

definition deserialize_get_health ::
    "mpack_node_data list \<Rightarrow> crmna_buf \<Rightarrow> (bool \<times> get_health_t) outcome" where
  "deserialize_get_health nodes data =
     and_then (parse_message nodes data) (\<lambda>(root, t).
     and_then (u32_at root 0 t) (\<lambda>(device_id, t).
       Ret (mpack_tree_destroy t = mpack_ok, \<lparr>gh_device_id = device_id\<rparr>)))"

text \<open>\<open>name0\<close> is what \<open>result->name\<close> holds before the call.\<close>

definition deserialize_create_conn ::
    "mpack_node_data list \<Rightarrow> bytes \<Rightarrow> crmna_buf \<Rightarrow> (bool \<times> create_device_t) outcome" where
  "deserialize_create_conn nodes name0 data =
     and_then (parse_message nodes data) (\<lambda>(root, t).
     and_then (name_at name0 root 0 t) (\<lambda>(name, t).
     and_then (u32_at root 1 t) (\<lambda>(uid, t).
       Ret (mpack_tree_destroy t = mpack_ok, \<lparr>cd_name = name, cd_uid = uid\<rparr>))))"

definition deserialize_destroy_device ::
    "mpack_node_data list \<Rightarrow> crmna_buf \<Rightarrow> (bool \<times> destroy_device_t) outcome" where
  "deserialize_destroy_device nodes data =
     and_then (parse_message nodes data) (\<lambda>(root, t).
     and_then (u32_at root 0 t) (\<lambda>(id, t).
       Ret (mpack_tree_destroy t = mpack_ok, \<lparr>dd_id = id\<rparr>)))"

definition deserialize_new_toot_result ::
    "mpack_node_data list \<Rightarrow> crmna_buf \<Rightarrow> (bool \<times> new_toot_result_t) outcome" where
  "deserialize_new_toot_result nodes data =
     and_then (parse_message nodes data) (\<lambda>(root, t).
     and_then (u32_at root 0 t) (\<lambda>(toot_id, t).
     and_then (u32_at root 1 t) (\<lambda>(device_id, t).
     and_then (i32_at root 2 t) (\<lambda>(result, t).
       Ret (mpack_tree_destroy t = mpack_ok,
            \<lparr>ntr_toot_id = toot_id, ntr_device_id = device_id, ntr_result = result\<rparr>)))))"

definition deserialize_add_toot_element_result ::
    "mpack_node_data list \<Rightarrow> crmna_buf \<Rightarrow> (bool \<times> add_toot_text_result_t) outcome" where
  "deserialize_add_toot_element_result nodes data =
     and_then (parse_message nodes data) (\<lambda>(root, t).
     and_then (u32_at root 0 t) (\<lambda>(toot_id, t).
     and_then (u32_at root 1 t) (\<lambda>(device_id, t).
     and_then (u32_at root 2 t) (\<lambda>(element_id, t).
     and_then (i32_at root 3 t) (\<lambda>(result, t).
       Ret (mpack_tree_destroy t = mpack_ok,
            \<lparr>atr_toot_id = toot_id, atr_device_id = device_id, atr_element_id = element_id,
             atr_result = result\<rparr>))))))"

definition deserialize_send_toot_result ::
    "mpack_node_data list \<Rightarrow> crmna_buf \<Rightarrow> (bool \<times> send_toot_result_t) outcome" where
  "deserialize_send_toot_result nodes data =
     and_then (parse_message nodes data) (\<lambda>(root, t).
     and_then (u32_at root 0 t) (\<lambda>(toot_id, t).
     and_then (u32_at root 1 t) (\<lambda>(device_id, t).
     and_then (i32_at root 2 t) (\<lambda>(result, t).
       Ret (mpack_tree_destroy t = mpack_ok,
            \<lparr>str_toot_id = toot_id, str_device_id = device_id, str_result = result\<rparr>)))))"

end
