(* ===== verification/Driver_Kernel.thy ===== *)
theory Driver_Kernel
  imports Cremona_Serializer
begin

text \<open>
  The state of the kernel module (\<open>store_internal.h\<close>, \<open>error.h\<close>) and the part of Linux it
  stands on. Linux is not part of the repository: what the module calls is a record of functions
  \<open>kernel\<close>, a parameter of every operation, and \<open>kernel_ok\<close> names the documented behaviour the
  proofs rely on. Objects of the C heap live in maps from addresses; an address outside the map is
  freed memory.
\<close>

subsection \<open>Errors\<close>

definition ERROR_MESSAGE_MAX_ENTRY :: nat where "ERROR_MESSAGE_MAX_ENTRY = 10"

text \<open>
  The error object of a thread: the entries so far, \<open>curret_line\<close> is their number. An entry is kept as
  its format string and arguments instead of the text \<open>snprintf\<close> makes of them; the name of the
  function, which \<open>ADD_ERROR\<close> puts in front with a colon, is written out in the format.
\<close>

type_synonym crmna_err = "(string \<times> u32 list) list"

definition ADD_ERROR :: "string \<Rightarrow> u32 list \<Rightarrow> crmna_err \<Rightarrow> crmna_err" where
  "ADD_ERROR fmt args err =
     (if length err < ERROR_MESSAGE_MAX_ENTRY then err @ [(fmt, args)] else err)"

definition HAS_ERROR :: "crmna_err \<Rightarrow> bool" where
  "HAS_ERROR err \<longleftrightarrow> length err > 0"

subsection \<open>Objects of the store\<close>

text \<open>\<open>d_sem\<close> is the \<open>rw_semaphore\<close>: 0 free, \<open>n\<close> readers, or -1 for a writer.\<close>

record device_store_t =
  d_device_id :: u32
  d_pid :: u32
  d_uid :: u32
  d_name :: nat
  d_dev :: u32
  d_sem :: int
  d_is_ready :: bool
  d_is_attached :: bool

datatype toot_state =
  CREANUPED | OPEN_RESULT_WAIT | OPEND | CLOSE_RESULT_WAIT | DESTROYED | TOOT_ERROR

definition toot_state_code :: "toot_state \<Rightarrow> u32" where
  "toot_state_code st =
     (case st of CREANUPED \<Rightarrow> 0 | OPEN_RESULT_WAIT \<Rightarrow> 1 | OPEND \<Rightarrow> 2 | CLOSE_RESULT_WAIT \<Rightarrow> 3
      | DESTROYED \<Rightarrow> 4 | TOOT_ERROR \<Rightarrow> 5)"

record toot_store_t =
  t_toot_id :: u32
  t_device_id :: u32
  t_state :: toot_state
  t_element_count :: u32

datatype element_state =
  ELEMENT_CREANUPED | ELEMENT_READY | ELEMENT_SEND_WAIT | ELEMENT_SENT | ELEMENT_ERROR

definition element_state_code :: "element_state \<Rightarrow> u32" where
  "element_state_code st =
     (case st of ELEMENT_CREANUPED \<Rightarrow> 0 | ELEMENT_READY \<Rightarrow> 1 | ELEMENT_SEND_WAIT \<Rightarrow> 2
      | ELEMENT_SENT \<Rightarrow> 3 | ELEMENT_ERROR \<Rightarrow> 4)"

record element_store_t =
  e_element_id :: u32
  e_toot_id :: u32
  e_state :: element_state
  e_index :: u32

text \<open>The only table of communicator functions in the driver is that of \<open>net_link_comm.c\<close>.\<close>

datatype com_interface = Netlink_interface

record com_ref =
  c_interface :: "com_interface option"
  c_obj :: "nat option"

text \<open>
  What the module has taken from Linux and has to give back: a block from \<open>kmalloc\<close> that holds no
  object yet (an object that has been written is in its heap), or a \<open>store_t\<close>; a region of device
  numbers, by its first number and its size; a device class; a netlink socket.
\<close>

datatype resource = Block nat | Region u32 u32 | Class nat | Socket nat

text \<open>
  The world of one thread of the module: the one \<open>store_t\<close>, the heaps, what is \<open>held\<close> besides them,
  the devices registered with Linux, the \<open>private_data\<close> of the
  open files, the messages handed to netlink so far, the thread's error object, and the state
  \<open>kenv\<close> of Linux. \<open>'i\<close> is the type of an \<open>idr\<close>. Spinlocks are not part of the state: every
  section under one is straight code that releases it again.
\<close>

record ('i, 'e) world =
  devices :: 'i
  toots :: 'i
  elements :: 'i
  miner_min :: u32
  miner_max :: u32
  device_major :: u32
  chrdev :: u32                           \<comment> \<open>\<open>dev\<close> of the \<open>store_t\<close>\<close>
  device_class :: nat
  communicator :: com_ref
  dev_heap :: "nat \<rightharpoonup> device_store_t"
  toot_heap :: "nat \<rightharpoonup> toot_store_t"
  element_heap :: "nat \<rightharpoonup> element_store_t"
  name_heap :: "nat \<rightharpoonup> bytes"
  data_heap :: "nat \<rightharpoonup> u32"               \<comment> \<open>the blocks behind \<open>private_data\<close>\<close>
  com_heap :: "nat \<rightharpoonup> nat"                \<comment> \<open>\<open>netlink_communicator_t\<close>, with its socket\<close>
  held :: "resource list"
  cdevs :: "nat set"                      \<comment> \<open>the devices that \<open>cdev_device_add\<close> has registered\<close>
  private_data :: "nat \<rightharpoonup> nat"            \<comment> \<open>by file\<close>
  wsent :: "(u32 \<times> nat \<times> bytes) list"     \<comment> \<open>receiver, type, payload\<close>
  werr :: crmna_err
  kenv :: 'e

definition live :: "('i, 'e) world \<Rightarrow> nat \<Rightarrow> bool" where
  "live w a \<longleftrightarrow> a \<in> dom (dev_heap w) \<or> a \<in> dom (toot_heap w) \<or> a \<in> dom (element_heap w) \<or>
     a \<in> dom (name_heap w) \<or> a \<in> dom (data_heap w) \<or> a \<in> dom (com_heap w) \<or>
     Block a \<in> set (held w)"

subsection \<open>Linux\<close>

text \<open>
  An \<open>idr\<close> maps ids to pointers; \<open>None\<close> is NULL. \<open>k_idr_alloc\<close> stores NULL under a free id
  between two bounds and returns the C result (0 or an errno), the id, and the new \<open>idr\<close>.
  \<open>k_kmalloc\<close> gets the blocks in use and returns the address of a block and its usable size, which
  may exceed the size asked for. \<open>k_sleep\<close> is everything the other threads do while this one
  sleeps in \<open>wait_event_interruptible_timeout\<close>. \<open>k_stack\<close>, \<open>k_nodes\<close> (the 50 nodes of a
  deserializer's frame) and \<open>k_word\<close> are what uninitialised memory holds.
\<close>

record ('i, 'e) kernel =
  k_idr_init :: 'i
  k_idr_has :: "'i \<Rightarrow> u32 \<Rightarrow> bool"
  k_idr_find :: "'i \<Rightarrow> u32 \<Rightarrow> nat option"
  k_idr_alloc :: "'i \<Rightarrow> u32 \<Rightarrow> u32 \<Rightarrow> 'e \<Rightarrow> (int \<times> u32 \<times> 'i) \<times> 'e"
  k_idr_replace :: "'i \<Rightarrow> nat \<Rightarrow> u32 \<Rightarrow> 'i"
  k_idr_remove :: "'i \<Rightarrow> u32 \<Rightarrow> 'i"
  k_idr_get_next :: "'i \<Rightarrow> u32 \<Rightarrow> (u32 \<times> nat) option"
  k_kmalloc :: "(nat \<Rightarrow> bool) \<Rightarrow> nat \<Rightarrow> 'e \<Rightarrow> (nat \<times> nat) option \<times> 'e"
  k_kmalloc_object :: "(nat \<Rightarrow> bool) \<Rightarrow> 'e \<Rightarrow> nat option \<times> 'e"
  k_cdev_device_add :: "u32 \<Rightarrow> bytes \<Rightarrow> 'e \<Rightarrow> int \<times> 'e"
  k_cdev_device_del :: "u32 \<Rightarrow> 'e \<Rightarrow> 'e"
  k_nlmsg_new :: "nat \<Rightarrow> 'e \<Rightarrow> bool \<times> 'e"
  k_nlmsg_unicast :: "nat \<Rightarrow> u32 \<times> nat \<times> bytes \<Rightarrow> 'e \<Rightarrow> int \<times> 'e"
  k_netlink_kernel_create :: "nat \<Rightarrow> 'e \<Rightarrow> nat option \<times> 'e"
  k_alloc_chrdev_region :: "u32 \<Rightarrow> u32 \<Rightarrow> 'e \<Rightarrow> (int \<times> u32) \<times> 'e"
  k_class_create :: "'e \<Rightarrow> nat option \<times> 'e"
  k_copy_from_user :: "nat \<Rightarrow> 'e \<Rightarrow> (nat \<times> bytes) \<times> 'e"
  k_sleep :: "('i, 'e) world \<Rightarrow> ('i, 'e) world"
  k_stack :: "nat \<Rightarrow> 'e \<Rightarrow> bytes"
  k_nodes :: "'e \<Rightarrow> mpack_node_data list"
  k_word :: "'e \<Rightarrow> u32"

text \<open>
  The documented behaviour. \<open>k_idr_has\<close> tells whether an id is allocated. A successful allocation
  takes an id between the bounds that was not allocated, with NULL as its pointer; a failed one
  changes nothing. \<open>idr_replace\<close> sets the pointer of an allocated id, \<open>idr_remove\<close> gives the id
  back, and \<open>idr_get_next\<close> finds the first pointer that is not NULL from an id on. The allocator
  returns blocks that are not in use, of at least the size asked for.
\<close>

definition idr_ok :: "('i, 'e) kernel \<Rightarrow> bool" where
  "idr_ok K \<longleftrightarrow>
     (\<forall>k. \<not> k_idr_has K (k_idr_init K) k) \<and>
     (\<forall>i k p. k_idr_find K i k = Some p \<longrightarrow> k_idr_has K i k) \<and>
     (\<forall>i p k. k_idr_has K i k \<longrightarrow>
        k_idr_find K (k_idr_replace K i p k) = (k_idr_find K i)(k \<mapsto> p) \<and>
        k_idr_has K (k_idr_replace K i p k) = k_idr_has K i) \<and>
     (\<forall>i k. k_idr_find K (k_idr_remove K i k) = (k_idr_find K i)(k := None) \<and>
        k_idr_has K (k_idr_remove K i k) = (k_idr_has K i)(k := False)) \<and>
     (\<forall>i lo hi e r k i' e'. k_idr_alloc K i lo hi e = ((r, k, i'), e') \<longrightarrow>
        (if r = 0
         then lo \<le> k \<and> k \<le> hi \<and> \<not> k_idr_has K i k \<and>
              k_idr_find K i' = k_idr_find K i \<and> k_idr_has K i' = (k_idr_has K i)(k := True)
         else k_idr_find K i' = k_idr_find K i \<and> k_idr_has K i' = k_idr_has K i)) \<and>
     (\<forall>i k. case k_idr_get_next K i k of
        None \<Rightarrow> \<forall>j \<ge> k. k_idr_find K i j = None
      | Some (n, p) \<Rightarrow> k \<le> n \<and> k_idr_find K i n = Some p \<and>
          (\<forall>j. k \<le> j \<and> j < n \<longrightarrow> k_idr_find K i j = None))"

definition malloc_ok :: "('i, 'e) kernel \<Rightarrow> bool" where
  "malloc_ok K \<longleftrightarrow>
     (\<forall>used n e a size e'. k_kmalloc K used n e = (Some (a, size), e') \<longrightarrow> \<not> used a \<and> n \<le> size) \<and>
     (\<forall>used e a e'. k_kmalloc_object K used e = (Some a, e') \<longrightarrow> \<not> used a)"

definition kernel_ok :: "('i, 'e) kernel \<Rightarrow> bool" where
  "kernel_ok K \<longleftrightarrow> idr_ok K \<and> malloc_ok K \<and> (\<forall>n e. length (k_stack K n e) = n) \<and>
     (\<forall>e. length (k_nodes K e) = 50)"

subsection \<open>Primitive steps\<close>

type_synonym ('i, 'e, 'a) step = "('i, 'e) world \<Rightarrow> ('a \<times> ('i, 'e) world) outcome"
type_synonym ('i, 'e) proc = "('i, 'e) world \<Rightarrow> ('i, 'e) world outcome"

definition add_error :: "string \<Rightarrow> u32 list \<Rightarrow> ('i, 'e) world \<Rightarrow> ('i, 'e) world" where
  "add_error fmt args w = w\<lparr>werr := ADD_ERROR fmt args (werr w)\<rparr>"

text \<open>A function with an error object of its own prints it and drops it.\<close>

definition with_local_err :: "('i, 'e) proc \<Rightarrow> ('i, 'e) proc" where
  "with_local_err f w = and_then (f (w\<lparr>werr := []\<rparr>)) (\<lambda>w'. Ret (w'\<lparr>werr := werr w\<rparr>))"

definition read_at :: "(nat \<rightharpoonup> 'o) \<Rightarrow> nat \<Rightarrow> 'o outcome" where
  "read_at h p = (case h p of None \<Rightarrow> Fault Use_after_free | Some x \<Rightarrow> Ret x)"

definition update_at :: "(nat \<rightharpoonup> 'o) \<Rightarrow> nat \<Rightarrow> ('o \<Rightarrow> 'o) \<Rightarrow> (nat \<rightharpoonup> 'o) outcome" where
  "update_at h p f = (case h p of None \<Rightarrow> Fault Use_after_free | Some x \<Rightarrow> Ret (h(p \<mapsto> f x)))"

definition free_at :: "(nat \<rightharpoonup> 'o) \<Rightarrow> nat \<Rightarrow> (nat \<rightharpoonup> 'o) outcome" where
  "free_at h p = (case h p of None \<Rightarrow> Fault Use_after_free | Some x \<Rightarrow> Ret (h(p := None)))"

definition get_dev :: "nat \<Rightarrow> ('i, 'e) world \<Rightarrow> device_store_t outcome" where
  "get_dev p w = read_at (dev_heap w) p"

definition upd_dev :: "nat \<Rightarrow> (device_store_t \<Rightarrow> device_store_t) \<Rightarrow> ('i, 'e) proc" where
  "upd_dev p f w = and_then (update_at (dev_heap w) p f) (\<lambda>h. Ret (w\<lparr>dev_heap := h\<rparr>))"

definition kfree_dev :: "nat \<Rightarrow> ('i, 'e) proc" where
  "kfree_dev p w = and_then (free_at (dev_heap w) p) (\<lambda>h. Ret (w\<lparr>dev_heap := h\<rparr>))"

definition get_toot :: "nat \<Rightarrow> ('i, 'e) world \<Rightarrow> toot_store_t outcome" where
  "get_toot p w = read_at (toot_heap w) p"

definition upd_toot :: "nat \<Rightarrow> (toot_store_t \<Rightarrow> toot_store_t) \<Rightarrow> ('i, 'e) proc" where
  "upd_toot p f w = and_then (update_at (toot_heap w) p f) (\<lambda>h. Ret (w\<lparr>toot_heap := h\<rparr>))"

definition kfree_toot :: "nat \<Rightarrow> ('i, 'e) proc" where
  "kfree_toot p w = and_then (free_at (toot_heap w) p) (\<lambda>h. Ret (w\<lparr>toot_heap := h\<rparr>))"

definition get_element :: "nat \<Rightarrow> ('i, 'e) world \<Rightarrow> element_store_t outcome" where
  "get_element p w = read_at (element_heap w) p"

definition upd_element :: "nat \<Rightarrow> (element_store_t \<Rightarrow> element_store_t) \<Rightarrow> ('i, 'e) proc" where
  "upd_element p f w = and_then (update_at (element_heap w) p f) (\<lambda>h. Ret (w\<lparr>element_heap := h\<rparr>))"

definition kfree_element :: "nat \<Rightarrow> ('i, 'e) proc" where
  "kfree_element p w = and_then (free_at (element_heap w) p) (\<lambda>h. Ret (w\<lparr>element_heap := h\<rparr>))"

lemmas heap_step_defs =
  read_at_def update_at_def free_at_def get_dev_def upd_dev_def kfree_dev_def get_toot_def
  upd_toot_def kfree_toot_def get_element_def upd_element_def kfree_element_def

text \<open>The semaphore of a device; a lock that is never released is a deadlock.\<close>

definition down_read :: "nat \<Rightarrow> ('i, 'e) proc" where
  "down_read p w =
     and_then (get_dev p w) (\<lambda>d.
       if d_sem d < 0 then Fault Deadlock else upd_dev p (\<lambda>d. d\<lparr>d_sem := d_sem d + 1\<rparr>) w)"

definition up_read :: "nat \<Rightarrow> ('i, 'e) proc" where
  "up_read p = upd_dev p (\<lambda>d. d\<lparr>d_sem := d_sem d - 1\<rparr>)"

definition down_write :: "nat \<Rightarrow> ('i, 'e) proc" where
  "down_write p w =
     and_then (get_dev p w) (\<lambda>d.
       if d_sem d \<noteq> 0 then Fault Deadlock else upd_dev p (\<lambda>d. d\<lparr>d_sem := - 1\<rparr>) w)"

definition up_write :: "nat \<Rightarrow> ('i, 'e) proc" where
  "up_write p = upd_dev p (\<lambda>d. d\<lparr>d_sem := 0\<rparr>)"

lemmas sem_defs = down_read_def up_read_def down_write_def up_write_def

text \<open>
  Calls of Linux that advance its state. A block from \<open>kmalloc\<close> is held until the object it is for has
  been written (\<open>settle\<close>) or it is given back; giving back what is not held is an error.
\<close>

definition kmalloc_object :: "('i, 'e) kernel \<Rightarrow> ('i, 'e, nat option) step" where
  "kmalloc_object K w =
     (let (r, e) = k_kmalloc_object K (live w) (kenv w) in
      Ret (r, w\<lparr>kenv := e, held := (case r of None \<Rightarrow> held w | Some p \<Rightarrow> Block p # held w)\<rparr>))"

definition settle :: "nat \<Rightarrow> ('i, 'e) world \<Rightarrow> ('i, 'e) world" where
  "settle p w = w\<lparr>held := remove1 (Block p) (held w)\<rparr>"

definition give_back :: "resource \<Rightarrow> ('i, 'e) proc" where
  "give_back r w =
     (if r \<in> set (held w) then Ret (w\<lparr>held := remove1 r (held w)\<rparr>) else Fault Use_after_free)"

text \<open>
  \<open>idr_for_each_entry\<close>: from the first entry at \<open>from\<close> on, run the body, then go on behind its
  id. The ids are 32 bits wide; \<open>fuel\<close> bounds the number of rounds.
\<close>

function for_each_entry ::
    "nat \<Rightarrow> (('i, 'e) world \<Rightarrow> u32 \<Rightarrow> (u32 \<times> nat) option) \<Rightarrow> (u32 \<Rightarrow> nat \<Rightarrow> ('i, 'e) proc) \<Rightarrow> u32 \<Rightarrow>
     ('i, 'e) proc" where
  "for_each_entry fuel nxt body from w =
     (case nxt w from of
        None \<Rightarrow> Ret w
      | Some (k, p) \<Rightarrow>
          if fuel = 0 then Fault Diverged
          else and_then (body k p w) (\<lambda>w. for_each_entry (fuel - 1) nxt body (k + 1) w))"
  by pat_completeness auto
termination by (relation "measure (\<lambda>(fuel, _). fuel)") auto

declare for_each_entry.simps [simp del]

definition IDS :: nat where "IDS = 4294967296"

end
