(* ===== verification/Driver_Store.thy ===== *)
theory Driver_Store
  imports Driver_Kernel
begin

text \<open>
  The store of the module: devices (\<open>device_store.c\<close>), toots (\<open>toot_store.c\<close>) and elements
  (\<open>element_store.c\<close>), each an object in the heap with its pointer in an \<open>idr\<close>. A function with
  an output parameter returns an option: \<open>None\<close> is \<open>false\<close>.
\<close>

subsection \<open>Devices\<close>

definition find_device :: "('i, 'e) kernel \<Rightarrow> u32 \<Rightarrow> ('i, 'e) world \<Rightarrow> nat option" where
  "find_device K device_id w = k_idr_find K (devices w) device_id"

definition find_toot :: "('i, 'e) kernel \<Rightarrow> u32 \<Rightarrow> ('i, 'e) world \<Rightarrow> nat option" where
  "find_toot K toot_id w = k_idr_find K (toots w) toot_id"

definition find_element :: "('i, 'e) kernel \<Rightarrow> u32 \<Rightarrow> ('i, 'e) world \<Rightarrow> nat option" where
  "find_element K element_id w = k_idr_find K (elements w) element_id"

definition check_device_ready :: "('i, 'e) kernel \<Rightarrow> u32 \<Rightarrow> ('i, 'e, bool) step" where
  "check_device_ready K device_id w =
     (case find_device K device_id w of
        None \<Rightarrow> Ret (False, add_error ''check_device_ready: canot find device_id'' [] w)
      | Some device \<Rightarrow>
          and_then (down_read device w) (\<lambda>w.
          and_then (get_dev device w) (\<lambda>d.
            let (result, w) =
                  (if \<not> d_is_ready d then (False, add_error ''check_device_ready: device is not ready'' [] w)
                   else (True, w))
            in and_then (up_read device w) (\<lambda>w. Ret (result, w)))))"

definition set_device_ready :: "('i, 'e) kernel \<Rightarrow> u32 \<Rightarrow> ('i, 'e) proc" where
  "set_device_ready K device_id w =
     (case find_device K device_id w of
        None \<Rightarrow> Ret w
      | Some device \<Rightarrow>
          and_then (down_write device w) (\<lambda>w.
          and_then (upd_dev device (\<lambda>d. d\<lparr>d_is_ready := True\<rparr>) w) (up_write device)))"

definition get_device_pid :: "('i, 'e) kernel \<Rightarrow> u32 \<Rightarrow> ('i, 'e, u32 option) step" where
  "get_device_pid K device_id w =
     (case find_device K device_id w of
        None \<Rightarrow> Ret (None, add_error ''get_device_pid: cannot found device %d'' [device_id] w)
      | Some device \<Rightarrow> and_then (get_dev device w) (\<lambda>d. Ret (Some (d_pid d), w)))"

text \<open>
  \<open>strlen\<close> and \<open>strcpy\<close> of the device name. The block has room for the characters; the terminator
  goes one behind them, which is inside the block only when the allocator gave more than was asked.
\<close>

definition MKDEV :: "u32 \<Rightarrow> u32 \<Rightarrow> u32" where
  "MKDEV major minor = push_bit 20 major OR minor"

definition add_device :: "('i, 'e) kernel \<Rightarrow> u32 \<Rightarrow> u32 \<Rightarrow> bytes \<Rightarrow> ('i, 'e, u32 option) step" where
  "add_device K pid uid name w =
     and_then (mpack_strlen name) (\<lambda>len.
       case k_kmalloc K (live w) len (kenv w) of
         (None, e) \<Rightarrow> Ret (None, add_error ''add_device: fail name allocation'' [] (w\<lparr>kenv := e\<rparr>))
       | (Some (memorize_name, room), e) \<Rightarrow>
           if len + 1 > room then Fault Oob_write
           else
             let w = w\<lparr>kenv := e, name_heap := (name_heap w)(memorize_name \<mapsto> take (len + 1) name)\<rparr>;
                 ((allocate_result, device_id, idr), e) =
                   k_idr_alloc K (devices w) (miner_min w) (miner_max w) (kenv w);
                 w = w\<lparr>kenv := e, devices := idr\<rparr>
             in
             if allocate_result \<noteq> 0 then
               and_then (free_at (name_heap w) memorize_name) (\<lambda>h.
                 Ret (None, add_error ''add_device: fail device id allocation'' [] (w\<lparr>name_heap := h\<rparr>)))
             else
               and_then (kmalloc_object K w) (\<lambda>(r, w).
                 case r of
                   None \<Rightarrow>
                     and_then (free_at (name_heap w) memorize_name) (\<lambda>h.
                       Ret (None, add_error ''add_device: fail device allocation'' []
                         (w\<lparr>name_heap := h, devices := k_idr_remove K (devices w) device_id\<rparr>)))
                 | Some device \<Rightarrow>
                     Ret (Some device_id, settle device (
                       w\<lparr>dev_heap := (dev_heap w)(device \<mapsto>
                           \<lparr>d_device_id = device_id, d_pid = pid, d_uid = uid, d_name = memorize_name,
                            d_dev = MKDEV (device_major w) device_id, d_sem = 0,
                            d_is_ready = False, d_is_attached = False\<rparr>),
                         devices := k_idr_replace K (devices w) device device_id\<rparr>))))"

text \<open>\<open>cdev_device_add\<close> failing leaves the semaphore write-locked.\<close>

definition attach_device_class :: "('i, 'e) kernel \<Rightarrow> u32 \<Rightarrow> ('i, 'e, bool) step" where
  "attach_device_class K device_id w =
     (case find_device K device_id w of
        None \<Rightarrow> Ret (False, add_error ''attach_device_class: canot find device id'' [] w)
      | Some device \<Rightarrow>
          and_then (down_write device w) (\<lambda>w.
          and_then (get_dev device w) (\<lambda>d.
          and_then (read_at (name_heap w) (d_name d)) (\<lambda>name.
            let (error, e) = k_cdev_device_add K (d_dev d) name (kenv w); w = w\<lparr>kenv := e\<rparr> in
            if error \<noteq> 0 then Ret (False, add_error ''attach_device_class: fail device add'' [] w)
            else
              and_then (upd_dev device (\<lambda>d. d\<lparr>d_is_attached := True\<rparr>)
                          (w\<lparr>cdevs := insert device (cdevs w)\<rparr>)) (\<lambda>w.
              and_then (up_write device w) (\<lambda>w. Ret (True, w)))))))"

definition detach_device_class :: "('i, 'e) kernel \<Rightarrow> u32 \<Rightarrow> ('i, 'e) proc" where
  "detach_device_class K device_id w =
     (case find_device K device_id w of
        None \<Rightarrow> Ret w
      | Some device \<Rightarrow>
          and_then (down_write device w) (\<lambda>w.
          and_then (get_dev device w) (\<lambda>d.
          and_then
            (if d_is_attached d
             then upd_dev device (\<lambda>d. d\<lparr>d_is_attached := False\<rparr>)
                    (w\<lparr>kenv := k_cdev_device_del K (d_dev d) (kenv w), cdevs := cdevs w - {device}\<rparr>)
             else Ret w)
            (up_write device))))"

subsection \<open>Toots and elements: lookups\<close>

text \<open>An object can be used in three of its states, and only while its device is ready.\<close>

definition check_toot_ready :: "('i, 'e) kernel \<Rightarrow> u32 \<Rightarrow> ('i, 'e, bool) step" where
  "check_toot_ready K toot_id w =
     (case find_toot K toot_id w of
        None \<Rightarrow> Ret (False, add_error ''check_toot_ready: canot find id. toot id: %d'' [toot_id] w)
      | Some toot \<Rightarrow>
          and_then (get_toot toot w) (\<lambda>t.
            if t_state t \<noteq> OPEND
            then Ret (False, add_error ''check_toot_ready: toot is not ready. toot id: %d'' [toot_id] w)
            else check_device_ready K (t_device_id t) w))"

definition get_toot_when_ready :: "('i, 'e) kernel \<Rightarrow> u32 \<Rightarrow> ('i, 'e, nat option) step" where
  "get_toot_when_ready K toot_id w =
     (case find_toot K toot_id w of
        None \<Rightarrow> Ret (None, add_error ''get_toot_when_ready: canot find toot id. toot id: %d'' [toot_id] w)
      | Some toot \<Rightarrow>
          and_then (get_toot toot w) (\<lambda>t.
            if \<not> (t_state t = OPEN_RESULT_WAIT \<or> t_state t = OPEND \<or> t_state t = CLOSE_RESULT_WAIT)
            then Ret (None, add_error ''get_toot_when_ready: toot is not ready. toot id: %d'' [toot_id] w)
            else
              and_then (check_device_ready K (t_device_id t) w) (\<lambda>(ready, w).
                if \<not> ready
                then Ret (None, add_error ''get_toot_when_ready: device is not ready. toot id: %d'' [toot_id] w)
                else Ret (Some toot, w))))"

definition get_element_when_ready :: "('i, 'e) kernel \<Rightarrow> u32 \<Rightarrow> ('i, 'e, nat option) step" where
  "get_element_when_ready K element_id w =
     (case find_element K element_id w of
        None \<Rightarrow> Ret (None, add_error ''get_element_when_ready: canot find element id. element id: %d'' [element_id] w)
      | Some element \<Rightarrow>
          and_then (get_element element w) (\<lambda>el.
            if \<not> (e_state el = ELEMENT_READY \<or> e_state el = ELEMENT_SEND_WAIT)
            then Ret (None, add_error ''get_element_when_ready: element is not ready. element id: %d'' [element_id] w)
            else
              and_then (check_toot_ready K (e_toot_id el) w) (\<lambda>(ready, w).
                if \<not> ready
                then Ret (None, add_error ''get_element_when_ready: toot is not ready. toot id: %d, element id: %d''
                       [e_toot_id el, element_id] w)
                else Ret (Some element, w))))"

subsection \<open>Elements\<close>

text \<open>The message for the result of \<open>idr_alloc_u32\<close>: \<open>-ENOMEM\<close>, \<open>-ENOSPC\<close> or another error.\<close>

definition allocate_error :: "string \<Rightarrow> int \<Rightarrow> string" where
  "allocate_error what result =
     ''canot allocate '' @ what @
     (if result = - 12 then ''. because no memory'' else if result = - 28 then ''. because no id space''
      else ''. because something worng'')"

definition INT_MAX :: u32 where "INT_MAX = 2147483647"

definition add_element :: "('i, 'e) kernel \<Rightarrow> u32 \<Rightarrow> ('i, 'e, (u32 \<times> u32) option) step" where
  "add_element K toot_id w =
     and_then (check_toot_ready K toot_id w) (\<lambda>(ready, w).
       if \<not> ready then Ret (None, add_error ''add_element: toot is not ready. toot id: %d'' [toot_id] w)
       else
         let ((allocate_result, id', idr), e) = k_idr_alloc K (elements w) 0 INT_MAX (kenv w);
             w = w\<lparr>kenv := e, elements := idr\<rparr>
         in
         if allocate_result \<noteq> 0
         then Ret (None, add_error (''add_element: '' @ allocate_error ''element'' allocate_result @ ''. toot id: %d'') [toot_id] w)
         else
           and_then (kmalloc_object K w) (\<lambda>(r, w).
             case r of
               None \<Rightarrow>
                 Ret (None, add_error ''add_element: canot allocate element. fail malloc. toot id: %d'' [toot_id]
                   (w\<lparr>elements := k_idr_remove K (elements w) id'\<rparr>))
             | Some element \<Rightarrow>
                 (case find_toot K toot_id w of
                    None \<Rightarrow>
                      and_then (give_back (Block element) (w\<lparr>elements := k_idr_remove K (elements w) id'\<rparr>))
                        (\<lambda>w. Ret (None, add_error ''add_element: canot find toot. toot id: %d'' [toot_id] w))
                  | Some toot \<Rightarrow>
                      and_then (upd_toot toot (\<lambda>t. t\<lparr>t_element_count := t_element_count t + 1\<rparr>) w) (\<lambda>w.
                      and_then (get_toot toot w) (\<lambda>t.
                        let index = t_element_count t in
                        Ret (Some (id', index), settle element (
                          w\<lparr>element_heap := (element_heap w)(element \<mapsto>
                              \<lparr>e_element_id = id', e_toot_id = toot_id, e_state = ELEMENT_READY,
                               e_index = index\<rparr>),
                            elements := k_idr_replace K (elements w) element id'\<rparr>)))))))"

definition remove_element :: "('i, 'e) kernel \<Rightarrow> u32 \<Rightarrow> ('i, 'e) proc" where
  "remove_element K element_id w =
     (case find_element K element_id w of
        None \<Rightarrow> Ret w
      | Some element \<Rightarrow>
          and_then
            (upd_element element (\<lambda>el. el\<lparr>e_state := ELEMENT_CREANUPED\<rparr>)
               (w\<lparr>elements := k_idr_remove K (elements w) element_id\<rparr>))
            (kfree_element element))"

text \<open>
  \<open>wait_event_interruptible_timeout\<close>: when the condition holds there is no wait; otherwise the
  other threads run until a wake-up or the timeout, whichever comes first. The state is read
  again afterwards, through the same pointer.
\<close>

definition set_element_state :: "('i, 'e) kernel \<Rightarrow> element_state \<Rightarrow> u32 \<Rightarrow> ('i, 'e) proc" where
  "set_element_state K st element_id =
     with_local_err (\<lambda>w.
       and_then (get_element_when_ready K element_id w) (\<lambda>(r, w).
         case r of
           None \<Rightarrow> Ret w
         | Some element \<Rightarrow> upd_element element (\<lambda>el. el\<lparr>e_state := st\<rparr>) w))"

definition set_element_sent :: "('i, 'e) kernel \<Rightarrow> u32 \<Rightarrow> ('i, 'e) proc" where
  "set_element_sent K = set_element_state K ELEMENT_SENT"

definition set_element_failer :: "('i, 'e) kernel \<Rightarrow> u32 \<Rightarrow> ('i, 'e) proc" where
  "set_element_failer K = set_element_state K ELEMENT_ERROR"

definition wait_element_sent_or_failer :: "('i, 'e) kernel \<Rightarrow> u32 \<Rightarrow> ('i, 'e, bool) step" where
  "wait_element_sent_or_failer K element_id w =
     and_then (get_element_when_ready K element_id w) (\<lambda>(r, w).
       case r of
         None \<Rightarrow> Ret (False, add_error ''wait_element_sent_or_failer: canot find element. element id: %d'' [element_id] w)
       | Some element \<Rightarrow>
           and_then (get_element element w) (\<lambda>el.
             let w = (if e_state el = ELEMENT_SENT \<or> e_state el = ELEMENT_CREANUPED \<or>
                         e_state el = ELEMENT_ERROR then w else k_sleep K w) in
             and_then (get_element element w) (\<lambda>el.
               if e_state el \<noteq> ELEMENT_SENT
               then Ret (False, add_error ''wait_element_sent_or_failer: wake up with failure state. element id: %d state: %d''
                      [element_id, element_state_code (e_state el)] w)
               else Ret (True, w))))"

subsection \<open>Toots\<close>

text \<open>\<open>element_count\<close> is not set: it is what the allocated block holds.\<close>

definition add_toot :: "('i, 'e) kernel \<Rightarrow> u32 \<Rightarrow> ('i, 'e, u32 option) step" where
  "add_toot K device_id w =
     and_then (check_device_ready K device_id w) (\<lambda>(ready, w).
       if \<not> ready then Ret (None, w)
       else
         let ((allocate_result, id', idr), e) = k_idr_alloc K (toots w) 0 INT_MAX (kenv w);
             w = w\<lparr>kenv := e, toots := idr\<rparr>
         in
         if allocate_result \<noteq> 0 then Ret (None, add_error (''add_toot: '' @ allocate_error ''toot'' allocate_result) [] w)
         else
           and_then (kmalloc_object K w) (\<lambda>(r, w).
             case r of
               None \<Rightarrow>
                 Ret (None, add_error ''add_toot: canot allocate toot. fail malloc'' []
                   (w\<lparr>toots := k_idr_remove K (toots w) id'\<rparr>))
             | Some toot \<Rightarrow>
                 Ret (Some id', settle toot (
                   w\<lparr>toot_heap := (toot_heap w)(toot \<mapsto>
                       \<lparr>t_toot_id = id', t_device_id = device_id, t_state = OPEN_RESULT_WAIT,
                        t_element_count = k_word K (kenv w)\<rparr>),
                     toots := k_idr_replace K (toots w) toot id'\<rparr>))))"

definition remove_element_of :: "('i, 'e) kernel \<Rightarrow> u32 \<Rightarrow> u32 \<Rightarrow> nat \<Rightarrow> ('i, 'e) proc" where
  "remove_element_of K toot_id element_id element w =
     and_then (get_element element w) (\<lambda>el.
       if e_toot_id el = toot_id then remove_element K element_id w else Ret w)"

definition remove_toot :: "('i, 'e) kernel \<Rightarrow> u32 \<Rightarrow> ('i, 'e) proc" where
  "remove_toot K toot_id w =
     (case find_toot K toot_id w of
        None \<Rightarrow> Ret w
      | Some toot \<Rightarrow>
          and_then (upd_toot toot (\<lambda>t. t\<lparr>t_state := DESTROYED\<rparr>) w) (\<lambda>w.
          and_then
            (for_each_entry IDS (\<lambda>w. k_idr_get_next K (elements w)) (remove_element_of K toot_id) 0 w)
            (\<lambda>w. kfree_toot toot (w\<lparr>toots := k_idr_remove K (toots w) toot_id\<rparr>))))"

definition set_toot_state ::
    "('i, 'e) kernel \<Rightarrow> string option \<Rightarrow> toot_state \<Rightarrow> u32 \<Rightarrow> ('i, 'e) proc" where
  "set_toot_state K reporter st toot_id =
     with_local_err (\<lambda>w.
       and_then (get_toot_when_ready K toot_id w) (\<lambda>(r, w).
         case r of
           None \<Rightarrow>
             Ret (case reporter of
                    None \<Rightarrow> w
                  | Some func \<Rightarrow> add_error (func @ '': canot find toot id. toot id: %d'') [toot_id] w)
         | Some toot \<Rightarrow> upd_toot toot (\<lambda>t. t\<lparr>t_state := st\<rparr>) w))"

definition set_toot_failer :: "('i, 'e) kernel \<Rightarrow> u32 \<Rightarrow> ('i, 'e) proc" where
  "set_toot_failer K = set_toot_state K None TOOT_ERROR"

definition set_toot_ready :: "('i, 'e) kernel \<Rightarrow> u32 \<Rightarrow> ('i, 'e) proc" where
  "set_toot_ready K = set_toot_state K (Some ''set_toot_ready'') OPEND"

definition set_toot_sent :: "('i, 'e) kernel \<Rightarrow> u32 \<Rightarrow> ('i, 'e) proc" where
  "set_toot_sent K = set_toot_state K (Some ''set_toot_sent'') DESTROYED"

definition wait_toot ::
    "('i, 'e) kernel \<Rightarrow> string \<Rightarrow> toot_state set \<Rightarrow> toot_state \<Rightarrow> u32 \<Rightarrow> ('i, 'e, bool) step" where
  "wait_toot K func awaited success toot_id w =
     and_then (get_toot_when_ready K toot_id w) (\<lambda>(r, w).
       case r of
         None \<Rightarrow> Ret (False, add_error (func @ '': canot find toot id. toot id: %d'') [toot_id] w)
       | Some toot \<Rightarrow>
           and_then (get_toot toot w) (\<lambda>t.
             let w = (if t_state t \<in> awaited then w else k_sleep K w) in
             and_then (get_toot toot w) (\<lambda>t.
               if t_state t \<noteq> success
               then Ret (False, add_error (func @ '': wake up with failure state. toot id: %d state: %d'')
                      [toot_id, toot_state_code (t_state t)] w)
               else Ret (True, w))))"

definition wait_toot_ready_or_failer :: "('i, 'e) kernel \<Rightarrow> u32 \<Rightarrow> ('i, 'e, bool) step" where
  "wait_toot_ready_or_failer K =
     wait_toot K ''wait_toot_ready_or_failer'' {OPEND, DESTROYED, TOOT_ERROR} OPEND"

definition wait_toot_sent_or_failer :: "('i, 'e) kernel \<Rightarrow> u32 \<Rightarrow> ('i, 'e, bool) step" where
  "wait_toot_sent_or_failer K =
     wait_toot K ''wait_toot_sent_or_failer'' {DESTROYED, TOOT_ERROR} DESTROYED"

definition get_device_id_from_toot :: "('i, 'e) kernel \<Rightarrow> u32 \<Rightarrow> ('i, 'e, u32 option) step" where
  "get_device_id_from_toot K toot_id w =
     and_then (get_toot_when_ready K toot_id w) (\<lambda>(r, w).
       case r of
         None \<Rightarrow> Ret (None, add_error ''get_device_id_from_toot: toot not ready. toot id: %d'' [toot_id] w)
       | Some toot \<Rightarrow>
           and_then (get_toot toot w) (\<lambda>t.
             case find_device K (t_device_id t) w of
               None \<Rightarrow> Ret (None, add_error ''get_device_id_from_toot: canot find device id. toot id: %d'' [t_device_id t] w)
             | Some _ \<Rightarrow> Ret (Some (t_device_id t), w)))"

definition get_device_pid_from_toot :: "('i, 'e) kernel \<Rightarrow> u32 \<Rightarrow> ('i, 'e, u32 option) step" where
  "get_device_pid_from_toot K toot_id w =
     and_then (get_toot_when_ready K toot_id w) (\<lambda>(r, w).
       case r of
         None \<Rightarrow> Ret (None, add_error ''get_device_pid_from_toot: toot not ready. toot id: %d'' [toot_id] w)
       | Some toot \<Rightarrow>
           and_then (get_toot toot w) (\<lambda>t.
           and_then (get_device_pid K (t_device_id t) w) (\<lambda>(pid, w).
             case pid of
               None \<Rightarrow> Ret (None, add_error ''get_device_pid_from_toot: cannot get pid. toot id: %d device id: %d''
                        [toot_id, t_device_id t] w)
             | Some pid \<Rightarrow> Ret (Some pid, w))))"

subsection \<open>Removing a device\<close>

definition remove_toot_of :: "('i, 'e) kernel \<Rightarrow> u32 \<Rightarrow> u32 \<Rightarrow> nat \<Rightarrow> ('i, 'e) proc" where
  "remove_toot_of K device_id toot_id toot w =
     and_then (get_toot toot w) (\<lambda>t.
       if t_device_id t = device_id then remove_toot K toot_id w else Ret w)"

definition remove_device :: "('i, 'e) kernel \<Rightarrow> u32 \<Rightarrow> ('i, 'e) proc" where
  "remove_device K device_id w =
     (case find_device K device_id w of
        None \<Rightarrow> Ret w
      | Some device \<Rightarrow>
          and_then (down_write device w) (\<lambda>w.
          and_then (upd_dev device (\<lambda>d. d\<lparr>d_is_ready := False\<rparr>) w) (\<lambda>w.
          and_then (up_write device w) (\<lambda>w.
          and_then
            (for_each_entry IDS (\<lambda>w. k_idr_get_next K (toots w)) (remove_toot_of K device_id) 0 w)
            (\<lambda>w. kfree_dev device (w\<lparr>devices := k_idr_remove K (devices w) device_id\<rparr>))))))"

end
