(* ===== verification/Driver_Communicator.thy ===== *)
theory Driver_Communicator
  imports Cremona_Serializer
begin

text \<open>
  The interface between the portable part of the driver and what carries its messages
  (\<open>communicator.c\<close>): a table of functions and an object to call them on, each of which may be
  NULL. \<open>'s\<close> is the state the functions work on.
\<close>

type_synonym 's report = "string \<Rightarrow> u32 list \<Rightarrow> 's \<Rightarrow> 's"   \<comment> \<open>\<open>ADD_ERROR\<close>\<close>
type_synonym ('s, 'a) call = "'s \<Rightarrow> ('a \<times> 's) outcome"

record 's communicator_t =
  com_send_message :: "(nat \<Rightarrow> u32 \<Rightarrow> nat \<Rightarrow> crmna_buf \<Rightarrow> ('s, bool) call) option"
  com_free :: "(nat option \<Rightarrow> 's \<Rightarrow> 's outcome) option"

record 's communicator_ref_t =
  ref_interface :: "'s communicator_t option"
  ref_obj :: "nat option"

text \<open>\<open>return -1\<close> converts to \<open>true\<close>: an incomplete reference reports success.\<close>

definition communicator_send_message ::
    "'s report \<Rightarrow> 's communicator_ref_t option \<Rightarrow> u32 \<Rightarrow> nat \<Rightarrow> crmna_buf \<Rightarrow> ('s, bool) call" where
  "communicator_send_message report ref pid ty data s =
     (case ref of
        None \<Rightarrow> Ret (True, report ''communicator_send_message: reference is null'' [] s)
      | Some ref \<Rightarrow>
        (case ref_interface ref of
           None \<Rightarrow> Ret (True, report ''communicator_send_message: interface is null'' [] s)
         | Some interface \<Rightarrow>
           (case ref_obj ref of
              None \<Rightarrow> Ret (True, report ''communicator_send_message: interface reference is null'' [] s)
            | Some obj \<Rightarrow>
              (case com_send_message interface of
                 None \<Rightarrow> Ret (True, report ''communicator_send_message: function pointer \"send_message\" is null'' [] s)
               | Some send \<Rightarrow> send obj pid ty data s))))"

definition clear_communicator_ref :: "'s communicator_ref_t \<Rightarrow> 's communicator_ref_t" where
  "clear_communicator_ref ref = ref\<lparr>ref_interface := None, ref_obj := None\<rparr>"

text \<open>\<open>free\<close> is called without a check of the function pointer.\<close>

definition communicator_free ::
    "'s communicator_ref_t option \<Rightarrow> ('s, 's communicator_ref_t option) call" where
  "communicator_free ref s =
     (case ref of
        None \<Rightarrow> Ret (None, s)
      | Some ref \<Rightarrow>
          and_then
            (case ref_interface ref of
               None \<Rightarrow> Ret s
             | Some interface \<Rightarrow>
                 (case com_free interface of
                    None \<Rightarrow> Fault Null_deref
                  | Some free_obj \<Rightarrow> free_obj (ref_obj ref) s))
            (\<lambda>s. Ret (Some (ref\<lparr>ref_interface := None, ref_obj := None\<rparr>), s)))"

end
