(* ===== verification/Driver_Handlers.thy ===== *)
theory Driver_Handlers
  imports Driver_Communicator
begin

text \<open>
  The portable part of the driver: what it does for an action (\<open>device.c\<close>, \<open>toot.c\<close>), how a message
  of the daemon becomes an action, and the dispatch (\<open>dispatch.c\<close>). It reaches the store only
  through the functions that \<open>central_store.h\<close> declares; these are the record \<open>store_ops\<close>, over a
  state \<open>'s\<close> that holds the store and the caller's error object. A function with an output
  parameter returns an option: \<open>None\<close> is \<open>false\<close>.
\<close>

subsection \<open>The store as the handlers see it\<close>

record 's store_ops =
  op_add_error :: "'s report"
  op_add_device :: "u32 \<Rightarrow> u32 \<Rightarrow> bytes \<Rightarrow> ('s, u32 option) call"
  op_remove_device :: "u32 \<Rightarrow> 's \<Rightarrow> 's outcome"
  op_attach_device_class :: "u32 \<Rightarrow> ('s, bool) call"
  op_detach_device_class :: "u32 \<Rightarrow> 's \<Rightarrow> 's outcome"
  op_check_device_ready :: "u32 \<Rightarrow> ('s, bool) call"
  op_set_device_ready :: "u32 \<Rightarrow> 's \<Rightarrow> 's outcome"
  op_get_device_pid :: "u32 \<Rightarrow> ('s, u32 option) call"
  op_get_communicator :: "'s \<Rightarrow> 's communicator_ref_t"
  op_add_toot :: "u32 \<Rightarrow> ('s, u32 option) call"
  op_remove_toot :: "u32 \<Rightarrow> 's \<Rightarrow> 's outcome"
  op_wait_toot_ready_or_failer :: "u32 \<Rightarrow> ('s, bool) call"
  op_wait_toot_sent_or_failer :: "u32 \<Rightarrow> ('s, bool) call"
  op_set_toot_failer :: "u32 \<Rightarrow> 's \<Rightarrow> 's outcome"
  op_set_toot_ready :: "u32 \<Rightarrow> 's \<Rightarrow> 's outcome"
  op_set_toot_sent :: "u32 \<Rightarrow> 's \<Rightarrow> 's outcome"
  op_get_device_id_from_toot :: "u32 \<Rightarrow> ('s, u32 option) call"
  op_get_device_pid_from_toot :: "u32 \<Rightarrow> ('s, u32 option) call"
  op_add_element :: "u32 \<Rightarrow> ('s, (u32 \<times> u32) option) call"
  op_remove_element :: "u32 \<Rightarrow> 's \<Rightarrow> 's outcome"
  op_wait_element_sent_or_failer :: "u32 \<Rightarrow> ('s, bool) call"
  op_set_element_sent :: "u32 \<Rightarrow> 's \<Rightarrow> 's outcome"
  op_set_element_failer :: "u32 \<Rightarrow> 's \<Rightarrow> 's outcome"
  op_stack :: "nat \<Rightarrow> 's \<Rightarrow> bytes"                    \<comment> \<open>uninitialised bytes of a frame\<close>
  op_nodes :: "'s \<Rightarrow> mpack_node_data list"
  op_word :: "'s \<Rightarrow> u32"

subsection \<open>Actions\<close>

text \<open>
  An \<open>action_t\<close> is an enum and a union of payloads. Two payloads carry a word that nobody stores:
  the \<open>element_id\<close> of an element result, and the word behind the only field of \<open>send_toot\<close>, at the
  offset of \<open>create_toot_result.toot_id\<close>.
\<close>

record get_health_payload =
  gp_device_id :: u32
  gp_pid :: u32

record create_device_payload =
  cp_pid :: u32
  cp_uid :: u32
  cp_name :: bytes                    \<comment> \<open>\<open>char name[50]\<close>\<close>

record 's create_toot_payload =
  tp_device_id :: u32
  tp_set_toot_id :: "u32 \<Rightarrow> nat \<Rightarrow> ('s, bool) call"
  tp_set_toot_id_context :: nat

record create_toot_result_payload =
  rp_pid :: u32
  rp_device_id :: u32
  rp_toot_id :: u32
  rp_result :: u32

record add_toot_element_payload =
  ap_toot_id :: u32
  ap_text :: crmna_buf

record add_toot_element_result_payload =
  ep_pid :: u32
  ep_device_id :: u32
  ep_toot_id :: u32
  ep_element_id :: u32
  ep_result :: u32

record send_toot_payload =
  sp_toot_id :: u32
  sp_word_8 :: u32

record send_toot_result_payload =
  qp_pid :: u32
  qp_device_id :: u32
  qp_toot_id :: u32
  qp_result :: u32

record destroy_device_payload =
  dp_pid :: u32
  dp_device_id :: u32

datatype 's action =
    CREATE_DEVICE create_device_payload
  | CREATE_TOOT "'s create_toot_payload"
  | CREATE_TOOT_RESULT create_toot_result_payload
  | ADD_TOOT_ELEMENT add_toot_element_payload
  | ADD_TOOT_ELEMENT_RESULT add_toot_element_result_payload
  | SEND_TOOT send_toot_payload
  | SEND_TOOT_RESULT send_toot_result_payload
  | DESTROY_DEVICE destroy_device_payload
  | GET_HEALTH get_health_payload
  | OTHER_ACTION u32                  \<comment> \<open>a value outside the enum\<close>

type_synonym 's handler = "'s store_ops \<Rightarrow> 's \<Rightarrow> (bool \<times> 's) outcome"

text \<open>A buffer of the handler's frame, and a message through the communicator of the store.\<close>

definition local_buf :: "'s store_ops \<Rightarrow> nat \<Rightarrow> 's \<Rightarrow> crmna_buf" where
  "local_buf D n s = DEFINE_CRMNA_BUF (op_stack D n s) n"

definition send :: "'s store_ops \<Rightarrow> u32 \<Rightarrow> nat \<Rightarrow> crmna_buf \<Rightarrow> ('s, bool) call" where
  "send D pid ty buf s =
     communicator_send_message (op_add_error D) (Some (op_get_communicator D s)) pid ty buf s"

subsection \<open>Devices\<close>

definition create_action_from_get_health_message ::
    "'s store_ops \<Rightarrow> u32 \<Rightarrow> crmna_buf \<Rightarrow> ('s, 's action option) call" where
  "create_action_from_get_health_message D pid message s =
     and_then (deserialize_get_health (op_nodes D s) message) (\<lambda>(ok, payload).
       if \<not> ok then Ret (None, s)
       else Ret (Some (GET_HEALTH \<lparr>gp_device_id = gh_device_id payload, gp_pid = pid\<rparr>), s))"

definition get_health :: "get_health_payload \<Rightarrow> 's handler" where
  "get_health p D s =
     and_then (op_get_device_pid D (gp_device_id p) s) (\<lambda>(pid, s).
     and_then
       (if pid = Some (gp_pid p) then op_check_device_ready D (gp_device_id p) s else Ret (False, s))
       (\<lambda>(status, s).
     and_then (serialize_get_health_result \<lparr>ghr_device_id = gp_device_id p, ghr_status = status\<rparr>
                 (local_buf D 10 s)) (\<lambda>(ok, buf).
       if \<not> ok then Ret (False, s)
       else
         and_then (send D (gp_pid p) CRMNA_GET_HEALTH_RESULT buf s) (\<lambda>(sent, s).
           if \<not> sent then Ret (False, s) else Ret (True, s)))))"

text \<open>\<open>strncpy\<close> into an array of \<open>n\<close> bytes: up to the terminator, and zeros for the rest.\<close>

definition strncpy :: "bytes \<Rightarrow> nat \<Rightarrow> bytes" where
  "strncpy src n =
     (let s = takeWhile (\<lambda>c. c \<noteq> 0) (take n src) in s @ replicate (n - length s) 0)"

definition create_action_from_create_device_message ::
    "'s store_ops \<Rightarrow> u32 \<Rightarrow> crmna_buf \<Rightarrow> ('s, 's action option) call" where
  "create_action_from_create_device_message D pid message s =
     and_then (deserialize_create_conn (op_nodes D s) (op_stack D 50 s) message) (\<lambda>(ok, payload).
       if \<not> ok then Ret (None, s)
       else Ret (Some (CREATE_DEVICE \<lparr>cp_pid = pid, cp_uid = cd_uid payload,
                                      cp_name = strncpy (cd_name payload) 50\<rparr>), s))"

definition create_device :: "create_device_payload \<Rightarrow> 's handler" where
  "create_device p D s =
     and_then (op_add_device D (cp_pid p) (cp_uid p) (cp_name p) s) (\<lambda>(device_id, s).
       case device_id of
         None \<Rightarrow> Ret (False, s)
       | Some device_id \<Rightarrow>
           and_then (op_attach_device_class D device_id s) (\<lambda>(attached, s).
             if \<not> attached
             then and_then (op_remove_device D device_id s) (\<lambda>s. Ret (False, s))
             else
               let give_up = (\<lambda>s. and_then (op_detach_device_class D device_id s) (\<lambda>s.
                                  and_then (op_remove_device D device_id s) (\<lambda>s. Ret (False, s)))) in
               and_then (serialize_create_device_result \<lparr>cdr_id = device_id\<rparr> (local_buf D 10 s))
                 (\<lambda>(ok, buf).
                   if \<not> ok then give_up s
                   else
                     and_then (send D (cp_pid p) CRMNA_CREATE_DEVICE_RESULT buf s) (\<lambda>(sent, s).
                       if \<not> sent then give_up s
                       else and_then (op_set_device_ready D device_id s) (\<lambda>s. Ret (True, s))))))"

definition create_action_from_destroy_device_message ::
    "'s store_ops \<Rightarrow> u32 \<Rightarrow> crmna_buf \<Rightarrow> ('s, 's action option) call" where
  "create_action_from_destroy_device_message D pid message s =
     and_then (deserialize_destroy_device (op_nodes D s) message) (\<lambda>(ok, payload).
       if \<not> ok then Ret (None, s)
       else Ret (Some (DESTROY_DEVICE \<lparr>dp_pid = pid, dp_device_id = dd_id payload\<rparr>), s))"

definition destroy_device :: "destroy_device_payload \<Rightarrow> 's handler" where
  "destroy_device p D s =
     (let device_id = dp_device_id p;
          give_up = (\<lambda>s. and_then (op_detach_device_class D device_id s) (\<lambda>s.
                         and_then (op_remove_device D device_id s) (\<lambda>s. Ret (False, s)))) in
      and_then (serialize_destroy_device_result \<lparr>ddr_id = device_id\<rparr> (local_buf D 10 s))
        (\<lambda>(ok, buf).
          if \<not> ok then give_up s
          else
            and_then (send D (dp_pid p) CRMNA_DESTROY_DEVICE_RESULT buf s) (\<lambda>(sent, s).
              if \<not> sent then give_up s
              else and_then (op_set_device_ready D device_id s) (\<lambda>s. Ret (True, s)))))"

subsection \<open>Toots\<close>

definition create_action_create_toot ::
    "u32 \<Rightarrow> (u32 \<Rightarrow> nat \<Rightarrow> ('s, bool) call) \<Rightarrow> nat \<Rightarrow> 's action" where
  "create_action_create_toot device_id set_id context_ptr =
     CREATE_TOOT \<lparr>tp_device_id = device_id, tp_set_toot_id = set_id,
                  tp_set_toot_id_context = context_ptr\<rparr>"

definition create_toot :: "'s create_toot_payload \<Rightarrow> 's handler" where
  "create_toot p D s =
     and_then (op_add_toot D (tp_device_id p) s) (\<lambda>(toot_id, s).
       case toot_id of
         None \<Rightarrow> Ret (False, s)
       | Some toot_id \<Rightarrow>
           let give_up = (\<lambda>s. and_then (op_remove_toot D toot_id s) (\<lambda>s. Ret (False, s))) in
           and_then (serialize_new_toot \<lparr>nt_toot_id = toot_id, nt_device_id = tp_device_id p\<rparr>
                       (local_buf D 10 s)) (\<lambda>(ok, buf).
             if \<not> ok then give_up s
             else
               and_then (op_get_device_pid_from_toot D toot_id s) (\<lambda>(pid, s).
                 case pid of
                   None \<Rightarrow> give_up s
                 | Some pid \<Rightarrow>
                     and_then (send D pid CRMNA_NEW_TOOT buf s) (\<lambda>(sent, s).
                       if \<not> sent then give_up s
                       else
                         and_then (op_wait_toot_ready_or_failer D toot_id s) (\<lambda>(ready, s).
                           if \<not> ready then give_up s
                           else
                             and_then (tp_set_toot_id p toot_id (tp_set_toot_id_context p) s)
                               (\<lambda>(stored, s). if \<not> stored then give_up s else Ret (True, s)))))))"

definition create_action_from_create_toot_result_message ::
    "'s store_ops \<Rightarrow> u32 \<Rightarrow> crmna_buf \<Rightarrow> ('s, 's action option) call" where
  "create_action_from_create_toot_result_message D pid message s =
     and_then (deserialize_new_toot_result (op_nodes D s) message) (\<lambda>(ok, payload).
       if \<not> ok then Ret (None, s)
       else Ret (Some (CREATE_TOOT_RESULT
                   \<lparr>rp_pid = pid, rp_device_id = ntr_device_id payload,
                    rp_toot_id = ntr_toot_id payload, rp_result = ntr_result payload\<rparr>), s))"

text \<open>The error entry names the values of the store as those of the request.\<close>

definition create_toot_result :: "create_toot_result_payload \<Rightarrow> 's handler" where
  "create_toot_result p D s =
     and_then (op_get_device_id_from_toot D (rp_toot_id p) s) (\<lambda>(device_id, s).
       case device_id of
         None \<Rightarrow> Ret (False, op_add_error D ''create_toot_result: Cannot convert toot id to device id. toot id: %d''
                        [rp_toot_id p] s)
       | Some device_id \<Rightarrow>
           and_then (op_get_device_pid_from_toot D (rp_toot_id p) s) (\<lambda>(pid, s).
             case pid of
               None \<Rightarrow> Ret (False, op_add_error D ''create_toot_result: cannot get pid'' [] s)
             | Some pid \<Rightarrow>
                 if pid \<noteq> rp_pid p \<or> device_id \<noteq> rp_device_id p
                 then Ret (False, op_add_error D
                        ''create_toot_result: not same pid and device id. req pid: %d, req devid: %d, store pid: %d, store devid: %d''
                        [pid, device_id, rp_pid p, rp_device_id p] s)
                 else if rp_result p \<noteq> 0
                 then and_then (op_set_toot_failer D (rp_toot_id p)
                        (op_add_error D ''create_toot_result: result is not null: %d'' [rp_result p] s))
                        (\<lambda>s. Ret (False, s))
                 else and_then (op_set_toot_ready D (rp_toot_id p) s) (\<lambda>s. Ret (True, s))))"

subsection \<open>Elements\<close>

definition create_action_add_toot_element :: "u32 \<Rightarrow> crmna_buf \<Rightarrow> 's action" where
  "create_action_add_toot_element toot_id text_buf =
     ADD_TOOT_ELEMENT \<lparr>ap_toot_id = toot_id, ap_text = text_buf\<rparr>"

definition add_toot_element :: "add_toot_element_payload \<Rightarrow> 's handler" where
  "add_toot_element p D s =
     and_then (op_add_element D (ap_toot_id p) s) (\<lambda>(r, s).
       case r of
         None \<Rightarrow> Ret (False, op_add_error D ''add_toot_element: cannot add element. toot id: %d'' [ap_toot_id p] s)
       | Some (element_id, index) \<Rightarrow>
           let give_up = (\<lambda>s. and_then (op_remove_element D element_id s) (\<lambda>s. Ret (False, s))) in
           and_then (op_get_device_id_from_toot D (ap_toot_id p) s) (\<lambda>(device_id, s).
             case device_id of
               None \<Rightarrow> Ret (False, op_add_error D ''add_toot_element: cannot get device id. toot id: %d'' [ap_toot_id p] s)
             | Some device_id \<Rightarrow>
                 and_then
                   (serialize_add_toot_element
                      \<lparr>att_toot_id = ap_toot_id p, att_device_id = device_id,
                       att_element_id = element_id, att_index = index,
                       att_text = Some (bbuf (ap_text p))\<rparr> (local_buf D 200 s)) (\<lambda>(ok, buf).
                   if \<not> ok then give_up (op_add_error D ''add_toot_element: cannot get serialize message.'' [] s)
                   else
                     and_then (op_get_device_pid_from_toot D (ap_toot_id p) s) (\<lambda>(pid, s).
                       case pid of
                         None \<Rightarrow> give_up (op_add_error D ''add_toot_element: cannot get pid. toot id: %d element id: %d''
                                   [ap_toot_id p, element_id] s)
                       | Some pid \<Rightarrow>
                           and_then (send D pid CRMNA_ADD_TOOT_TEXT buf s) (\<lambda>(sent, s).
                             if \<not> sent
                             then give_up (op_add_error D
                                    ''add_toot_element: cannot send message. toot id: %d element id: %d''
                                    [ap_toot_id p, element_id] s)
                             else
                               and_then (op_wait_element_sent_or_failer D element_id s) (\<lambda>(success, s).
                                 if \<not> success
                                 then give_up (op_add_error D
                                        ''add_toot_element: fail add element. toot id: %d element id: %d''
                                        [ap_toot_id p, element_id] s)
                                 else Ret (True, s)))))))"

text \<open>The payload's \<open>element_id\<close> is not taken from the message: it is the word the frame holds.\<close>

definition create_action_from_add_toot_element_result_message ::
    "'s store_ops \<Rightarrow> u32 \<Rightarrow> crmna_buf \<Rightarrow> ('s, 's action option) call" where
  "create_action_from_add_toot_element_result_message D pid message s =
     and_then (deserialize_add_toot_element_result (op_nodes D s) message) (\<lambda>(ok, payload).
       if \<not> ok then Ret (None, s)
       else Ret (Some (ADD_TOOT_ELEMENT_RESULT
                   \<lparr>ep_pid = pid, ep_device_id = atr_device_id payload,
                    ep_toot_id = atr_toot_id payload, ep_element_id = op_word D s,
                    ep_result = atr_result payload\<rparr>), s))"

definition add_toot_element_result :: "add_toot_element_result_payload \<Rightarrow> 's handler" where
  "add_toot_element_result p D s =
     and_then (op_get_device_id_from_toot D (ep_toot_id p) s) (\<lambda>(device_id, s).
       case device_id of
         None \<Rightarrow> Ret (False, op_add_error D ''add_toot_element_result: Cannot convert toot id to device id. toot id: %d''
                        [ep_toot_id p] s)
       | Some device_id \<Rightarrow>
           and_then (op_get_device_pid_from_toot D (ep_toot_id p) s) (\<lambda>(pid, s).
             case pid of
               None \<Rightarrow> Ret (False, op_add_error D ''add_toot_element_result: Cannot convert toot id to pid. toot id: %d''
                              [ep_toot_id p] s)
             | Some pid \<Rightarrow>
                 if pid = ep_pid p \<and> device_id \<noteq> ep_device_id p
                 then Ret (False, op_add_error D
                        ''add_toot_element_result: not same pid and device id. req pid: %d, req devid: %d, store pid: %d, store devid: %d''
                        [pid, device_id, ep_pid p, ep_device_id p] s)
                 else if sint (ep_result p) < 0
                 then and_then (op_set_element_failer D (ep_element_id p) s) (\<lambda>s.
                        Ret (True, op_add_error D ''add_toot_element_result: result is not null'' [] s))
                 else and_then (op_set_element_sent D (ep_element_id p) s) (\<lambda>s. Ret (True, s))))"

subsection \<open>Sending\<close>

definition create_action_send_toot :: "u32 \<Rightarrow> u32 \<Rightarrow> 's action" where
  "create_action_send_toot toot_id frame_word =
     SEND_TOOT \<lparr>sp_toot_id = toot_id, sp_word_8 = frame_word\<rparr>"

text \<open>The device is looked up for \<open>payload.create_toot_result.toot_id\<close>, the word nobody stored.\<close>

definition send_toot :: "send_toot_payload \<Rightarrow> 's handler" where
  "send_toot p D s =
     and_then (op_get_device_id_from_toot D (sp_word_8 p) s) (\<lambda>(device_id, s).
       case device_id of
         None \<Rightarrow> Ret (False, s)
       | Some device_id \<Rightarrow>
           let give_up = (\<lambda>s. and_then (op_remove_toot D (sp_toot_id p) s) (\<lambda>s. Ret (False, s))) in
           and_then (serialize_send_toot \<lparr>st_toot_id = sp_toot_id p, st_device_id = device_id\<rparr>
                       (local_buf D 10 s)) (\<lambda>(ok, buf).
             if \<not> ok then give_up s
             else
               and_then (op_get_device_pid_from_toot D (sp_toot_id p) s) (\<lambda>(pid, s).
                 case pid of
                   None \<Rightarrow> give_up s
                 | Some pid \<Rightarrow>
                     and_then (send D pid CRMNA_SEND_TOOT buf s) (\<lambda>(sent, s).
                       if \<not> sent then give_up s
                       else
                         and_then (op_wait_toot_sent_or_failer D (sp_toot_id p) s) (\<lambda>(success, s).
                           if \<not> success then give_up s
                           else
                             and_then (op_remove_toot D (sp_toot_id p) s) (\<lambda>s. Ret (True, s)))))))"

definition create_action_from_send_toot_result_message ::
    "'s store_ops \<Rightarrow> u32 \<Rightarrow> crmna_buf \<Rightarrow> ('s, 's action option) call" where
  "create_action_from_send_toot_result_message D pid message s =
     and_then (deserialize_send_toot_result (op_nodes D s) message) (\<lambda>(ok, payload).
       if \<not> ok then Ret (None, s)
       else Ret (Some (SEND_TOOT_RESULT
                   \<lparr>qp_pid = pid, qp_device_id = str_device_id payload,
                    qp_toot_id = str_toot_id payload, qp_result = str_result payload\<rparr>), s))"

definition send_toot_result :: "send_toot_result_payload \<Rightarrow> 's handler" where
  "send_toot_result p D s =
     and_then (op_get_device_id_from_toot D (qp_toot_id p) s) (\<lambda>(device_id, s).
       case device_id of
         None \<Rightarrow> Ret (False, s)
       | Some device_id \<Rightarrow>
           and_then (op_get_device_pid_from_toot D (qp_toot_id p) s) (\<lambda>(pid, s).
             case pid of
               None \<Rightarrow> Ret (False, s)
             | Some pid \<Rightarrow>
                 if pid = qp_pid p \<and> device_id \<noteq> qp_device_id p then Ret (False, s)
                 else
                   and_then
                     (if qp_result p \<noteq> 0 then op_set_toot_failer D (qp_toot_id p) s
                      else op_set_toot_sent D (qp_toot_id p) s)
                     (\<lambda>s. Ret (True, s))))"

subsection \<open>Dispatch\<close>

fun dispatch :: "'s store_ops \<Rightarrow> 's action \<Rightarrow> ('s, bool) call" where
  "dispatch D (CREATE_DEVICE p) s = create_device p D s"
| "dispatch D (CREATE_TOOT p) s = create_toot p D s"
| "dispatch D (CREATE_TOOT_RESULT p) s = create_toot_result p D s"
| "dispatch D (ADD_TOOT_ELEMENT p) s = add_toot_element p D s"
| "dispatch D (ADD_TOOT_ELEMENT_RESULT p) s = add_toot_element_result p D s"
| "dispatch D (SEND_TOOT p) s = send_toot p D s"
| "dispatch D (SEND_TOOT_RESULT p) s = send_toot_result p D s"
| "dispatch D (DESTROY_DEVICE p) s = destroy_device p D s"
| "dispatch D (GET_HEALTH p) s = get_health p D s"
| "dispatch D (OTHER_ACTION t) s = Ret (False, op_add_error D ''dispatch: Unknown action. type: %d'' [t] s)"

definition create_action_from_message ::
    "'s store_ops \<Rightarrow> nat \<Rightarrow> u32 \<Rightarrow> crmna_buf \<Rightarrow> ('s, 's action option) call" where
  "create_action_from_message D ty pid message s =
     (if ty = CRMNA_CREATE_DEVICE then create_action_from_create_device_message D pid message s
      else if ty = CRMNA_DESTROY_DEVICE then create_action_from_destroy_device_message D pid message s
      else if ty = CRMNA_NEW_TOOT_RESULT
      then create_action_from_create_toot_result_message D pid message s
      else if ty = CRMNA_ADD_TOOT_TEXT_RESULT
      then create_action_from_add_toot_element_result_message D pid message s
      else if ty = CRMNA_SEND_TOOT_RESULT
      then create_action_from_send_toot_result_message D pid message s
      else if ty = CRMNA_GET_HEALTH then create_action_from_get_health_message D pid message s
      else Ret (None, op_add_error D ''create_action_from_message: Unknown message type. type: %d'' [of_nat ty] s))"

end
