(* ===== verification/Driver_Module.thy ===== *)
theory Driver_Module
  imports Driver_Store Driver_Handlers
begin

text \<open>
  The kernel module around the handlers: netlink as the communicator (\<open>net_link_comm.c\<close>), the file
  operations of a toot (\<open>device_store.c\<close>), the store's life (\<open>store.c\<close>) and the module's entry and
  exit (\<open>main.c\<close>). The calls that write to the log are left out of the operations.
\<close>

subsection \<open>Netlink\<close>

text \<open>
  A message that cannot be allocated is not checked for. The other end gets the bytes of the buffer
  up to its used size.
\<close>

definition netlink_send_message ::
    "('i, 'e) kernel \<Rightarrow> nat \<Rightarrow> u32 \<Rightarrow> nat \<Rightarrow> crmna_buf \<Rightarrow> ('i, 'e, bool) step" where
  "netlink_send_message K obj pid ty buf w =
     (let netlink_size = bused_size buf; (allocated, e) = k_nlmsg_new K netlink_size (kenv w);
          w = w\<lparr>kenv := e\<rparr> in
      if \<not> allocated then Fault Null_deref
      else if netlink_size > length (bbuf buf) then Fault Oob_read
      else
        and_then (read_at (com_heap w) obj) (\<lambda>nl_sock.
          let msg = (pid, ty, take netlink_size (bbuf buf));
              (r, e) = k_nlmsg_unicast K nl_sock msg (kenv w); w = w\<lparr>kenv := e\<rparr> in
          if r < 0 then Ret (False, add_error ''send_message: send message error'' [] w)
          else Ret (True, w\<lparr>wsent := wsent w @ [msg]\<rparr>)))"

definition netlink_free :: "nat option \<Rightarrow> ('i, 'e) proc" where
  "netlink_free obj w =
     (case obj of
        None \<Rightarrow> Fault Null_deref
      | Some com \<Rightarrow>
          and_then (read_at (com_heap w) com) (\<lambda>nl_sock.
          and_then (give_back (Socket nl_sock) w) (\<lambda>w.
          and_then (free_at (com_heap w) com) (\<lambda>h. Ret (w\<lparr>com_heap := h\<rparr>)))))"

text \<open>A reference in the store, with its table of functions.\<close>

definition netlink_interface :: "('i, 'e) kernel \<Rightarrow> ('i, 'e) world communicator_t" where
  "netlink_interface K =
     \<lparr>com_send_message = Some (netlink_send_message K), com_free = Some netlink_free\<rparr>"

definition deref_com :: "('i, 'e) kernel \<Rightarrow> com_ref \<Rightarrow> ('i, 'e) world communicator_ref_t" where
  "deref_com K r =
     \<lparr>ref_interface = map_option (\<lambda>_. netlink_interface K) (c_interface r), ref_obj = c_obj r\<rparr>"

definition get_communicator :: "('i, 'e) kernel \<Rightarrow> ('i, 'e) world \<Rightarrow> ('i, 'e) world communicator_ref_t" where
  "get_communicator K w = deref_com K (communicator w)"

definition set_communicator :: "com_ref \<Rightarrow> ('i, 'e) world \<Rightarrow> ('i, 'e) world" where
  "set_communicator r w = w\<lparr>communicator := r\<rparr>"

subsection \<open>The store the handlers run on\<close>

definition module_ops :: "('i, 'e) kernel \<Rightarrow> ('i, 'e) world store_ops" where
  "module_ops K =
     \<lparr>op_add_error = add_error,
      op_add_device = add_device K,
      op_remove_device = remove_device K,
      op_attach_device_class = attach_device_class K,
      op_detach_device_class = detach_device_class K,
      op_check_device_ready = check_device_ready K,
      op_set_device_ready = set_device_ready K,
      op_get_device_pid = get_device_pid K,
      op_get_communicator = get_communicator K,
      op_add_toot = add_toot K,
      op_remove_toot = remove_toot K,
      op_wait_toot_ready_or_failer = wait_toot_ready_or_failer K,
      op_wait_toot_sent_or_failer = wait_toot_sent_or_failer K,
      op_set_toot_failer = set_toot_failer K,
      op_set_toot_ready = set_toot_ready K,
      op_set_toot_sent = set_toot_sent K,
      op_get_device_id_from_toot = get_device_id_from_toot K,
      op_get_device_pid_from_toot = get_device_pid_from_toot K,
      op_add_element = add_element K,
      op_remove_element = remove_element K,
      op_wait_element_sent_or_failer = wait_element_sent_or_failer K,
      op_set_element_sent = set_element_sent K,
      op_set_element_failer = set_element_failer K,
      op_stack = (\<lambda>n w. k_stack K n (kenv w)),
      op_nodes = (\<lambda>w. k_nodes K (kenv w)),
      op_word = (\<lambda>w. k_word K (kenv w))\<rparr>"

subsection \<open>File operations\<close>

text \<open>An error object of the function's own, which it drops.\<close>

definition with_err :: "('i, 'e, 'a) step \<Rightarrow> ('i, 'e, 'a) step" where
  "with_err f w = and_then (f (w\<lparr>werr := []\<rparr>)) (\<lambda>(r, w'). Ret (r, w'\<lparr>werr := werr w\<rparr>))"

definition EFAULT :: int where "EFAULT = 14"

definition set_toot_id :: "('i, 'e) kernel \<Rightarrow> u32 \<Rightarrow> nat \<Rightarrow> ('i, 'e, bool) step" where
  "set_toot_id K toot_id file w =
     and_then (kmalloc_object K w) (\<lambda>(data, w).
       case data of
         None \<Rightarrow> Ret (False, add_error ''set_toot_id: cannot allocate data'' [] w)
       | Some data \<Rightarrow>
           Ret (True, settle data (w\<lparr>data_heap := (data_heap w)(data \<mapsto> toot_id),
                                     private_data := (private_data w)(file \<mapsto> data)\<rparr>)))"

text \<open>\<open>device\<close> is the object around the \<open>i_cdev\<close> of the file's inode.\<close>

definition toot_open :: "('i, 'e) kernel \<Rightarrow> nat \<Rightarrow> nat \<Rightarrow> ('i, 'e, int) step" where
  "toot_open K device file =
     with_err (\<lambda>w.
       and_then (get_dev device w) (\<lambda>d.
       and_then (dispatch (module_ops K)
                   (create_action_create_toot (d_device_id d) (set_toot_id K) file) w) (\<lambda>(ok, w).
         if \<not> ok then Ret (- EFAULT, add_error ''toot_open: toot open fail'' [] w) else Ret (0, w))))"

definition toot_close :: "('i, 'e) kernel \<Rightarrow> nat \<Rightarrow> nat \<Rightarrow> ('i, 'e, int) step" where
  "toot_close K device file =
     with_err (\<lambda>w.
       case private_data w file of
         None \<Rightarrow> Ret (- EFAULT, w)
       | Some data \<Rightarrow>
           and_then (read_at (data_heap w) data) (\<lambda>toot_id.
           and_then (get_dev device w) (\<lambda>d.
           and_then (dispatch (module_ops K)
                       (create_action_send_toot toot_id (k_word K (kenv w))) w) (\<lambda>(ok, w).
           and_then (free_at (data_heap w) data) (\<lambda>h.
             let w = w\<lparr>data_heap := h\<rparr> in
             if \<not> ok then Ret (- EFAULT, add_error ''toot_close: toot close fail. toot id: %d'' [toot_id] w)
             else Ret (0, w))))))"

text \<open>
  The text goes through a zeroed buffer of 100 bytes, at most 99 of them from the user.
  \<open>copy_from_user\<close> gives the number of bytes it could not copy, and the bytes it did.
\<close>

definition toot_write :: "('i, 'e) kernel \<Rightarrow> nat \<Rightarrow> nat \<Rightarrow> nat \<Rightarrow> ('i, 'e, int) step" where
  "toot_write K device file count =
     with_err (\<lambda>w.
       case private_data w file of
         None \<Rightarrow> Ret (- EFAULT, w)
       | Some data \<Rightarrow>
           and_then (read_at (data_heap w) data) (\<lambda>toot_id.
             let cnt = (if count < 99 then count else 99);
                 ((left, copied), e) = k_copy_from_user K cnt (kenv w);
                 w = w\<lparr>kenv := e\<rparr>;
                 copied = take cnt copied;
                 stored_value = DEFINE_CRMNA_BUF (copied @ replicate (100 - length copied) 0) 100
             in
             if left \<noteq> 0 then Ret (- EFAULT, add_error ''toot_write: fail copy data'' [] w)
             else
               and_then (get_dev device w) (\<lambda>d.
               and_then (dispatch (module_ops K)
                           (create_action_add_toot_element toot_id stored_value) w) (\<lambda>(ok, w).
                 if \<not> ok then Ret (- EFAULT, add_error ''toot_write: toot close fail. toot id: %d'' [toot_id] w)
                 else Ret (int cnt, w)))))"

subsection \<open>Messages of the daemon\<close>

text \<open>
  \<open>mem\<close> is the memory behind \<open>nlmsg_data\<close>. The length is that of the whole netlink message, with
  its header, although the buffer starts behind the header.
\<close>

definition process_recive_data ::
    "('i, 'e) kernel \<Rightarrow> nat \<Rightarrow> nat \<Rightarrow> u32 \<Rightarrow> nat \<Rightarrow> bytes \<Rightarrow> ('i, 'e, int) step" where
  "process_recive_data K com nlmsg_type nlmsg_pid nlmsg_len mem =
     with_err (\<lambda>w.
       and_then (create_action_from_message (module_ops K) nlmsg_type nlmsg_pid
                   (DEFINE_CRMNA_BUF_FROM_MEMORY mem nlmsg_len) w) (\<lambda>(action, w).
         case action of
           None \<Rightarrow> Ret (1, add_error ''process_recive_data: recive message err create action'' [] w)
         | Some action \<Rightarrow>
             and_then (read_at (com_heap w) com) (\<lambda>_.
             and_then (dispatch (module_ops K) action w) (\<lambda>(ok, w).
               if \<not> ok then Ret (1, add_error ''process_recive_data: recive message err dispatch'' [] w)
               else Ret (0, w)))))"

text \<open>
  \<open>netlink_rcv_skb\<close> belongs to Linux: it is handed the packet and the function to call on each of
  its messages. \<open>com\<close> is the \<open>sk_user_data\<close> of the socket. A message is its type, the id of the
  sending process, its length, and the memory behind its header.
\<close>

type_synonym nlmsg = "nat \<times> u32 \<times> nat \<times> bytes"

definition recive_data ::
    "('skb \<Rightarrow> (nlmsg \<Rightarrow> ('i, 'e, int) step) \<Rightarrow> ('i, 'e) proc) \<Rightarrow> ('i, 'e) kernel \<Rightarrow> nat \<Rightarrow> 'skb \<Rightarrow>
      ('i, 'e) proc" where
  "recive_data netlink_rcv_skb K com skb =
     netlink_rcv_skb skb (\<lambda>(nlmsg_type, nlmsg_pid, nlmsg_len, mem).
       process_recive_data K com nlmsg_type nlmsg_pid nlmsg_len mem)"

subsection \<open>The log\<close>

text \<open>
  What \<open>printk_err\<close> writes to the log: nothing for NULL, else a line with the number of entries and one
  for each entry. The log is no part of the state; nothing in the module reads it.
\<close>

datatype log_line = Error_count nat | Error_entry "string \<times> u32 list"

definition printk_err :: "crmna_err option \<Rightarrow> log_line list" where
  "printk_err err =
     (case err of None \<Rightarrow> [] | Some err \<Rightarrow> Error_count (length err) # map Error_entry err)"

lemma printk_err_bounded:
  "length err \<le> ERROR_MESSAGE_MAX_ENTRY \<Longrightarrow> length (printk_err (Some (ADD_ERROR fmt args err))) \<le> 11"
  by (simp add: printk_err_def ADD_ERROR_def ERROR_MESSAGE_MAX_ENTRY_def)

subsection \<open>Callbacks of the device class\<close>

text \<open>The user who owns the device file, and the variable of a uevent; \<open>dev\<close> is the object around
  the \<open>struct device\<close>.\<close>

definition get_ownership :: "nat \<Rightarrow> ('i, 'e) world \<Rightarrow> u32 outcome" where
  "get_ownership dev w = and_then (get_dev dev w) (\<lambda>device_store. Ret (d_uid device_store))"

definition driver_uevent :: "nat \<Rightarrow> ('i, 'e) world \<Rightarrow> (int \<times> (string \<times> u32 list)) outcome" where
  "driver_uevent dev w =
     and_then (get_dev dev w) (\<lambda>device_store. Ret (0, ''DEVUID=%u'', [d_uid device_store]))"

subsection \<open>Life of the store and of the module\<close>

definition MAJOR :: "u32 \<Rightarrow> u32" where
  "MAJOR dev = drop_bit 20 dev"

text \<open>
  The result is the \<open>store_t\<close>, if it was made; its block stays held. \<open>kzalloc\<close> failing is not checked:
  the next call writes through the pointer. The first two arguments of \<open>k_alloc_chrdev_region\<close> are the
  first minor number and the number of minor numbers. When a step fails, what was taken so far is given
  back.
\<close>

definition create_store :: "('i, 'e) kernel \<Rightarrow> u32 \<Rightarrow> u32 \<Rightarrow> ('i, 'e, nat option) step" where
  "create_store K lo hi w =
     and_then (kmalloc_object K w) (\<lambda>(store, w).
       case store of
         None \<Rightarrow> Fault Null_deref
       | Some store \<Rightarrow>
           let ((alloc_ret, dev), e) = k_alloc_chrdev_region K lo hi (kenv w); w = w\<lparr>kenv := e\<rparr> in
           if alloc_ret \<noteq> 0 then and_then (give_back (Block store) w) (\<lambda>w. Ret (None, w))
           else
             let w = w\<lparr>held := Region dev hi # held w, chrdev := dev, device_major := MAJOR dev\<rparr>;
                 (made, e) = k_class_create K (kenv w); w = w\<lparr>kenv := e\<rparr> in
             (case made of
                None \<Rightarrow>
                  and_then (give_back (Region (chrdev w) hi) w) (\<lambda>w.
                  and_then (give_back (Block store) w) (\<lambda>w. Ret (None, w)))
              | Some made \<Rightarrow>
                  Ret (Some store,
                    w\<lparr>held := Class made # held w, device_class := made,
                      devices := k_idr_init K, toots := k_idr_init K, elements := k_idr_init K,
                      miner_max := hi, miner_min := lo,
                      communicator := \<lparr>c_interface = None, c_obj = None\<rparr>\<rparr>)))"

definition destroy_device_entry :: "('i, 'e) kernel \<Rightarrow> u32 \<Rightarrow> nat \<Rightarrow> ('i, 'e) proc" where
  "destroy_device_entry K device_id device w =
     and_then (detach_device_class K device_id w) (remove_device K device_id)"

definition destroy_store :: "('i, 'e) kernel \<Rightarrow> nat \<Rightarrow> ('i, 'e) proc" where
  "destroy_store K store w =
     and_then
       (for_each_entry IDS (\<lambda>w. k_idr_get_next K (devices w)) (destroy_device_entry K) 0 w) (\<lambda>w.
       let w = w\<lparr>devices := k_idr_init K, toots := k_idr_init K, elements := k_idr_init K\<rparr> in
       and_then (give_back (Class (device_class w)) w) (\<lambda>w.
       and_then (give_back (Region (chrdev w) (miner_max w)) w)
         (give_back (Block store))))"

definition create_communicator_and_register_store ::
    "('i, 'e) kernel \<Rightarrow> nat \<Rightarrow> com_ref \<Rightarrow> ('i, 'e, bool \<times> com_ref) step" where
  "create_communicator_and_register_store K port ref w =
     and_then (kmalloc_object K w) (\<lambda>(com, w).
       case com of
         None \<Rightarrow> Ret ((False, ref), w)
       | Some com \<Rightarrow>
           let (nl_sock, e) = k_netlink_kernel_create K port (kenv w); w = w\<lparr>kenv := e\<rparr> in
           (case nl_sock of
              None \<Rightarrow> and_then (give_back (Block com) w) (\<lambda>w. Ret ((False, ref), w))
            | Some nl_sock \<Rightarrow>
                let ref = \<lparr>c_interface = Some Netlink_interface, c_obj = Some com\<rparr>;
                    w = settle com (w\<lparr>com_heap := (com_heap w)(com \<mapsto> nl_sock)\<rparr>)
                in Ret ((True, ref), set_communicator ref (w\<lparr>held := Socket nl_sock # held w\<rparr>))))"

definition MINOR_BASE :: u32 where "MINOR_BASE = 0"
definition MINOR_NUM :: u32 where "MINOR_NUM = 33"

text \<open>
  The result of the entry is an int and the values of the globals \<open>store\<close> and \<open>com\<close>, which start as
  zeros.
\<close>

definition cremona_init :: "('i, 'e) kernel \<Rightarrow> ('i, 'e, int \<times> nat option \<times> com_ref) step" where
  "cremona_init K w =
     (let com = \<lparr>c_interface = None, c_obj = None\<rparr> in
      and_then (create_store K MINOR_BASE MINOR_NUM w) (\<lambda>(store, w).
        case store of
          None \<Rightarrow> Ret ((- EFAULT, None, com), w)
        | Some store \<Rightarrow>
            and_then (create_communicator_and_register_store K 17 com w) (\<lambda>((ok, com), w).
              if \<not> ok then and_then (destroy_store K store w) (\<lambda>w. Ret ((- EFAULT, Some store, com), w))
              else Ret ((0, Some store, com), w))))"

definition cremona_exit :: "('i, 'e) kernel \<Rightarrow> nat \<Rightarrow> com_ref \<Rightarrow> ('i, 'e) proc" where
  "cremona_exit K store com w =
     and_then (destroy_store K store w) (\<lambda>w.
     and_then (communicator_free (Some (deref_com K com)) w) (\<lambda>(_, w). Ret w))"

end
