(* ===== verification/Msgpack_Format.thy ===== *)
theory Msgpack_Format
  imports Mpack_Bytes
begin

text \<open>
  The MessagePack format as a specification: abstract values and the shortest encoding of
  each, in terms of integers and byte lists only. The writer is proved to produce these bytes
  and the parser to read them back.
\<close>

datatype msgpack =
    Msg_nil
  | Msg_bool bool
  | Msg_int int
  | Msg_str bytes
  | Msg_bin bytes
  | Msg_array "msgpack list"
  | Msg_map "(msgpack \<times> msgpack) list"

definition msgpack_int :: "int \<Rightarrow> bytes" where
  "msgpack_int i =
     (if i \<ge> 0 then
        (if i \<le> 127 then be_bytes 1 i
         else if i \<le> 255 then 0xCC # be_bytes 1 i
         else if i \<le> 65535 then 0xCD # be_bytes 2 i
         else if i \<le> 4294967295 then 0xCE # be_bytes 4 i
         else 0xCF # be_bytes 8 i)
      else
        (if i \<ge> - 32 then be_bytes 1 i
         else if i \<ge> - 128 then 0xD0 # be_bytes 1 i
         else if i \<ge> - 32768 then 0xD1 # be_bytes 2 i
         else if i \<ge> - 2147483648 then 0xD2 # be_bytes 4 i
         else 0xD3 # be_bytes 8 i))"

text \<open>A header holds a small count in the tag byte itself, or in 1, 2 or 4 bytes after it.\<close>

definition fix_tag :: "int \<Rightarrow> int \<Rightarrow> bytes" where
  "fix_tag base n = be_bytes 1 (base + n)"

definition msgpack_str_header :: "int \<Rightarrow> bytes" where
  "msgpack_str_header n =
     (if n \<le> 31 then fix_tag 0xA0 n
      else if n \<le> 255 then 0xD9 # be_bytes 1 n
      else if n \<le> 65535 then 0xDA # be_bytes 2 n
      else 0xDB # be_bytes 4 n)"

definition msgpack_bin_header :: "int \<Rightarrow> bytes" where
  "msgpack_bin_header n =
     (if n \<le> 255 then 0xC4 # be_bytes 1 n
      else if n \<le> 65535 then 0xC5 # be_bytes 2 n
      else 0xC6 # be_bytes 4 n)"

definition msgpack_array_header :: "int \<Rightarrow> bytes" where
  "msgpack_array_header n =
     (if n \<le> 15 then fix_tag 0x90 n
      else if n \<le> 65535 then 0xDC # be_bytes 2 n
      else 0xDD # be_bytes 4 n)"

definition msgpack_map_header :: "int \<Rightarrow> bytes" where
  "msgpack_map_header n =
     (if n \<le> 15 then fix_tag 0x80 n
      else if n \<le> 65535 then 0xDE # be_bytes 2 n
      else 0xDF # be_bytes 4 n)"

definition msgpack_bool :: "bool \<Rightarrow> bytes" where
  "msgpack_bool b = [if b then 0xC3 else 0xC2]"

fun msgpack_encode :: "msgpack \<Rightarrow> bytes" where
  "msgpack_encode Msg_nil = [0xC0]"
| "msgpack_encode (Msg_bool b) = msgpack_bool b"
| "msgpack_encode (Msg_int i) = msgpack_int i"
| "msgpack_encode (Msg_str s) = msgpack_str_header (int (length s)) @ s"
| "msgpack_encode (Msg_bin s) = msgpack_bin_header (int (length s)) @ s"
| "msgpack_encode (Msg_array vs) =
     msgpack_array_header (int (length vs)) @ concat (map msgpack_encode vs)"
| "msgpack_encode (Msg_map kvs) =
     msgpack_map_header (int (length kvs)) @
     concat (map (\<lambda>(k, v). msgpack_encode k @ msgpack_encode v) kvs)"

lemma be_bytes_not_Nil [simp]: "be_bytes (Suc n) i \<noteq> []"
  by (simp add: be_bytes_def)

lemma length_msgpack_int:
  "length (msgpack_int i) =
     (if - 32 \<le> i \<and> i \<le> 127 then 1
      else if - 128 \<le> i \<and> i \<le> 255 then 2
      else if - 32768 \<le> i \<and> i \<le> 65535 then 3
      else if - 2147483648 \<le> i \<and> i \<le> 4294967295 then 5 else 9)"
  by (simp add: msgpack_int_def)

lemma length_msgpack_headers:
  "length (msgpack_str_header n) = (if n \<le> 31 then 1 else if n \<le> 255 then 2 else if n \<le> 65535 then 3 else 5)"
  "length (msgpack_bin_header n) = (if n \<le> 255 then 2 else if n \<le> 65535 then 3 else 5)"
  "length (msgpack_array_header n) = (if n \<le> 15 then 1 else if n \<le> 65535 then 3 else 5)"
  "length (msgpack_map_header n) = (if n \<le> 15 then 1 else if n \<le> 65535 then 3 else 5)"
  by (simp_all add: msgpack_str_header_def msgpack_bin_header_def msgpack_array_header_def
      msgpack_map_header_def fix_tag_def)

lemma length_msgpack_int_bounds: "1 \<le> length (msgpack_int i)" "length (msgpack_int i) \<le> 9"
  by (simp_all add: length_msgpack_int)

text \<open>Every encoded value takes at least one byte.\<close>

lemma msgpack_encode_pos: "0 < length (msgpack_encode v)"
proof (cases v)
  case (Msg_int i)
  then show ?thesis using length_msgpack_int_bounds(1) [of i] by (cases "msgpack_int i") simp_all
qed (simp_all add: msgpack_bool_def length_msgpack_headers)

text \<open>Small tags: a bit pattern with the count in its low bits is their sum.\<close>

lemma fix_tag_or:
  assumes "base = push_bit k hi" "uint c < 2 ^ k"
  shows "mpack_store_u8 (base OR c) = fix_tag (uint base) (uint c)"
proof -
  have "int (unat c) < int (2 ^ k)" using assms(2) by simp
  then have c: "unat c < 2 ^ k" unfolding of_nat_less_iff .
  have "base OR c = base + c"
    unfolding assms(1) by (rule push_bit_or_add [OF c])
  also have "\<dots> = word_of_int (uint base + uint c)" by simp
  finally show ?thesis
    by (simp add: mpack_store_u8_def fix_tag_def be_bytes_def)
qed

lemma fix_tags:
  "uint c \<le> 31 \<Longrightarrow> mpack_store_u8 (0xA0 OR c) = fix_tag 0xA0 (uint c)"
  "uint c \<le> 15 \<Longrightarrow> mpack_store_u8 (0x90 OR c) = fix_tag 0x90 (uint c)"
  "uint c \<le> 15 \<Longrightarrow> mpack_store_u8 (0x80 OR c) = fix_tag 0x80 (uint c)"
proof -
  show "mpack_store_u8 (0xA0 OR c) = fix_tag 0xA0 (uint c)" if "uint c \<le> 31"
    using fix_tag_or [where base = "0xA0" and k = 5 and hi = 5 and c = c] that by simp
  show "mpack_store_u8 (0x90 OR c) = fix_tag 0x90 (uint c)" if "uint c \<le> 15"
    using fix_tag_or [where base = "0x90" and k = 4 and hi = 9 and c = c] that by simp
  show "mpack_store_u8 (0x80 OR c) = fix_tag 0x80 (uint c)" if "uint c \<le> 15"
    using fix_tag_or [where base = "0x80" and k = 4 and hi = 8 and c = c] that by simp
qed

end
