(* ===== verification/Mpack_Emit.thy ===== *)
theory Mpack_Emit
  imports Mpack_Writer Msgpack_Format
begin

text \<open>
  What the write operations emit: each produces the MessagePack encoding of the value it is given.
  How a write ends depends on the flush callback; the locale \<open>writing\<close> states what is needed of it, and
  every operation of the writer is verified inside. Its first interpretation is the writer without a
  callback, whose operations have the contract \<open>emitter\<close>.
\<close>

subsection \<open>The contract\<close>

definition writer_ok :: "'s writer \<Rightarrow> bool" where
  "writer_ok w \<longleftrightarrow> wcurrent w \<le> length (wbuffer w)"

definition written :: "'s writer \<Rightarrow> bytes" where
  "written w = take (wcurrent w) (wbuffer w)"

text \<open>
  \<open>wrote enc w w'\<close>: \<open>w'\<close> is \<open>w\<close> after writing \<open>enc\<close>. What does not fit leaves the error
  \<open>mpack_error_too_big\<close> (or the earlier one) and at most a part of \<open>enc\<close> behind; what was
  written before stays in any case.
\<close>

definition wrote :: "bytes \<Rightarrow> 's writer \<Rightarrow> 's writer \<Rightarrow> bool" where
  "wrote enc w w' \<longleftrightarrow>
     writer_ok w' \<and> length (wbuffer w') = length (wbuffer w) \<and>
     (if wcurrent w + length enc \<le> length (wbuffer w)
      then written w' = written w @ enc \<and> werror w' = werror w
      else (\<exists>part. written w' = written w @ part) \<and>
           werror w' = (if werror w = mpack_ok then mpack_error_too_big else werror w))"

text \<open>
  An operation emits \<open>enc\<close> when, from a valid writer, it either returns as \<open>did\<close> says or stops for a
  reason \<open>stuck\<close> allows.
\<close>

definition emits :: "('w \<Rightarrow> bool) \<Rightarrow> (bytes \<Rightarrow> 'w \<Rightarrow> 'w \<Rightarrow> bool) \<Rightarrow> (bytes \<Rightarrow> 'w \<Rightarrow> fault \<Rightarrow> bool) \<Rightarrow>
    ('w \<Rightarrow> 'w outcome) \<Rightarrow> bytes \<Rightarrow> bool" where
  "emits valid did stuck oper enc \<longleftrightarrow>
     (\<forall>w. valid w \<longrightarrow> (case oper w of Ret w' \<Rightarrow> did enc w w' | Fault e \<Rightarrow> stuck enc w e))"

lemma emitsD:
  "emits valid did stuck oper enc \<Longrightarrow> valid w \<Longrightarrow> oper w = Ret w' \<Longrightarrow> did enc w w'"
  "emits valid did stuck oper enc \<Longrightarrow> valid w \<Longrightarrow> oper w = Fault e \<Longrightarrow> stuck enc w e"
  by (auto simp: emits_def split: outcome.splits)

locale writing =
  fixes fl :: "'s mpack_flush" and valid :: "'s writer \<Rightarrow> bool"
    and did :: "bytes \<Rightarrow> 's writer \<Rightarrow> 's writer \<Rightarrow> bool"
    and stuck :: "bytes \<Rightarrow> 's writer \<Rightarrow> fault \<Rightarrow> bool"
  assumes idle: "valid w \<Longrightarrow> did [] w w"
    and kept: "did e w w' \<Longrightarrow> valid w'"
    and appended: "valid w \<Longrightarrow> did e1 w w1 \<Longrightarrow> did e2 w1 w2 \<Longrightarrow> did (e1 @ e2) w w2"
    and stuck_first: "stuck e1 w x \<Longrightarrow> stuck (e1 @ e2) w x"
    and stuck_second: "valid w \<Longrightarrow> did e1 w w1 \<Longrightarrow> stuck e2 w1 x \<Longrightarrow> stuck (e1 @ e2) w x"
    and native: "emits valid did stuck (mpack_write_native fl bs) bs"
    and encoded: "0 < length bs \<Longrightarrow> length bs \<le> 32 \<Longrightarrow>
        emits valid did stuck (write_encoded fl (Ret bs) (length bs)) bs"
    and in_place: "valid w \<Longrightarrow> length bs \<le> mpack_writer_buffer_left w \<Longrightarrow>
        case put_current bs (length bs) w of Ret w' \<Rightarrow> did bs w w' | Fault x \<Rightarrow> stuck bs w x"
begin

abbreviation says :: "'s write_op \<Rightarrow> bytes \<Rightarrow> bool" where
  "says \<equiv> emits valid did stuck"

lemma says_Ret: "says Ret []"
  by (simp add: emits_def idle)

text \<open>Two operations one after the other emit the two encodings one after the other.\<close>

lemma says_append:
  assumes "says f e1" "says g e2"
  shows "says (\<lambda>w. and_then (f w) g) (e1 @ e2)"
  unfolding emits_def
proof (intro allI impI)
  fix w
  assume ok: "valid w"
  show "case and_then (f w) g of Ret w' \<Rightarrow> did (e1 @ e2) w w' | Fault x \<Rightarrow> stuck (e1 @ e2) w x"
  proof (cases "f w")
    case (Fault x)
    then show ?thesis using emitsD(2) [OF assms(1) ok] stuck_first by simp
  next
    case (Ret w1)
    then have 1: "did e1 w w1" using emitsD(1) [OF assms(1) ok] by simp
    then have "valid w1" by (rule kept)
    then show ?thesis
      using Ret 1 emitsD [OF assms(2)] appended [OF ok 1] stuck_second [OF ok 1]
      by (simp split: outcome.splits)
  qed
qed

lemma says_write_all: "list_all2 says ops encs \<Longrightarrow> says (write_all ops) (concat encs)"
proof (induction rule: list_all2_induct)
  case Nil
  have "write_all [] = (Ret :: 's writer \<Rightarrow> _)" by (rule ext) simp
  then show ?case using says_Ret by simp
next
  case (Cons oper ops enc encs)
  have "write_all (oper # ops) = (\<lambda>w. and_then (oper w) (write_all ops))" by (rule ext) simp
  with says_append [OF Cons.hyps(1) Cons.IH] show ?case by simp
qed

lemma says_encoded:
  "enc = Ret bs \<Longrightarrow> length bs = sz \<Longrightarrow> 0 < sz \<Longrightarrow> sz \<le> 32 \<Longrightarrow> says (write_encoded fl enc sz) bs"
  using encoded by blast

lemmas says_native = native

end

subsection \<open>Single tags and integers\<close>

lemma encode_uint:
  "uint a \<le> 127 \<Longrightarrow> mpack_encode_fixuint a = Ret (msgpack_int (uint a))"
  "uint a > 127 \<Longrightarrow> mpack_encode_u8 a = Ret (msgpack_int (uint a))"
  "uint b > 255 \<Longrightarrow> mpack_encode_u16 b = Ret (msgpack_int (uint b))"
  "uint c > 65535 \<Longrightarrow> mpack_encode_u32 c = Ret (msgpack_int (uint c))"
  "uint d > 4294967295 \<Longrightarrow> mpack_encode_u64 d = Ret (msgpack_int (uint d))"
  using uint_less(1) [of a] uint_less(2) [of b] uint_less(3) [of c] uint_less(4) [of d]
  by (simp_all add: encode_defs msgpack_int_def store_be_bytes)
    (simp_all add: be_bytes_def)

lemma encode_sint:
  "sint a \<ge> - 32 \<Longrightarrow> mpack_encode_fixint a = Ret (msgpack_int (sint a))"
  "sint a < - 32 \<Longrightarrow> mpack_encode_i8 a = Ret (msgpack_int (sint a))"
  "sint b < - 128 \<Longrightarrow> mpack_encode_i16 b = Ret (msgpack_int (sint b))"
  "sint c < - 32768 \<Longrightarrow> mpack_encode_i32 c = Ret (msgpack_int (sint c))"
  "sint d < - 2147483648 \<Longrightarrow> mpack_encode_i64 d = Ret (msgpack_int (sint d))"
  using sint_range(1,5) [of a] sint_range(2,6) [of b] sint_range(3,7) [of c] sint_range(4,8) [of d]
  by (simp_all add: encode_defs msgpack_int_def store_signed_be_bytes)
    (simp_all add: be_bytes_def store_be_bytes)

lemma minus_le_uint [simp]: "- numeral k \<le> uint (w :: 'a::len word)"
  by (rule order_trans [of _ 0]) simp_all

lemma uint_ucast_sint:
  "0 \<le> sint w \<Longrightarrow> sint w < 2 ^ LENGTH('b) \<Longrightarrow>
     uint (ucast (w :: 'a::len word) :: 'b::len word) = sint w"
  by (simp add: uint_ucast_fits uint_of_nonneg_sint)

lemma encode_array:
  "uint a \<le> 15 \<Longrightarrow> mpack_encode_fixarray a = Ret (msgpack_array_header (uint a))"
  "uint b > 15 \<Longrightarrow> mpack_encode_array16 b = Ret (msgpack_array_header (uint b))"
  "uint c > 65535 \<Longrightarrow> mpack_encode_array32 c = Ret (msgpack_array_header (uint c))"
  using uint_less(2) [of b]
  by (simp_all add: encode_defs msgpack_array_header_def fix_tags store_be_bytes(2-4))
    (simp_all add: mpack_store_u8_def be_bytes_def)

lemma encode_map:
  "uint a \<le> 15 \<Longrightarrow> mpack_encode_fixmap a = Ret (msgpack_map_header (uint a))"
  "uint b > 15 \<Longrightarrow> mpack_encode_map16 b = Ret (msgpack_map_header (uint b))"
  "uint c > 65535 \<Longrightarrow> mpack_encode_map32 c = Ret (msgpack_map_header (uint c))"
  using uint_less(2) [of b]
  by (simp_all add: encode_defs msgpack_map_header_def fix_tags store_be_bytes(2-4))
    (simp_all add: mpack_store_u8_def be_bytes_def)

lemma encode_str:
  "uint a \<le> 31 \<Longrightarrow> mpack_encode_fixstr a = Ret (msgpack_str_header (uint a))"
  "uint a > 31 \<Longrightarrow> mpack_encode_str8 a = Ret (msgpack_str_header (uint a))"
  "uint b > 255 \<Longrightarrow> mpack_encode_str16 b = Ret (msgpack_str_header (uint b))"
  "uint c > 65535 \<Longrightarrow> mpack_encode_str32 c = Ret (msgpack_str_header (uint c))"
  using uint_less(1) [of a] uint_less(2) [of b]
  by (simp_all add: encode_defs msgpack_str_header_def fix_tags store_be_bytes(2-4))
    (simp_all add: mpack_store_u8_def be_bytes_def)

lemma encode_bin:
  "mpack_encode_bin8 a = Ret (msgpack_bin_header (uint a))"
  "uint b > 255 \<Longrightarrow> mpack_encode_bin16 b = Ret (msgpack_bin_header (uint b))"
  "uint c > 65535 \<Longrightarrow> mpack_encode_bin32 c = Ret (msgpack_bin_header (uint c))"
  using uint_less(1) [of a] uint_less(2) [of b]
  by (simp_all add: encode_defs msgpack_bin_header_def fix_tags store_be_bytes(2-4))
    (simp_all add: mpack_store_u8_def be_bytes_def)

lemma read_data_prefix: "n \<le> length m \<Longrightarrow> read_data (Some m) n = Ret (take n m)"
  by (simp add: read_data_def load_at_def)

fun tag_bytes :: "mpack_tag \<Rightarrow> bytes" where
  "tag_bytes Tag_missing = []"
| "tag_bytes Tag_nil = msgpack_encode Msg_nil"
| "tag_bytes (Tag_bool b) = msgpack_encode (Msg_bool b)"
| "tag_bytes (Tag_int i) = msgpack_encode (Msg_int (sint i))"
| "tag_bytes (Tag_uint u) = msgpack_encode (Msg_int (uint u))"
| "tag_bytes (Tag_str l) = msgpack_str_header (uint l)"
| "tag_bytes (Tag_bin l) = msgpack_bin_header (uint l)"
| "tag_bytes (Tag_array n) = msgpack_array_header (uint n)"
| "tag_bytes (Tag_map n) = msgpack_map_header (uint n)"

context writing
begin

lemma byte_element: "says (mpack_write_byte_element fl b) ([b])"
  unfolding mpack_write_byte_element_def by (rule says_encoded) simp_all

lemma write_nil: "says (mpack_write_nil fl) (msgpack_encode Msg_nil)"
  unfolding mpack_write_nil_def using byte_element by simp

lemma write_bool: "says (mpack_write_bool fl b) (msgpack_encode (Msg_bool b))"
  unfolding mpack_write_bool_def
  using byte_element [of "0xC3"] byte_element [of "0xC2"]
  by (simp add: msgpack_bool_def)

lemma write_true: "says (mpack_write_true fl) (msgpack_encode (Msg_bool True))"
  unfolding mpack_write_true_def using byte_element by (simp add: msgpack_bool_def)

lemma write_false: "says (mpack_write_false fl) (msgpack_encode (Msg_bool False))"
  unfolding mpack_write_false_def using byte_element by (simp add: msgpack_bool_def)

lemma object_bytes: "says (mpack_write_object_bytes fl bs) bs"
  unfolding mpack_write_object_bytes_def by (rule says_native)



text \<open>
  Each encoder, used within the range its caller has tested, returns the shortest encoding of
  the number.
\<close>

lemma says_if: "(c \<Longrightarrow> says f e) \<Longrightarrow> (\<not> c \<Longrightarrow> says g e) \<Longrightarrow> says (if c then f else g) e"
  by simp

text \<open>The same for the whole write, where \<open>i\<close> is the number that the word reads as.\<close>

lemma emit_uint:
  "uint a = i \<Longrightarrow> i \<le> 127 \<Longrightarrow>
     says (write_encoded fl (mpack_encode_fixuint a) 1) (msgpack_int i)"
  "uint a = i \<Longrightarrow> i > 127 \<Longrightarrow> says (write_encoded fl (mpack_encode_u8 a) 2) (msgpack_int i)"
  "uint b = i \<Longrightarrow> i > 255 \<Longrightarrow> says (write_encoded fl (mpack_encode_u16 b) 3) (msgpack_int i)"
  "uint c = i \<Longrightarrow> i > 65535 \<Longrightarrow> says (write_encoded fl (mpack_encode_u32 c) 5) (msgpack_int i)"
  "uint d = i \<Longrightarrow> i > 4294967295 \<Longrightarrow>
     says (write_encoded fl (mpack_encode_u64 d) 9) (msgpack_int i)"
  using uint_less(1) [of a] uint_less(2) [of b] uint_less(3) [of c] uint_less(4) [of d]
  by (auto intro!: says_encoded encode_uint simp: length_msgpack_int)

lemma emit_sint:
  "sint a = i \<Longrightarrow> i \<ge> - 32 \<Longrightarrow>
     says (write_encoded fl (mpack_encode_fixint a) 1) (msgpack_int i)"
  "sint a = i \<Longrightarrow> i < - 32 \<Longrightarrow> says (write_encoded fl (mpack_encode_i8 a) 2) (msgpack_int i)"
  "sint b = i \<Longrightarrow> i < - 128 \<Longrightarrow> says (write_encoded fl (mpack_encode_i16 b) 3) (msgpack_int i)"
  "sint c = i \<Longrightarrow> i < - 32768 \<Longrightarrow>
     says (write_encoded fl (mpack_encode_i32 c) 5) (msgpack_int i)"
  "sint d = i \<Longrightarrow> i < - 2147483648 \<Longrightarrow>
     says (write_encoded fl (mpack_encode_i64 d) 9) (msgpack_int i)"
  using sint_range(1,5) [of a] sint_range(2,6) [of b] sint_range(3,7) [of c] sint_range(4,8) [of d]
  by (auto intro!: says_encoded encode_sint simp: length_msgpack_int)

lemmas emit_int_rules =
  says_if emit_uint emit_sint uint_ucast_fits uint_ucast_sint sint_ucast_fits uint_of_nonneg_sint

lemma write_u8: "says (mpack_write_u8 fl v) (msgpack_encode (Msg_int (uint v)))"
  unfolding mpack_write_u8_def msgpack_encode.simps
  by (intro emit_int_rules) simp_all

lemma write_u16: "says (mpack_write_u16 fl v) (msgpack_encode (Msg_int (uint v)))"
  unfolding mpack_write_u16_def msgpack_encode.simps
  by (intro emit_int_rules) simp_all

lemma write_u32: "says (mpack_write_u32 fl v) (msgpack_encode (Msg_int (uint v)))"
  unfolding mpack_write_u32_def msgpack_encode.simps
  by (intro emit_int_rules) simp_all

lemma write_u64: "says (mpack_write_u64 fl v) (msgpack_encode (Msg_int (uint v)))"
  unfolding mpack_write_u64_def msgpack_encode.simps
  by (intro emit_int_rules) simp_all

lemma write_i8: "says (mpack_write_i8 fl v) (msgpack_encode (Msg_int (sint v)))"
  unfolding mpack_write_i8_def msgpack_encode.simps
  by (intro emit_int_rules) simp_all

lemma write_i16: "says (mpack_write_i16 fl v) (msgpack_encode (Msg_int (sint v)))"
  unfolding mpack_write_i16_def msgpack_encode.simps
  by (intro emit_int_rules) simp_all

lemma write_i32: "says (mpack_write_i32 fl v) (msgpack_encode (Msg_int (sint v)))"
  unfolding mpack_write_i32_def msgpack_encode.simps
  by (intro emit_int_rules) simp_all

lemma write_i64: "says (mpack_write_i64 fl v) (msgpack_encode (Msg_int (sint v)))"
  unfolding mpack_write_i64_def msgpack_encode.simps
  by (intro emit_int_rules) simp_all

lemma write_int: "says (mpack_write_int fl v) (msgpack_encode (Msg_int (sint v)))"
  unfolding mpack_write_int_def by (rule write_i64)

lemma write_uint: "says (mpack_write_uint fl v) (msgpack_encode (Msg_int (uint v)))"
  unfolding mpack_write_uint_def by (rule write_u64)

subsection \<open>Headers and strings\<close>

lemma emit_header:
  assumes "enc = Ret hdr" "length hdr = sz" "sz \<in> {1, 2, 3, 5}" "hdr = hdr'"
  shows "says (write_encoded fl enc sz) hdr'"
  using assms by (auto intro!: says_encoded)

lemma start_array: "says (mpack_start_array fl n) (msgpack_array_header (uint n))"
  unfolding mpack_start_array_def
  by (intro says_if encode_array [THEN emit_header])
    (simp_all add: uint_ucast_fits length_msgpack_headers)

lemma start_map: "says (mpack_start_map fl n) (msgpack_map_header (uint n))"
  unfolding mpack_start_map_def
  by (intro says_if encode_map [THEN emit_header])
    (simp_all add: uint_ucast_fits length_msgpack_headers)

lemma start_str: "says (mpack_start_str fl n) (msgpack_str_header (uint n))"
  unfolding mpack_start_str_def mpack_start_str_notrack_def
  by (intro says_if encode_str [THEN emit_header])
    (simp_all add: uint_ucast_fits length_msgpack_headers)

lemma start_bin: "says (mpack_start_bin fl n) (msgpack_bin_header (uint n))"
  unfolding mpack_start_bin_def mpack_start_bin_notrack_def
  by (intro says_if encode_bin [THEN emit_header])
    (simp_all add: uint_ucast_fits length_msgpack_headers)

lemma says_write_bytes:
  "n \<le> length m \<Longrightarrow> says (mpack_write_bytes fl (Some m) n) (take n m)"
  using says_native [of "take n m"]
  by (simp add: mpack_write_bytes_def [abs_def] read_data_prefix)

lemma says_if_state:
  assumes "says g e"
    "\<And>w. valid w \<Longrightarrow> c w \<Longrightarrow> case f w of Ret w' \<Rightarrow> did e w w' | Fault x \<Rightarrow> stuck e w x"
  shows "says (\<lambda>w. if c w then f w else g w) e"
  using assms by (simp add: emits_def)

text \<open>The fast path of \<open>mpack_write_str\<close> writes tag and bytes together, the other paths one by one.\<close>

lemma says_tag_then_bytes:
  assumes "enc = Ret hdr" "length hdr = sz" "sz \<in> {1, 2, 3, 5}"
  shows "says (\<lambda>w. and_then (write_encoded fl enc sz w) (mpack_write_native fl bs)) (hdr @ bs)"
  using assms by (intro says_append says_native emit_header) simp_all

lemma says_str_together:
  assumes "enc = Ret hdr" "length hdr = sz" "sz \<in> {1, 2, 3, 5}"
  shows "says
    (\<lambda>w. if length bs + sz \<le> mpack_writer_buffer_left w
         then and_then enc (\<lambda>tag. put_current (tag @ bs) (length bs + sz) w)
         else and_then (write_encoded fl enc sz w) (mpack_write_native fl bs)) (hdr @ bs)"
proof (rule says_if_state [OF says_tag_then_bytes [OF assms]])
  fix w
  assume w: "valid w" "length bs + sz \<le> mpack_writer_buffer_left w"
  then have "length (hdr @ bs) \<le> mpack_writer_buffer_left w" using assms(2) by simp
  from in_place [OF w(1) this] assms(1,2)
  show "case and_then enc (\<lambda>tag. put_current (tag @ bs) (length bs + sz) w) of
      Ret w' \<Rightarrow> did (hdr @ bs) w w' | Fault x \<Rightarrow> stuck (hdr @ bs) w x"
    by (simp add: add.commute)
qed

lemma says_write_str:
  assumes "unat count \<le> length m"
  shows "says (mpack_write_str fl (Some m) count)
           (msgpack_encode (Msg_str (take (unat count) m)))"
proof -
  define bs where "bs = take (unat count) m"
  have len: "length bs = unat count" using assms by (simp add: bs_def)
  have str: "mpack_write_str fl (Some m) count =
      (if uint count \<le> 31 then
         write_encoded fl
           (and_then (mpack_encode_fixstr (ucast count)) (\<lambda>tag. Ret (tag @ bs))) (length bs + 1)
       else if uint count \<le> 255 then
         (\<lambda>w. if length bs + 2 \<le> mpack_writer_buffer_left w
              then and_then (mpack_encode_str8 (ucast count))
                     (\<lambda>tag. put_current (tag @ bs) (length bs + 2) w)
              else and_then (write_encoded fl (mpack_encode_str8 (ucast count)) 2 w)
                     (mpack_write_native fl bs))
       else if uint count \<le> 65535 then
         (\<lambda>w. and_then (write_encoded fl (mpack_encode_str16 (ucast count)) 3 w)
                (mpack_write_native fl bs))
       else
         (\<lambda>w. and_then (write_encoded fl (mpack_encode_str32 count) 5 w)
                (mpack_write_native fl bs)))"
    by (rule ext) (simp add: mpack_write_str_def read_data_prefix [OF assms] bs_def [symmetric] len)
  have n: "int (length bs) = uint count" using len by simp
  have small: "says (write_encoded fl
      (and_then (mpack_encode_fixstr (ucast count)) (\<lambda>tag. Ret (tag @ bs))) (length bs + 1))
      (msgpack_str_header (uint count) @ bs)" if "uint count \<le> 31"
    using that n by (intro says_encoded) (simp_all add: encode_str uint_ucast_fits length_msgpack_headers)
  show ?thesis
    unfolding bs_def [symmetric] msgpack_encode.simps n str
    by (intro says_if small says_str_together says_tag_then_bytes)
      (simp_all add: encode_str uint_ucast_fits length_msgpack_headers)
qed

lemma says_write_bin:
  assumes "unat count \<le> length m"
  shows "says (mpack_write_bin fl (Some m) count)
           (msgpack_encode (Msg_bin (take (unat count) m)))"
proof -
  have n: "int (length (take (unat count) m)) = uint count" using assms by simp
  show ?thesis
    unfolding msgpack_encode.simps n mpack_write_bin_def [abs_def]
    using says_append [OF start_bin says_write_bytes [OF assms]] by simp
qed

lemma says_write_cstr:
  assumes "0 \<notin> set s" "length s < 2 ^ 32"
  shows "says (mpack_write_cstr fl (Some (s @ 0 # rest))) (msgpack_encode (Msg_str s))"
proof -
  have "unat (of_nat (length s) :: u32) = length s"
    using assms(2) by (simp add: unat_of_nat take_bit_nat_eq_self)
  then show ?thesis
    using says_write_str [of "of_nat (length s)" "s @ 0 # rest"] assms
    by (simp add: mpack_write_cstr_def [abs_def])
qed

lemma says_write_utf8_cstr:
  assumes "0 \<notin> set s" "length s < 2 ^ 32" "mpack_utf8_check s"
  shows "says (mpack_write_utf8_cstr fl (Some (s @ 0 # rest))) (msgpack_encode (Msg_str s))"
proof -
  have "unat (of_nat (length s) :: u32) = length s"
    using assms(2) by (simp add: unat_of_nat take_bit_nat_eq_self)
  then show ?thesis
    using says_write_str [of "of_nat (length s)" "s @ 0 # rest"] assms
    by (simp add: mpack_write_utf8_cstr_def [abs_def] mpack_write_utf8_def read_data_prefix)
qed

lemma says_write_tag: "t \<noteq> Tag_missing \<Longrightarrow> says (mpack_write_tag fl t) (tag_bytes t)"
  by (cases t)
    (simp_all only: mpack_write_tag_def mpack_tag.case tag_bytes.simps simp_thms
      write_nil write_bool write_int
      write_uint start_str start_bin
      start_array start_map)

end

subsection \<open>No flush callback\<close>

locale emitter =
  fixes oper :: "'s write_op" and enc :: bytes
  assumes emits: "writer_ok w \<Longrightarrow> \<exists>w'. oper w = Ret w' \<and> wrote enc w w'"
begin

lemma not_stuck: "writer_ok w \<Longrightarrow> returns (oper w)"
  using emits by (auto simp: returns_iff)

lemma stays_ok: "writer_ok w \<Longrightarrow> oper w = Ret w' \<Longrightarrow> writer_ok w'"
  using emits [of w] by (auto simp: wrote_def)

lemma error_sticks: "writer_ok w \<Longrightarrow> oper w = Ret w' \<Longrightarrow> werror w' = mpack_ok \<Longrightarrow> werror w = mpack_ok"
  using emits [of w] by (auto simp: wrote_def split: if_splits)

lemma exact_bytes:
  "writer_ok w \<Longrightarrow> oper w = Ret w' \<Longrightarrow> werror w' = mpack_ok \<Longrightarrow> written w' = written w @ enc"
  using emits [of w] by (auto simp: wrote_def split: if_splits)

lemma error_iff:
  "writer_ok w \<Longrightarrow> oper w = Ret w' \<Longrightarrow>
     werror w' = mpack_ok \<longleftrightarrow>
       werror w = mpack_ok \<and> wcurrent w + length enc \<le> length (wbuffer w)"
  using emits [of w] by (auto simp: wrote_def split: if_splits)

end

lemma length_written: "writer_ok w \<Longrightarrow> length (written w) = wcurrent w"
  by (simp add: written_def writer_ok_def)

lemma wrote_current:
  "writer_ok w \<Longrightarrow> wrote enc w w' \<Longrightarrow> wcurrent w + length enc \<le> length (wbuffer w) \<Longrightarrow>
     wcurrent w' = wcurrent w + length enc"
  using length_written [of w] length_written [of w'] by (auto simp: wrote_def)

lemma wrote_append:
  assumes "writer_ok w" "wrote e1 w w1" "wrote e2 w1 w2"
  shows "wrote (e1 @ e2) w w2"
proof (cases "wcurrent w + length e1 \<le> length (wbuffer w)")
  case True
  then have "wcurrent w1 = wcurrent w + length e1"
    using assms wrote_current by blast
  with True assms show ?thesis by (auto simp: wrote_def split: if_splits)
next
  case False
  with assms show ?thesis by (auto simp: wrote_def split: if_splits)
qed

text \<open>Two operations one after the other emit the two encodings one after the other.\<close>

locale emitter_seq = first: emitter op1 enc1 + second: emitter op2 enc2
  for op1 :: "'s write_op" and enc1 and op2 :: "'s write_op" and enc2
begin

lemma both: "emitter (\<lambda>w. and_then (op1 w) op2) (enc1 @ enc2)"
proof
  fix w :: "'s writer"
  assume ok: "writer_ok w"
  then obtain w1 where 1: "op1 w = Ret w1" "wrote enc1 w w1" using first.emits by blast
  then have "writer_ok w1" by (simp add: wrote_def)
  then obtain w2 where "op2 w1 = Ret w2" "wrote enc2 w1 w2" using second.emits by blast
  with ok 1 show "\<exists>w'. and_then (op1 w) op2 = Ret w' \<and> wrote (enc1 @ enc2) w w'"
    by (auto intro: wrote_append)
qed

end

sublocale emitter_seq \<subseteq> seq: emitter "\<lambda>w. and_then (op1 w) op2" "enc1 @ enc2"
  by (rule both)

lemma emitter_append:
  "emitter f e1 \<Longrightarrow> emitter g e2 \<Longrightarrow> emitter (\<lambda>w. and_then (f w) g) (e1 @ e2)"
  by (rule emitter_seq.both [OF emitter_seq.intro])

lemma emitter_iff: "emitter oper enc \<longleftrightarrow> emits writer_ok wrote (\<lambda>_ _ _. False) oper enc"
proof -
  have "(\<exists>w'. r = Ret w' \<and> wrote enc w w') \<longleftrightarrow>
      (case r of Ret w' \<Rightarrow> wrote enc w w' | Fault x \<Rightarrow> False)" for r and w :: "'a writer"
    by (cases r) simp_all
  then show ?thesis by (simp add: emitter_def emits_def)
qed

lemma put_current_wrote:
  assumes "writer_ok w" "wcurrent w + length bs \<le> length (wbuffer w)"
  shows "\<exists>w'. put_current bs (length bs) w = Ret w' \<and> wrote bs w w'"
  using assms
  by (cases bs) (auto simp: put_current_def store_at_def wrote_def writer_ok_def written_def min_def)

lemma too_big_wrote:
  assumes "writer_ok w" "\<not> wcurrent w + length bs \<le> length (wbuffer w)"
  shows "wrote bs w (mpack_writer_flag_error mpack_error_too_big w)"
  using assms
  by (auto simp: wrote_def writer_ok_def written_def mpack_writer_flag_error_def)

lemma buffer_left_less:
  "writer_ok w \<Longrightarrow>
     mpack_writer_buffer_left w < n \<longleftrightarrow> \<not> wcurrent w + n \<le> length (wbuffer w)"
  by (auto simp: mpack_writer_buffer_left_def writer_ok_def)

lemma emitter_native: "emitter (mpack_write_native None bs) bs"
proof
  fix w
  assume ok: "writer_ok w"
  show "\<exists>w'. mpack_write_native None bs w = Ret w' \<and> wrote bs w w'"
  proof (cases "mpack_writer_buffer_left w < length bs")
    case True
    with ok show ?thesis
      using too_big_wrote [OF ok, of bs]
      by (auto simp: mpack_write_native_def mpack_write_native_straddle_def buffer_left_less
          mpack_writer_flag_error_def)
  next
    case False
    with ok show ?thesis
      using put_current_wrote [OF ok, of bs]
      by (simp add: mpack_write_native_def buffer_left_less)
  qed
qed

lemma emitter_encoded:
  assumes "enc = Ret bs" "length bs = sz" "0 < sz" "sz \<le> 32"
  shows "emitter (write_encoded None enc sz) bs"
proof
  fix w
  assume ok: "writer_ok w"
  show "\<exists>w'. write_encoded None enc sz w = Ret w' \<and> wrote bs w w'"
  proof (cases "mpack_writer_buffer_left w < sz")
    case True
    then have "\<not> sz \<le> mpack_writer_buffer_left w" by simp
    with True ok assms show ?thesis
      using too_big_wrote [OF ok, of bs]
      by (auto simp: write_encoded_def mpack_writer_ensure_def buffer_left_less
          MPACK_WRITER_MINIMUM_BUFFER_SIZE_def mpack_writer_flag_error_def)
  next
    case False
    then have "sz \<le> mpack_writer_buffer_left w" by simp
    with False ok assms show ?thesis
      using put_current_wrote [OF ok, of bs]
      by (simp add: write_encoded_def buffer_left_less not_less)
  qed
qed

interpretation plain: writing None writer_ok wrote "\<lambda>_ _ _. False"
proof
  show "wrote [] w w" if "writer_ok w" for w :: "'a writer"
    using that by (simp add: wrote_def writer_ok_def)
  show "writer_ok w'" if "wrote e w w'" for e and w w' :: "'a writer"
    using that by (simp add: wrote_def)
  show "wrote (e1 @ e2) w w2" if "writer_ok w" "wrote e1 w w1" "wrote e2 w1 w2"
    for e1 e2 and w w1 w2 :: "'a writer"
    using that by (rule wrote_append)
  show "emits writer_ok wrote (\<lambda>_ _ _. False) (mpack_write_native None bs) bs" for bs
    by (rule emitter_native [unfolded emitter_iff])
  show "emits writer_ok wrote (\<lambda>_ _ _. False) (write_encoded None (Ret bs) (length bs)) bs"
    if "0 < length bs" "length bs \<le> 32" for bs
    using emitter_encoded [of "Ret bs" bs] that by (simp add: emitter_iff)
  show "case put_current bs (length bs) w of Ret w' \<Rightarrow> wrote bs w w' | Fault x \<Rightarrow> False"
    if "writer_ok w" "length bs \<le> mpack_writer_buffer_left w" for bs and w :: "'a writer"
    using put_current_wrote [OF that(1), of bs] that(2) buffer_left_less [OF that(1), of "length bs"]
    by (auto simp: not_less)
qed simp_all

interpretation write_nil: emitter "mpack_write_nil None" "msgpack_encode Msg_nil"
  unfolding emitter_iff by (rule plain.write_nil)

interpretation write_bool: emitter "mpack_write_bool None b" "msgpack_encode (Msg_bool b)" for b
  unfolding emitter_iff by (rule plain.write_bool)

interpretation write_u8: emitter "mpack_write_u8 None v" "msgpack_encode (Msg_int (uint v))" for v
  unfolding emitter_iff by (rule plain.write_u8)

interpretation write_u16: emitter "mpack_write_u16 None v" "msgpack_encode (Msg_int (uint v))" for v
  unfolding emitter_iff by (rule plain.write_u16)

interpretation write_u32: emitter "mpack_write_u32 None v" "msgpack_encode (Msg_int (uint v))" for v
  unfolding emitter_iff by (rule plain.write_u32)

interpretation write_u64: emitter "mpack_write_u64 None v" "msgpack_encode (Msg_int (uint v))" for v
  unfolding emitter_iff by (rule plain.write_u64)

interpretation write_i8: emitter "mpack_write_i8 None v" "msgpack_encode (Msg_int (sint v))" for v
  unfolding emitter_iff by (rule plain.write_i8)

interpretation write_i16: emitter "mpack_write_i16 None v" "msgpack_encode (Msg_int (sint v))" for v
  unfolding emitter_iff by (rule plain.write_i16)

interpretation write_i32: emitter "mpack_write_i32 None v" "msgpack_encode (Msg_int (sint v))" for v
  unfolding emitter_iff by (rule plain.write_i32)

interpretation write_i64: emitter "mpack_write_i64 None v" "msgpack_encode (Msg_int (sint v))" for v
  unfolding emitter_iff by (rule plain.write_i64)

interpretation start_array: emitter "mpack_start_array None n" "msgpack_array_header (uint n)" for n
  unfolding emitter_iff by (rule plain.start_array)

interpretation start_map: emitter "mpack_start_map None n" "msgpack_map_header (uint n)" for n
  unfolding emitter_iff by (rule plain.start_map)

interpretation start_str: emitter "mpack_start_str None n" "msgpack_str_header (uint n)" for n
  unfolding emitter_iff by (rule plain.start_str)

interpretation start_bin: emitter "mpack_start_bin None n" "msgpack_bin_header (uint n)" for n
  unfolding emitter_iff by (rule plain.start_bin)

lemmas emitter_write_str = plain.says_write_str [folded emitter_iff]
lemmas emitter_write_utf8_cstr = plain.says_write_utf8_cstr [folded emitter_iff]

lemma emitter_write_all: "list_all2 emitter ops encs \<Longrightarrow> emitter (write_all ops) (concat encs)"
  using plain.says_write_all [of ops encs] by (simp add: emitter_iff [abs_def])

lemma write_utf8_cstr_invalid:
  assumes "0 \<notin> set s" "length s < 2 ^ 32" "\<not> mpack_utf8_check s"
  shows "mpack_write_utf8_cstr None (Some (s @ 0 # rest)) w =
           Ret (mpack_writer_flag_error mpack_error_invalid w)"
proof -
  have "unat (of_nat (length s) :: u32) = length s"
    using assms(2) by (simp add: unat_of_nat take_bit_nat_eq_self)
  then show ?thesis
    using assms by (simp add: mpack_write_utf8_cstr_def mpack_write_utf8_def read_data_prefix)
qed

subsection \<open>Properties\<close>

text \<open>
  Every integer writer, at every width and sign, appends exactly the shortest MessagePack
  encoding of the number it is given when that fits the buffer, and flags
  \<open>mpack_error_too_big\<close> when it does not; it never writes outside the buffer and keeps every
  byte written before.
\<close>

theorem integer_writers_canonical:
  assumes "writer_ok w"
  shows
    "(\<exists>w'. mpack_write_u8 None a w = Ret w' \<and> wrote (msgpack_encode (Msg_int (uint a))) w w') \<and>
     (\<exists>w'. mpack_write_u16 None b w = Ret w' \<and> wrote (msgpack_encode (Msg_int (uint b))) w w') \<and>
     (\<exists>w'. mpack_write_u32 None c w = Ret w' \<and> wrote (msgpack_encode (Msg_int (uint c))) w w') \<and>
     (\<exists>w'. mpack_write_u64 None d w = Ret w' \<and> wrote (msgpack_encode (Msg_int (uint d))) w w') \<and>
     (\<exists>w'. mpack_write_i8 None a w = Ret w' \<and> wrote (msgpack_encode (Msg_int (sint a))) w w') \<and>
     (\<exists>w'. mpack_write_i16 None b w = Ret w' \<and> wrote (msgpack_encode (Msg_int (sint b))) w w') \<and>
     (\<exists>w'. mpack_write_i32 None c w = Ret w' \<and> wrote (msgpack_encode (Msg_int (sint c))) w w') \<and>
     (\<exists>w'. mpack_write_i64 None d w = Ret w' \<and> wrote (msgpack_encode (Msg_int (sint d))) w w')"
  by (intro conjI write_u8.emits write_u16.emits write_u32.emits write_u64.emits
      write_i8.emits write_i16.emits write_i32.emits write_i64.emits assms)

theorem integer_writers_canonical_witness:
  "\<exists>w'. mpack_write_i32 None (- 70000)
       \<lparr>wbuffer = replicate 8 0, wcurrent = 1, werror = mpack_ok\<rparr> = Ret w' \<and>
     wrote (msgpack_encode (Msg_int (- 70000)))
       \<lparr>wbuffer = replicate 8 0, wcurrent = 1, werror = mpack_ok\<rparr> w'"
  using integer_writers_canonical [of "\<lparr>wbuffer = replicate 8 0, wcurrent = 1, werror = mpack_ok\<rparr>"
      0 0 "- 70000" 0]
  by (simp del: msgpack_encode.simps add: writer_ok_def)

text \<open>
  \<open>mpack_write_str\<close> emits the header for the length and the bytes themselves, through its fast
  path and through its split paths alike, without leaving the buffer.
\<close>

theorem write_str_emits:
  assumes "writer_ok w" "unat count \<le> length m"
  shows "\<exists>w'. mpack_write_str None (Some m) count w = Ret w' \<and>
              wrote (msgpack_encode (Msg_str (take (unat count) m))) w w'"
  using emitter.emits [OF emitter_write_str [OF assms(2)] assms(1)] .

theorem write_str_emits_witness:
  "\<exists>w'. mpack_write_str None (Some [104, 105, 33]) 2
       \<lparr>wbuffer = replicate 4 0, wcurrent = 0, werror = mpack_ok\<rparr> = Ret w' \<and>
     wrote (msgpack_encode (Msg_str [104, 105]))
       \<lparr>wbuffer = replicate 4 0, wcurrent = 0, werror = mpack_ok\<rparr> w'"
  using write_str_emits [of "\<lparr>wbuffer = replicate 4 0, wcurrent = 0, werror = mpack_ok\<rparr>" 2
      "[104, 105, 33]"]
  by (simp add: writer_ok_def)

end
