(* ===== verification/Mpack_Tree_Safety.thy ===== *)
theory Mpack_Tree_Safety
  imports Mpack_Tree
begin

text \<open>
  Safety of the tree parser: on any bytes, every access stays inside the data, the pool and the
  parse stack, and the loop ends. What a successful parse leaves behind is a tree every node of
  which can be read: its children are in the pool, its bytes are in the data.
\<close>

subsection \<open>The invariant of the parse loop\<close>

text \<open>The open levels of the stack, and the nodes they still have to parse.\<close>

definition levels :: "mpack_tree \<Rightarrow> mpack_level list" where
  "levels t = take (Suc (tlevel t)) (tstack t)"

definition pending :: "mpack_tree \<Rightarrow> nat set" where
  "pending t = (\<Union>l \<in> set (levels t). {lchild l ..< lchild l + lleft l})"

text \<open>A node that can be read: its union member fits its type and points inside.\<close>

definition node_ok :: "mpack_tree \<Rightarrow> mpack_node_data \<Rightarrow> bool" where
  "node_ok t nd \<longleftrightarrow>
     (case ntype nd of
        mpack_type_nil \<Rightarrow> True
      | mpack_type_bool \<Rightarrow> (\<exists>b. nvalue nd = Val_b b)
      | mpack_type_int \<Rightarrow> (\<exists>i. nvalue nd = Val_i i)
      | mpack_type_uint \<Rightarrow> (\<exists>u. nvalue nd = Val_u u)
      | mpack_type_str \<Rightarrow> (\<exists>off. nvalue nd = Val_offset off \<and> off + unat (nlen nd) \<le> tdata_length t)
      | mpack_type_bin \<Rightarrow> (\<exists>off. nvalue nd = Val_offset off \<and> off + unat (nlen nd) \<le> tdata_length t)
      | mpack_type_array \<Rightarrow> (\<exists>c. nvalue nd = Val_children c \<and> c + unat (nlen nd) \<le> tnodes t)
      | mpack_type_map \<Rightarrow> (\<exists>c. nvalue nd = Val_children c \<and> c + unat (nlen nd) * 2 \<le> tnodes t)
      | _ \<Rightarrow> False)"

lemma node_ok_level [simp]: "node_ok (t\<lparr>tlevel := lv\<rparr>) nd = node_ok t nd"
  by (cases "ntype nd") (simp_all add: node_ok_def)

lemma node_ok_state [simp]: "node_ok (t\<lparr>tstate := st\<rparr>) nd = node_ok t nd"
  by (cases "ntype nd") (simp_all add: node_ok_def)

lemma node_ok_mono:
  "node_ok t nd \<Longrightarrow> tdata_length t' = tdata_length t \<Longrightarrow> tnodes t \<le> tnodes t' \<Longrightarrow> node_ok t' nd"
  by (cases "ntype nd") (auto simp: node_ok_def)

definition mem_ok :: "mpack_tree \<Rightarrow> bool" where
  "mem_ok t \<longleftrightarrow>
     tdata t + tdata_length t \<le> length (tdata_obj t) \<and> tdata_length t \<le> SIZE_MAX \<and>
     length (tstack t) = 32 \<and> tlevel t < 32 \<and>
     (\<exists>p. tpool t = Some p \<and> tpool_count t \<le> length p) \<and> tpool_count t < 4294967296 \<and>
     tnodes t + tnodes_left t = tpool_count t \<and>
     tnode_count t = tnodes t \<and> tmax_nodes t = SIZE_MAX"

definition loop_inv :: "mpack_tree \<Rightarrow> bool" where
  "loop_inv t \<longleftrightarrow>
     mem_ok t \<and> tstate t = In_progress \<and> terror t = mpack_ok \<and>
     tsize t + tpossible_nodes_left t + sum_list (map lleft (levels t)) = tdata_length t \<and>
     (\<forall>l \<in> set (levels t). lchild l + lleft l \<le> tnodes t) \<and>
     (\<forall>i < tnodes t. i \<in> pending t \<or> node_ok t (the (tpool t) ! i))"

definition top_level :: "mpack_tree \<Rightarrow> mpack_level" where
  "top_level t = tstack t ! tlevel t"

subsection \<open>Primitive steps under the invariant\<close>

lemma upd_node_eq:
  "tpool t = Some p \<Longrightarrow> i < length p \<Longrightarrow>
     upd_node i f t = Ret (t\<lparr>tpool := Some (p[i := f (p ! i)])\<rparr>)"
  by (simp add: upd_node_def)

lemma read_node_eq: "tpool t = Some p \<Longrightarrow> i < length p \<Longrightarrow> read_node i t = Ret (p ! i)"
  by (simp add: read_node_def)

lemma reserve_bytes_eq:
  "tstate t = In_progress \<Longrightarrow> tcurrent_node_reserved t + n \<le> SIZE_MAX \<Longrightarrow>
     mpack_tree_reserve_bytes n t =
       Ret (tcurrent_node_reserved t + n \<le> tpossible_nodes_left t,
            t\<lparr>tcurrent_node_reserved := tcurrent_node_reserved t + n\<rparr>)"
  by (simp add: mpack_tree_reserve_bytes_def size_add_eq)

lemma load_data_eq:
  "tdata t + tsize t + d + n \<le> length (tdata_obj t) \<Longrightarrow>
     load_data n f d t = Ret (f (take n (drop (tdata t + tsize t + d) (tdata_obj t))))"
  by (simp add: load_data_def load_at_def)

lemma read_level_eq: "k < length (tstack t) \<Longrightarrow> read_level k t = Ret (tstack t ! k)"
  by (simp add: read_level_def)

lemma write_level_eq:
  "k < length (tstack t) \<Longrightarrow> write_level k l t = Ret (t\<lparr>tstack := (tstack t)[k := l]\<rparr>)"
  by (simp add: write_level_def)

lemmas primitive_eqs =
  upd_node_eq read_node_eq reserve_bytes_eq load_data_eq read_level_eq write_level_eq
  set_type_def set_len_def set_value_def done_after_def

subsection \<open>What parsing one node does\<close>

text \<open>
  \<open>after_node node nd r t\<close>: the state after \<open>mpack_tree_parse_node_contents\<close> returned true, having
  left \<open>nd\<close> in the node and reserved \<open>r\<close> bytes. Only the node itself was written; a container took
  its children from the pool and pushed them.
\<close>

definition total_children :: "mpack_node_data \<Rightarrow> nat" where
  "total_children nd =
     (if ntype nd = mpack_type_array then unat (nlen nd)
      else if ntype nd = mpack_type_map then unat (nlen nd) * 2 else 0)"

definition push_level :: "nat \<Rightarrow> mpack_tree \<Rightarrow> mpack_tree" where
  "push_level n t =
     (if n = 0 then t
      else t\<lparr>tlevel := Suc (tlevel t),
             tstack := (tstack t)[Suc (tlevel t) := \<lparr>lchild = tnodes t, lleft = n\<rparr>]\<rparr>)"

definition after_node :: "nat \<Rightarrow> mpack_node_data \<Rightarrow> nat \<Rightarrow> mpack_tree \<Rightarrow> mpack_tree" where
  "after_node node nd r t =
     (let n = total_children nd in
      (push_level n t)\<lparr>
        tpool := Some ((the (tpool t))[node := nd]), tcurrent_node_reserved := r,
        tnodes := tnodes t + n, tnode_count := tnodes t + n, tnodes_left := tnodes_left t - n\<rparr>)"

definition node_fits :: "mpack_node_data \<Rightarrow> nat \<Rightarrow> mpack_tree \<Rightarrow> bool" where
  "node_fits nd r t \<longleftrightarrow>
     r \<le> tpossible_nodes_left t \<and> total_children nd \<le> r \<and> total_children nd \<le> tnodes_left t \<and>
     (total_children nd = 0 \<or> Suc (tlevel t) < 32) \<and>
     (case ntype nd of
        mpack_type_nil \<Rightarrow> True
      | mpack_type_bool \<Rightarrow> (\<exists>b. nvalue nd = Val_b b)
      | mpack_type_int \<Rightarrow> (\<exists>i. nvalue nd = Val_i i)
      | mpack_type_uint \<Rightarrow> (\<exists>u. nvalue nd = Val_u u)
      | mpack_type_str \<Rightarrow> (\<exists>off. nvalue nd = Val_offset off \<and> off + unat (nlen nd) \<le> tsize t + r + 1)
      | mpack_type_bin \<Rightarrow> (\<exists>off. nvalue nd = Val_offset off \<and> off + unat (nlen nd) \<le> tsize t + r + 1)
      | mpack_type_array \<Rightarrow> nvalue nd = Val_children (tnodes t)
      | mpack_type_map \<Rightarrow> nvalue nd = Val_children (tnodes t)
      | _ \<Rightarrow> False)"

text \<open>The outcomes that are allowed: success as above, or failure.\<close>

definition safe_result :: "nat \<Rightarrow> mpack_tree \<Rightarrow> (bool \<times> mpack_tree) outcome \<Rightarrow> bool" where
  "safe_result node t m \<longleftrightarrow>
     (\<exists>nd r. m = Ret (True, after_node node nd r t) \<and> node_fits nd r t) \<or>
     (\<exists>t'. m = Ret (False, t'))"

lemma safe_resultI:
  "m = Ret (b, t') \<Longrightarrow> (b \<Longrightarrow> t' = after_node node nd r t \<and> node_fits nd r t) \<Longrightarrow>
     safe_result node t m"
  by (cases b) (auto simp: safe_result_def)

text \<open>A state in the middle of a node: the node is partly written and some bytes are reserved.\<close>

definition mid :: "nat \<Rightarrow> mpack_node_data \<Rightarrow> nat \<Rightarrow> mpack_tree \<Rightarrow> mpack_tree" where
  "mid node nd r t = t\<lparr>tpool := Some ((the (tpool t))[node := nd]), tcurrent_node_reserved := r\<rparr>"

definition node_start :: "nat \<Rightarrow> mpack_tree \<Rightarrow> bool" where
  "node_start node t \<longleftrightarrow>
     mem_ok t \<and> tstate t = In_progress \<and> node < tpool_count t \<and>
     tsize t + tpossible_nodes_left t < tdata_length t"

lemma mem_ok_pool: "mem_ok t \<Longrightarrow> node < tpool_count t \<Longrightarrow> \<exists>p. tpool t = Some p \<and> node < length p"
  by (auto simp: mem_ok_def)

lemma after_leaf:
  "mem_ok t \<Longrightarrow> total_children nd = 0 \<Longrightarrow> after_node node nd r t = mid node nd r t"
  by (simp add: after_node_def mid_def push_level_def mem_ok_def)

lemma parse_bytes_eq:
  assumes "node_start node t" "r \<le> 8" "r \<le> tpossible_nodes_left t"
  shows "mpack_tree_parse_bytes node (mid node nd r t) =
    Ret (r + unat (nlen nd) \<le> tpossible_nodes_left t,
         mid node (nd\<lparr>nvalue := Val_offset (tsize t + r + 1)\<rparr>) (r + unat (nlen nd)) t)"
proof -
  obtain p where p: "tpool t = Some p" "node < length p"
    using assms(1) mem_ok_pool by (auto simp: node_start_def)
  have mem: "mem_ok t" and small: "r + unat (nlen nd) \<le> SIZE_MAX"
    using assms(1,2) unat_u32_less [of "nlen nd"] by (simp_all add: SIZE_MAX_def node_start_def)
  have off: "size_add (size_add (tsize t) r) 1 = tsize t + r + 1"
    using assms mem by (simp add: size_add_eq mem_ok_def node_start_def)
  show ?thesis
    using p assms(1) small off
    by (simp add: mpack_tree_parse_bytes_def mid_def primitive_eqs node_start_def)
qed

lemma parse_bytes_safe:
  assumes "node_start node t" "r \<le> 8" "ntype nd = mpack_type_str \<or> ntype nd = mpack_type_bin"
    "r \<le> tpossible_nodes_left t"
  shows "safe_result node t (mpack_tree_parse_bytes node (mid node nd r t))"
proof (rule safe_resultI [OF parse_bytes_eq [OF assms(1,2,4)]])
  let ?nd = "nd\<lparr>nvalue := Val_offset (tsize t + r + 1)\<rparr>"
  have mem: "mem_ok t" using assms(1) by (simp add: node_start_def)
  have "total_children ?nd = 0" using assms(3) by (auto simp: total_children_def)
  then show "mid node ?nd (r + unat (nlen nd)) t = after_node node ?nd (r + unat (nlen nd)) t \<and>
      node_fits ?nd (r + unat (nlen nd)) t"
    if "r + unat (nlen nd) \<le> tpossible_nodes_left t"
    using that assms(3) after_leaf [OF mem] by (auto simp: node_fits_def)
qed

lemma push_stack_eq:
  "tstate t = In_progress \<Longrightarrow> length (tstack t) = 32 \<Longrightarrow> tlevel t < 32 \<Longrightarrow>
     mpack_tree_push_stack c n t =
       (if n = 0 then Ret (True, t)
        else if Suc (tlevel t) = 32 then Ret (False, mpack_tree_flag_error mpack_error_too_big t)
        else Ret (True, t\<lparr>tlevel := Suc (tlevel t),
                         tstack := (tstack t)[Suc (tlevel t) := \<lparr>lchild = c, lleft = n\<rparr>]\<rparr>))"
  by (simp add: mpack_tree_push_stack_def mpack_tree_parser_stack_capacity_def primitive_eqs
      size_add_eq SIZE_MAX_def)

lemma parse_children_eq:
  assumes "node_start node t" "r \<le> 8" "ntype nd = mpack_type_array \<or> ntype nd = mpack_type_map"
  shows "mpack_tree_parse_children node (mid node nd r t) =
     (let n = total_children nd; nd' = nd\<lparr>nvalue := Val_children (tnodes t)\<rparr>;
          t' = mid node nd (r + n) (t\<lparr>tnode_count := tnodes t + n\<rparr>) in
      if \<not> r + n \<le> tpossible_nodes_left t then Ret (False, t')
      else if \<not> n \<le> tnodes_left t then Ret (False, mpack_tree_flag_error mpack_error_too_big t')
      else mpack_tree_push_stack (tnodes t) n
             (mid node nd' (r + n)
               (t\<lparr>tnode_count := tnodes t + n, tnodes := tnodes t + n,
                  tnodes_left := tnodes_left t - n\<rparr>)))"
proof -
  let ?n = "total_children nd"
  obtain p where p: "tpool t = Some p" "node < length p"
    using assms(1) mem_ok_pool by (auto simp: node_start_def)
  have mem: "mem_ok t" "tstate t = In_progress" using assms(1) by (simp_all add: node_start_def)
  have n: "(if ntype nd = mpack_type_map then unat (nlen nd) * 2 else unat (nlen nd)) = ?n"
    using assms(3) by (auto simp: total_children_def)
  have no_wrap: "unat (nlen nd) * 2 \<le> SIZE_MAX"
    using unat_u32_less [of "nlen nd"] by (simp add: SIZE_MAX_def)
  have bound: "?n < 8589934592"
    using unat_u32_less [of "nlen nd"] by (simp add: total_children_def)
  have small: "tnode_count t + ?n \<le> SIZE_MAX" "r + ?n \<le> SIZE_MAX" "tnodes t + ?n \<le> SIZE_MAX"
    "tnodes_left t \<le> SIZE_MAX" "tnode_count t = tnodes t" "tmax_nodes t = SIZE_MAX"
    using bound mem(1) assms(2) by (auto simp: SIZE_MAX_def mem_ok_def)
  show ?thesis
    using p mem small no_wrap assms(2)
    by (cases t) (simp add: mpack_tree_parse_children_def mid_def primitive_eqs n size_add_eq
        size_sub_eq Let_def not_less)
qed

lemma parse_children_ok:
  assumes "node_start node t" "r \<le> 8" "ntype nd = mpack_type_array \<or> ntype nd = mpack_type_map"
    "n = total_children nd" "r + n \<le> tpossible_nodes_left t" "n \<le> tnodes_left t"
    "n = 0 \<or> Suc (tlevel t) < 32"
  shows "mpack_tree_parse_children node (mid node nd r t) =
    Ret (True, after_node node (nd\<lparr>nvalue := Val_children (tnodes t)\<rparr>) (r + n) t)"
proof -
  have "mem_ok t" "tstate t = In_progress" using assms(1) by (simp_all add: node_start_def)
  moreover have "total_children (nd\<lparr>nvalue := Val_children (tnodes t)\<rparr>) = n"
    by (simp add: total_children_def assms(4))
  ultimately show ?thesis
    using assms(4-) unfolding parse_children_eq [OF assms(1-3)]
    by (auto simp: push_stack_eq mid_def after_node_def push_level_def Let_def mem_ok_def)
qed

lemma parse_children_safe:
  assumes "node_start node t" "r \<le> 8" "ntype nd = mpack_type_array \<or> ntype nd = mpack_type_map"
  shows "safe_result node t (mpack_tree_parse_children node (mid node nd r t))"
proof -
  let ?n = "total_children nd" and ?nd = "nd\<lparr>nvalue := Val_children (tnodes t)\<rparr>"
  have mem: "mem_ok t" "tstate t = In_progress" using assms(1) by (simp_all add: node_start_def)
  show ?thesis
  proof (cases "r + ?n \<le> tpossible_nodes_left t \<and> ?n \<le> tnodes_left t \<and> (?n = 0 \<or> Suc (tlevel t) < 32)")
    case True
    then have "mpack_tree_parse_children node (mid node nd r t) =
        Ret (True, after_node node ?nd (r + ?n) t)"
      using parse_children_ok [OF assms refl] by blast
    moreover have "node_fits ?nd (r + ?n) t"
      using True assms(3) by (auto simp: node_fits_def total_children_def)
    ultimately show ?thesis by (auto simp: safe_result_def)
  next
    case False
    then show ?thesis
      using mem unfolding parse_children_eq [OF assms]
      by (auto simp: push_stack_eq mid_def Let_def safe_result_def mem_ok_def)
  qed
qed

lemma reserve_and_load_safe:
  assumes "node_start node t" "n \<le> 8" "\<And>bs. n \<le> tpossible_nodes_left t \<Longrightarrow>
      safe_result node t (k (f bs) (mid node nd n t))"
  shows "safe_result node t (reserve_and_load n f k (mid node nd 0 t))"
proof (cases "n \<le> tpossible_nodes_left t")
  case True
  then have "tdata t + tsize t + 1 + n \<le> length (tdata_obj t)"
    using assms(1) by (auto simp: node_start_def mem_ok_def)
  then have "\<exists>bs. reserve_and_load n f k (mid node nd 0 t) = k (f bs) (mid node nd n t)"
    using True assms(1,2)
    by (auto simp: reserve_and_load_def mid_def primitive_eqs node_start_def SIZE_MAX_def)
  then show ?thesis using assms(3) [OF True] by auto
next
  case False
  then show ?thesis
    using assms(1,2)
    by (simp add: reserve_and_load_def mid_def primitive_eqs node_start_def SIZE_MAX_def
        safe_result_def)
qed

lemma upd_mid:
  assumes "node_start node t"
  shows "upd_node node f (mid node nd r t) = Ret (mid node (f nd) r t)"
proof -
  obtain p where "tpool t = Some p" "node < length p"
    using assms mem_ok_pool by (auto simp: node_start_def)
  then show ?thesis by (simp add: mid_def primitive_eqs)
qed

lemma leaf_safe:
  assumes "node_start node t" "r \<le> tpossible_nodes_left t" "total_children nd = 0"
    "node_fits nd r t"
  shows "safe_result node t (Ret (True, mid node nd r t))"
  using assms after_leaf [of t nd node r] unfolding safe_result_def node_start_def by metis

lemma and_then_upd_mid:
  "node_start node t \<Longrightarrow> and_then (upd_node node f (mid node nd r t)) k = k (mid node (f nd) r t)"
  by (simp add: upd_mid)

lemma leaf_types:
  "total_children (set_value v (set_type ty nd)) = total_children (set_type ty nd)"
  "total_children (set_value v nd) = total_children nd"
  "ty \<noteq> mpack_type_array \<Longrightarrow> ty \<noteq> mpack_type_map \<Longrightarrow> total_children (set_type ty nd) = 0"
  by (simp_all add: total_children_def set_value_def set_type_def)

lemmas setter_defs = set_value_def set_type_def set_len_def

lemma parse_fix_safe:
  assumes "node_start node t"
  shows "safe_result node t (parse_fix ty node (mid node nd 0 t))"
  unfolding parse_fix_def done_after_def and_then_upd_mid [OF assms]
  by (auto intro!: leaf_safe parse_children_safe parse_bytes_safe assms
      simp: leaf_types setter_defs node_fits_def total_children_def)

lemma parse_bin_safe:
  assumes "node_start node t" "n \<le> 8"
  shows "safe_result node t (parse_bin n f node (mid node nd 0 t))"
  unfolding parse_bin_def and_then_upd_mid [OF assms(1)]
  by (rule reserve_and_load_safe [OF assms])
    (auto simp: and_then_upd_mid [OF assms(1)] setter_defs intro!: parse_bytes_safe assms)

lemma parse_nil_bool_bin_safe:
  assumes "node_start node t"
  shows "safe_result node t (parse_nil_bool_bin ty node (mid node nd 0 t))"
  unfolding parse_nil_bool_bin_def done_after_def and_then_upd_mid [OF assms]
  by (auto intro!: leaf_safe parse_bin_safe assms
      simp: leaf_types setter_defs node_fits_def total_children_def)

lemma parse_number_safe:
  assumes "node_start node t" "n \<le> 8"
    "ty = mpack_type_uint \<and> (\<forall>bs. \<exists>u. f bs = Val_u u) \<or> ty = mpack_type_int \<and> (\<forall>bs. \<exists>i. f bs = Val_i i)"
  shows "safe_result node t (parse_number ty n f node (mid node nd 0 t))"
  unfolding parse_number_def done_after_def and_then_upd_mid [OF assms(1)]
proof (rule reserve_and_load_safe [OF assms(1,2)])
  fix bs
  assume "n \<le> tpossible_nodes_left t"
  then show "safe_result node t
      (and_then (upd_node node (set_value (f bs)) (mid node (set_type ty nd) n t)) (\<lambda>t. Ret (True, t)))"
    unfolding and_then_upd_mid [OF assms(1)]
    using assms(3)
    by (intro leaf_safe assms(1))
      (auto simp: leaf_types node_fits_def setter_defs total_children_def)
qed

lemma parse_sized_bytes_safe:
  assumes "node_start node t" "n \<le> 8"
  shows "safe_result node t (parse_sized mpack_type_str n f mpack_tree_parse_bytes node (mid node nd 0 t))"
  unfolding parse_sized_def
  by (rule reserve_and_load_safe [OF assms])
    (auto simp: and_then_upd_mid [OF assms(1)] setter_defs intro!: parse_bytes_safe assms)

lemma parse_sized_children_safe:
  assumes "node_start node t" "n \<le> 8" "ty = mpack_type_array \<or> ty = mpack_type_map"
  shows "safe_result node t (parse_sized ty n f mpack_tree_parse_children node (mid node nd 0 t))"
  unfolding parse_sized_def
  by (rule reserve_and_load_safe [OF assms(1,2)])
    (use assms(3) in \<open>auto simp: and_then_upd_mid [OF assms(1)] setter_defs
       intro!: parse_children_safe assms(1,2)\<close>)

lemma parse_uint_int_safe:
  assumes "node_start node t"
  shows "safe_result node t (parse_uint_int ty node (mid node nd 0 t))"
  unfolding parse_uint_int_def using assms by (auto intro!: parse_number_safe)

lemma parse_str_tags_safe:
  assumes "node_start node t"
  shows "safe_result node t (parse_str_tags ty node (mid node nd 0 t))"
  unfolding parse_str_tags_def using assms by (auto intro!: parse_sized_bytes_safe)

lemma parse_container_tags_safe:
  assumes "node_start node t"
  shows "safe_result node t (parse_container_tags ty node (mid node nd 0 t))"
  unfolding parse_container_tags_def using assms by (auto intro!: parse_sized_children_safe)

lemma parse_other_safe:
  assumes "\<not> (ty \<le> 0xBF \<or> 0xE0 \<le> ty)" "\<not> (ty = 0xC0 \<or> 0xC2 \<le> ty \<and> ty \<le> 0xC6)"
    "\<not> (0xCC \<le> ty \<and> ty \<le> 0xD3)" "\<not> (0xD9 \<le> ty \<and> ty \<le> 0xDB)" "\<not> 0xDC \<le> ty"
  shows "safe_result node t (parse_other ty t') \<or>
         ty \<in> {0xCA, 0xCB} \<and> parse_other ty t' = Fault Assert_failed"
proof -
  have "unat ty = 0xC1 \<or> 0xC7 \<le> unat ty \<and> unat ty \<le> 0xC9 \<or> 0xD4 \<le> unat ty \<and> unat ty \<le> 0xD8 \<or>
      unat ty = 0xCA \<or> unat ty = 0xCB"
    using assms unfolding word_le_nat_alt word_unat_eq_iff by simp linarith
  then show ?thesis
    by (auto simp: parse_other_def safe_result_def mpack_assert_def word_le_nat_alt
        word_unat_eq_iff)
qed

text \<open>The tag byte of the next node.\<close>

definition next_byte :: "mpack_tree \<Rightarrow> u8" where
  "next_byte t = tdata_obj t ! (tdata t + tsize t)"

text \<open>The \<open>switch\<close> of the source.\<close>

definition tag_dispatch :: "u8 \<Rightarrow> nat \<Rightarrow> bool tree_op" where
  "tag_dispatch b node t =
     (if b \<le> 0xBF \<or> 0xE0 \<le> b then parse_fix b node t
      else if b = 0xC0 \<or> 0xC2 \<le> b \<and> b \<le> 0xC6 then parse_nil_bool_bin b node t
      else if 0xCC \<le> b \<and> b \<le> 0xD3 then parse_uint_int b node t
      else if 0xD9 \<le> b \<and> b \<le> 0xDB then parse_str_tags b node t
      else if 0xDC \<le> b then parse_container_tags b node t
      else parse_other b t)"

lemma contents_eq:
  assumes "node_start node t"
  shows "mpack_tree_parse_node_contents node t =
           tag_dispatch (next_byte t) node (mid node (the (tpool t) ! node) 0 t)"
proof -
  obtain p where p: "tpool t = Some p" "node < length p"
    using assms mem_ok_pool by (auto simp: node_start_def)
  have "tdata t + tsize t + 1 \<le> length (tdata_obj t)"
    using assms by (auto simp: node_start_def mem_ok_def)
  then have byte: "load_data (Suc 0) mpack_load_u8 0 t = Ret (next_byte t)"
    by (simp add: load_data_eq mpack_load_u8_def next_byte_def)
  have "t\<lparr>tcurrent_node_reserved := 0\<rparr> = mid node (p ! node) 0 t"
    using p by (cases t) (simp add: mid_def)
  then show ?thesis
    using assms byte p
    by (simp add: mpack_tree_parse_node_contents_def node_start_def tag_dispatch_def Let_def)
qed

lemma parse_node_contents_safe:
  assumes "node_start node t"
  shows "safe_result node t (mpack_tree_parse_node_contents node t) \<or>
         next_byte t \<in> {0xCA, 0xCB} \<and> mpack_tree_parse_node_contents node t = Fault Assert_failed"
  unfolding contents_eq [OF assms] tag_dispatch_def
  using assms
    parse_other_safe [of "next_byte t" node t "mid node (the (tpool t) ! node) 0 t"]
  by (simp add: parse_fix_safe parse_nil_bool_bin_safe parse_uint_int_safe parse_str_tags_safe
      parse_container_tags_safe split: if_split)

subsection \<open>One round of the loop\<close>

text \<open>The node is parsed and accounted for; \<open>advance\<close> also moves the level it belongs to on.\<close>

definition finish_node :: "nat \<Rightarrow> mpack_node_data \<Rightarrow> nat \<Rightarrow> mpack_tree \<Rightarrow> mpack_tree" where
  "finish_node node nd r t =
     (after_node node nd r t)\<lparr>
       tpossible_nodes_left := tpossible_nodes_left t - r,
       tsize := tsize t + (r + 1 - total_children nd)\<rparr>"

definition advance :: "nat \<Rightarrow> mpack_node_data \<Rightarrow> nat \<Rightarrow> mpack_tree \<Rightarrow> mpack_tree" where
  "advance node nd r t =
     (finish_node node nd r t)\<lparr>
       tstack := (tstack (finish_node node nd r t))[tlevel t :=
         \<lparr>lchild = lchild (top_level t) + 1, lleft = lleft (top_level t) - 1\<rparr>]\<rparr>"

lemma node_size:
  assumes "node_fits nd r t" "mem_ok t" "r < SIZE_MAX"
  shows "(if ntype nd = mpack_type_array then size_sub (size_add r 1) (unat (nlen nd))
          else if ntype nd = mpack_type_map
          then size_sub (size_add r 1) (unat (nlen nd * 2)) else size_add r 1) =
         r + 1 - total_children nd"
proof -
  have "unat (nlen nd * 2) = unat (nlen nd) * 2" if "ntype nd = mpack_type_map"
  proof -
    have "unat (nlen nd) * 2 < 4294967296"
      using assms(1,2) that by (auto simp: node_fits_def total_children_def mem_ok_def)
    then show ?thesis by (simp add: unat_word_ariths)
  qed
  moreover have "size_add r 1 = r + 1" using assms(3) by (simp add: size_add_eq)
  ultimately show ?thesis
    using assms by (auto simp: node_fits_def total_children_def size_sub_eq)
qed

lemma after_node_simps [simp]:
  "tpossible_nodes_left (after_node node nd r t) = tpossible_nodes_left t"
  "tcurrent_node_reserved (after_node node nd r t) = r"
  "tsize (after_node node nd r t) = tsize t"
  "tpool (after_node node nd r t) = Some ((the (tpool t))[node := nd])"
  by (simp_all add: after_node_def push_level_def Let_def)

lemma parse_node_of_contents:
  assumes "node_start node t" "node_fits nd r t"
    "mpack_tree_parse_node_contents node t = Ret (True, after_node node nd r t)"
  shows "mpack_tree_parse_node node t = Ret (True, finish_node node nd r t)"
proof -
  obtain p where p: "tpool t = Some p" "node < length p"
    using assms(1) mem_ok_pool by (auto simp: node_start_def)
  have mem: "mem_ok t" and possible: "tsize t + tpossible_nodes_left t < SIZE_MAX"
    using assms(1) by (auto simp: node_start_def mem_ok_def)
  have r: "r \<le> tpossible_nodes_left t" using assms(2) by (simp add: node_fits_def)
  show ?thesis
    using assms(3) r p possible node_size [OF assms(2) mem]
    by (cases "ntype nd") (simp_all add: mpack_tree_parse_node_def read_node_def finish_node_def
        size_sub_eq size_add_eq Let_def)
qed

lemma parse_node_cases:
  assumes "node_start node t"
  obtains (ok) nd r where "mpack_tree_parse_node node t = Ret (True, finish_node node nd r t)"
      "node_fits nd r t"
    | (fail) t' where "mpack_tree_parse_node node t = Ret (False, t')"
    | (float) "mpack_tree_parse_node node t = Fault Assert_failed" "next_byte t \<in> {0xCA, 0xCB}"
proof -
  from parse_node_contents_safe [OF assms] consider
      (1) nd r where "mpack_tree_parse_node_contents node t = Ret (True, after_node node nd r t)"
        "node_fits nd r t"
    | (2) t' where "mpack_tree_parse_node_contents node t = Ret (False, t')"
    | (3) "mpack_tree_parse_node_contents node t = Fault Assert_failed" "next_byte t \<in> {0xCA, 0xCB}"
    by (auto simp: safe_result_def)
  then show thesis
  proof cases
    case 1
    then show ?thesis using ok parse_node_of_contents [OF assms] by blast
  next
    case 2
    then show ?thesis by (intro fail [of t']) (simp add: mpack_tree_parse_node_def)
  next
    case 3
    then show ?thesis by (intro float) (simp_all add: mpack_tree_parse_node_def)
  qed
qed

lemma contents_fits:
  assumes "node_start node t"
    "mpack_tree_parse_node_contents node t = Ret (True, after_node node nd r t)"
  shows "node_fits nd r t"
proof -
  have len: "node < length (the (tpool t))"
    using assms(1) mem_ok_pool [of t node] by (auto simp: node_start_def)
  obtain nd' r' where eq: "after_node node nd r t = after_node node nd' r' t"
    and fits: "node_fits nd' r' t"
    using parse_node_contents_safe [OF assms(1)] assms(2) by (auto simp: safe_result_def)
  have "tcurrent_node_reserved (after_node node nd r t) =
      tcurrent_node_reserved (after_node node nd' r' t)" by (simp only: eq)
  then have "r = r'" by (simp only: after_node_simps)
  moreover have "the (tpool (after_node node nd r t)) ! node =
      the (tpool (after_node node nd' r' t)) ! node" by (simp only: eq)
  then have "nd = nd'" using len by (simp only: after_node_simps option.sel nth_list_update_eq)
  ultimately have "r = r'" "nd = nd'" by simp_all
  with fits show ?thesis by simp
qed

lemma loop_inv_pop:
  assumes "loop_inv (t\<lparr>tlevel := Suc lvl\<rparr>)" "lleft (tstack t ! Suc lvl) = 0"
  shows "loop_inv (t\<lparr>tlevel := lvl\<rparr>)"
proof -
  have len: "length (tstack t) = 32" "Suc lvl < 32"
    using assms(1) by (simp_all add: loop_inv_def mem_ok_def)
  have lv: "levels (t\<lparr>tlevel := Suc lvl\<rparr>) = levels (t\<lparr>tlevel := lvl\<rparr>) @ [tstack t ! Suc lvl]"
    using len by (simp add: levels_def take_Suc_conv_app_nth)
  show ?thesis
    using assms len(2) unfolding loop_inv_def pending_def lv by (auto simp: mem_ok_def)
qed

lemma pop_levels_inv:
  assumes "loop_inv (t\<lparr>tlevel := lvl\<rparr>)"
  shows "\<exists>b lv. pop_levels lvl t = Ret (b, t\<lparr>tlevel := lv\<rparr>) \<and> loop_inv (t\<lparr>tlevel := lv\<rparr>) \<and>
           (if b then lv = 0 \<and> lleft (tstack t ! 0) = 0 else lleft (tstack t ! lv) > 0)"
  using assms
proof (induction lvl)
  case 0
  then have "length (tstack t) = 32" by (simp add: loop_inv_def mem_ok_def)
  with 0 show ?case
    by (cases "lleft (tstack t ! 0) = 0")
      (auto simp: pop_levels.simps [of 0] read_level_def intro: exI [of _ 0])
next
  case (Suc lvl)
  then have len: "length (tstack t) = 32" "Suc lvl < 32" by (simp_all add: loop_inv_def mem_ok_def)
  show ?case
  proof (cases "lleft (tstack t ! Suc lvl) = 0")
    case True
    have "loop_inv (t\<lparr>tlevel := lvl\<rparr>)" by (rule loop_inv_pop [OF Suc.prems True])
    from Suc.IH [OF this] True len show ?thesis
      by (auto simp: pop_levels.simps [of "Suc lvl"] read_level_def)
  next
    case False
    with Suc.prems len show ?thesis
      by (auto simp: pop_levels.simps [of "Suc lvl"] read_level_def)
  qed
qed

lemma levels_advance:
  assumes "mem_ok t" "node_fits nd r t"
  shows "levels (advance node nd r t) =
    take (tlevel t) (tstack t) @ [\<lparr>lchild = lchild (top_level t) + 1, lleft = lleft (top_level t) - 1\<rparr>] @
    (if total_children nd = 0 then [] else [\<lparr>lchild = tnodes t, lleft = total_children nd\<rparr>])"
  using assms
  by (auto simp: levels_def advance_def finish_node_def after_node_def push_level_def Let_def
      mem_ok_def node_fits_def take_Suc_conv_app_nth)

lemma levels_split: "mem_ok t \<Longrightarrow> levels t = take (tlevel t) (tstack t) @ [top_level t]"
  by (simp add: levels_def top_level_def mem_ok_def take_Suc_conv_app_nth)

lemma advance_fields:
  "tdata (advance node nd r t) = tdata t" "tdata_obj (advance node nd r t) = tdata_obj t"
  "tdata_length (advance node nd r t) = tdata_length t"
  "tstate (advance node nd r t) = tstate t" "terror (advance node nd r t) = terror t"
  "tpool_count (advance node nd r t) = tpool_count t"
  "tmax_nodes (advance node nd r t) = tmax_nodes t" "troot (advance node nd r t) = troot t"
  "tread_fn (advance node nd r t) = tread_fn t"
  "tsize (advance node nd r t) = tsize t + (r + 1 - total_children nd)"
  "tpossible_nodes_left (advance node nd r t) = tpossible_nodes_left t - r"
  "tnodes (advance node nd r t) = tnodes t + total_children nd"
  "tnode_count (advance node nd r t) = tnodes t + total_children nd"
  "tnodes_left (advance node nd r t) = tnodes_left t - total_children nd"
  "tpool (advance node nd r t) = Some ((the (tpool t))[node := nd])"
  "length (tstack (advance node nd r t)) = length (tstack t)"
  "tlevel (advance node nd r t) = (if total_children nd = 0 then tlevel t else Suc (tlevel t))"
  by (simp_all add: advance_def finish_node_def after_node_def push_level_def Let_def)

lemma mem_ok_advance:
  "mem_ok t \<Longrightarrow> node_fits nd r t \<Longrightarrow> mem_ok (advance node nd r t)"
  by (auto simp: mem_ok_def advance_fields node_fits_def)

lemma node_ok_advance:
  assumes "node_fits nd r t" "tsize t + tpossible_nodes_left t < tdata_length t"
  shows "node_ok (advance node nd r t) nd"
  using assms
  by (cases "ntype nd") (auto simp: node_fits_def node_ok_def advance_fields total_children_def)

lemma pending_advance:
  assumes "mem_ok t" "node_fits nd r t" "node = lchild (top_level t)" "lleft (top_level t) > 0"
  shows "pending (advance node nd r t) \<union> {node} =
           pending t \<union> {tnodes t ..< tnodes t + total_children nd}"
proof -
  have "{lchild (top_level t) ..< lchild (top_level t) + lleft (top_level t)} =
      insert node {lchild (top_level t) + 1 ..<
        lchild (top_level t) + 1 + (lleft (top_level t) - 1)}"
    using assms(3,4) by auto
  then show ?thesis
    unfolding pending_def levels_advance [OF assms(1,2)] levels_split [OF assms(1)]
    by (cases "total_children nd = 0") auto
qed

lemma loop_inv_advance:
  assumes inv: "loop_inv t" and fits: "node_fits nd r t"
    and node: "node = lchild (top_level t)" "lleft (top_level t) > 0"
  shows "loop_inv (advance node nd r t)"
proof -
  let ?u = "advance node nd r t"
  have mem: "mem_ok t" using inv by (simp add: loop_inv_def)
  note lv = levels_advance [OF mem fits] levels_split [OF mem]
  have left: "tsize t + tpossible_nodes_left t + sum_list (map lleft (levels t)) = tdata_length t"
    using inv by (simp add: loop_inv_def)
  then have lt: "tsize t + tpossible_nodes_left t < tdata_length t"
    using node(2) by (simp add: lv)
  have r: "r \<le> tpossible_nodes_left t" "total_children nd \<le> r"
    using fits by (simp_all add: node_fits_def)
  have pool: "node < length (the (tpool t))" "node < tnodes t"
  proof -
    have "node + lleft (top_level t) \<le> tnodes t"
      using inv node(1) by (auto simp: loop_inv_def lv)
    then show "node < tnodes t" using node(2) by simp
    then show "node < length (the (tpool t))" using mem by (auto simp: mem_ok_def)
  qed
  have sum: "tsize ?u + tpossible_nodes_left ?u + sum_list (map lleft (levels ?u)) = tdata_length ?u"
    using left r node(2) by (auto simp: lv advance_fields)
  have children: "\<forall>l \<in> set (levels ?u). lchild l + lleft l \<le> tnodes ?u"
  proof -
    have "\<forall>l \<in> set (levels t). lchild l + lleft l \<le> tnodes t"
      using inv by (simp add: loop_inv_def)
    then show ?thesis using node(2) by (auto simp: lv advance_fields)
  qed
  have nodes: "\<forall>i < tnodes ?u. i \<in> pending ?u \<or> node_ok ?u (the (tpool ?u) ! i)"
  proof (intro allI impI)
    fix i
    assume i: "i < tnodes ?u"
    show "i \<in> pending ?u \<or> node_ok ?u (the (tpool ?u) ! i)"
    proof (cases "i = node")
      case True
      then show ?thesis using node_ok_advance [OF fits lt] pool by (simp add: advance_fields)
    next
      case False
      have "i \<in> pending ?u" if "\<not> i < tnodes t \<or> i \<in> pending t"
      proof -
        have "i \<in> pending ?u \<union> {node}"
          unfolding pending_advance [OF mem fits node] using that i by (auto simp: advance_fields)
        then show ?thesis using False by blast
      qed
      moreover have "node_ok ?u (the (tpool ?u) ! i)" if "i < tnodes t" "i \<notin> pending t"
      proof -
        have "node_ok t (the (tpool t) ! i)" using inv that unfolding loop_inv_def by blast
        then have "node_ok ?u (the (tpool t) ! i)"
          by (rule node_ok_mono) (simp_all add: advance_fields)
        then show ?thesis using False by (simp add: advance_fields)
      qed
      ultimately show ?thesis by blast
    qed
  qed
  show ?thesis
    using inv mem_ok_advance [OF mem fits] sum children nodes
    by (simp add: loop_inv_def advance_fields)
qed

text \<open>A round from a state with work left: it goes on, ends, fails, or hits a float tag.\<close>

definition float_tag_in :: "mpack_tree \<Rightarrow> bool" where
  "float_tag_in t \<longleftrightarrow>
     (\<exists>b \<in> set (take (tdata_length t) (drop (tdata t) (tdata_obj t))). b \<in> {0xCA, 0xCB})"

definition fixed_fields :: "mpack_tree \<Rightarrow> mpack_tree \<Rightarrow> bool" where
  "fixed_fields t t' \<longleftrightarrow>
     tdata t' = tdata t \<and> tdata_obj t' = tdata_obj t \<and> tdata_length t' = tdata_length t \<and>
     tpool_count t' = tpool_count t \<and> troot t' = troot t \<and> tread_fn t' = tread_fn t \<and>
     tnodes t \<le> tnodes t'"

lemma node_start_of_inv:
  assumes "loop_inv t" "lleft (top_level t) > 0"
  shows "node_start (lchild (top_level t)) t"
proof -
  have mem: "mem_ok t" using assms(1) by (simp add: loop_inv_def)
  have "lchild (top_level t) + lleft (top_level t) \<le> tnodes t"
    "tsize t + tpossible_nodes_left t + sum_list (map lleft (levels t)) = tdata_length t"
    using assms(1) levels_split [OF mem] by (simp_all add: loop_inv_def)
  then show ?thesis
    using assms mem levels_split [OF mem] by (auto simp: node_start_def loop_inv_def mem_ok_def)
qed

lemma next_byte_in:
  assumes "node_start node t" "next_byte t \<in> {0xCA, 0xCB}"
  shows "float_tag_in t"
proof -
  have "tsize t < tdata_length t" "tdata t + tdata_length t \<le> length (tdata_obj t)"
    using assms(1) by (auto simp: node_start_def mem_ok_def)
  then have "next_byte t \<in> set (take (tdata_length t) (drop (tdata t) (tdata_obj t)))"
    unfolding next_byte_def in_set_conv_nth by (intro exI [of _ "tsize t"]) simp
  with assms(2) show ?thesis by (auto simp: float_tag_in_def)
qed

lemma parse_round_eq:
  assumes inv: "loop_inv t" and left: "lleft (top_level t) > 0"
    and ok: "mpack_tree_parse_node (lchild (top_level t)) t =
      Ret (True, finish_node (lchild (top_level t)) nd r t)"
    and fits: "node_fits nd r t"
  shows "parse_round t =
     (let u = advance (lchild (top_level t)) nd r t in
      and_then (pop_levels (tlevel u) u) (\<lambda>(empty, t).
        Ret (if empty then Stop True else Again, t)))"
proof -
  have mem: "mem_ok t" using inv by (simp add: loop_inv_def)
  have stack: "tlevel t < length (tstack t)" using mem by (simp add: mem_ok_def)
  have top: "read_level (tlevel t) t = Ret (top_level t)"
    using stack by (simp add: read_level_def top_level_def)
  let ?f = "finish_node (lchild (top_level t)) nd r t"
    and ?u = "advance (lchild (top_level t)) nd r t"
  have same: "read_level (tlevel t) ?f = Ret (top_level t)"
    using stack by (simp add: read_level_def finish_node_def after_node_def push_level_def
        top_level_def Let_def)
  have small: "lchild (top_level t) + 1 \<le> SIZE_MAX" "1 \<le> lleft (top_level t)"
    "lleft (top_level t) \<le> SIZE_MAX"
  proof -
    have "lchild (top_level t) + lleft (top_level t) \<le> tnodes t"
      using inv levels_split [OF mem] by (simp add: loop_inv_def)
    then show "lchild (top_level t) + 1 \<le> SIZE_MAX" "lleft (top_level t) \<le> SIZE_MAX"
      "1 \<le> lleft (top_level t)"
      using mem left by (auto simp: mem_ok_def SIZE_MAX_def)
  qed
  have wr: "write_level (tlevel t) \<lparr>lchild = size_add (lchild (top_level t)) (Suc 0),
      lleft = size_sub (lleft (top_level t)) (Suc 0)\<rparr> ?f = Ret ?u"
    using stack small
    by (simp add: write_level_def advance_def size_add_eq size_sub_eq finish_node_def
        after_node_def push_level_def Let_def)
  have err: "terror ?u = mpack_ok" using inv by (simp add: loop_inv_def advance_fields)
  show ?thesis
    by (simp add: parse_round_def top ok same wr err Let_def)
qed

lemma parse_round_cases:
  assumes "loop_inv t" "lleft (top_level t) > 0"
  obtains
    (again) t' where "parse_round t = Ret (Again, t')" "loop_inv t'" "lleft (top_level t') > 0"
      "fixed_fields t t'" "tsize t < tsize t'"
  | (done_all) t' where "parse_round t = Ret (Stop True, t')" "loop_inv t'" "tlevel t' = 0"
      "lleft (tstack t' ! 0) = 0" "fixed_fields t t'" "tsize t < tsize t'"
  | (fail) t' where "parse_round t = Ret (Stop False, t')"
  | (float) "parse_round t = Fault Assert_failed" "float_tag_in t"
proof -
  note start = node_start_of_inv [OF assms]
  have top: "read_level (tlevel t) t = Ret (top_level t)"
    using assms(1) by (simp add: read_level_def top_level_def loop_inv_def mem_ok_def)
  show thesis
  proof (rule parse_node_cases [OF start])
    fix nd r
    assume ok: "mpack_tree_parse_node (lchild (top_level t)) t =
        Ret (True, finish_node (lchild (top_level t)) nd r t)" and fits: "node_fits nd r t"
    let ?u = "advance (lchild (top_level t)) nd r t"
    have "loop_inv (?u\<lparr>tlevel := tlevel ?u\<rparr>)"
      using loop_inv_advance [OF assms(1) fits refl assms(2)] by simp
    from pop_levels_inv [OF this] obtain b lv where
      pop: "pop_levels (tlevel ?u) ?u = Ret (b, ?u\<lparr>tlevel := lv\<rparr>)" "loop_inv (?u\<lparr>tlevel := lv\<rparr>)"
        "if b then lv = 0 \<and> lleft (tstack ?u ! 0) = 0 else lleft (tstack ?u ! lv) > 0"
      by auto
    have round: "parse_round t = Ret (if b then Stop True else Again, ?u\<lparr>tlevel := lv\<rparr>)"
      by (simp add: parse_round_eq [OF assms ok fits] pop(1) Let_def)
    have grows: "tsize t < tsize (?u\<lparr>tlevel := lv\<rparr>)" "fixed_fields t (?u\<lparr>tlevel := lv\<rparr>)"
      using fits by (auto simp: advance_fields fixed_fields_def node_fits_def)
    show thesis
    proof (cases b)
      case True
      then show thesis using done_all [OF _ pop(2)] round grows pop(3) by simp
    next
      case False
      then show thesis using again [OF _ pop(2)] round grows pop(3) by (simp add: top_level_def)
    qed
  next
    fix t'
    assume "mpack_tree_parse_node (lchild (top_level t)) t = Ret (False, t')"
    then show thesis by (intro fail [of t']) (simp add: parse_round_def top)
  next
    assume "mpack_tree_parse_node (lchild (top_level t)) t = Fault Assert_failed"
      and "next_byte t \<in> {0xCA, 0xCB}"
    then show thesis using next_byte_in [OF start]
      by (intro float) (simp_all add: parse_round_def top)
  qed
qed

subsection \<open>The whole parse\<close>

text \<open>
  With fuel for every byte that is left the loop never runs out of it; it returns, or it stops at
  a float tag.
\<close>

lemma parse_loop_safe:
  assumes "loop_inv t" "lleft (top_level t) > 0" "tdata_length t < tsize t + n"
  shows "(\<exists>t'. parse_loop n t = Ret (True, t') \<and> loop_inv t' \<and> tlevel t' = 0 \<and>
              lleft (tstack t' ! 0) = 0 \<and> fixed_fields t t') \<or>
         (\<exists>t'. parse_loop n t = Ret (False, t')) \<or>
         parse_loop n t = Fault Assert_failed \<and> float_tag_in t"
  using assms
proof (induction n arbitrary: t)
  case 0
  then show ?case by (simp add: loop_inv_def)
next
  case (Suc n)
  from Suc.prems(1,2) show ?case
  proof (cases rule: parse_round_cases)
    case (again t')
    then have fuel: "tdata_length t' < tsize t' + n"
      using Suc.prems(3) by (simp add: fixed_fields_def)
    have "float_tag_in t' = float_tag_in t" "\<And>u. fixed_fields t' u \<Longrightarrow> fixed_fields t u"
      using again(4) by (simp_all add: float_tag_in_def fixed_fields_def)
    then show ?thesis using Suc.IH [OF again(2,3) fuel] again(1) by auto
  next
    case (done_all t')
    then show ?thesis by auto
  next
    case (fail t')
    then show ?thesis by auto
  next
    case float
    then show ?thesis by auto
  qed
qed

text \<open>A parsed tree: the root and every node it reaches can be read.\<close>

definition tree_ok :: "mpack_tree \<Rightarrow> bool" where
  "tree_ok t \<longleftrightarrow>
     tdata t + tdata_length t \<le> length (tdata_obj t) \<and>
     (\<exists>p. tpool t = Some p \<and> tnodes t \<le> length p \<and> (\<forall>i < tnodes t. node_ok t (p ! i))) \<and>
     troot t < tnodes t"

lemma tree_ok_state [simp]: "tree_ok (t\<lparr>tstate := st\<rparr>) = tree_ok t"
  by (simp add: tree_ok_def)

lemma loop_inv_done:
  assumes "loop_inv t" "tlevel t = 0" "lleft (tstack t ! 0) = 0" "troot t < tnodes t"
  shows "tree_ok t"
proof -
  have mem: "mem_ok t" using assms(1) by (simp add: loop_inv_def)
  then have "levels t = [tstack t ! 0]"
    using assms(2) levels_split [of t] by (simp add: top_level_def)
  then have "pending t = {}" using assms(3) by (auto simp: pending_def)
  moreover have "\<forall>i < tnodes t. i \<in> pending t \<or> node_ok t (the (tpool t) ! i)"
    using assms(1) unfolding loop_inv_def by blast
  ultimately show ?thesis using assms(4) mem by (auto simp: tree_ok_def mem_ok_def)
qed

definition pool_tree_ok :: "mpack_tree \<Rightarrow> bool" where
  "pool_tree_ok t \<longleftrightarrow>
     terror t = mpack_ok \<and> tstate t = Not_started \<and> tsize t = 0 \<and>
     tdata t + tdata_length t \<le> length (tdata_obj t) \<and> tdata_length t < SIZE_MAX \<and>
     length (tstack t) = 32 \<and> tmax_nodes t = SIZE_MAX \<and> 0 < tpool_count t \<and>
     tpool_count t < 4294967296 \<and> (\<exists>p. tpool t = Some p \<and> tpool_count t \<le> length p)"

definition started :: "mpack_tree \<Rightarrow> mpack_tree" where
  "started t = t\<lparr>tstate := In_progress, tcurrent_node_reserved := 1,
     tpossible_nodes_left := tdata_length t - 1, tnode_count := 1, tnodes := 1,
     tnodes_left := tpool_count t - 1, troot := 0, tlevel := 0,
     tstack := (tstack t)[0 := \<lparr>lchild = 0, lleft = 1\<rparr>]\<rparr>"

lemma parse_start_eq:
  assumes "pool_tree_ok t"
  shows "mpack_tree_parse_start t =
     (if 0 < tdata_length t then Ret (True, started t)
      else Ret (False, t\<lparr>tcurrent_node_reserved := 1, tpossible_nodes_left := 0\<rparr>))"
  using assms
  by (cases t) (auto simp: pool_tree_ok_def mpack_tree_parse_start_def reserve_bytes_eq SIZE_MAX_def
      size_sub_eq primitive_eqs started_def Let_def)

lemma loop_inv_started:
  "pool_tree_ok t \<Longrightarrow> 0 < tdata_length t \<Longrightarrow> loop_inv (started t)"
  by (cases "tstack t")
    (auto simp: pool_tree_ok_def loop_inv_def mem_ok_def started_def levels_def pending_def)

lemma parse_result:
  assumes "pool_tree_ok t" "0 < tdata_length t"
  shows "mpack_tree_parse t =
     and_then (parse_loop (tdata_length t + 1) (started t)) (\<lambda>(parsed, t).
       if \<not> parsed then
         (if terror t \<noteq> mpack_ok then Ret t
          else Ret (mpack_tree_flag_error (parse_failure t) t))
       else mpack_assert (terror t = mpack_ok) (mpack_assert (tlevel t = 0)
              (Ret (t\<lparr>tstate := Parsed\<rparr>))))"
  using assms loop_inv_started [OF assms]
  by (simp add: mpack_tree_parse_def parse_start_eq mpack_tree_continue_parsing_def loop_inv_def
      pool_tree_ok_def started_def)

lemma parse_failure_not_ok: "terror (mpack_tree_flag_error (parse_failure t) t) \<noteq> mpack_ok"
  by (simp add: mpack_tree_flag_error_def parse_failure_def)

definition parse_success :: "mpack_tree \<Rightarrow> mpack_tree \<Rightarrow> bool" where
  "parse_success t t' \<longleftrightarrow>
     terror t' = mpack_ok \<and> tstate t' = Parsed \<and> tree_ok t' \<and> fixed_fields (started t) t'"

lemma parse_safe:
  assumes "pool_tree_ok t"
  shows "(\<exists>t'. mpack_tree_parse t = Ret t' \<and> (terror t' \<noteq> mpack_ok \<or> parse_success t t')) \<or>
         mpack_tree_parse t = Fault Assert_failed \<and> float_tag_in t"
proof (cases "0 < tdata_length t")
  case False
  then have "mpack_tree_parse t = Ret (mpack_tree_flag_error (parse_failure t)
      (t\<lparr>tcurrent_node_reserved := 1, tpossible_nodes_left := 0\<rparr>))"
    using assms parse_start_eq [OF assms]
    by (simp add: mpack_tree_parse_def pool_tree_ok_def parse_failure_def)
  then show ?thesis by (auto simp: mpack_tree_flag_error_def parse_failure_def)
next
  case True
  note inv = loop_inv_started [OF assms True]
  have fuel: "tdata_length (started t) < tsize (started t) + (tdata_length t + 1)"
    "lleft (top_level (started t)) > 0" "float_tag_in (started t) = float_tag_in t"
    using assms by (cases "tstack t";
        simp add: started_def pool_tree_ok_def top_level_def float_tag_in_def)+
  from parse_loop_safe [OF inv fuel(2,1)] consider
      (1) t' where "parse_loop (tdata_length t + 1) (started t) = Ret (True, t')" "loop_inv t'"
        "tlevel t' = 0" "lleft (tstack t' ! 0) = 0" "fixed_fields (started t) t'"
    | (2) t' where "parse_loop (tdata_length t + 1) (started t) = Ret (False, t')"
    | (3) "parse_loop (tdata_length t + 1) (started t) = Fault Assert_failed" "float_tag_in t"
    using fuel(3) by blast
  then show ?thesis
  proof cases
    case 1
    have "troot t' < tnodes t'" using 1(5) by (simp add: fixed_fields_def started_def)
    then have "tree_ok t'" by (rule loop_inv_done [OF 1(2-4)])
    moreover have "terror t' = mpack_ok" using 1(2) by (simp add: loop_inv_def)
    ultimately have "mpack_tree_parse t = Ret (t'\<lparr>tstate := Parsed\<rparr>)"
      "parse_success t (t'\<lparr>tstate := Parsed\<rparr>)"
      using 1 by (simp_all del: parse_loop.simps add: parse_result [OF assms True]
          parse_success_def fixed_fields_def)
    then show ?thesis by blast
  next
    case 2
    then show ?thesis
      using parse_failure_not_ok by (auto simp: parse_result [OF assms True])
  next
    case 3
    then show ?thesis by (simp add: parse_result [OF assms True])
  qed
qed

lemma pool_tree_ok_init:
  assumes "len \<le> length data" "len < SIZE_MAX" "0 < n" "n < 4294967296" "n \<le> length nodes"
  shows "pool_tree_ok (mpack_tree_init_pool data len nodes n)"
  using assms by (simp add: pool_tree_ok_def mpack_tree_init_pool_def mpack_tree_init_clear_def
      MPACK_NODE_MAX_DEPTH_WITHOUT_MALLOC_def)

subsection \<open>The property\<close>

text \<open>
  C2. Parsing any bytes from a pool of nodes either returns or stops at the assertion that ends the
  \<open>switch\<close>, and the latter only when the data holds one of the bytes 0xCA and 0xCB (the float
  types, compiled out). It never reads or writes outside the data, the pool or the stack and its
  loop ends. A parse that returns without an error leaves a tree in which the root and every other
  node can be read.
\<close>

theorem tree_parse_memory_safe:
  assumes "len \<le> length data" "len < SIZE_MAX" "0 < n" "n < 4294967296" "n \<le> length nodes"
  shows "(\<exists>t. mpack_tree_parse (mpack_tree_init_pool data len nodes n) = Ret t \<and>
              (terror t = mpack_ok \<longrightarrow> tstate t = Parsed \<and> tree_ok t)) \<or>
         mpack_tree_parse (mpack_tree_init_pool data len nodes n) = Fault Assert_failed \<and>
           (0xCA \<in> set (take len data) \<or> 0xCB \<in> set (take len data))"
proof -
  let ?t = "mpack_tree_init_pool data len nodes n"
  have "float_tag_in ?t \<Longrightarrow> 0xCA \<in> set (take len data) \<or> 0xCB \<in> set (take len data)"
    using assms(3)
    by (auto simp: float_tag_in_def mpack_tree_init_pool_def mpack_tree_init_clear_def)
  with parse_safe [OF pool_tree_ok_init [OF assms]] show ?thesis
    by (auto simp: parse_success_def)
qed

theorem tree_parse_memory_safe_witness:
  "\<exists>t. mpack_tree_parse (mpack_tree_init_pool [0x92, 1, 0xC3] 3
         (replicate 50 \<lparr>ntype = mpack_type_missing, nlen = 0, nvalue = Val_none\<rparr>) 50) = Ret t \<and>
       (terror t = mpack_ok \<longrightarrow> tree_ok t)"
  using tree_parse_memory_safe [of 3 "[0x92, 1, 0xC3]" 50
      "replicate 50 \<lparr>ntype = mpack_type_missing, nlen = 0, nvalue = Val_none\<rparr>"]
  by (auto simp: SIZE_MAX_def)

end
