(* ===== verification/Msgpack_Values.thy ===== *)
theory Msgpack_Values
  imports Msgpack_Format
begin

text \<open>
  Values of the format as a header and children, their size, depth and range, and the numbers of
  their headers read back with the loads of MPack. The tree parser and the reader share these facts.
\<close>

subsection \<open>Values as headers and children\<close>

fun children :: "msgpack \<Rightarrow> msgpack list" where
  "children (Msg_array vs) = vs"
| "children (Msg_map kvs) = concat (map (\<lambda>(k, v). [k, v]) kvs)"
| "children _ = []"

fun head_bytes :: "msgpack \<Rightarrow> bytes" where
  "head_bytes (Msg_array vs) = msgpack_array_header (int (length vs))"
| "head_bytes (Msg_map kvs) = msgpack_map_header (int (length kvs))"
| "head_bytes v = msgpack_encode v"

fun nodes_in :: "msgpack \<Rightarrow> nat" where
  "nodes_in (Msg_array vs) = length vs + sum_list (map nodes_in vs)"
| "nodes_in (Msg_map kvs) = 2 * length kvs + sum_list (map (\<lambda>(k, v). nodes_in k + nodes_in v) kvs)"
| "nodes_in _ = 0"

fun list_max :: "nat list \<Rightarrow> nat" where
  "list_max [] = 0"
| "list_max (n # ns) = max n (list_max ns)"

fun depth :: "msgpack \<Rightarrow> nat" where
  "depth (Msg_array vs) = (if vs = [] then 0 else Suc (list_max (map depth vs)))"
| "depth (Msg_map kvs) =
     (if kvs = [] then 0 else Suc (list_max (map (\<lambda>(k, v). max (depth k) (depth v)) kvs)))"
| "depth _ = 0"

text \<open>What the format can hold: 64-bit integers, and lengths of 32 bits.\<close>

fun representable :: "msgpack \<Rightarrow> bool" where
  "representable (Msg_int i) \<longleftrightarrow> - (2 ^ 63) \<le> i \<and> i < 2 ^ 64"
| "representable (Msg_str s) \<longleftrightarrow> length s < 2 ^ 32"
| "representable (Msg_bin s) \<longleftrightarrow> length s < 2 ^ 32"
| "representable (Msg_array vs) \<longleftrightarrow> length vs < 2 ^ 32 \<and> list_all representable vs"
| "representable (Msg_map kvs) \<longleftrightarrow>
     length kvs < 2 ^ 31 \<and> list_all (\<lambda>(k, v). representable k \<and> representable v) kvs"
| "representable _ \<longleftrightarrow> True"

lemma pairs_flat:
  "concat (map (\<lambda>(k, v). f k @ f v) kvs) = concat (map f (concat (map (\<lambda>(k, v). [k, v]) kvs)))"
  "sum_list (map (\<lambda>(k, v). g k + g v) kvs) =
     sum_list (map g (concat (map (\<lambda>(k, v). [k, v]) kvs)) :: nat list)"
  "length (concat (map (\<lambda>(k, v). [k, v]) kvs)) = 2 * length kvs"
  "list_max (map (\<lambda>(k, v). max (h k) (h v)) kvs) =
     list_max (map h (concat (map (\<lambda>(k, v). [k, v]) kvs)))"
  "list_all (\<lambda>(k, v). P k \<and> P v) kvs = list_all P (concat (map (\<lambda>(k, v). [k, v]) kvs))"
  "concat (map (\<lambda>(k, v). [k, v]) kvs) = [] \<longleftrightarrow> kvs = []"
  by (induction kvs) auto

lemma encode_head: "msgpack_encode v = head_bytes v @ concat (map msgpack_encode (children v))"
  by (cases v) (simp_all add: pairs_flat(1))

lemma nodes_in_children: "nodes_in v = length (children v) + sum_list (map nodes_in (children v))"
  by (cases v) (simp_all add: pairs_flat(2,3))

lemma depth_children:
  "depth v = (if children v = [] then 0 else Suc (list_max (map depth (children v))))"
  by (cases v) (simp_all only: depth.simps children.simps pairs_flat(4,6) if_True refl)

lemma representable_children: "representable v \<Longrightarrow> list_all representable (children v)"
  by (cases v) (simp_all add: pairs_flat(5))

lemma children_smaller: "x \<in> set (children v) \<Longrightarrow> size x < size v"
proof (cases v)
  case (Msg_array vs)
  assume "x \<in> set (children v)"
  with Msg_array have "size x \<le> size_list size vs" by (auto intro: size_list_estimation')
  with Msg_array show ?thesis by simp
next
  case (Msg_map kvs)
  assume "x \<in> set (children v)"
  with Msg_map obtain k y where "(k, y) \<in> set kvs" "x = k \<or> x = y" by auto
  moreover from this(1) have "size k + size y < size v"
    using size_list_estimation' [of "(k, y)" kvs "size k + size y + 1" "size_prod size size"] Msg_map
    by simp
  ultimately show ?thesis by auto
qed auto

lemma list_max_le: "x \<in> set ns \<Longrightarrow> x \<le> list_max ns"
  by (induction ns) auto

lemma list_max_in: "ns \<noteq> [] \<Longrightarrow> list_max ns \<in> set ns"
  by (induction ns rule: list_nonempty_induct) (auto simp: max_def)

lemma depth_less_length: "depth v < length (msgpack_encode v)"
proof (induction "size v" arbitrary: v rule: less_induct)
  case less
  have head: "0 < length (head_bytes v)"
    by (cases v) (simp_all add: msgpack_int_def msgpack_bool_def msgpack_str_header_def msgpack_bin_header_def
        msgpack_array_header_def msgpack_map_header_def fix_tag_def be_bytes_def)
  show ?case
  proof (cases "children v = []")
    case True
    then show ?thesis using head by (simp add: depth_children [of v] encode_head [of v])
  next
    case False
    then have "list_max (map depth (children v)) \<in> set (map depth (children v))"
      using list_max_in [of "map depth (children v)"] by simp
    then obtain x where x: "x \<in> set (children v)" "list_max (map depth (children v)) = depth x" by auto
    have "length (msgpack_encode x) \<le> length (concat (map msgpack_encode (children v)))"
      using x(1) by (simp add: length_concat member_le_sum_list)
    moreover have "depth x < length (msgpack_encode x)"
      using less.hyps [OF children_smaller [OF x(1)]] .
    moreover have "length (msgpack_encode v) =
        length (head_bytes v) + length (concat (map msgpack_encode (children v)))"
      by (simp add: encode_head [of v])
    moreover have "depth v = Suc (depth x)" using False x(2) by (simp add: depth_children [of v])
    ultimately show ?thesis using head by linarith
  qed
qed


subsection \<open>Reading numbers back\<close>

lemma be_bytes_uint_word:
  "be_bytes 1 i = be_bytes 1 (uint (word_of_int i :: u8))"
  "be_bytes 2 i = be_bytes 2 (uint (word_of_int i :: u16))"
  "be_bytes 4 i = be_bytes 4 (uint (word_of_int i :: u32))"
  "be_bytes 8 i = be_bytes 8 (uint (word_of_int i :: u64))"
  unfolding be_bytes_def
  by (rule map_cong [OF refl], rule bit_word_eqI, fastforce simp: bit_simps)+

lemma load_be_bytes:
  "mpack_load_u8 (be_bytes 1 i) = word_of_int i" "mpack_load_u16 (be_bytes 2 i) = word_of_int i"
  "mpack_load_u32 (be_bytes 4 i) = word_of_int i" "mpack_load_u64 (be_bytes 8 i) = word_of_int i"
  by (subst be_bytes_uint_word, simp only: store_be_bytes [symmetric] load_store_u8 load_store_u16
      load_store_u32 load_store_u64)+

lemma word_of_int_range:
  "0 \<le> i \<Longrightarrow> i < 2 ^ LENGTH('a) \<Longrightarrow> uint (word_of_int i :: 'a::len word) = i"
  by (simp add: unsigned_of_int take_bit_int_eq_self)

lemma sint_of_int_range:
  "- (2 ^ (LENGTH('a) - 1)) \<le> i \<Longrightarrow> i < 2 ^ (LENGTH('a) - 1) \<Longrightarrow>
     sint (word_of_int i :: 'a::len word) = i"
  by (simp add: signed_of_int signed_take_bit_int_eq_self)

lemma sint_scast_up:
  "LENGTH('a) \<le> LENGTH('b) \<Longrightarrow> sint (scast (w :: 'a::len word) :: 'b::len word) = sint w"
  by (rule bit_eqI) (auto simp: bit_sint_iff bit_simps min_def not_le dest: bit_imp_le_length top_index)

lemma uint_ucast_up:
  "LENGTH('a) \<le> LENGTH('b) \<Longrightarrow> uint (ucast (w :: 'a::len word) :: 'b::len word) = uint w"
  by (rule bit_eqI) (auto simp: bit_simps dest: bit_imp_le_length)

lemma hd_be_bytes: "be_bytes (Suc 0) i = [word_of_int i]"
  by (simp add: be_bytes_def)

lemmas read_back = load_be_bytes load_be_bytes(1) [unfolded One_nat_def]
  word_of_int_range sint_of_int_range uint_ucast_up sint_scast_up signed_access_defs

text \<open>A length field of 1, 2 or 4 bytes reads back as the length.\<close>

definition reads_len :: "nat \<Rightarrow> (bytes \<Rightarrow> u32) \<Rightarrow> nat \<Rightarrow> bool" where
  "reads_len n f len \<longleftrightarrow> n \<le> 4 \<and> unat (f (be_bytes n (int len))) = len"

lemma unat_word_of_int: "n < 2 ^ LENGTH('a) \<Longrightarrow> unat (word_of_int (int n) :: 'a::len word) = n"
  by (simp add: unsigned_of_nat take_bit_nat_eq_self)

lemma reads_lens:
  "len < 256 \<Longrightarrow> reads_len 1 (ucast \<circ> mpack_load_u8) len"
  "len < 65536 \<Longrightarrow> reads_len 2 (ucast \<circ> mpack_load_u16) len"
  "len < 4294967296 \<Longrightarrow> reads_len 4 mpack_load_u32 len"
  using unat_word_of_int [of len, where 'a = 8] unat_word_of_int [of len, where 'a = 16]
    unat_word_of_int [of len, where 'a = 32]
  by (simp_all add: reads_len_def load_be_bytes load_be_bytes(1) [unfolded One_nat_def])

text \<open>Lengths in the tag byte itself.\<close>

lemma fix_tag_byte: "0 \<le> base + n \<Longrightarrow> base + n < 256 \<Longrightarrow>
    \<exists>b. fix_tag base n = [b] \<and> unat b = nat (base + n)"
proof -
  assume "0 \<le> base + n" "base + n < 256"
  then have "uint (word_of_int (base + n) :: u8) = base + n" by (intro word_of_int_range) simp_all
  then have "unat (word_of_int (base + n) :: u8) = nat (base + n)" by (simp only: unat_eq_nat_uint)
  moreover have "fix_tag base n = [word_of_int (base + n)]"
    by (simp only: fix_tag_def One_nat_def hd_be_bytes)
  ultimately show ?thesis by blast
qed

lemma fix_mods:
  "n \<le> 31 \<Longrightarrow> (160 + n) mod 32 = (n :: nat)" "n \<le> 15 \<Longrightarrow> (144 + n) mod 16 = (n :: nat)"
  "n \<le> 15 \<Longrightarrow> (128 + n) mod 16 = (n :: nat)"
  by (simp_all add: mod_add_eq [symmetric])

end
