(* ===== verification/Mpack_Tree_Decode.thy ===== *)
theory Mpack_Tree_Decode
  imports Mpack_Tree_Safety Msgpack_Values Mpack_Utf8
begin

text \<open>
  Correctness of the tree parser: on the encoding of a value, followed by anything, it builds a
  tree that denotes the value and stops behind the encoding, provided the pool and the parse
  stack are large enough.
\<close>

subsection \<open>One header\<close>

definition starts :: "bytes \<Rightarrow> mpack_tree \<Rightarrow> bool" where
  "starts bs t \<longleftrightarrow>
     tdata t + tsize t + length bs \<le> length (tdata_obj t) \<and>
     take (length bs) (drop (tdata t + tsize t) (tdata_obj t)) = bs"

lemma starts_append: "starts (a @ b) t \<Longrightarrow> starts a t"
  unfolding starts_def by (auto simp: take_add)

lemma starts_nth: "starts bs t \<Longrightarrow> k < length bs \<Longrightarrow> tdata_obj t ! (tdata t + tsize t + k) = bs ! k"
  unfolding starts_def by (metis add.assoc add_leD1 nth_drop nth_take)

lemma starts_byte: "starts (b # bs) t \<Longrightarrow> next_byte t = b"
  using starts_nth [of "b # bs" t 0] by (simp add: next_byte_def)

lemma starts_slice:
  assumes "starts (pre @ bs) t" "n = length bs"
  shows "take n (drop (tdata t + tsize t + length pre) (tdata_obj t)) = bs"
  using assms unfolding starts_def
  by (metis append_eq_conv_conj drop_drop drop_take length_append add_diff_cancel_left'
      add.commute)

fun node_matches :: "bytes \<Rightarrow> mpack_node_data \<Rightarrow> msgpack \<Rightarrow> bool" where
  "node_matches d nd Msg_nil \<longleftrightarrow> ntype nd = mpack_type_nil"
| "node_matches d nd (Msg_bool b) \<longleftrightarrow> ntype nd = mpack_type_bool \<and> nvalue nd = Val_b b"
| "node_matches d nd (Msg_int i) \<longleftrightarrow>
     (if 0 \<le> i then ntype nd = mpack_type_uint \<and> (\<exists>u. nvalue nd = Val_u u \<and> uint u = i)
      else ntype nd = mpack_type_int \<and> (\<exists>u. nvalue nd = Val_i u \<and> sint u = i))"
| "node_matches d nd (Msg_str s) \<longleftrightarrow>
     ntype nd = mpack_type_str \<and> unat (nlen nd) = length s \<and>
     (\<exists>off. nvalue nd = Val_offset off \<and> take (length s) (drop off d) = s)"
| "node_matches d nd (Msg_bin s) \<longleftrightarrow>
     ntype nd = mpack_type_bin \<and> unat (nlen nd) = length s \<and>
     (\<exists>off. nvalue nd = Val_offset off \<and> take (length s) (drop off d) = s)"
| "node_matches d nd (Msg_array vs) \<longleftrightarrow>
     ntype nd = mpack_type_array \<and> unat (nlen nd) = length vs"
| "node_matches d nd (Msg_map kvs) \<longleftrightarrow>
     ntype nd = mpack_type_map \<and> unat (nlen nd) = length kvs"

lemma reserve_and_load_at:
  assumes "node_start node t" "n \<le> 8" "n \<le> tpossible_nodes_left t" "starts (b # bs @ rest) t"
    "length bs = n"
  shows "reserve_and_load n f k (mid node nd 0 t) = k (f bs) (mid node nd n t)"
proof -
  have "tdata t + tsize t + 1 + n \<le> length (tdata_obj t)"
    using assms(4,5) by (simp add: starts_def)
  moreover have "take n (drop (tdata t + tsize t + 1) (tdata_obj t)) = bs"
    using starts_slice [of "[b]" bs t n] starts_append [of "b # bs" rest t] assms(4,5) by simp
  ultimately show ?thesis
    using assms(1-3)
    by (simp add: reserve_and_load_def mid_def primitive_eqs node_start_def SIZE_MAX_def)
qed

text \<open>The goal for one header, in a form the cases share.\<close>

definition decoded :: "msgpack \<Rightarrow> nat \<Rightarrow> mpack_tree \<Rightarrow> (bool \<times> mpack_tree) outcome \<Rightarrow> bool" where
  "decoded v node t m \<longleftrightarrow>
     (\<exists>nd. m = Ret (True, after_node node nd
                          (length (head_bytes v) - 1 + length (children v)) t) \<and>
           node_matches (drop (tdata t) (tdata_obj t)) nd v \<and>
           total_children nd = length (children v) \<and>
           (children v \<noteq> [] \<longrightarrow> nvalue nd = Val_children (tnodes t)))"

lemma decoded_leaf:
  assumes "node_start node t" "children v = []" "total_children nd = 0"
    "node_matches (drop (tdata t) (tdata_obj t)) nd v" "r = length (head_bytes v) - 1"
  shows "decoded v node t (Ret (True, mid node nd r t))"
  using assms after_leaf [of t nd node r]
  unfolding decoded_def node_start_def by (intro exI [of _ nd]) simp

lemma decode_number:
  assumes "node_start node t" "n \<le> 8" "n \<le> tpossible_nodes_left t"
    "starts (b # be_bytes n i) t" "msgpack_int i = b # be_bytes n i"
    "if 0 \<le> i then ty = mpack_type_uint \<and> (\<exists>u. f (be_bytes n i) = Val_u u \<and> uint u = i)
     else ty = mpack_type_int \<and> (\<exists>u. f (be_bytes n i) = Val_i u \<and> sint u = i)"
  shows "decoded (Msg_int i) node t (parse_number ty n f node (mid node nd 0 t))"
proof -
  have "parse_number ty n f node (mid node nd 0 t) =
      Ret (True, mid node (set_value (f (be_bytes n i)) (set_type ty nd)) n t)"
    using reserve_and_load_at [OF assms(1-3), of b "be_bytes n i" "[]" f] assms(4)
    by (simp add: parse_number_def and_then_upd_mid [OF assms(1)] done_after_def)
  then show ?thesis
    using assms(5,6)
    by (simp only: , intro decoded_leaf assms(1))
      (auto simp: setter_defs total_children_def split: if_splits)
qed

lemma decode_int_tag:
  assumes "node_start node t" "n \<le> 8" "n \<le> tpossible_nodes_left t"
    "starts (msgpack_int i) t" "msgpack_int i = b # be_bytes n i"
    "\<And>nd. tag_dispatch b node (mid node nd 0 t) = parse_number ty n f node (mid node nd 0 t)"
    "if 0 \<le> i then ty = mpack_type_uint \<and> (\<exists>u. f (be_bytes n i) = Val_u u \<and> uint u = i)
     else ty = mpack_type_int \<and> (\<exists>u. f (be_bytes n i) = Val_i u \<and> sint u = i)"
  shows "decoded (Msg_int i) node t (mpack_tree_parse_node_contents node t)"
proof -
  have st: "starts (b # be_bytes n i) t" using assms(4,5) by simp
  show ?thesis
    unfolding contents_eq [OF assms(1)] starts_byte [OF st] assms(6)
    using decode_number [OF assms(1-3) st assms(5), of ty f] assms(7) by blast
qed

lemmas dispatch_defs = tag_dispatch_def parse_uint_int_def parse_str_tags_def parse_container_tags_def
  parse_nil_bool_bin_def parse_fix_def

lemma decode_fix_int:
  assumes "node_start node t" "- 32 \<le> i" "i \<le> 127" "starts (msgpack_int i) t"
  shows "decoded (Msg_int i) node t (mpack_tree_parse_node_contents node t)"
proof -
  let ?b = "word_of_int i :: u8"
  have b: "msgpack_int i = [?b]"
    using assms(2,3) by (simp add: msgpack_int_def hd_be_bytes)
  have byte: "next_byte t = ?b" using starts_byte assms(4) unfolding b by blast
  show ?thesis
  proof (cases "0 \<le> i")
    case True
    then have u: "uint ?b = i" using assms(3) by (simp add: word_of_int_range)
    then have "?b \<le> 0x7F" "?b \<le> 0xBF" using assms(3) by (simp_all add: word_le_def)
    then show ?thesis
      unfolding contents_eq [OF assms(1)] byte dispatch_defs done_after_def
        and_then_upd_mid [OF assms(1)] using True u
      by simp (intro decoded_leaf assms(1),
          auto simp: setter_defs total_children_def uint_ucast_up b)
  next
    case False
    then have s: "sint ?b = i" using assms(2) by (simp add: sint_of_int_range)
    have "uint ?b = i mod 256" by (simp add: unsigned_of_int take_bit_eq_mod)
    then have "uint ?b \<ge> 224"
      using False assms(2) by presburger
    then have "0xE0 \<le> ?b" "\<not> ?b \<le> 0x7F" by (simp_all add: word_le_def)
    then show ?thesis
      unfolding contents_eq [OF assms(1)] byte dispatch_defs done_after_def
        and_then_upd_mid [OF assms(1)] using False s
      by simp (intro decoded_leaf assms(1),
          auto simp: setter_defs total_children_def sint_scast_up b)
  qed
qed

lemma decode_int:
  assumes "node_start node t" "representable (Msg_int i)" "starts (msgpack_int i) t"
    "length (msgpack_int i) - 1 \<le> tpossible_nodes_left t"
  shows "decoded (Msg_int i) node t (mpack_tree_parse_node_contents node t)"
proof -
  note tag = decode_int_tag [OF assms(1) _ _ assms(3)]
  consider "- 32 \<le> i" "i \<le> 127" | "127 < i" "i \<le> 255" | "255 < i" "i \<le> 65535"
    | "65535 < i" "i \<le> 4294967295" | "4294967295 < i"
    | "i < - 32" "- 128 \<le> i" | "i < - 128" "- 32768 \<le> i"
    | "i < - 32768" "- 2147483648 \<le> i" | "i < - 2147483648"
    by linarith
  then show ?thesis
  proof cases
    case 1
    then show ?thesis using decode_fix_int assms by blast
  next
    case 2
    then show ?thesis using assms
      by (intro tag [of 1 "0xCC" mpack_type_uint "Val_u \<circ> ucast \<circ> mpack_load_u8"])
        (simp_all add: msgpack_int_def dispatch_defs fun_eq_iff read_back)
  next
    case 3
    then show ?thesis using assms
      by (intro tag [of 2 "0xCD" mpack_type_uint "Val_u \<circ> ucast \<circ> mpack_load_u16"])
        (simp_all add: msgpack_int_def dispatch_defs fun_eq_iff read_back)
  next
    case 4
    then show ?thesis using assms
      by (intro tag [of 4 "0xCE" mpack_type_uint "Val_u \<circ> ucast \<circ> mpack_load_u32"])
        (simp_all add: msgpack_int_def dispatch_defs fun_eq_iff read_back)
  next
    case 5
    then show ?thesis using assms
      by (intro tag [of 8 "0xCF" mpack_type_uint "Val_u \<circ> mpack_load_u64"])
        (simp_all add: msgpack_int_def dispatch_defs fun_eq_iff read_back)
  next
    case 6
    then show ?thesis using assms
      by (intro tag [of 1 "0xD0" mpack_type_int "Val_i \<circ> scast \<circ> mpack_load_i8"])
        (simp_all add: msgpack_int_def dispatch_defs fun_eq_iff read_back)
  next
    case 7
    then show ?thesis using assms
      by (intro tag [of 2 "0xD1" mpack_type_int "Val_i \<circ> scast \<circ> mpack_load_i16"])
        (simp_all add: msgpack_int_def dispatch_defs fun_eq_iff read_back)
  next
    case 8
    then show ?thesis using assms
      by (intro tag [of 4 "0xD2" mpack_type_int "Val_i \<circ> scast \<circ> mpack_load_i32"])
        (simp_all add: msgpack_int_def dispatch_defs fun_eq_iff read_back)
  next
    case 9
    then show ?thesis using assms
      by (intro tag [of 8 "0xD3" mpack_type_int "Val_i \<circ> mpack_load_i64"])
        (simp_all add: msgpack_int_def dispatch_defs fun_eq_iff read_back)
  qed
qed

lemma decode_nil:
  assumes "node_start node t" "starts [0xC0] t"
  shows "decoded Msg_nil node t (mpack_tree_parse_node_contents node t)"
  unfolding contents_eq [OF assms(1)] starts_byte [OF assms(2)] dispatch_defs done_after_def
    and_then_upd_mid [OF assms(1)]
  by simp (intro decoded_leaf assms(1), auto simp: setter_defs total_children_def)

lemma decode_bool:
  assumes "node_start node t" "starts (msgpack_bool b) t"
  shows "decoded (Msg_bool b) node t (mpack_tree_parse_node_contents node t)"
  unfolding contents_eq [OF assms(1)] starts_byte [OF assms(2) [unfolded msgpack_bool_def]]
    dispatch_defs done_after_def and_then_upd_mid [OF assms(1)]
  by (cases b; simp, intro decoded_leaf assms(1),
      auto simp: setter_defs total_children_def msgpack_bool_def)

text \<open>Bytes behind a header.\<close>

lemma decode_payload:
  assumes "node_start node t" "r \<le> 8" "length hdr = r + 1" "starts (hdr @ s) t"
    "unat (nlen nd) = length s" "r + length s \<le> tpossible_nodes_left t"
    "v = Msg_str s \<and> ntype nd = mpack_type_str \<or> v = Msg_bin s \<and> ntype nd = mpack_type_bin"
    "head_bytes v = hdr @ s"
  shows "decoded v node t (mpack_tree_parse_bytes node (mid node nd r t))"
proof -
  let ?nd = "nd\<lparr>nvalue := Val_offset (tsize t + r + 1)\<rparr>"
  have "take (length s) (drop (tsize t + r + 1) (drop (tdata t) (tdata_obj t))) = s"
    using starts_slice [OF assms(4) refl] assms(3) by (simp add: add.commute add.left_commute)
  then have "node_matches (drop (tdata t) (tdata_obj t)) ?nd v"
    using assms(5,7) by auto
  moreover have "total_children ?nd = 0" "children v = []"
    using assms(7) by (auto simp: total_children_def)
  moreover have "r + length s = length (head_bytes v) - 1" using assms(3,8) by simp
  moreover have "mpack_tree_parse_bytes node (mid node nd r t) =
      Ret (True, mid node ?nd (r + length s) t)"
    using assms(5,6) parse_bytes_eq [OF assms(1,2), of nd] by simp
  ultimately show ?thesis
    using decoded_leaf [OF assms(1)] by (simp only: simp_thms)
qed

lemma decode_kids:
  assumes "node_start node t" "r \<le> 8" "length (head_bytes v) = r + 1"
    "v = Msg_array vs \<and> ntype nd = mpack_type_array \<and> unat (nlen nd) = length vs \<or>
     v = Msg_map kvs \<and> ntype nd = mpack_type_map \<and> unat (nlen nd) = length kvs"
    "r + length (children v) \<le> tpossible_nodes_left t" "length (children v) \<le> tnodes_left t"
    "children v = [] \<or> Suc (tlevel t) < 32"
  shows "decoded v node t (mpack_tree_parse_children node (mid node nd r t))"
proof -
  let ?nd = "nd\<lparr>nvalue := Val_children (tnodes t)\<rparr>"
  have n: "length (children v) = total_children nd"
    using assms(4) by (auto simp: total_children_def pairs_flat(3))
  have "mpack_tree_parse_children node (mid node nd r t) =
      Ret (True, after_node node ?nd (r + length (children v)) t)"
    using assms(4-) by (intro parse_children_ok [OF assms(1,2)] n) auto
  moreover have "node_matches (drop (tdata t) (tdata_obj t)) ?nd v" "total_children ?nd = length (children v)"
    using assms(4) n by (auto simp: total_children_def)
  ultimately show ?thesis
    unfolding decoded_def using assms(3) by (intro exI [of _ ?nd]) simp
qed

lemma decode_sized_bytes:
  assumes "node_start node t" "reads_len n f (length s)" "starts (b # be_bytes n (int (length s)) @ s) t"
    "n + length s \<le> tpossible_nodes_left t"
    "msgpack_str_header (int (length s)) = b # be_bytes n (int (length s))"
  shows "decoded (Msg_str s) node t
    (parse_sized mpack_type_str n f mpack_tree_parse_bytes node (mid node nd 0 t))"
proof -
  let ?nd = "set_type mpack_type_str (set_len (f (be_bytes n (int (length s)))) nd)"
  have n: "n \<le> 8" "n \<le> tpossible_nodes_left t" using assms(2,4) by (auto simp: reads_len_def)
  have "parse_sized mpack_type_str n f mpack_tree_parse_bytes node (mid node nd 0 t) =
      mpack_tree_parse_bytes node (mid node ?nd n t)"
    unfolding parse_sized_def
    by (simp add: reserve_and_load_at [OF assms(1) n assms(3)] and_then_upd_mid [OF assms(1)])
  moreover have "decoded (Msg_str s) node t (mpack_tree_parse_bytes node (mid node ?nd n t))"
    by (rule decode_payload [OF assms(1) n(1), of "b # be_bytes n (int (length s))"])
      (use assms(2-) in \<open>simp_all add: setter_defs reads_len_def\<close>)
  ultimately show ?thesis by simp
qed

lemma decode_sized_bin:
  assumes "node_start node t" "reads_len n f (length s)" "starts (b # be_bytes n (int (length s)) @ s) t"
    "n + length s \<le> tpossible_nodes_left t"
    "msgpack_bin_header (int (length s)) = b # be_bytes n (int (length s))"
  shows "decoded (Msg_bin s) node t (parse_bin n f node (mid node nd 0 t))"
proof -
  let ?nd = "set_len (f (be_bytes n (int (length s)))) (set_type mpack_type_bin nd)"
  have n: "n \<le> 8" "n \<le> tpossible_nodes_left t" using assms(2,4) by (auto simp: reads_len_def)
  have "parse_bin n f node (mid node nd 0 t) = mpack_tree_parse_bytes node (mid node ?nd n t)"
    unfolding parse_bin_def
    by (simp add: reserve_and_load_at [OF assms(1) n assms(3)] and_then_upd_mid [OF assms(1)])
  moreover have "decoded (Msg_bin s) node t (mpack_tree_parse_bytes node (mid node ?nd n t))"
    by (rule decode_payload [OF assms(1) n(1), of "b # be_bytes n (int (length s))"])
      (use assms(2-) in \<open>simp_all add: setter_defs reads_len_def\<close>)
  ultimately show ?thesis by simp
qed

lemma decode_sized_kids:
  assumes "node_start node t" "reads_len n f len" "starts (b # be_bytes n (int len)) t"
    "v = Msg_array vs \<and> ty = mpack_type_array \<and> len = length vs \<or>
     v = Msg_map kvs \<and> ty = mpack_type_map \<and> len = length kvs"
    "n + length (children v) \<le> tpossible_nodes_left t" "length (children v) \<le> tnodes_left t"
    "children v = [] \<or> Suc (tlevel t) < 32" "head_bytes v = b # be_bytes n (int len)"
  shows "decoded v node t
    (parse_sized ty n f mpack_tree_parse_children node (mid node nd 0 t))"
proof -
  let ?nd = "set_type ty (set_len (f (be_bytes n (int len))) nd)"
  have n: "n \<le> 8" "n \<le> tpossible_nodes_left t" using assms(2,5) by (auto simp: reads_len_def)
  have "parse_sized ty n f mpack_tree_parse_children node (mid node nd 0 t) =
      mpack_tree_parse_children node (mid node ?nd n t)"
    unfolding parse_sized_def
    using reserve_and_load_at [OF assms(1) n, of b "be_bytes n (int len)" "[]" f] assms(3)
    by (simp add: and_then_upd_mid [OF assms(1)])
  moreover have "decoded v node t (mpack_tree_parse_children node (mid node ?nd n t))"
    by (rule decode_kids [OF assms(1) n(1), of v vs _ kvs])
      (use assms(2-) in \<open>auto simp: setter_defs reads_len_def\<close>)
  ultimately show ?thesis by simp
qed

text \<open>Lengths in the tag byte itself.\<close>

lemma decode_fix_str:
  assumes "node_start node t" "length s \<le> 31" "starts (msgpack_str_header (int (length s)) @ s) t"
    "length s \<le> tpossible_nodes_left t"
  shows "decoded (Msg_str s) node t (mpack_tree_parse_node_contents node t)"
proof -
  obtain b where b: "msgpack_str_header (int (length s)) = [b]" "unat b = 160 + length s"
    using fix_tag_byte [of 160 "int (length s)"] assms(2) by (auto simp: msgpack_str_header_def)
  have byte: "next_byte t = b" using assms(3) b(1) starts_byte [of b s t] by simp
  have rng: "b \<le> 0xBF" "\<not> b \<le> 0x7F" "\<not> 0xE0 \<le> b" "\<not> b \<le> 0x8F" "\<not> b \<le> 0x9F"
    using b(2) assms(2) by (simp_all add: word_le_nat_alt)
  have len: "unat (ucast b AND NOT 0xE0 :: u32) = length s"
    unfolding payload_bits(1) b(2) by (rule fix_mods(1) [OF assms(2)])
  let ?nd = "set_len (ucast b AND NOT 0xE0) (set_type mpack_type_str (the (tpool t) ! node))"
  have "decoded (Msg_str s) node t (mpack_tree_parse_bytes node (mid node ?nd 0 t))"
    by (rule decode_payload [OF assms(1), of 0 "[b]"])
      (use assms(2-) b len in \<open>simp_all only: setter_defs\<close>, use assms b in simp_all)
  then show ?thesis
    unfolding contents_eq [OF assms(1)] byte dispatch_defs and_then_upd_mid [OF assms(1)]
    using rng by simp
qed

lemma decode_fix_kids:
  assumes "node_start node t" "base + len < base + 16" "starts (head_bytes v) t"
    "v = Msg_array vs \<and> base = 144 \<and> len = length vs \<or> v = Msg_map kvs \<and> base = 128 \<and> len = length kvs"
    "length (children v) \<le> tpossible_nodes_left t" "length (children v) \<le> tnodes_left t"
    "children v = [] \<or> Suc (tlevel t) < 32"
  shows "decoded v node t (mpack_tree_parse_node_contents node t)"
proof -
  have len: "len \<le> 15" using assms(2) by simp
  have hdr: "head_bytes v = fix_tag (int base) (int len)"
    using assms(4) len by (auto simp: msgpack_array_header_def msgpack_map_header_def)
  obtain b where b: "head_bytes v = [b]" "unat b = base + len"
    using fix_tag_byte [of "int base" "int len"] assms(4) len unfolding hdr by auto
  have byte: "next_byte t = b" using assms(3) b(1) starts_byte [of b "[]" t] by simp
  have l: "unat (ucast b AND NOT 0xF0 :: u32) = len"
    unfolding payload_bits(2) b(2) using assms(4) fix_mods(2,3) [OF len] by auto
  define ty where "ty = (if base = 144 then mpack_type_array else mpack_type_map)"
  let ?nd = "set_len (ucast b AND NOT 0xF0) (set_type ty (the (tpool t) ! node))"
  have d: "decoded v node t (mpack_tree_parse_children node (mid node ?nd 0 t))"
    by (rule decode_kids [OF assms(1), of 0 v vs _ kvs])
      (use assms(4-) b l in \<open>auto simp: setter_defs ty_def\<close>)
  have rng: "b \<le> 0xBF" "\<not> b \<le> 0x7F" "\<not> 0xE0 \<le> b" "b \<le> 0x8F \<longleftrightarrow> base = 128" "b \<le> 0x9F"
    using b(2) assms(4) len by (auto simp: word_le_nat_alt)
  show ?thesis
    unfolding contents_eq [OF assms(1)] byte dispatch_defs and_then_upd_mid [OF assms(1)]
    using rng d assms(4) by (auto simp: ty_def)
qed

lemma decode_str:
  assumes "node_start node t" "representable (Msg_str s)"
    "starts (msgpack_str_header (int (length s)) @ s) t"
    "length (msgpack_str_header (int (length s))) - 1 + length s \<le> tpossible_nodes_left t"
  shows "decoded (Msg_str s) node t (mpack_tree_parse_node_contents node t)"
proof -
  let ?n = "length s"
  consider "?n \<le> 31" | "31 < ?n" "?n < 256" | "256 \<le> ?n" "?n < 65536" | "65536 \<le> ?n" by linarith
  then show ?thesis
  proof cases
    case 1
    with assms show ?thesis by (intro decode_fix_str) (simp_all add: length_msgpack_headers)
  next
    case 2
    then have h: "msgpack_str_header (int ?n) = 0xD9 # be_bytes 1 (int ?n)"
      by (simp add: msgpack_str_header_def)
    have st: "starts (0xD9 # be_bytes 1 (int ?n) @ s) t" using assms(3) h by simp
    show ?thesis
      unfolding contents_eq [OF assms(1)] starts_byte [OF st] dispatch_defs
      using decode_sized_bytes [OF assms(1) reads_lens(1) st _ h] assms(4) 2 h by simp
  next
    case 3
    then have h: "msgpack_str_header (int ?n) = 0xDA # be_bytes 2 (int ?n)"
      by (simp add: msgpack_str_header_def)
    have st: "starts (0xDA # be_bytes 2 (int ?n) @ s) t" using assms(3) h by simp
    show ?thesis
      unfolding contents_eq [OF assms(1)] starts_byte [OF st] dispatch_defs
      using decode_sized_bytes [OF assms(1) reads_lens(2) st _ h] assms(4) 3 h by simp
  next
    case 4
    then have h: "msgpack_str_header (int ?n) = 0xDB # be_bytes 4 (int ?n)"
      by (simp add: msgpack_str_header_def)
    have st: "starts (0xDB # be_bytes 4 (int ?n) @ s) t" using assms(3) h by simp
    show ?thesis
      unfolding contents_eq [OF assms(1)] starts_byte [OF st] dispatch_defs
      using decode_sized_bytes [OF assms(1) reads_lens(3) st _ h] assms(2,4) h by simp
  qed
qed

lemma decode_bin:
  assumes "node_start node t" "representable (Msg_bin s)"
    "starts (msgpack_bin_header (int (length s)) @ s) t"
    "length (msgpack_bin_header (int (length s))) - 1 + length s \<le> tpossible_nodes_left t"
  shows "decoded (Msg_bin s) node t (mpack_tree_parse_node_contents node t)"
proof -
  let ?n = "length s"
  consider "?n < 256" | "256 \<le> ?n" "?n < 65536" | "65536 \<le> ?n" by linarith
  then show ?thesis
  proof cases
    case 1
    then have h: "msgpack_bin_header (int ?n) = 0xC4 # be_bytes 1 (int ?n)"
      by (simp add: msgpack_bin_header_def)
    have st: "starts (0xC4 # be_bytes 1 (int ?n) @ s) t" using assms(3) h by simp
    show ?thesis
      unfolding contents_eq [OF assms(1)] starts_byte [OF st] dispatch_defs
      using decode_sized_bin [OF assms(1) reads_lens(1) st _ h] assms(4) 1 h by simp
  next
    case 2
    then have h: "msgpack_bin_header (int ?n) = 0xC5 # be_bytes 2 (int ?n)"
      by (simp add: msgpack_bin_header_def)
    have st: "starts (0xC5 # be_bytes 2 (int ?n) @ s) t" using assms(3) h by simp
    show ?thesis
      unfolding contents_eq [OF assms(1)] starts_byte [OF st] dispatch_defs
      using decode_sized_bin [OF assms(1) reads_lens(2) st _ h] assms(4) 2 h by simp
  next
    case 3
    then have h: "msgpack_bin_header (int ?n) = 0xC6 # be_bytes 4 (int ?n)"
      by (simp add: msgpack_bin_header_def)
    have st: "starts (0xC6 # be_bytes 4 (int ?n) @ s) t" using assms(3) h by simp
    show ?thesis
      unfolding contents_eq [OF assms(1)] starts_byte [OF st] dispatch_defs
      using decode_sized_bin [OF assms(1) reads_lens(3) st _ h] assms(2,4) h by simp
  qed
qed

text \<open>The room that the children of a value need.\<close>

definition room_for_children :: "msgpack \<Rightarrow> mpack_tree \<Rightarrow> bool" where
  "room_for_children v t \<longleftrightarrow>
     length (head_bytes v) - 1 + length (children v) \<le> tpossible_nodes_left t \<and>
     length (children v) \<le> tnodes_left t \<and> (children v = [] \<or> Suc (tlevel t) < 32)"

lemma decode_array:
  assumes "node_start node t" "representable (Msg_array vs)" "starts (head_bytes (Msg_array vs)) t"
    "room_for_children (Msg_array vs) t"
  shows "decoded (Msg_array vs) node t (mpack_tree_parse_node_contents node t)"
proof -
  let ?n = "length vs"
  consider "?n \<le> 15" | "15 < ?n" "?n < 65536" | "65536 \<le> ?n" by linarith
  then show ?thesis
  proof cases
    case 1
    with assms show ?thesis
      by (intro decode_fix_kids [of node t 144 ?n _ vs])
        (auto simp: room_for_children_def length_msgpack_headers)
  next
    case 2
    then have h: "head_bytes (Msg_array vs) = 0xDC # be_bytes 2 (int ?n)"
      by (simp add: msgpack_array_header_def)
    have st: "starts (0xDC # be_bytes 2 (int ?n)) t" using assms(3) h by simp
    show ?thesis
      unfolding contents_eq [OF assms(1)] starts_byte [OF st] dispatch_defs
      using decode_sized_kids [OF assms(1) reads_lens(2) st, of "Msg_array vs" vs] assms(4) 2 h
      by (simp add: room_for_children_def)
  next
    case 3
    then have h: "head_bytes (Msg_array vs) = 0xDD # be_bytes 4 (int ?n)"
      by (simp add: msgpack_array_header_def)
    have st: "starts (0xDD # be_bytes 4 (int ?n)) t" using assms(3) h by simp
    show ?thesis
      unfolding contents_eq [OF assms(1)] starts_byte [OF st] dispatch_defs
      using decode_sized_kids [OF assms(1) reads_lens(3) st, of "Msg_array vs" vs] assms(2,4) h
      by (simp add: room_for_children_def)
  qed
qed

lemma decode_map:
  assumes "node_start node t" "representable (Msg_map kvs)" "starts (head_bytes (Msg_map kvs)) t"
    "room_for_children (Msg_map kvs) t"
  shows "decoded (Msg_map kvs) node t (mpack_tree_parse_node_contents node t)"
proof -
  let ?n = "length kvs"
  consider "?n \<le> 15" | "15 < ?n" "?n < 65536" | "65536 \<le> ?n" by linarith
  then show ?thesis
  proof cases
    case 1
    with assms show ?thesis
      by (intro decode_fix_kids [of node t 128 ?n _ _ kvs])
        (auto simp: room_for_children_def length_msgpack_headers)
  next
    case 2
    then have h: "head_bytes (Msg_map kvs) = 0xDE # be_bytes 2 (int ?n)"
      by (simp add: msgpack_map_header_def)
    have st: "starts (0xDE # be_bytes 2 (int ?n)) t" using assms(3) h by simp
    show ?thesis
      unfolding contents_eq [OF assms(1)] starts_byte [OF st] dispatch_defs
      using decode_sized_kids [OF assms(1) reads_lens(2) st, of "Msg_map kvs" _ _ kvs] assms(4) 2 h
      by (simp add: room_for_children_def)
  next
    case 3
    then have h: "head_bytes (Msg_map kvs) = 0xDF # be_bytes 4 (int ?n)"
      by (simp add: msgpack_map_header_def)
    have st: "starts (0xDF # be_bytes 4 (int ?n)) t" using assms(3) h by simp
    show ?thesis
      unfolding contents_eq [OF assms(1)] starts_byte [OF st] dispatch_defs
      using decode_sized_kids [OF assms(1) reads_lens(3) st, of "Msg_map kvs" _ _ kvs] assms(2,4) h
      by (simp add: room_for_children_def)
  qed
qed

lemma decode_head:
  assumes "node_start node t" "representable v" "starts (head_bytes v) t" "room_for_children v t"
  shows "decoded v node t (mpack_tree_parse_node_contents node t)"
proof (cases v)
  case Msg_nil
  then show ?thesis using decode_nil assms by simp
next
  case (Msg_bool b)
  then show ?thesis using decode_bool assms by simp
next
  case (Msg_int i)
  then show ?thesis using decode_int [OF assms(1)] assms by (simp add: room_for_children_def)
next
  case (Msg_str s)
  have "length (msgpack_str_header (int (length s))) > 0" by (simp add: length_msgpack_headers)
  then obtain h hs where "msgpack_str_header (int (length s)) = h # hs"
    by (cases "msgpack_str_header (int (length s))") auto
  with Msg_str show ?thesis
    using decode_str [OF assms(1), of s] assms by (simp add: room_for_children_def)
next
  case (Msg_bin s)
  have "length (msgpack_bin_header (int (length s))) > 0" by (simp add: length_msgpack_headers)
  then obtain h hs where "msgpack_bin_header (int (length s)) = h # hs"
    by (cases "msgpack_bin_header (int (length s))") auto
  with Msg_bin show ?thesis
    using decode_bin [OF assms(1), of s] assms by (simp add: room_for_children_def)
next
  case (Msg_array vs)
  then show ?thesis using decode_array [OF assms(1)] assms by simp
next
  case (Msg_map kvs)
  then show ?thesis using decode_map [OF assms(1)] assms by simp
qed

end
