(* ===== verification/Mpack_Tree_Roundtrip.thy ===== *)
theory Mpack_Tree_Roundtrip
  imports Mpack_Tree_Decode
begin

text \<open>
  The parse loop on the encoding of a value: the tree it builds denotes the value. The proof
  follows the loop one value at a time; \<open>moved\<close> says what the loop has done to its state when
  it is through with some children of the innermost open container.
\<close>

subsection \<open>The value a node denotes\<close>

text \<open>The children of all nodes below lie between \<open>lo\<close> and \<open>hi\<close> in the pool \<open>p\<close>.\<close>

inductive denotes :: "bytes \<Rightarrow> mpack_node_data list \<Rightarrow> nat \<Rightarrow> nat \<Rightarrow> nat \<Rightarrow> msgpack \<Rightarrow> bool"
  for d p lo hi where
  denotes_node:
    "i < length p \<Longrightarrow> node_matches d (p ! i) v \<Longrightarrow>
     (children v \<noteq> [] \<Longrightarrow>
        nvalue (p ! i) = Val_children c \<and> lo \<le> c \<and> c + length (children v) \<le> hi) \<Longrightarrow>
     (\<And>j. j < length (children v) \<Longrightarrow> denotes d p lo hi (c + j) (children v ! j)) \<Longrightarrow>
     denotes d p lo hi i v"

lemma denotes_frame:
  assumes "denotes d p lo hi i v" "length p' = length p" "p' ! i = p ! i"
    "\<And>j. lo \<le> j \<Longrightarrow> j < hi \<Longrightarrow> p' ! j = p ! j" "lo' \<le> lo" "hi \<le> hi'"
  shows "denotes d p' lo' hi' i v"
  using assms(1,3)
proof (induction rule: denotes.induct)
  case (denotes_node i v c)
  show ?case
  proof (rule denotes.intros [where c = c])
    show "i < length p'" "node_matches d (p' ! i) v"
      using denotes_node.hyps(1,2) denotes_node.prems assms(2) by simp_all
    show "nvalue (p' ! i) = Val_children c \<and> lo' \<le> c \<and> c + length (children v) \<le> hi'"
      if "children v \<noteq> []"
      using denotes_node.hyps(3) [OF that] denotes_node.prems assms(5,6) by auto
    show "denotes d p' lo' hi' (c + j) (children v ! j)" if j: "j < length (children v)" for j
    proof -
      have "children v \<noteq> []" using j by auto
      then have "lo \<le> c + j" "c + j < hi" using denotes_node.hyps(3) j by auto
      then show ?thesis using denotes_node.IH [OF j] assms(4) by blast
    qed
  qed
qed

subsection \<open>Between two nodes\<close>

definition pool :: "mpack_tree \<Rightarrow> mpack_node_data list" where
  "pool t = the (tpool t)"

definition tree_data :: "mpack_tree \<Rightarrow> bytes" where
  "tree_data t = drop (tdata t) (tdata_obj t)"

text \<open>The rest of a round after a node, and the rounds that follow.\<close>

definition after_round :: "nat \<Rightarrow> bool tree_op" where
  "after_round n t =
     and_then (pop_levels (tlevel t) t) (\<lambda>(empty, t).
       if empty then Ret (True, t) else parse_loop n t)"

lemma pop_levels_level [simp]: "pop_levels k (t\<lparr>tlevel := x\<rparr>) = pop_levels k t"
proof (induction k)
  case 0
  then show ?case by (simp add: pop_levels.simps [of 0] read_level_def)
next
  case (Suc k)
  then show ?case by (simp add: pop_levels.simps [of "Suc k"] read_level_def)
qed

lemma after_round_more:
  assumes "mem_ok t" "lleft (top_level t) > 0"
  shows "after_round n t = parse_loop n t"
proof -
  have "pop_levels (tlevel t) t = Ret (False, t)"
    using assms by (subst pop_levels.simps) (simp add: read_level_def mem_ok_def top_level_def)
  then show ?thesis by (simp add: after_round_def)
qed

lemma after_round_pop:
  assumes "mem_ok t" "tlevel t = Suc l" "lleft (top_level t) = 0"
  shows "after_round n t = after_round n (t\<lparr>tlevel := l\<rparr>)"
  using assms
  by (simp add: after_round_def pop_levels.simps [of "Suc l"] read_level_def mem_ok_def
      top_level_def)

lemma parse_loop_step:
  assumes "loop_inv t" "lleft (top_level t) > 0"
    "mpack_tree_parse_node_contents (lchild (top_level t)) t =
       Ret (True, after_node (lchild (top_level t)) nd r t)"
  shows "parse_loop (Suc n) t = after_round n (advance (lchild (top_level t)) nd r t)"
proof -
  note start = node_start_of_inv [OF assms(1,2)]
  note fits = contents_fits [OF start assms(3)]
  note ok = parse_node_of_contents [OF start fits assms(3)]
  show ?thesis
    by (simp add: parse_round_eq [OF assms(1,2) ok fits] after_round_def and_then_assoc Let_def
        split_def)
      (auto intro!: and_then_cong)
qed

definition moved :: "nat \<Rightarrow> nat \<Rightarrow> nat \<Rightarrow> mpack_tree \<Rightarrow> mpack_tree \<Rightarrow> bool" where
  "moved k nodes len t u \<longleftrightarrow>
     loop_inv u \<and> tlevel u = tlevel t \<and>
     take (tlevel t) (tstack u) = take (tlevel t) (tstack t) \<and>
     top_level u = \<lparr>lchild = lchild (top_level t) + k, lleft = lleft (top_level t) - k\<rparr> \<and>
     tsize u = tsize t + len \<and> tnodes u = tnodes t + nodes \<and>
     tpossible_nodes_left u = tpossible_nodes_left t - (len - k) \<and> fixed_fields t u \<and>
     length (pool u) = length (pool t) \<and>
     (\<forall>i < tnodes t. i \<notin> {lchild (top_level t) ..< lchild (top_level t) + k} \<longrightarrow>
        pool u ! i = pool t ! i)"

subsection \<open>One value, and the rest of a container\<close>

lemma starts_moved:
  assumes "starts (a @ b) t" "tsize u = tsize t + length a" "fixed_fields t u"
  shows "starts b u"
  using assms starts_slice [OF assms(1) refl]
  by (simp add: starts_def fixed_fields_def add.assoc)

lemma length_concat_encode: "length vs \<le> length (concat (map msgpack_encode vs))"
proof (induction vs)
  case (Cons v vs)
  have "length (concat (map msgpack_encode (v # vs))) =
      length (msgpack_encode v) + length (concat (map msgpack_encode vs))" by simp
  then show ?case using Cons.IH msgpack_encode_pos [of v] by (simp only: list.size)
qed simp

lemma nodes_left_moved:
  "loop_inv t \<Longrightarrow> moved k n len t u \<Longrightarrow> tnodes_left u = tnodes_left t - n"
  by (auto simp: moved_def loop_inv_def mem_ok_def fixed_fields_def)

lemma moved_refl: "loop_inv t \<Longrightarrow> moved 0 0 0 t t"
  by (simp add: moved_def fixed_fields_def)

lemma moved_trans:
  assumes "moved k1 n1 l1 t u" "moved k2 n2 l2 u w" "k1 \<le> l1" "k2 \<le> l2"
  shows "moved (k1 + k2) (n1 + n2) (l1 + l2) t w"
proof -
  have "pool w ! i = pool t ! i"
    if "i < tnodes t" "i \<notin> {lchild (top_level t) ..< lchild (top_level t) + (k1 + k2)}" for i
  proof -
    have "i \<notin> {lchild (top_level t) ..< lchild (top_level t) + k1}"
      "i \<notin> {lchild (top_level u) ..< lchild (top_level u) + k2}" "i < tnodes u"
      using assms(1) that by (auto simp: moved_def)
    then show ?thesis using assms(1,2) that(1) by (simp add: moved_def)
  qed
  then show ?thesis
    using assms by (auto simp: moved_def fixed_fields_def)
qed

text \<open>What is to be proved of one value, and of the rest of a container.\<close>

definition fits_value :: "msgpack \<Rightarrow> mpack_tree \<Rightarrow> bool" where
  "fits_value v t \<longleftrightarrow>
     representable v \<and> starts (msgpack_encode v) t \<and>
     length (msgpack_encode v) - 1 \<le> tpossible_nodes_left t \<and>
     nodes_in v \<le> tnodes_left t \<and> tlevel t + depth v < 32"

definition parses :: "msgpack \<Rightarrow> bool" where
  "parses v \<longleftrightarrow>
     (\<forall>t m. loop_inv t \<and> lleft (top_level t) > 0 \<and> fits_value v t \<and> nodes_in v < m \<longrightarrow>
        (\<exists>u. parse_loop m t = after_round (m - 1 - nodes_in v) u \<and>
             moved 1 (nodes_in v) (length (msgpack_encode v)) t u \<and>
             denotes (tree_data t) (pool u) (tnodes t) (tnodes u) (lchild (top_level t)) v))"

definition fits_values :: "msgpack list \<Rightarrow> mpack_tree \<Rightarrow> bool" where
  "fits_values vs t \<longleftrightarrow>
     list_all representable vs \<and> starts (concat (map msgpack_encode vs)) t \<and>
     length (concat (map msgpack_encode vs)) - length vs \<le> tpossible_nodes_left t \<and>
     sum_list (map nodes_in vs) \<le> tnodes_left t \<and> (\<forall>v \<in> set vs. tlevel t + depth v < 32)"

lemma fits_values_Cons:
  assumes "fits_values (v # vs) t"
  shows "fits_value v t"
    and "loop_inv t \<Longrightarrow> moved 1 (nodes_in v) (length (msgpack_encode v)) t u \<Longrightarrow> fits_values vs u"
proof -
  note pos = msgpack_encode_pos [of v] length_concat_encode [of vs]
  have all: "starts (msgpack_encode v @ concat (map msgpack_encode vs)) t"
    "length (msgpack_encode v) + length (concat (map msgpack_encode vs)) - Suc (length vs)
       \<le> tpossible_nodes_left t"
    using assms by (simp_all add: fits_values_def)
  have "length (msgpack_encode v) - 1 \<le> tpossible_nodes_left t" using all(2) pos by linarith
  then show "fits_value v t"
    using assms starts_append [OF all(1)] by (simp add: fits_values_def fits_value_def)
  show "fits_values vs u" if "loop_inv t" "moved 1 (nodes_in v) (length (msgpack_encode v)) t u"
  proof -
    have "starts (concat (map msgpack_encode vs)) u"
      using starts_moved [OF all(1), of u] that(2) by (simp add: moved_def)
    moreover have "length (concat (map msgpack_encode vs)) - length vs \<le> tpossible_nodes_left u"
      using that(2) all(2) pos by (simp add: moved_def)
    moreover have "sum_list (map nodes_in vs) \<le> tnodes_left u"
      using assms nodes_left_moved [OF that] by (auto simp: fits_values_def)
    ultimately show ?thesis
      using assms that(2) by (simp add: fits_values_def moved_def)
  qed
qed

lemma parse_values:
  assumes "\<And>v. v \<in> set vs \<Longrightarrow> parses v" "loop_inv t" "length vs \<le> lleft (top_level t)"
    "fits_values vs t" "length vs + sum_list (map nodes_in vs) \<le> m"
  shows "\<exists>u. after_round m t = after_round (m - (length vs + sum_list (map nodes_in vs))) u \<and>
     moved (length vs) (sum_list (map nodes_in vs)) (length (concat (map msgpack_encode vs))) t u \<and>
     (\<forall>j < length vs. denotes (tree_data t) (pool u) (tnodes t) (tnodes u)
        (lchild (top_level t) + j) (vs ! j))"
  using assms
proof (induction vs arbitrary: t m)
  case Nil
  then show ?case by (auto intro!: exI [of _ t] moved_refl)
next
  case (Cons v vs)
  have mem: "mem_ok t" using Cons.prems(2) by (simp add: loop_inv_def)
  have left: "lleft (top_level t) > 0" using Cons.prems(3) by simp
  note fv = fits_values_Cons(1) [OF Cons.prems(4)]
  have "parses v" using Cons.prems(1) by simp
  moreover have "nodes_in v < m" using Cons.prems(5) by simp
  ultimately obtain u where u: "parse_loop m t = after_round (m - 1 - nodes_in v) u"
      "moved 1 (nodes_in v) (length (msgpack_encode v)) t u"
      "denotes (tree_data t) (pool u) (tnodes t) (tnodes u) (lchild (top_level t)) v"
    using fv Cons.prems(2) left unfolding parses_def by blast
  have inv: "loop_inv u" "length vs \<le> lleft (top_level u)"
    "lchild (top_level u) = lchild (top_level t) + 1" "tree_data u = tree_data t"
    using u(2) Cons.prems(3) by (auto simp: moved_def tree_data_def fixed_fields_def)
  have fuel: "length vs + sum_list (map nodes_in vs) \<le> m - 1 - nodes_in v"
    using Cons.prems(5) by simp
  obtain w where w:
      "after_round (m - 1 - nodes_in v) u =
         after_round (m - 1 - nodes_in v - (length vs + sum_list (map nodes_in vs))) w"
      "moved (length vs) (sum_list (map nodes_in vs)) (length (concat (map msgpack_encode vs))) u w"
      "\<forall>j < length vs. denotes (tree_data u) (pool w) (tnodes u) (tnodes w)
         (lchild (top_level u) + j) (vs ! j)"
    using Cons.IH [OF Cons.prems(1) inv(1,2) fits_values_Cons(2) [OF Cons.prems(4,2) u(2)] fuel]
    by auto
  have "lchild (top_level t) + lleft (top_level t) \<le> tnodes t"
    using Cons.prems(2) levels_split [OF mem] by (simp add: loop_inv_def)
  then have region: "lchild (top_level t) + 1 + length vs \<le> tnodes t"
    using Cons.prems(3) by simp
  have grow: "tnodes t \<le> tnodes u" "tnodes u \<le> tnodes w"
    using u(2) w(2) by (simp_all add: moved_def)
  have frame: "pool w ! i = pool u ! i"
    if "i < tnodes u" "i \<notin> {lchild (top_level t) + 1 ..< lchild (top_level t) + 1 + length vs}" for i
    using w(2) that inv(3) by (simp add: moved_def)
  have v: "denotes (tree_data t) (pool w) (tnodes t) (tnodes w) (lchild (top_level t)) v"
    using region grow w(2)
    by (intro denotes_frame [OF u(3)] frame) (auto simp: moved_def)
  have vs: "denotes (tree_data t) (pool w) (tnodes t) (tnodes w) (lchild (top_level t) + j) ((v # vs) ! j)"
    if "j < length (v # vs)" for j
  proof (cases j)
    case 0
    then show ?thesis using v by simp
  next
    case (Suc k)
    then have "denotes (tree_data t) (pool w) (tnodes u) (tnodes w) (lchild (top_level t) + j) (vs ! k)"
      using w(3) that inv(3,4) by auto
    then have "denotes (tree_data t) (pool w) (tnodes t) (tnodes w) (lchild (top_level t) + j) (vs ! k)"
      by (rule denotes_frame) (use grow in auto)
    with Suc show ?thesis by simp
  qed
  have "after_round m t = after_round (m - (length (v # vs) + sum_list (map nodes_in (v # vs)))) w"
    using after_round_more [OF mem left] u(1) w(1) by (simp add: algebra_simps)
  moreover have "moved (length (v # vs)) (sum_list (map nodes_in (v # vs)))
      (length (concat (map msgpack_encode (v # vs)))) t w"
    using moved_trans [OF u(2) w(2)] msgpack_encode_pos [of v] length_concat_encode [of vs]
    by (simp add: Suc_le_eq)
  ultimately show ?case using vs by blast
qed


lemma length_head_pos: "0 < length (head_bytes v)"
proof (cases v)
  case (Msg_int i)
  then show ?thesis using msgpack_encode_pos [of "Msg_int i"] by simp
qed (simp_all add: msgpack_bool_def length_msgpack_headers)

lemma length_encode_children:
  "length (msgpack_encode v) =
     length (head_bytes v) + length (concat (map msgpack_encode (children v)))"
  by (subst encode_head) simp

text \<open>The header of a value: the state after its node, before the children.\<close>

lemma parse_header:
  assumes "loop_inv t" "lleft (top_level t) > 0" "fits_value v t"
  obtains nd where
    "node_matches (tree_data t) nd v" "total_children nd = length (children v)"
    "children v \<noteq> [] \<Longrightarrow> nvalue nd = Val_children (tnodes t)"
    "\<And>m. parse_loop (Suc m) t = after_round m (advance (lchild (top_level t)) nd
       (length (head_bytes v) - 1 + length (children v)) t)"
    "node_fits nd (length (head_bytes v) - 1 + length (children v)) t"
proof -
  let ?node = "lchild (top_level t)" and ?r = "length (head_bytes v) - 1 + length (children v)"
  note start = node_start_of_inv [OF assms(1,2)]
  have "starts (head_bytes v) t"
    using assms(3) encode_head [of v] starts_append by (metis fits_value_def)
  moreover have "room_for_children v t"
  proof -
    have "?r \<le> length (msgpack_encode v) - 1"
      using length_head_pos [of v] length_concat_encode [of "children v"]
      unfolding length_encode_children by linarith
    moreover have "length (children v) \<le> nodes_in v"
      by (simp add: nodes_in_children [of v])
    moreover have "children v = [] \<or> Suc (tlevel t) < 32"
      using assms(3) depth_children [of v] by (simp add: fits_value_def split: if_splits)
    ultimately show ?thesis using assms(3) by (auto simp: room_for_children_def fits_value_def)
  qed
  ultimately have "decoded v ?node t (mpack_tree_parse_node_contents ?node t)"
    using decode_head [OF start] assms(3) by (simp add: fits_value_def)
  then obtain nd where nd: "mpack_tree_parse_node_contents ?node t = Ret (True, after_node ?node nd ?r t)"
      "node_matches (tree_data t) nd v" "total_children nd = length (children v)"
      "children v \<noteq> [] \<longrightarrow> nvalue nd = Val_children (tnodes t)"
    by (auto simp: decoded_def tree_data_def)
  show thesis
    by (rule that [OF nd(2,3) _ parse_loop_step [OF assms(1,2) nd(1)] contents_fits [OF start nd(1)]])
      (use nd(4) in blast)
qed

lemma moved_advance_leaf:
  assumes "loop_inv t" "lleft (top_level t) > 0" "node_fits nd r t" "total_children nd = 0"
  shows "moved 1 0 (r + 1) t (advance (lchild (top_level t)) nd r t)"
proof -
  have stack: "tlevel t < length (tstack t)"
    using assms(1) by (simp add: loop_inv_def mem_ok_def)
  show ?thesis
    using assms(4) stack loop_inv_advance [OF assms(1,3) refl assms(2)]
    by (auto simp: moved_def advance_fields fixed_fields_def pool_def top_level_def)
      (auto simp: advance_def finish_node_def after_node_def push_level_def Let_def top_level_def)
qed

lemma advance_push:
  assumes "loop_inv t" "node_fits nd r t" "total_children nd = n" "n > 0"
  defines "u \<equiv> advance (lchild (top_level t)) nd r t"
  shows "tlevel u = Suc (tlevel t)" "top_level u = \<lparr>lchild = tnodes t, lleft = n\<rparr>"
    "take (tlevel t) (tstack u) = take (tlevel t) (tstack t)"
    "tstack u ! tlevel t =
       \<lparr>lchild = lchild (top_level t) + 1, lleft = lleft (top_level t) - 1\<rparr>"
proof -
  have stack: "Suc (tlevel t) < length (tstack t)"
    using assms(1-4) by (auto simp: loop_inv_def mem_ok_def node_fits_def)
  then show "tlevel u = Suc (tlevel t)" "top_level u = \<lparr>lchild = tnodes t, lleft = n\<rparr>"
    "take (tlevel t) (tstack u) = take (tlevel t) (tstack t)"
    "tstack u ! tlevel t =
       \<lparr>lchild = lchild (top_level t) + 1, lleft = lleft (top_level t) - 1\<rparr>"
    using assms(3,4) unfolding u_def
    by (simp_all add: advance_def finish_node_def after_node_def push_level_def Let_def
        top_level_def)
qed


lemma parses_step:
  assumes ih: "\<And>x. x \<in> set (children v) \<Longrightarrow> parses x"
  shows "parses v"
  unfolding parses_def
proof (intro allI impI, elim conjE)
  fix t m
  assume inv: "loop_inv t" and left: "lleft (top_level t) > 0" and fv: "fits_value v t"
    and fuel: "nodes_in v < m"
  let ?node = "lchild (top_level t)" and ?n = "length (children v)"
    and ?h = "length (head_bytes v)"
  define r where "r = ?h - 1 + ?n"
  obtain nd where nd: "node_matches (tree_data t) nd v" "total_children nd = ?n"
      "children v \<noteq> [] \<Longrightarrow> nvalue nd = Val_children (tnodes t)"
      "\<And>m. parse_loop (Suc m) t = after_round m (advance ?node nd r t)" "node_fits nd r t"
    using parse_header [OF inv left fv] unfolding r_def by metis
  let ?u = "advance ?node nd r t"
  have loop: "parse_loop m t = after_round (m - 1) ?u"
    using nd(4) [of "m - 1"] fuel by simp
  have mem: "mem_ok t" using inv by (simp add: loop_inv_def)
  have "?node + lleft (top_level t) \<le> tnodes t"
    using inv levels_split [OF mem] by (simp add: loop_inv_def)
  then have node: "?node < tnodes t" "?node < length (pool t)"
    using left mem by (auto simp: mem_ok_def pool_def)
  have pool_u: "pool ?u = (pool t)[?node := nd]" by (simp add: pool_def advance_fields)
  show "\<exists>u. parse_loop m t = after_round (m - 1 - nodes_in v) u \<and>
      moved 1 (nodes_in v) (length (msgpack_encode v)) t u \<and>
      denotes (tree_data t) (pool u) (tnodes t) (tnodes u) ?node v"
  proof (cases "children v = []")
    case True
    then have enc: "msgpack_encode v = head_bytes v" "nodes_in v = 0"
      using encode_head [of v] nodes_in_children [of v] by simp_all
    have "moved 1 0 ?h t ?u"
      using moved_advance_leaf [OF inv left nd(5)] nd(2) True length_head_pos [of v] by (simp add: r_def)
    moreover have "denotes (tree_data t) (pool ?u) (tnodes t) (tnodes ?u) ?node v"
      by (rule denotes.intros) (use True nd(1) node pool_u in simp_all)
    ultimately show ?thesis using loop enc by auto
  next
    case False
    note push = advance_push [OF inv nd(5,2)] 
    have n: "?n > 0" using False by simp
    have inv_u: "loop_inv ?u" using loop_inv_advance [OF inv nd(5) refl left] .
    have size_u: "tsize ?u = tsize t + ?h" "tnodes ?u = tnodes t + ?n"
      "tpossible_nodes_left ?u = tpossible_nodes_left t - r"
      "tnodes_left ?u = tnodes_left t - ?n" "fixed_fields t ?u" "tree_data ?u = tree_data t"
      using nd(2) length_head_pos [of v]
      by (simp_all add: r_def advance_fields fixed_fields_def tree_data_def)
    have "starts (concat (map msgpack_encode (children v))) ?u"
      using fv encode_head [of v] starts_moved [of "head_bytes v" _ t ?u] size_u
      by (simp add: fits_value_def)
    moreover have "length (concat (map msgpack_encode (children v))) - ?n \<le> tpossible_nodes_left ?u"
    proof -
      have "length (msgpack_encode v) - 1 \<le> tpossible_nodes_left t"
        using fv by (simp add: fits_value_def)
      then show ?thesis
        using r_def length_head_pos [of v] size_u(3) unfolding length_encode_children by linarith
    qed
    moreover have "\<forall>x \<in> set (children v). tlevel ?u + depth x < 32"
    proof
      fix x
      assume "x \<in> set (children v)"
      then have "depth x < depth v"
        using list_max_le [of "depth x" "map depth (children v)"]
        by (subst depth_children) (auto simp: less_Suc_eq_le)
      then show "tlevel ?u + depth x < 32"
        using fv push(1) n by (simp add: fits_value_def)
    qed
    moreover have "sum_list (map nodes_in (children v)) \<le> tnodes_left ?u"
      using fv nodes_in_children [of v] size_u(4) by (auto simp: fits_value_def)
    ultimately have fits: "fits_values (children v) ?u"
      using fv representable_children by (simp add: fits_values_def fits_value_def)
    have "?n + sum_list (map nodes_in (children v)) \<le> m - 1"
      using fuel nodes_in_children [of v] by simp
    from parse_values [OF ih inv_u _ fits this] push(2) n obtain w where
      w: "after_round (m - 1) ?u =
            after_round (m - 1 - (?n + sum_list (map nodes_in (children v)))) w"
         "moved ?n (sum_list (map nodes_in (children v)))
            (length (concat (map msgpack_encode (children v)))) ?u w"
         "\<forall>j < ?n. denotes (tree_data ?u) (pool w) (tnodes ?u) (tnodes w)
            (tnodes t + j) (children v ! j)"
      by auto
    let ?w = "w\<lparr>tlevel := tlevel t\<rparr>"
    have inv_lw: "loop_inv w" "tlevel w = Suc (tlevel t)" "lleft (top_level w) = 0"
      using w(2) push(1,2) n by (auto simp: moved_def)
    then have mem_w: "mem_ok w" by (simp add: loop_inv_def)
    have same: "w\<lparr>tlevel := Suc (tlevel t)\<rparr> = w" using inv_lw(2) by (cases w) simp
    have inv_w: "loop_inv ?w"
      by (rule loop_inv_pop) (use inv_lw in \<open>simp_all only: same top_level_def\<close>)
    have pop: "after_round k w = after_round k ?w" for k
      by (rule after_round_pop [OF mem_w inv_lw(2,3)])
    show ?thesis
    proof (intro exI [of _ ?w] conjI)
      show "parse_loop m t = after_round (m - 1 - nodes_in v) ?w"
        using loop w(1) pop nodes_in_children [of v] by simp
      have stack: "take (tlevel t) (tstack w) = take (tlevel t) (tstack t)"
        "tstack w ! tlevel t = tstack ?u ! tlevel t"
      proof -
        have eq: "take (Suc (tlevel t)) (tstack w) = take (Suc (tlevel t)) (tstack ?u)"
          using w(2) push(1) n by (simp add: moved_def)
        show "take (tlevel t) (tstack w) = take (tlevel t) (tstack t)"
          using arg_cong [OF eq, of "take (tlevel t)"] push(3) n by (simp add: min_def)
        show "tstack w ! tlevel t = tstack ?u ! tlevel t"
          using arg_cong [OF eq, of "\<lambda>xs. xs ! tlevel t"] by simp
      qed
      have frame: "pool ?w ! i = pool ?u ! i" if "i < tnodes t" for i
        using w(2) that push(2) n size_u(2) by (simp add: moved_def pool_def)
      have len_w: "length (pool ?w) = length (pool t)"
        using w(2) pool_u by (simp add: moved_def pool_def)
      have "tpossible_nodes_left ?w = tpossible_nodes_left t - (length (msgpack_encode v) - 1)"
      proof -
        have "tpossible_nodes_left w = tpossible_nodes_left ?u -
            (length (concat (map msgpack_encode (children v))) - ?n)"
          using w(2) by (simp add: moved_def)
        moreover have "length (msgpack_encode v) - 1 =
            r + (length (concat (map msgpack_encode (children v))) - ?n)"
          using r_def length_encode_children [of v] length_head_pos [of v]
            length_concat_encode [of "children v"] by linarith
        ultimately show ?thesis using size_u(3) by simp
      qed
      moreover have "fixed_fields t ?w"
        using w(2) size_u(5) by (simp add: moved_def fixed_fields_def)
      moreover have "tsize ?w = tsize t + length (msgpack_encode v)"
        using w(2) size_u(1) length_encode_children [of v] by (simp add: moved_def)
      moreover have nodes_w: "tnodes ?w = tnodes t + nodes_in v"
        using w(2) size_u(2) nodes_in_children [of v] by (simp add: moved_def)
      moreover have "top_level ?w = \<lparr>lchild = ?node + 1, lleft = lleft (top_level t) - 1\<rparr>"
        using stack(2) push(4) n by (simp add: top_level_def)
      moreover have "\<forall>i < tnodes t. i \<notin> {?node ..< ?node + 1} \<longrightarrow> pool ?w ! i = pool t ! i"
        using frame pool_u by simp
      ultimately show "moved 1 (nodes_in v) (length (msgpack_encode v)) t ?w"
        unfolding moved_def using inv_w stack(1) len_w by simp
      show "denotes (tree_data t) (pool ?w) (tnodes t) (tnodes ?w) ?node v"
      proof (rule denotes.intros [where c = "tnodes t"])
        show "?node < length (pool ?w)" using len_w node(2) by simp
        show "node_matches (tree_data t) (pool ?w ! ?node) v"
          using frame [OF node(1)] pool_u nd(1) node(2) by simp
        show "nvalue (pool ?w ! ?node) = Val_children (tnodes t) \<and> tnodes t \<le> tnodes t \<and>
            tnodes t + length (children v) \<le> tnodes ?w"
          using frame [OF node(1)] pool_u nd(3) [OF False] node(2) nodes_w
            nodes_in_children [of v] by simp
        show "denotes (tree_data t) (pool ?w) (tnodes t) (tnodes ?w) (tnodes t + j) (children v ! j)"
          if "j < length (children v)" for j
        proof -
          have "denotes (tree_data t) (pool w) (tnodes ?u) (tnodes w) (tnodes t + j) (children v ! j)"
            using w(3) that size_u(6) by simp
          then show ?thesis by (rule denotes_frame) (simp_all add: pool_def size_u(2))
        qed
      qed
    qed
  qed
qed

lemma parses_all: "parses v"
proof (induction v rule: measure_induct_rule [of size])
  case (less v)
  show ?case by (rule parses_step, rule less.IH, erule children_smaller)
qed

subsection \<open>The whole parse\<close>

lemma nodes_in_less: "nodes_in v < length (msgpack_encode v)"
proof (induction v rule: measure_induct_rule [of size])
  case (less v)
  have "length vs + sum_list (map nodes_in vs) \<le> length (concat (map msgpack_encode vs))"
    if "set vs \<subseteq> set (children v)" for vs
    using that
  proof (induction vs)
    case (Cons x vs)
    then have "nodes_in x < length (msgpack_encode x)"
      by (intro less.IH children_smaller) simp
    with Cons show ?case by simp
  qed simp
  from this [OF order_refl] show ?case
    using length_head_pos [of v] unfolding length_encode_children nodes_in_children [of v]
    by linarith
qed

lemma parse_decodes:
  assumes "pool_tree_ok t" "representable v" "nodes_in v < tpool_count t" "depth v < 32"
    "starts (msgpack_encode v) t" "length (msgpack_encode v) \<le> tdata_length t"
  shows "\<exists>u. mpack_tree_parse t = Ret u \<and> terror u = mpack_ok \<and> tstate u = Parsed \<and>
     tsize u = length (msgpack_encode v) \<and> troot u = 0 \<and>
     denotes (tree_data u) (pool u) 1 (tnodes u) 0 v"
proof -
  let ?s = "started t"
  have len: "0 < tdata_length t" using assms(6) msgpack_encode_pos [of v] by linarith
  have inv: "loop_inv ?s" by (rule loop_inv_started [OF assms(1) len])
  obtain l ls where ls: "tstack t = l # ls" using assms(1) by (cases "tstack t") (auto simp: pool_tree_ok_def)
  have top: "top_level ?s = \<lparr>lchild = 0, lleft = 1\<rparr>" "tlevel ?s = 0" "tnodes ?s = 1"
    by (simp_all add: started_def top_level_def ls)
  have "fits_value v ?s"
    using assms by (auto simp: fits_value_def started_def starts_def pool_tree_ok_def)
  moreover have "nodes_in v < tdata_length t + 1"
    using assms(6) nodes_in_less [of v] by linarith
  ultimately obtain u where u: "parse_loop (tdata_length t + 1) ?s = after_round (tdata_length t - nodes_in v) u"
      "moved 1 (nodes_in v) (length (msgpack_encode v)) ?s u"
      "denotes (tree_data ?s) (pool u) (tnodes ?s) (tnodes u) (lchild (top_level ?s)) v"
    using parses_all [of v] inv top unfolding parses_def by force
  have u0: "tlevel u = 0" "lleft (tstack u ! 0) = 0" "0 < length (tstack u)"
    using u(2) top by (auto simp: moved_def top_level_def loop_inv_def mem_ok_def)
  then have "pop_levels 0 u = Ret (True, u\<lparr>tlevel := 0\<rparr>)"
    by (subst pop_levels.simps) (simp add: read_level_def)
  also have "u\<lparr>tlevel := 0\<rparr> = u" using u0(1) by (cases u) simp
  finally have "pop_levels 0 u = Ret (True, u)" .
  then have "parse_loop (tdata_length t + 1) ?s = Ret (True, u)"
    using u(1,2) top(2) by (simp add: after_round_def moved_def)
  then have "mpack_tree_parse t = Ret (u\<lparr>tstate := Parsed\<rparr>)"
    using u(2) top by (simp add: parse_result [OF assms(1) len] moved_def loop_inv_def del: parse_loop.simps)
  moreover have "denotes (tree_data u) (pool u) 1 (tnodes u) 0 v" "troot u = 0" "tsize u = length (msgpack_encode v)"
    using u(2,3) top assms(1) by (simp_all add: moved_def fixed_fields_def started_def tree_data_def pool_tree_ok_def)
  ultimately show ?thesis using u(2) by (intro exI [of _ "u\<lparr>tstate := Parsed\<rparr>"]) (simp add: moved_def loop_inv_def tree_data_def pool_def)
qed

subsection \<open>The property\<close>

text \<open>
  C1. Parsing the encoding of any value, with any bytes behind it, succeeds when the pool has a
  node for each of its values and it nests less than 32 deep: the parser consumes exactly the
  encoding, and the tree at the root denotes the value, down to every integer, string and child.
\<close>

theorem parse_encode_roundtrip:
  assumes "representable v" "nodes_in v < n" "depth v < 32" "n < 4294967296" "n \<le> length nodes"
    "length (msgpack_encode v @ rest) < SIZE_MAX"
  shows "\<exists>t. mpack_tree_parse (mpack_tree_init_pool (msgpack_encode v @ rest)
                (length (msgpack_encode v @ rest)) nodes n) = Ret t \<and>
             terror t = mpack_ok \<and> tstate t = Parsed \<and> tsize t = length (msgpack_encode v) \<and>
             denotes (tree_data t) (pool t) 1 (tnodes t) (troot t) v"
proof -
  let ?d = "msgpack_encode v @ rest"
  let ?t = "mpack_tree_init_pool ?d (length ?d) nodes n"
  have ok: "pool_tree_ok ?t"
    using assms by (intro pool_tree_ok_init) simp_all
  have "n > 0" using assms(2) by simp
  then have init: "tpool_count ?t = n" "starts (msgpack_encode v) ?t" "tdata_length ?t = length ?d"
    by (simp_all add: mpack_tree_init_pool_def mpack_tree_init_clear_def starts_def)
  obtain u where "mpack_tree_parse ?t = Ret u" "terror u = mpack_ok" "tstate u = Parsed"
      "tsize u = length (msgpack_encode v)" "troot u = 0"
      "denotes (tree_data u) (pool u) 1 (tnodes u) 0 v"
    using parse_decodes [OF ok assms(1) _ assms(3) init(2)] init(1,3) assms(2) by auto
  then show ?thesis by (intro exI [of _ u]) simp
qed

theorem parse_encode_roundtrip_witness:
  "\<exists>t. mpack_tree_parse (mpack_tree_init_pool
         (msgpack_encode (Msg_array [Msg_int 7, Msg_str [0x61, 0x62]]) @ [0xFF])
         (length (msgpack_encode (Msg_array [Msg_int 7, Msg_str [0x61, 0x62]]) @ [0xFF]))
         (replicate 50 \<lparr>ntype = mpack_type_missing, nlen = 0, nvalue = Val_none\<rparr>) 50) = Ret t \<and>
       terror t = mpack_ok \<and> tsize t = length (msgpack_encode (Msg_array [Msg_int 7, Msg_str [0x61, 0x62]])) \<and>
       denotes (tree_data t) (pool t) 1 (tnodes t) (troot t)
         (Msg_array [Msg_int 7, Msg_str [0x61, 0x62]])"
  using parse_encode_roundtrip [of "Msg_array [Msg_int 7, Msg_str [0x61, 0x62]]" 50
      "replicate 50 \<lparr>ntype = mpack_type_missing, nlen = 0, nvalue = Val_none\<rparr>" "[0xFF]"]
  by (auto simp: length_msgpack_headers length_msgpack_int SIZE_MAX_def)

end
