(* ===== verification/Mpack_Node_Facts.thy ===== *)
theory Mpack_Node_Facts
  imports Mpack_Node Mpack_Tree_Roundtrip
begin

text \<open>
  What the node functions promise. The locale \<open>node_reader\<close> states the discipline they share:
  on a parsed tree they never leave the data or the pool, they change nothing but the error of
  the tree, and once that error is set they return their default. The second half reads the
  functions against the value a node denotes.
\<close>

subsection \<open>The discipline of a reader\<close>

definition data_ok :: "mpack_tree \<Rightarrow> mpack_node_data \<Rightarrow> bool" where
  "data_ok t nd \<longleftrightarrow> node_ok t nd \<or> ntype nd = mpack_type_nil \<or> ntype nd = mpack_type_missing"

definition handle_ok :: "mpack_tree \<Rightarrow> mpack_node \<Rightarrow> bool" where
  "handle_ok t node \<longleftrightarrow> (case node of Pool_node i \<Rightarrow> i < tnodes t | _ \<Rightarrow> True)"

text \<open>A node may be read when the tree has an error already, or is well formed with the node in it.\<close>

definition usable :: "mpack_tree \<Rightarrow> mpack_node \<Rightarrow> bool" where
  "usable t node \<longleftrightarrow> terror t \<noteq> mpack_ok \<or> tree_ok t \<and> handle_ok t node"

lemma node_ok_error [simp]: "node_ok (t\<lparr>terror := e\<rparr>) nd = node_ok t nd"
  by (cases "ntype nd") (simp_all add: node_ok_def)

lemma tree_ok_error [simp]: "tree_ok (t\<lparr>terror := e\<rparr>) = tree_ok t"
  by (simp add: tree_ok_def)

lemma handle_ok_error [simp]: "handle_ok (t\<lparr>terror := e\<rparr>) node = handle_ok t node"
  by (cases node) (simp_all add: handle_ok_def)

lemma handle_ok_const [simp]: "handle_ok t Nil_node" "handle_ok t Missing_node"
  by (simp_all add: handle_ok_def)

lemma terror_same: "terror t = e \<Longrightarrow> t\<lparr>terror := e\<rparr> = t"
  by (cases t) simp

text \<open>\<open>quiet t m\<close>: \<open>m\<close> returns, and has changed nothing of \<open>t\<close> but the error.\<close>

definition quiet :: "mpack_tree \<Rightarrow> ('a \<times> mpack_tree) outcome \<Rightarrow> bool" where
  "quiet t m \<longleftrightarrow> (\<exists>x e. m = Ret (x, t\<lparr>terror := e\<rparr>))"

lemma quiet_Ret [simp]: "quiet t (Ret (x, t))"
  unfolding quiet_def by (metis terror_same)

lemma quiet_flag [simp]: "quiet t (Ret (x, mpack_tree_flag_error e t))"
  unfolding mpack_tree_flag_error_def using quiet_Ret by (auto simp: quiet_def)

lemma quiet_flag_error [simp]: "quiet t (mpack_node_flag_error x e t)"
  by (simp add: mpack_node_flag_error_def)

lemma quiet_bind: "\<exists>y. m = Ret y \<and> quiet t (f y) \<Longrightarrow> quiet t (and_then m f)"
  by auto

lemma quiet_and_then:
  assumes "quiet t m" "\<And>x e. m = Ret (x, t\<lparr>terror := e\<rparr>) \<Longrightarrow> quiet t (f (x, t\<lparr>terror := e\<rparr>))"
  shows "quiet t (and_then m f)"
  using assms by (auto simp: quiet_def)

definition disciplined :: "'a tree_op \<Rightarrow> 'a \<Rightarrow> mpack_tree \<Rightarrow> bool" where
  "disciplined oper dflt t \<longleftrightarrow>
     (\<exists>x t'. oper t = Ret (x, t') \<and> t' = t\<lparr>terror := terror t'\<rparr> \<and>
             (terror t \<noteq> mpack_ok \<longrightarrow> x = dflt \<and> t' = t))"

locale node_reader =
  fixes reader :: "mpack_node \<Rightarrow> 'a tree_op" and dflt :: 'a
  assumes sticky: "terror t \<noteq> mpack_ok \<Longrightarrow> reader node t = Ret (dflt, t)"
    and reads: "terror t = mpack_ok \<Longrightarrow> tree_ok t \<Longrightarrow> handle_ok t node \<Longrightarrow>
      quiet t (reader node t)"
begin

lemma not_stuck: "usable t node \<Longrightarrow> returns (reader node t)"
  using sticky [of t node] reads [of t node] by (auto simp: usable_def returns_iff quiet_def)

lemma only_error:
  assumes "usable t node" "reader node t = Ret (x, t')"
  shows "t' = t\<lparr>terror := terror t'\<rparr>" "terror t \<noteq> mpack_ok \<Longrightarrow> x = dflt \<and> t' = t"
  using assms sticky [of t node] reads [of t node]
  by (cases "terror t = mpack_ok"; fastforce simp: usable_def quiet_def terror_same)+

lemma disciplined: "usable t node \<Longrightarrow> disciplined (reader node) dflt t"
  using not_stuck [of t node] only_error [of t node]
  unfolding disciplined_def returns_iff by force

lemma no_error:
  assumes "usable t node" "reader node t = Ret (x, t')" "terror t' = mpack_ok"
  shows "t' = t" "terror t = mpack_ok"
  using only_error [OF assms(1,2)] assms(3) by (cases "terror t = mpack_ok"; fastforce)+

lemma stays_usable:
  assumes "usable t node" "reader node t = Ret (x, t')" "usable t other"
  shows "usable t' other"
proof (cases "terror t' = mpack_ok")
  case True
  with no_error [OF assms(1,2)] assms(3) show ?thesis by simp
qed (simp add: usable_def)

end

text \<open>The functions of the shape \<open>with_node\<close>.\<close>

lemma node_data_returns:
  "tree_ok t \<Longrightarrow> handle_ok t node \<Longrightarrow> \<exists>nd. node_data node t = Ret nd \<and> data_ok t nd"
  by (cases node)
    (auto simp: node_data_def tree_ok_def handle_ok_def data_ok_def read_node_def
      nil_node_data_def missing_node_data_def)

definition reads_data :: "(mpack_node_data \<Rightarrow> 'a tree_op) \<Rightarrow> bool" where
  "reads_data k \<longleftrightarrow> (\<forall>nd t. terror t = mpack_ok \<longrightarrow> tree_ok t \<longrightarrow> data_ok t nd \<longrightarrow>
     quiet t (k nd t))"

lemma reads_dataI:
  "(\<And>nd t. terror t = mpack_ok \<Longrightarrow> tree_ok t \<Longrightarrow> data_ok t nd \<Longrightarrow> quiet t (k nd t)) \<Longrightarrow>
     reads_data k"
  by (simp add: reads_data_def)

lemma node_reader_with_node: "reads_data k \<Longrightarrow> node_reader (with_node dflt k) dflt"
proof
  fix t node
  assume k: "reads_data k" and ok: "terror t = mpack_ok" "tree_ok t" "handle_ok t node"
  obtain nd where "node_data node t = Ret nd" "data_ok t nd"
    using node_data_returns [OF ok(2,3)] by blast
  with k ok show "quiet t (with_node dflt k node t)"
    by (simp add: with_node_def reads_data_def)
qed (simp add: with_node_def)

text \<open>The union of a node that can be read holds the member its type announces.\<close>

lemma data_ok_member:
  assumes "data_ok t nd"
  shows "ntype nd = mpack_type_bool \<Longrightarrow> \<exists>b. value_b nd = Ret b"
    "ntype nd = mpack_type_int \<Longrightarrow> \<exists>i. value_i nd = Ret i"
    "ntype nd = mpack_type_uint \<Longrightarrow> \<exists>u. value_u nd = Ret u"
    "ntype nd = mpack_type_array \<Longrightarrow>
       \<exists>c. value_children nd = Ret c \<and> c + unat (nlen nd) \<le> tnodes t"
    "ntype nd = mpack_type_map \<Longrightarrow>
       \<exists>c. value_children nd = Ret c \<and> c + unat (nlen nd) * 2 \<le> tnodes t"
  using assms by (auto simp: data_ok_def node_ok_def value_defs)

lemma data_ok_bytes:
  assumes "data_ok t nd" "tree_ok t" "terror t = mpack_ok"
    "ntype nd = mpack_type_str \<or> ntype nd = mpack_type_bin"
  shows "\<exists>p. mpack_node_data_unchecked nd t = Ret p \<and> p + unat (nlen nd) \<le> length (tdata_obj t)"
    "\<exists>bs. node_bytes nd t = Ret bs \<and> length bs = unat (nlen nd)"
proof -
  have "\<exists>off. nvalue nd = Val_offset off \<and> off + unat (nlen nd) \<le> tdata_length t"
    using assms(1,4) by (auto simp: data_ok_def node_ok_def)
  then obtain off where "value_offset nd = Ret off"
    "tdata t + off + unat (nlen nd) \<le> length (tdata_obj t)"
    using assms(2) by (auto simp: value_offset_def tree_ok_def)
  with assms(3,4) show "\<exists>p. mpack_node_data_unchecked nd t = Ret p \<and>
        p + unat (nlen nd) \<le> length (tdata_obj t)"
    "\<exists>bs. node_bytes nd t = Ret bs \<and> length bs = unat (nlen nd)"
    by (auto simp: mpack_node_data_unchecked_def node_bytes_def load_at_def)
qed

subsection \<open>Every reader keeps it\<close>

lemma reads_number:
  "reads_data (\<lambda>nd t.
     if ntype nd = mpack_type_uint then
       and_then (value_u nd) (\<lambda>u. if p u then Ret (f u, t) else mpack_node_flag_error d e1 t)
     else if ntype nd = mpack_type_int then
       and_then (value_i nd) (\<lambda>i. if q i then Ret (g i, t) else mpack_node_flag_error d e2 t)
     else mpack_node_flag_error d e3 t)"
  by (rule reads_dataI)
    (auto intro!: quiet_bind dest: data_ok_member(2,3))

lemma node_reader_number: "node_reader (node_number umax imin imax) 0"
  unfolding node_number_def by (intro node_reader_with_node reads_number)

interpretation node_u8: node_reader mpack_node_u8 0
  unfolding mpack_node_u8_def by (rule node_reader_number)

interpretation node_i8: node_reader mpack_node_i8 0
  unfolding mpack_node_i8_def by (rule node_reader_number)

interpretation node_u16: node_reader mpack_node_u16 0
  unfolding mpack_node_u16_def by (rule node_reader_number)

interpretation node_i16: node_reader mpack_node_i16 0
  unfolding mpack_node_i16_def by (rule node_reader_number)

interpretation node_u32: node_reader mpack_node_u32 0
  unfolding mpack_node_u32_def by (rule node_reader_number)

interpretation node_i32: node_reader mpack_node_i32 0
  unfolding mpack_node_i32_def by (rule node_reader_number)

interpretation node_u64: node_reader mpack_node_u64 0
  unfolding mpack_node_u64_def by (rule node_reader_number)

interpretation node_i64: node_reader mpack_node_i64 0
  unfolding mpack_node_i64_def by (rule node_reader_number)

interpretation node_bool: node_reader mpack_node_bool False
  unfolding mpack_node_bool_def
  by (intro node_reader_with_node reads_dataI)
    (auto intro!: quiet_bind dest: data_ok_member(1))

interpretation node_type: node_reader mpack_node_type mpack_type_nil
  unfolding mpack_node_type_def by (intro node_reader_with_node reads_dataI) simp

interpretation node_array_length: node_reader mpack_node_array_length 0
  unfolding mpack_node_array_length_def
  by (intro node_reader_with_node reads_dataI) simp

interpretation node_strlen: node_reader mpack_node_strlen 0
  unfolding mpack_node_strlen_def
  by (intro node_reader_with_node reads_dataI) simp

interpretation node_data_len: node_reader mpack_node_data_len 0
  unfolding mpack_node_data_len_def
  by (intro node_reader_with_node reads_dataI) simp

text \<open>Strings: the bytes of the node are read inside the data, the buffer is written inside its size.\<close>

lemma quiet_with_bytes:
  assumes "data_ok t nd" "tree_ok t" "terror t = mpack_ok"
    "ntype nd = mpack_type_str \<or> ntype nd = mpack_type_bin"
    "\<And>bs. length bs = unat (nlen nd) \<Longrightarrow> quiet t (f bs)"
  shows "quiet t (and_then (node_bytes nd t) f)"
  using data_ok_bytes(2) [OF assms(1-4)] assms(5) by auto

lemma quiet_copy:
  "length bs \<le> n \<Longrightarrow> n \<le> length m \<Longrightarrow>
     quiet t (and_then (copy_bytes (Some m) 0 bs) (\<lambda>b. Ret (f b, t)))"
  by (auto simp: copy_bytes_def store_at_def)

interpretation node_check_utf8: node_reader mpack_node_check_utf8 "()"
  unfolding mpack_node_check_utf8_def
  by (intro node_reader_with_node reads_dataI) (auto intro!: quiet_with_bytes)

interpretation node_check_utf8_cstr: node_reader mpack_node_check_utf8_cstr "()"
  unfolding mpack_node_check_utf8_cstr_def
  by (intro node_reader_with_node reads_dataI) (auto intro!: quiet_with_bytes)

lemma node_reader_copy_data:
  assumes "n \<le> length m"
  shows "node_reader (\<lambda>node. mpack_node_copy_data node (Some m) n) (0, Some m)"
  unfolding mpack_node_copy_data_def
  using assms by (intro node_reader_with_node reads_dataI) (auto intro!: quiet_with_bytes quiet_copy)

lemma node_reader_copy_utf8:
  assumes "n \<le> length m"
  shows "node_reader (\<lambda>node. mpack_node_copy_utf8 node (Some m) n) (0, Some m)"
  unfolding mpack_node_copy_utf8_def
  using assms by (intro node_reader_with_node reads_dataI) (auto intro!: quiet_with_bytes quiet_copy)

lemma store_byte: "k < length m \<Longrightarrow> store_at m k [b] = Ret (m[k := b])"
  by (simp add: store_at_def upd_conv_take_nth_drop)

lemma node_reader_copy_terminated:
  assumes "0 < n" "n \<le> length m"
  shows "node_reader (\<lambda>node. copy_terminated check node (Some m) n) (m[0 := 0])"
proof
  fix t node
  assume ok: "terror t = mpack_ok" "tree_ok t" "handle_ok t node"
  obtain nd where nd: "node_data node t = Ret nd" "data_ok t nd"
    using node_data_returns [OF ok(2,3)] by blast
  show "quiet t (copy_terminated check node (Some m) n t)"
    using ok nd assms
    by (auto simp: copy_terminated_def Let_def store_byte store_at_def intro!: quiet_with_bytes)
next
  fix t :: mpack_tree and node
  assume "terror t \<noteq> mpack_ok"
  moreover have "m \<noteq> []" using assms by auto
  ultimately show "copy_terminated check node (Some m) n t = Ret (m[0 := 0], t)"
    using assms by (simp add: copy_terminated_def store_byte Let_def)
qed

lemma node_reader_pointer:
  "types \<subseteq> {mpack_type_str, mpack_type_bin} \<Longrightarrow> node_reader (node_pointer types) None"
  unfolding node_pointer_def
  by (intro node_reader_with_node reads_dataI)
    (auto intro!: quiet_bind dest: data_ok_bytes(1))

interpretation node_str: node_reader mpack_node_str None
  unfolding mpack_node_str_def by (rule node_reader_pointer) simp

interpretation node_data_pointer: node_reader mpack_node_data_fn None
  unfolding mpack_node_data_fn_def by (rule node_reader_pointer) simp

interpretation node_bin_data: node_reader mpack_node_bin_data None
  unfolding mpack_node_bin_data_def by (rule node_reader_pointer) simp

subsection \<open>Containers\<close>

lemma child_eq: "value_children nd = Ret c \<Longrightarrow> mpack_node_child nd k = Ret (c + k)"
  by (simp add: mpack_node_child_def)

interpretation node_array_at: node_reader "\<lambda>node. mpack_node_array_at node k" Nil_node for k
  unfolding mpack_node_array_at_def
  by (intro node_reader_with_node reads_dataI)
    (auto intro!: quiet_bind dest: data_ok_member(4) simp: child_eq)

interpretation node_map_at: node_reader "\<lambda>node. mpack_node_map_at node k off" Nil_node for k off
  unfolding mpack_node_map_at_def
  by (intro node_reader_with_node reads_dataI)
    (auto intro!: quiet_bind dest: data_ok_member(5) simp: child_eq)

text \<open>The handles they return are usable again.\<close>

lemma with_node_cases:
  assumes "with_node dflt k node t = Ret (x, t')"
  obtains "terror t \<noteq> mpack_ok" "x = dflt" "t' = t"
  | nd where "terror t = mpack_ok" "node_data node t = Ret nd" "k nd t = Ret (x, t')"
  using assms by (auto simp: with_node_def outcome_simps split: if_splits)

lemma array_at_handle:
  assumes "usable t node" "mpack_node_array_at node k t = Ret (child, t')"
  shows "usable t' child"
  using assms(2) unfolding mpack_node_array_at_def
proof (cases rule: with_node_cases)
  case (2 nd)
  then have ok: "tree_ok t" "data_ok t nd"
    using assms(1) node_data_returns [of t node] by (auto simp: usable_def)
  with 2 show ?thesis
    using data_ok_member(4) [OF ok(2)]
    by (auto simp: usable_def handle_ok_def mpack_node_flag_error_def mpack_tree_flag_error_def
        child_eq outcome_simps split: if_splits)
qed (simp add: usable_def)

definition quiet_match :: "key_match \<Rightarrow> bool" where
  "quiet_match matches \<longleftrightarrow>
     (\<forall>t nd. terror t = mpack_ok \<longrightarrow> tree_ok t \<longrightarrow> data_ok t nd \<longrightarrow> returns (matches nd t))"

lemma quiet_match_int: "quiet_match (int_key num)" "quiet_match (uint_key num)"
  by (auto simp: quiet_match_def int_key_def uint_key_def returns_iff outcome_simps
      dest: data_ok_member(2,3))

lemma quiet_match_str: "len \<le> length str \<Longrightarrow> quiet_match (str_key str len)"
  unfolding quiet_match_def
proof (intro allI impI)
  fix t nd
  assume h: "len \<le> length str" "terror t = mpack_ok" "tree_ok t" "data_ok t nd"
  show "returns (str_key str len nd t)"
  proof (cases "ntype nd = mpack_type_str \<and> unat (nlen nd) = len")
    case True
    then obtain p where p: "mpack_node_data_unchecked nd t = Ret p" "p + len \<le> length (tdata_obj t)"
      using data_ok_bytes(1) [OF h(4,3,2)] by auto
    then have "returns (mpack_memcmp str (drop p (tdata_obj t)) len)"
      using h(1) by (intro memcmp_returns) simp_all
    with True p show ?thesis by (auto simp: str_key_def returns_iff)
  next
    case False
    then show ?thesis by (auto simp: str_key_def)
  qed
qed

lemma scan_quiet:
  assumes "quiet_match matches" "terror t = mpack_ok" "tree_ok t" "value_children nd = Ret c"
    "c + (i + n) * 2 \<le> tnodes t"
  shows "quiet t (map_scan matches nd i n found t)"
  using assms(5)
proof (induction n arbitrary: i found)
  case (Suc n)
  have "handle_ok t (Pool_node (c + i * 2))" using Suc.prems by (simp add: handle_ok_def)
  then obtain key where "read_node (c + i * 2) t = Ret key" "data_ok t key"
    using node_data_returns [OF assms(3)] by (fastforce simp: node_data_def)
  moreover from this(2) obtain b where "matches key t = Ret b"
    using assms(1-3) by (auto simp: quiet_match_def returns_iff)
  ultimately show ?case
    using Suc assms(4) by (simp add: child_eq)
qed simp

lemma node_reader_lookup:
  assumes "quiet_match matches"
  shows "node_reader (map_lookup matches) None"
  unfolding map_lookup_def
proof (intro node_reader_with_node reads_dataI)
  fix nd t
  assume ok: "terror t = mpack_ok" "tree_ok t" "data_ok t nd"
  show "quiet t (if ntype nd \<noteq> mpack_type_map then mpack_node_flag_error None mpack_error_type t
     else map_scan matches nd 0 (unat (nlen nd)) None t)"
    using data_ok_member(5) [OF ok(3)] scan_quiet [OF assms ok(1,2)] by auto
qed

interpretation map_int_impl: node_reader "\<lambda>node. mpack_node_map_int_impl node num" None for num
  unfolding mpack_node_map_int_impl_def by (rule node_reader_lookup [OF quiet_match_int(1)])

interpretation map_uint_impl: node_reader "\<lambda>node. mpack_node_map_uint_impl node num" None for num
  unfolding mpack_node_map_uint_impl_def by (rule node_reader_lookup [OF quiet_match_int(2)])

end
