(* ===== verification/Mpack_Node_Values.thy ===== *)
theory Mpack_Node_Values
  imports Mpack_Node_Facts
begin

text \<open>
  The node functions read against the value that a node denotes: the integer readers, booleans,
  the copy of a string, elements of an array, and the lookup of a key in a map.
\<close>

subsection \<open>Nodes and their values\<close>

definition denoted :: "mpack_tree \<Rightarrow> nat \<Rightarrow> msgpack \<Rightarrow> bool" where
  "denoted t i v \<longleftrightarrow>
     terror t = mpack_ok \<and> tree_ok t \<and> i < tnodes t \<and>
     (\<exists>lo hi. denotes (tree_data t) (pool t) lo hi i v)"

lemma denoted_usable: "denoted t i v \<Longrightarrow> usable t (Pool_node i)"
  by (simp add: denoted_def usable_def handle_ok_def)

lemma denoted_data:
  assumes "denoted t i v"
  obtains nd where "node_data (Pool_node i) t = Ret nd" "node_ok t nd"
    "node_matches (tree_data t) nd v"
    "\<And>c j. value_children nd = Ret c \<Longrightarrow> j < length (children v) \<Longrightarrow>
       denoted t (c + j) (children v ! j)"
proof -
  have ok: "terror t = mpack_ok" "tree_ok t" "i < tnodes t" using assms by (simp_all add: denoted_def)
  then obtain p where p: "tpool t = Some p" "tnodes t \<le> length p" "node_ok t (p ! i)"
    by (auto simp: tree_ok_def)
  obtain lo hi where d: "denotes (tree_data t) p lo hi i v"
    using assms p(1) by (auto simp: denoted_def pool_def)
  have "node_data (Pool_node i) t = Ret (p ! i)"
    using p ok(3) by (simp add: node_data_def read_node_def)
  moreover have m: "node_matches (tree_data t) (p ! i) v" using d by (cases rule: denotes.cases)
  moreover have "denoted t (c + j) (children v ! j)"
    if c: "value_children (p ! i) = Ret c" and j: "j < length (children v)" for c j
  proof -
    have "denotes (tree_data t) p lo hi (c + j) (children v ! j)"
      using d
    proof (cases rule: denotes.cases)
      case (denotes_node c')
      then have "c' = c" using c j by (cases "children v = []") (auto simp: value_children_def)
      then show ?thesis using denotes_node(4) [OF j] by simp
    qed
    moreover have "c + length (children v) \<le> tnodes t"
      using c j m p(3)
      by (cases v) (auto simp: node_ok_def value_children_def pairs_flat(3))
    ultimately show ?thesis using ok p(1) j by (auto simp: denoted_def pool_def)
  qed
  ultimately show ?thesis using p(3) that by blast
qed

text \<open>The tree that the parser builds from the encoding of a value denotes it at the root.\<close>

lemma parse_denotes_root:
  assumes "representable v" "nodes_in v < n" "depth v < 32" "n < 4294967296" "n \<le> length nodes"
    "length (msgpack_encode v @ rest) \<le> len" "len < SIZE_MAX"
    "len \<le> length (msgpack_encode v @ rest @ tail)"
  shows "\<exists>t. mpack_tree_parse (mpack_tree_init_pool (msgpack_encode v @ rest @ tail) len nodes n) =
             Ret t \<and> tstate t = Parsed \<and> troot t = 0 \<and> denoted t 0 v"
proof -
  let ?d = "msgpack_encode v @ rest @ tail"
  let ?t = "mpack_tree_init_pool ?d len nodes n"
  have ok: "pool_tree_ok ?t"
    using assms by (intro pool_tree_ok_init) simp_all
  have "n > 0" using assms(2) by simp
  then have init: "tpool_count ?t = n" "starts (msgpack_encode v) ?t" "tdata_length ?t = len"
    by (simp_all add: mpack_tree_init_pool_def mpack_tree_init_clear_def starts_def)
  have "\<exists>u. mpack_tree_parse ?t = Ret u \<and> terror u = mpack_ok \<and> tstate u = Parsed \<and>
     tsize u = length (msgpack_encode v) \<and> troot u = 0 \<and>
     denotes (tree_data u) (pool u) 1 (tnodes u) 0 v"
    using assms init by (intro parse_decodes [OF ok]) simp_all
  then obtain u where u: "mpack_tree_parse ?t = Ret u" "terror u = mpack_ok" "tstate u = Parsed"
      "troot u = 0" "denotes (tree_data u) (pool u) 1 (tnodes u) 0 v" by blast
  moreover have "tree_ok u" using parse_safe [OF ok] u(1,2) by (auto simp: parse_success_def)
  ultimately show ?thesis by (auto simp: denoted_def tree_ok_def)
qed

subsection \<open>Numbers, booleans, strings\<close>

definition int_in :: "int \<Rightarrow> int \<Rightarrow> msgpack \<Rightarrow> 'a::len word tree_op" where
  "int_in lo hi v t =
     (case v of
        Msg_int x \<Rightarrow> if lo \<le> x \<and> x \<le> hi then Ret (word_of_int x, t)
                     else Ret (0, t\<lparr>terror := mpack_error_type\<rparr>)
      | _ \<Rightarrow> Ret (0, t\<lparr>terror := mpack_error_type\<rparr>))"

lemma flag_error_eq:
  "terror t = mpack_ok \<Longrightarrow> mpack_node_flag_error x e t = Ret (x, t\<lparr>terror := e\<rparr>)"
  by (simp add: mpack_node_flag_error_def mpack_tree_flag_error_def)

lemma ucast_of_sint: "LENGTH('b) \<le> LENGTH('a) \<Longrightarrow>
    (ucast (w :: 'a::len word) :: 'b::len word) = word_of_int (sint w)"
  by (rule bit_word_eqI) (auto simp: bit_simps bit_sint_iff min_def not_less dest: top_index)

lemma node_number_denoted:
  assumes "denoted t i v" "lo \<le> 0" "0 \<le> hi" "0 \<le> imax" "LENGTH('a) \<le> 64"
  shows "node_number hi lo imax (Pool_node i) t = (int_in lo hi v t :: ('a::len word \<times> _) outcome)"
proof -
  obtain nd where nd: "node_data (Pool_node i) t = Ret nd" "node_matches (tree_data t) nd v"
    using assms(1) by (rule denoted_data)
  have t: "terror t = mpack_ok" using assms(1) by (simp add: denoted_def)
  have u: "(ucast u :: 'a word) = word_of_int (uint u)" for u :: u64 by simp
  have i: "(ucast u :: 'a word) = word_of_int (sint u)" for u :: u64
    using assms(5) by (simp add: ucast_of_sint)
  show ?thesis
  proof (cases v)
    case (Msg_int x)
    show ?thesis
    proof (cases "0 \<le> x")
      case True
      with Msg_int nd t assms u show ?thesis
        by (auto simp: node_number_def with_node_def int_in_def flag_error_eq value_defs)
    next
      case False
      with Msg_int nd t assms i show ?thesis
        by (auto simp: node_number_def with_node_def int_in_def flag_error_eq value_defs)
    qed
  qed (use nd t in \<open>auto simp: node_number_def with_node_def int_in_def flag_error_eq\<close>)
qed

lemma node_bool_denoted:
  assumes "denoted t i v"
  shows "mpack_node_bool (Pool_node i) t =
    (case v of Msg_bool b \<Rightarrow> Ret (b, t) | _ \<Rightarrow> Ret (False, t\<lparr>terror := mpack_error_type\<rparr>))"
proof -
  obtain nd where nd: "node_data (Pool_node i) t = Ret nd" "node_matches (tree_data t) nd v"
    using assms by (rule denoted_data)
  have t: "terror t = mpack_ok" using assms by (simp add: denoted_def)
  show ?thesis
  proof (cases v)
    case (Msg_int x)
    with nd t show ?thesis
      by (cases "0 \<le> x") (auto simp: mpack_node_bool_def with_node_def flag_error_eq)
  qed (use nd t in \<open>auto simp: mpack_node_bool_def with_node_def flag_error_eq value_defs\<close>)
qed

lemma str_bytes_denoted:
  assumes "denoted t i (Msg_str s)" "node_data (Pool_node i) t = Ret nd"
  shows "ntype nd = mpack_type_str" "unat (nlen nd) = length s" "node_bytes nd t = Ret s"
    "\<exists>p. mpack_node_data_unchecked nd t = Ret p \<and> p + length s \<le> length (tdata_obj t) \<and>
       take (length s) (drop p (tdata_obj t)) = s"
proof -
  obtain nd' where "node_data (Pool_node i) t = Ret nd'" "node_ok t nd'"
    "node_matches (tree_data t) nd' (Msg_str s)"
    using assms(1) by (rule denoted_data)
  then have nd: "node_ok t nd" "node_matches (tree_data t) nd (Msg_str s)" using assms(2) by simp_all
  have t: "terror t = mpack_ok" "tree_ok t" using assms(1) by (simp_all add: denoted_def)
  show ty: "ntype nd = mpack_type_str" and len: "unat (nlen nd) = length s"
    using nd by simp_all
  obtain off where off: "nvalue nd = Val_offset off" "off + length s \<le> tdata_length t"
      "take (length s) (drop off (tree_data t)) = s"
    using nd len by (auto simp: node_ok_def)
  have m: "take (length s) (drop (tdata t + off) (tdata_obj t)) = s"
    using off(3) by (simp add: tree_data_def add.commute)
  have "tdata t + off + length s \<le> length (tdata_obj t)"
    using off(2) t(2) by (auto simp: tree_ok_def)
  with m t(1) ty len off(1)
  show "node_bytes nd t = Ret s"
    "\<exists>p. mpack_node_data_unchecked nd t = Ret p \<and> p + length s \<le> length (tdata_obj t) \<and>
       take (length s) (drop p (tdata_obj t)) = s"
    by (simp_all add: node_bytes_def mpack_node_data_unchecked_def load_at_def value_defs)
qed

lemma copy_terminated_denoted:
  assumes "denoted t i v" "0 < n" "n \<le> length m"
  shows "copy_terminated check (Pool_node i) (Some m) n t =
    (case v of
       Msg_str s \<Rightarrow>
         if length s \<ge> n then Ret (m[0 := 0], t\<lparr>terror := mpack_error_too_big\<rparr>)
         else if \<not> check s then Ret (m[0 := 0], t\<lparr>terror := mpack_error_type\<rparr>)
         else Ret (s @ 0 # drop (length s + 1) m, t)
     | _ \<Rightarrow> Ret (m[0 := 0], t\<lparr>terror := mpack_error_type\<rparr>))"
proof -
  obtain nd where nd: "node_data (Pool_node i) t = Ret nd" "node_matches (tree_data t) nd v"
    using assms(1) by (rule denoted_data)
  have t: "terror t = mpack_ok" using assms(1) by (simp add: denoted_def)
  have m: "m \<noteq> []" using assms by auto
  note eqs = copy_terminated_def mpack_tree_flag_error_def Let_def store_byte
  show ?thesis
  proof (cases v)
    case (Msg_str s)
    note str = str_bytes_denoted [OF assms(1) [unfolded Msg_str] nd(1)]
    show ?thesis
    proof (cases "length s \<ge> n")
      case True
      with t m nd str assms(2) Msg_str show ?thesis by (auto simp: eqs)
    next
      case False
      then have "store_at m 0 s = Ret (s @ drop (length s) m)"
        "store_at (s @ drop (length s) m) (length s) [0] = Ret (s @ 0 # drop (length s + 1) m)"
        using assms(3) by (simp_all add: store_at_def)
      with False t m nd str assms(2) Msg_str show ?thesis by (auto simp: eqs)
    qed
  next
    case (Msg_int x)
    with t m nd assms(2) show ?thesis by (cases "0 \<le> x") (auto simp: eqs)
  qed (use t m nd assms(2) in \<open>auto simp: eqs\<close>)
qed

subsection \<open>Elements and keys\<close>

lemma array_at_denoted:
  assumes "denoted t i (Msg_array vs)"
  shows "k < length vs \<Longrightarrow> \<exists>c. mpack_node_array_at (Pool_node i) k t = Ret (Pool_node c, t) \<and>
      denoted t c (vs ! k)"
    "k \<ge> length vs \<Longrightarrow>
      mpack_node_array_at (Pool_node i) k t = Ret (Nil_node, t\<lparr>terror := mpack_error_data\<rparr>)"
proof -
  obtain nd where nd: "node_data (Pool_node i) t = Ret nd" "node_ok t nd"
    "node_matches (tree_data t) nd (Msg_array vs)"
    "\<And>c j. value_children nd = Ret c \<Longrightarrow> j < length vs \<Longrightarrow> denoted t (c + j) (vs ! j)"
    using assms by (rule denoted_data) auto
  have t: "terror t = mpack_ok" using assms by (simp add: denoted_def)
  obtain c where c: "value_children nd = Ret c"
    using nd(2,3) by (auto simp: node_ok_def value_children_def)
  show "\<exists>c. mpack_node_array_at (Pool_node i) k t = Ret (Pool_node c, t) \<and> denoted t c (vs ! k)"
    if "k < length vs"
    using that nd(1,3) t c nd(4) [OF c that]
    by (simp add: mpack_node_array_at_def with_node_def child_eq)
  show "mpack_node_array_at (Pool_node i) k t = Ret (Nil_node, t\<lparr>terror := mpack_error_data\<rparr>)"
    if "k \<ge> length vs"
    using that nd(1,3) t by (simp add: mpack_node_array_at_def with_node_def flag_error_eq)
qed

lemma array_at_other:
  assumes "denoted t i v" "\<And>vs. v \<noteq> Msg_array vs"
  shows "mpack_node_array_at (Pool_node i) k t = Ret (Nil_node, t\<lparr>terror := mpack_error_type\<rparr>)"
proof -
  obtain nd where nd: "node_data (Pool_node i) t = Ret nd" "node_matches (tree_data t) nd v"
    using assms(1) by (rule denoted_data)
  moreover have "ntype nd \<noteq> mpack_type_array"
    using nd(2) assms(2) by (cases v) (auto split: if_splits)
  moreover have "terror t = mpack_ok" using assms(1) by (simp add: denoted_def)
  ultimately show ?thesis by (simp add: mpack_node_array_at_def with_node_def flag_error_eq)
qed

text \<open>\<open>matches\<close> decides \<open>v = key\<close> on the node of a value \<open>v\<close>.\<close>

definition decides :: "key_match \<Rightarrow> msgpack \<Rightarrow> bool" where
  "decides matches key \<longleftrightarrow>
     (\<forall>t i v nd. denoted t i v \<longrightarrow> node_data (Pool_node i) t = Ret nd \<longrightarrow>
        matches nd t = Ret (v = key))"

lemma decidesI:
  "(\<And>t v nd. node_matches (tree_data t) nd v \<Longrightarrow> matches nd t = Ret (v = key)) \<Longrightarrow>
     decides matches key"
  unfolding decides_def by (auto elim!: denoted_data)

lemma decides_int: "decides (int_key num) (Msg_int (sint num))"
proof (rule decidesI)
  fix t v nd
  assume m: "node_matches (tree_data t) nd v"
  have eq: "uint u = sint num \<longleftrightarrow> u = num" if "0 \<le> sint num" for u
    using that by (metis uint_of_nonneg_sint word_uint_eq_iff)
  have eq2: "sint u = sint num \<longleftrightarrow> u = num" for u
    by (auto intro: signed_word_eqI)
  show "int_key num nd t = Ret (v = Msg_int (sint num))"
  proof (cases v)
    case (Msg_int x)
    with m eq eq2 show ?thesis
      by (cases "0 \<le> x") (auto simp: int_key_def value_defs)
  qed (use m in \<open>auto simp: int_key_def\<close>)
qed

lemma decides_uint: "decides (uint_key num) (Msg_int (uint num))"
proof (rule decidesI)
  fix t v nd
  assume m: "node_matches (tree_data t) nd v"
  show "uint_key num nd t = Ret (v = Msg_int (uint num))"
  proof (cases v)
    case (Msg_int x)
    with m show ?thesis
      by (cases "0 \<le> x") (auto simp: uint_key_def value_defs word_uint_eq_iff)
  qed (use m in \<open>auto simp: uint_key_def\<close>)
qed

lemma decides_str:
  assumes "len \<le> length str"
  shows "decides (str_key str len) (Msg_str (take len str))"
  unfolding decides_def
proof (intro allI impI)
  fix t i v nd
  assume d: "denoted t i v" and nd: "node_data (Pool_node i) t = Ret nd"
  then have m: "node_matches (tree_data t) nd v" by (auto elim: denoted_data)
  show "str_key str len nd t = Ret (v = Msg_str (take len str))"
  proof (cases v)
    case (Msg_str s)
    note s = str_bytes_denoted [OF d [unfolded Msg_str] nd]
    show ?thesis
    proof (cases "length s = len")
      case True
      obtain p where p: "mpack_node_data_unchecked nd t = Ret p" "p + len \<le> length (tdata_obj t)"
        "take len (drop p (tdata_obj t)) = s"
        using s(4) True by auto
      have le: "len \<le> length (drop p (tdata_obj t))" using p(2) by simp
      have "returns (mpack_memcmp str (drop p (tdata_obj t)) len)"
        using assms le by (rule memcmp_returns)
      then obtain r where r: "mpack_memcmp str (drop p (tdata_obj t)) len = Ret r"
        by (auto simp: returns_iff)
      then have "r = 0 \<longleftrightarrow> take len str = s"
        using memcmp_eq_0 [OF assms le] p(3) by simp
      with True s(1,2) p(1) r Msg_str show ?thesis by (auto simp: str_key_def)
    next
      case False
      with s(2) Msg_str assms show ?thesis by (auto simp: str_key_def)
    qed
  next
    case (Msg_int x)
    with m show ?thesis by (cases "0 \<le> x") (auto simp: str_key_def)
  qed (use m in \<open>auto simp: str_key_def\<close>)
qed

text \<open>The pairs with the key, by position.\<close>

definition hits :: "msgpack \<Rightarrow> (msgpack \<times> msgpack) list \<Rightarrow> nat \<Rightarrow> nat \<Rightarrow> nat list" where
  "hits key kvs i n = filter (\<lambda>j. fst (kvs ! j) = key) [i ..< i + n]"

lemma hits_Suc: "hits key kvs i (Suc n) =
    (if fst (kvs ! i) = key then i # hits key kvs (i + 1) n else hits key kvs (i + 1) n)"
proof -
  have "[i ..< i + Suc n] = i # [i + 1 ..< i + 1 + n]" by (simp add: upt_rec)
  then show ?thesis unfolding hits_def by simp
qed

lemma pair_children:
  "j < length kvs \<Longrightarrow> children (Msg_map kvs) ! (j * 2) = fst (kvs ! j)"
  "j < length kvs \<Longrightarrow> children (Msg_map kvs) ! (j * 2 + 1) = snd (kvs ! j)"
proof (induction kvs arbitrary: j)
  case (Cons kv kvs)
  { case 1
    with Cons.IH(1) [of "j - 1"] show ?case by (cases kv; cases j) auto
  next
    case 2
    with Cons.IH(2) [of "j - 1"] show ?case by (cases kv; cases j) auto }
qed simp_all

lemma map_scan_hits:
  assumes "decides matches key" "terror t = mpack_ok" "value_children nd = Ret c"
    "\<And>j. j < length kvs \<Longrightarrow> denoted t (c + j * 2) (fst (kvs ! j))" "i + n \<le> length kvs"
  shows "map_scan matches nd i n found t =
    (case hits key kvs i n of
       [] \<Rightarrow> Ret (found, t)
     | [j] \<Rightarrow> if found = None then Ret (Some (c + (j * 2 + 1)), t)
               else Ret (None, t\<lparr>terror := mpack_error_data\<rparr>)
     | _ \<Rightarrow> Ret (None, t\<lparr>terror := mpack_error_data\<rparr>))"
  using assms(5)
proof (induction n arbitrary: i found)
  case 0
  then show ?case by (simp add: hits_def)
next
  case (Suc n)
  have d: "denoted t (c + i * 2) (fst (kvs ! i))" using Suc.prems assms(4) by simp
  then obtain nk where nk: "node_data (Pool_node (c + i * 2)) t = Ret nk" by (auto elim: denoted_data)
  moreover have "matches nk t = Ret (fst (kvs ! i) = key)"
    using assms(1) d nk unfolding decides_def by blast
  ultimately show ?case
    using Suc.IH [of "i + 1"] Suc.prems assms(2,3)
    by (auto simp: child_eq node_data_def hits_Suc flag_error_eq split: list.split)
qed

lemma map_lookup_hits:
  assumes "decides matches key" "denoted t i (Msg_map kvs)"
  obtains c where
    "map_lookup matches (Pool_node i) t =
      (case hits key kvs 0 (length kvs) of
         [] \<Rightarrow> Ret (None, t)
       | [j] \<Rightarrow> Ret (Some (c + (j * 2 + 1)), t)
       | _ \<Rightarrow> Ret (None, t\<lparr>terror := mpack_error_data\<rparr>))"
    "\<And>j. j < length kvs \<Longrightarrow> denoted t (c + (j * 2 + 1)) (snd (kvs ! j))"
proof -
  obtain nd where nd: "node_data (Pool_node i) t = Ret nd" "node_ok t nd"
    "node_matches (tree_data t) nd (Msg_map kvs)"
    "\<And>c j. value_children nd = Ret c \<Longrightarrow> j < length (children (Msg_map kvs)) \<Longrightarrow>
       denoted t (c + j) (children (Msg_map kvs) ! j)"
    using assms(2) by (rule denoted_data) (rule that)
  have t: "terror t = mpack_ok" using assms(2) by (simp add: denoted_def)
  obtain c where c: "value_children nd = Ret c"
    using nd(2,3) by (auto simp: node_ok_def value_children_def)
  have d: "denoted t (c + j * 2) (fst (kvs ! j))" "denoted t (c + (j * 2 + 1)) (snd (kvs ! j))"
    if "j < length kvs" for j
    using nd(4) [OF c, of "j * 2"] nd(4) [OF c, of "j * 2 + 1"] that
    unfolding pair_children [OF that] by (simp_all add: pairs_flat(3))
  show ?thesis
    using map_scan_hits [OF assms(1) t c d(1), of 0 "length kvs" None] nd(1,3) t d(2)
    by (intro that [of c]) (auto simp: map_lookup_def with_node_def split: list.split)
qed

lemma map_str_impl: "mpack_node_map_str_impl node (Some str) len = map_lookup (str_key str len) node"
  by (simp add: mpack_node_map_str_impl_def fun_eq_iff)

lemmas map_lookup_impls =
  mpack_node_map_int_def mpack_node_map_uint_def mpack_node_map_str_def
  mpack_node_map_int_impl_def mpack_node_map_uint_impl_def map_str_impl

lemma wrapped_lookup_hits:
  assumes "decides matches key" "denoted t i (Msg_map kvs)"
  shows "\<exists>h. (\<forall>j < length kvs. denoted t (h j) (snd (kvs ! j))) \<and>
     wrapped mpack_node_wrap_lookup (map_lookup matches (Pool_node i)) t =
       (case hits key kvs 0 (length kvs) of
          [j] \<Rightarrow> Ret (Pool_node (h j), t) | _ \<Rightarrow> Ret (Nil_node, t\<lparr>terror := mpack_error_data\<rparr>))"
proof -
  obtain c where c: "map_lookup matches (Pool_node i) t =
      (case hits key kvs 0 (length kvs) of
         [] \<Rightarrow> Ret (None, t)
       | [j] \<Rightarrow> Ret (Some (c + (j * 2 + 1)), t)
       | _ \<Rightarrow> Ret (None, t\<lparr>terror := mpack_error_data\<rparr>))"
    "\<And>j. j < length kvs \<Longrightarrow> denoted t (c + (j * 2 + 1)) (snd (kvs ! j))"
    using map_lookup_hits [OF assms] by metis
  have "terror t = mpack_ok" using assms(2) by (simp add: denoted_def)
  with c(1) have "wrapped mpack_node_wrap_lookup (map_lookup matches (Pool_node i)) t =
     (case hits key kvs 0 (length kvs) of
        [j] \<Rightarrow> Ret (Pool_node (c + (j * 2 + 1)), t)
      | _ \<Rightarrow> Ret (Nil_node, t\<lparr>terror := mpack_error_data\<rparr>))"
    by (auto simp: wrapped_def mpack_node_wrap_lookup_def mpack_tree_flag_error_def
        split: list.split)
  with c(2) show ?thesis by (intro exI [of _ "\<lambda>j. c + (j * 2 + 1)"]) simp
qed

subsection \<open>Properties\<close>

text \<open>
  C31. On the node of a value, each integer reader of MPack returns the value when it is an integer
  in the range of its result type, and the tree stays as it is; for every other value it returns 0
  and flags \<open>mpack_error_type\<close>.
\<close>

theorem node_integers_checked:
  assumes "denoted t i v"
  shows "mpack_node_u8 (Pool_node i) t = int_in 0 255 v t \<and>
    mpack_node_i8 (Pool_node i) t = int_in (- 128) 127 v t \<and>
    mpack_node_u16 (Pool_node i) t = int_in 0 65535 v t \<and>
    mpack_node_i16 (Pool_node i) t = int_in (- 32768) 32767 v t \<and>
    mpack_node_u32 (Pool_node i) t = int_in 0 4294967295 v t \<and>
    mpack_node_i32 (Pool_node i) t = int_in (- 2147483648) 2147483647 v t \<and>
    mpack_node_u64 (Pool_node i) t = int_in 0 18446744073709551615 v t \<and>
    mpack_node_i64 (Pool_node i) t = int_in (- 9223372036854775808) 9223372036854775807 v t"
  unfolding node_number_defs using assms by (simp_all add: node_number_denoted)

theorem node_integers_checked_witness:
  "\<exists>t. mpack_tree_parse (mpack_tree_init_pool (msgpack_encode (Msg_int 300)) 3
         (replicate 50 \<lparr>ntype = mpack_type_missing, nlen = 0, nvalue = Val_none\<rparr>) 50) = Ret t \<and>
     mpack_node_u16 (Pool_node 0) t = Ret (300, t) \<and>
     mpack_node_u8 (Pool_node 0) t = Ret (0, t\<lparr>terror := mpack_error_type\<rparr>)"
proof -
  obtain t where "mpack_tree_parse (mpack_tree_init_pool (msgpack_encode (Msg_int 300) @ [] @ []) 3
      (replicate 50 \<lparr>ntype = mpack_type_missing, nlen = 0, nvalue = Val_none\<rparr>) 50) = Ret t"
      "denoted t 0 (Msg_int 300)"
    using parse_denotes_root [of "Msg_int 300" 50
        "replicate 50 \<lparr>ntype = mpack_type_missing, nlen = 0, nvalue = Val_none\<rparr>" "[]" 3 "[]"]
    by (auto simp: length_msgpack_int SIZE_MAX_def)
  then show ?thesis
    using node_integers_checked [of t 0 "Msg_int 300"] by (auto simp: int_in_def)
qed

text \<open>
  \<open>mpack_node_copy_utf8_cstr\<close> on the node of a value, with a buffer \<open>m\<close> whose claimed size
  \<open>n\<close> is not larger than it: a string of at most \<open>n - 1\<close> bytes that is UTF-8 without NUL ends up
  in the buffer with a NUL behind it; every other value leaves the empty C string and the error
  \<open>too_big\<close> or \<open>type\<close>. The rest of the buffer keeps its bytes.
\<close>

theorem copy_utf8_cstr_terminates:
  assumes "denoted t i v" "0 < n" "n \<le> length m"
  shows "mpack_node_copy_utf8_cstr (Pool_node i) (Some m) n t =
    (case v of
       Msg_str s \<Rightarrow>
         if length s \<ge> n then Ret (m[0 := 0], t\<lparr>terror := mpack_error_too_big\<rparr>)
         else if \<not> mpack_utf8_check_no_null s then Ret (m[0 := 0], t\<lparr>terror := mpack_error_type\<rparr>)
         else Ret (s @ 0 # drop (length s + 1) m, t)
     | _ \<Rightarrow> Ret (m[0 := 0], t\<lparr>terror := mpack_error_type\<rparr>))"
  unfolding mpack_node_copy_utf8_cstr_def by (rule copy_terminated_denoted [OF assms])

theorem copy_utf8_cstr_terminates_witness:
  "\<exists>t. mpack_tree_parse (mpack_tree_init_pool (msgpack_encode (Msg_str [0x68, 0x69])) 3
         (replicate 50 \<lparr>ntype = mpack_type_missing, nlen = 0, nvalue = Val_none\<rparr>) 50) = Ret t \<and>
     mpack_node_copy_utf8_cstr (Pool_node 0) (Some [1, 2, 3, 4]) 4 t = Ret ([0x68, 0x69, 0, 4], t) \<and>
     mpack_node_copy_utf8_cstr (Pool_node 0) (Some [1, 2]) 2 t =
       Ret ([0, 2], t\<lparr>terror := mpack_error_too_big\<rparr>)"
proof -
  obtain t where t: "mpack_tree_parse
      (mpack_tree_init_pool (msgpack_encode (Msg_str [0x68, 0x69]) @ [] @ []) 3
      (replicate 50 \<lparr>ntype = mpack_type_missing, nlen = 0, nvalue = Val_none\<rparr>) 50) = Ret t"
      "denoted t 0 (Msg_str [0x68, 0x69])"
    using parse_denotes_root [of "Msg_str [0x68, 0x69]" 50
        "replicate 50 \<lparr>ntype = mpack_type_missing, nlen = 0, nvalue = Val_none\<rparr>" "[]" 3 "[]"]
    by (auto simp: length_msgpack_headers SIZE_MAX_def)
  moreover have "mpack_utf8_check_no_null [0x68, 0x69]"
    by (simp add: mpack_utf8_check_no_null_def mpack_utf8_check_impl.simps)
  ultimately show ?thesis
    using copy_utf8_cstr_terminates [OF t(2), of 4 "[1, 2, 3, 4]"]
      copy_utf8_cstr_terminates [OF t(2), of 2 "[1, 2]"] by auto
qed

text \<open>
  C32. The lookups of a key in a map node. With \<open>hits\<close> the positions of the pairs whose key is the
  one asked for: exactly one gives a handle whose node denotes the value of that pair and leaves
  the tree as it is; none, or more than one, gives the nil node and \<open>mpack_error_data\<close>.
\<close>

theorem map_lookup_unique_key:
  assumes "denoted t i (Msg_map kvs)" "len \<le> length str"
  shows "(\<exists>h. (\<forall>j < length kvs. denoted t (h j) (snd (kvs ! j))) \<and>
     mpack_node_map_int (Pool_node i) num t =
       (case hits (Msg_int (sint num)) kvs 0 (length kvs) of
          [j] \<Rightarrow> Ret (Pool_node (h j), t) | _ \<Rightarrow> Ret (Nil_node, t\<lparr>terror := mpack_error_data\<rparr>))) \<and>
    (\<exists>h. (\<forall>j < length kvs. denoted t (h j) (snd (kvs ! j))) \<and>
     mpack_node_map_uint (Pool_node i) num t =
       (case hits (Msg_int (uint num)) kvs 0 (length kvs) of
          [j] \<Rightarrow> Ret (Pool_node (h j), t) | _ \<Rightarrow> Ret (Nil_node, t\<lparr>terror := mpack_error_data\<rparr>))) \<and>
    (\<exists>h. (\<forall>j < length kvs. denoted t (h j) (snd (kvs ! j))) \<and>
     mpack_node_map_str (Pool_node i) (Some str) len t =
       (case hits (Msg_str (take len str)) kvs 0 (length kvs) of
          [j] \<Rightarrow> Ret (Pool_node (h j), t) | _ \<Rightarrow> Ret (Nil_node, t\<lparr>terror := mpack_error_data\<rparr>)))"
  unfolding map_lookup_impls
  using wrapped_lookup_hits [OF decides_int assms(1)]
    wrapped_lookup_hits [OF decides_uint assms(1)]
    wrapped_lookup_hits [OF decides_str [OF assms(2)] assms(1)] by blast

theorem map_lookup_unique_key_witness:
  "\<exists>t h. mpack_tree_parse (mpack_tree_init_pool
         (msgpack_encode (Msg_map [(Msg_int 1, Msg_int 7), (Msg_int 2, Msg_nil)])) 5
         (replicate 50 \<lparr>ntype = mpack_type_missing, nlen = 0, nvalue = Val_none\<rparr>) 50) = Ret t \<and>
     mpack_node_map_int (Pool_node 0) 1 t = Ret (Pool_node h, t) \<and> denoted t h (Msg_int 7)"
proof -
  define v where "v = Msg_map [(Msg_int 1, Msg_int 7), (Msg_int 2, Msg_nil)]"
  obtain t where t: "mpack_tree_parse (mpack_tree_init_pool (msgpack_encode v @ [] @ []) 5
      (replicate 50 \<lparr>ntype = mpack_type_missing, nlen = 0, nvalue = Val_none\<rparr>) 50) = Ret t"
      "denoted t 0 v"
    using parse_denotes_root [of v 50
        "replicate 50 \<lparr>ntype = mpack_type_missing, nlen = 0, nvalue = Val_none\<rparr>" "[]" 5 "[]"]
    by (auto simp: v_def length_msgpack_int length_msgpack_headers SIZE_MAX_def)
  then show ?thesis
    using map_lookup_unique_key [OF t(2) [unfolded v_def], of 0 "[]" 1, THEN conjunct1]
    by (auto simp: v_def hits_def upt_rec)
qed

text \<open>
  C33. Each of the node functions below, on a tree that has an error or that the parser left behind
  with the node in it: it returns, it changes nothing of the tree but the error, and when the
  error was set before it returns its default and leaves the tree alone.
\<close>

theorem node_functions_disciplined:
  assumes "usable t node" "0 < n" "n \<le> length m"
  shows "disciplined (mpack_node_bool node) False t \<and>
    disciplined (mpack_node_u8 node) 0 t \<and>
    disciplined (mpack_node_i8 node) 0 t \<and>
    disciplined (mpack_node_u16 node) 0 t \<and>
    disciplined (mpack_node_i16 node) 0 t \<and>
    disciplined (mpack_node_u32 node) 0 t \<and>
    disciplined (mpack_node_i32 node) 0 t \<and>
    disciplined (mpack_node_u64 node) 0 t \<and>
    disciplined (mpack_node_i64 node) 0 t \<and>
    disciplined (mpack_node_array_at node k) Nil_node t \<and>
    disciplined (mpack_node_map_at node k off) Nil_node t \<and>
    disciplined (mpack_node_map_int_impl node num) None t \<and>
    disciplined (mpack_node_map_uint_impl node num) None t \<and>
    disciplined (mpack_node_check_utf8_cstr node) () t \<and>
    disciplined (mpack_node_copy_data node (Some m) n) (0, Some m) t \<and>
    disciplined (mpack_node_copy_utf8 node (Some m) n) (0, Some m) t \<and>
    disciplined (mpack_node_copy_cstr node (Some m) n) (m[0 := 0]) t \<and>
    disciplined (mpack_node_copy_utf8_cstr node (Some m) n) (m[0 := 0]) t"
  using assms
    node_reader.disciplined [OF node_reader_copy_data [OF assms(3)]]
    node_reader.disciplined [OF node_reader_copy_utf8 [OF assms(3)]]
    node_reader.disciplined [OF node_reader_copy_terminated [OF assms(2,3)]]
  by (simp_all add: node_bool.disciplined node_u8.disciplined node_i8.disciplined
      node_u16.disciplined node_i16.disciplined node_u32.disciplined node_i32.disciplined
      node_u64.disciplined node_i64.disciplined node_array_at.disciplined
      node_map_at.disciplined map_int_impl.disciplined map_uint_impl.disciplined
      node_check_utf8_cstr.disciplined mpack_node_copy_cstr_def mpack_node_copy_utf8_cstr_def)

theorem node_functions_disciplined_witness:
  "\<exists>t. mpack_tree_parse (mpack_tree_init_pool (msgpack_encode (Msg_int 300)) 3
         (replicate 50 \<lparr>ntype = mpack_type_missing, nlen = 0, nvalue = Val_none\<rparr>) 50) = Ret t \<and>
     terror t = mpack_ok \<and> disciplined (mpack_node_u32 (Pool_node 0)) 0 t \<and>
     disciplined (mpack_node_copy_utf8_cstr (Pool_node 0) (Some [7, 7]) 2) [0, 7] t"
proof -
  obtain t where t: "mpack_tree_parse (mpack_tree_init_pool (msgpack_encode (Msg_int 300) @ [] @ []) 3
      (replicate 50 \<lparr>ntype = mpack_type_missing, nlen = 0, nvalue = Val_none\<rparr>) 50) = Ret t"
      "denoted t 0 (Msg_int 300)"
    using parse_denotes_root [of "Msg_int 300" 50
        "replicate 50 \<lparr>ntype = mpack_type_missing, nlen = 0, nvalue = Val_none\<rparr>" "[]" 3 "[]"]
    by (auto simp: length_msgpack_int SIZE_MAX_def)
  then show ?thesis
    using node_functions_disciplined [OF denoted_usable [OF t(2)], of 2 "[7, 7]"]
    by (auto simp: denoted_def)
qed

end
