(* ===== verification/Cremona_Messages.thy ===== *)
theory Cremona_Messages
  imports Cremona_Serializer Mpack_Emit Mpack_Node_Values
begin

text \<open>
  The wire contract of the driver: the value each message stands for, the serializers as
  encoders of that value into a buffer of limited size, and the deserializers as checked readers
  of any value the daemon may send.
\<close>

subsection \<open>Serializers\<close>

text \<open>
  \<open>serialized enc on_error dest m\<close>: the call \<open>m\<close> has put \<open>enc\<close> at the start of \<open>dest\<close> and set
  its used size when \<open>enc\<close> fits the claimed size; otherwise it returns \<open>on_error\<close>. Memory past
  the claimed size keeps its bytes.
\<close>

definition serialized :: "bytes \<Rightarrow> bool \<Rightarrow> crmna_buf \<Rightarrow> (bool \<times> crmna_buf) outcome \<Rightarrow> bool" where
  "serialized enc on_error dest m \<longleftrightarrow>
     (\<exists>mem. length mem = length (bbuf dest) \<and>
        drop (bbuf_size dest) mem = drop (bbuf_size dest) (bbuf dest) \<and>
        (if length enc \<le> bbuf_size dest
         then take (length enc) mem = enc \<and>
              m = Ret (True, dest\<lparr>bbuf := mem, bused_size := length enc\<rparr>)
         else m = Ret (on_error, dest\<lparr>bbuf := mem\<rparr>)))"

lemma serialize_with_emitter:
  assumes "emitter (write_all ops) enc" "bbuf_size dest \<le> length (bbuf dest)"
  shows "serialized enc on_error dest (serialize_with ops on_error dest)"
proof -
  let ?w = "\<lparr>wbuffer = take (bbuf_size dest) (bbuf dest), wcurrent = 0, werror = mpack_ok\<rparr>"
  have ok: "writer_ok ?w" by (simp add: writer_ok_def)
  obtain w where w: "write_all ops ?w = Ret w" "wrote enc ?w w"
    using emitter.emits [OF assms(1) ok] by blast
  define mem where "mem = wbuffer w @ drop (bbuf_size dest) (bbuf dest)"
  have len: "length (wbuffer w) = bbuf_size dest"
    using w(2) assms(2) by (simp add: wrote_def)
  have run: "serialize_with ops on_error dest =
      (if werror w \<noteq> mpack_ok then Ret (on_error, dest\<lparr>bbuf := mem\<rparr>)
       else Ret (True, dest\<lparr>bbuf := mem, bused_size := wcurrent w\<rparr>))"
    using assms(2) w(1)
    by (simp add: serialize_with_def mpack_writer_init_def mpack_writer_destroy_def
        mpack_writer_buffer_used_def mem_def Let_def)
  show ?thesis
  proof (cases "length enc \<le> bbuf_size dest")
    case True
    then have "written w = enc" "werror w = mpack_ok" "wcurrent w = length enc"
      using w(2) assms(2) wrote_current [OF ok w(2)]
      by (simp_all add: wrote_def written_def)
    moreover from this have "take (length enc) mem = enc"
      using True len by (simp add: mem_def written_def)
    ultimately show ?thesis
      using True run len assms(2) by (auto simp: serialized_def mem_def intro!: exI [of _ mem])
  next
    case False
    then have "werror w = mpack_error_too_big" using w(2) assms(2) by (simp add: wrote_def)
    with False run len assms(2) show ?thesis
      by (auto simp: serialized_def mem_def intro!: exI [of _ mem])
  qed
qed

text \<open>The value each message of the driver stands for.\<close>

definition get_health_result_value :: "get_health_result_t \<Rightarrow> msgpack" where
  "get_health_result_value d =
     Msg_array [Msg_int (uint (ghr_device_id d)), Msg_bool (ghr_status d)]"

definition id_value :: "u32 \<Rightarrow> msgpack" where
  "id_value i = Msg_array [Msg_int (uint i)]"

definition toot_value :: "u32 \<Rightarrow> u32 \<Rightarrow> msgpack" where
  "toot_value toot_id device_id = Msg_array [Msg_int (uint toot_id), Msg_int (uint device_id)]"

definition add_toot_value :: "add_toot_text_t \<Rightarrow> msgpack \<Rightarrow> msgpack" where
  "add_toot_value d txt =
     Msg_array [Msg_int (uint (att_toot_id d)), Msg_int (uint (att_device_id d)),
       Msg_int (uint (att_element_id d)), Msg_int (uint (att_index d)), txt]"

lemma serialize_array:
  assumes "list_all2 (\<lambda>oper v. emitter oper (msgpack_encode v)) ops vs"
    "uint n = int (length ops)" "bbuf_size dest \<le> length (bbuf dest)"
  shows "serialized (msgpack_encode (Msg_array vs)) on_error dest
           (serialize_with (mpack_start_array None n # ops) on_error dest)"
proof -
  have "uint n = int (length vs)" using assms(1,2) by (simp add: list_all2_lengthD)
  then have "emitter (mpack_start_array None n) (msgpack_array_header (int (length vs)))"
    using start_array.emitter_axioms [of n] by simp
  moreover have "list_all2 emitter ops (map msgpack_encode vs)"
    using assms(1) by (simp add: list_all2_map2)
  ultimately have "emitter (write_all (mpack_start_array None n # ops))
      (msgpack_encode (Msg_array vs))"
    using emitter_write_all [of "mpack_start_array None n # ops"
        "msgpack_array_header (int (length vs)) # map msgpack_encode vs"] by simp
  then show ?thesis using assms(3) by (rule serialize_with_emitter)
qed

lemmas emits_rules = write_u32.emitter_axioms write_bool.emitter_axioms

lemma serialize_get_health_result_ok:
  "bbuf_size dest \<le> length (bbuf dest) \<Longrightarrow>
     serialized (msgpack_encode (get_health_result_value d)) False dest
       (serialize_get_health_result d dest)"
  unfolding serialize_get_health_result_def get_health_result_value_def
  by (intro serialize_array list.rel_intros emits_rules) simp_all

lemma serialize_create_device_result_ok:
  "bbuf_size dest \<le> length (bbuf dest) \<Longrightarrow>
     serialized (msgpack_encode (id_value (cdr_id d))) False dest
       (serialize_create_device_result d dest)"
  unfolding serialize_create_device_result_def id_value_def
  by (intro serialize_array list.rel_intros emits_rules) simp_all

lemma serialize_destroy_device_result_ok:
  "bbuf_size dest \<le> length (bbuf dest) \<Longrightarrow>
     serialized (msgpack_encode (id_value (ddr_id d))) True dest
       (serialize_destroy_device_result d dest)"
  unfolding serialize_destroy_device_result_def id_value_def
  by (intro serialize_array list.rel_intros emits_rules) simp_all

lemma serialize_new_toot_ok:
  "bbuf_size dest \<le> length (bbuf dest) \<Longrightarrow>
     serialized (msgpack_encode (toot_value (nt_toot_id d) (nt_device_id d))) False dest
       (serialize_new_toot d dest)"
  unfolding serialize_new_toot_def toot_value_def
  by (intro serialize_array list.rel_intros emits_rules) simp_all

lemma serialize_send_toot_ok:
  "bbuf_size dest \<le> length (bbuf dest) \<Longrightarrow>
     serialized (msgpack_encode (toot_value (st_toot_id d) (st_device_id d))) False dest
       (serialize_send_toot d dest)"
  unfolding serialize_send_toot_def toot_value_def
  by (intro serialize_array list.rel_intros emits_rules) simp_all

lemma serialize_add_toot_element_ok:
  assumes "bbuf_size dest \<le> length (bbuf dest)" "att_text d = Some (s @ 0 # rest)"
    "0 \<notin> set s" "length s < 2 ^ 32" "mpack_utf8_check s"
  shows "serialized (msgpack_encode (add_toot_value d (Msg_str s))) False dest
       (serialize_add_toot_element d dest)"
proof -
  have "emitter (mpack_write_utf8_cstr_or_nil None (att_text d)) (msgpack_encode (Msg_str s))"
    using emitter_write_utf8_cstr [OF assms(3-5)] assms(2)
    by (simp add: mpack_write_utf8_cstr_or_nil_def)
  then show ?thesis
    unfolding serialize_add_toot_element_def add_toot_value_def
    using assms(1) by (intro serialize_array list.rel_intros emits_rules) simp_all
qed

lemma serialize_add_toot_element_nil:
  assumes "bbuf_size dest \<le> length (bbuf dest)" "att_text d = None"
  shows "serialized (msgpack_encode (add_toot_value d Msg_nil)) False dest
       (serialize_add_toot_element d dest)"
proof -
  have "emitter (mpack_write_utf8_cstr_or_nil None (att_text d)) (msgpack_encode Msg_nil)"
    using write_nil.emitter_axioms assms(2) by (simp add: mpack_write_utf8_cstr_or_nil_def)
  then show ?thesis
    unfolding serialize_add_toot_element_def add_toot_value_def
    using assms(1) by (intro serialize_array list.rel_intros emits_rules) simp_all
qed

text \<open>A text that is not UTF-8 is never sent.\<close>

lemma write_all_append: "write_all (as @ bs) w = and_then (write_all as w) (write_all bs)"
  by (induction as arbitrary: w) (simp_all add: and_then_assoc cong: and_then_cong)

lemma serialize_add_toot_element_invalid:
  assumes "bbuf_size dest \<le> length (bbuf dest)" "att_text d = Some (s @ 0 # rest)"
    "0 \<notin> set s" "length s < 2 ^ 32" "\<not> mpack_utf8_check s"
  shows "\<exists>mem. serialize_add_toot_element d dest = Ret (False, dest\<lparr>bbuf := mem\<rparr>) \<and>
     length mem = length (bbuf dest)"
proof -
  let ?ops = "[mpack_start_array None 5, mpack_write_u32 None (att_toot_id d),
        mpack_write_u32 None (att_device_id d), mpack_write_u32 None (att_element_id d),
        mpack_write_u32 None (att_index d)]"
  let ?txt = "mpack_write_utf8_cstr_or_nil None (att_text d)"
  let ?w = "\<lparr>wbuffer = take (bbuf_size dest) (bbuf dest), wcurrent = 0, werror = mpack_ok\<rparr>"
  have "emitter (write_all ?ops) (concat [msgpack_array_header (uint (5 :: u32)),
      msgpack_encode (Msg_int (uint (att_toot_id d))),
      msgpack_encode (Msg_int (uint (att_device_id d))),
      msgpack_encode (Msg_int (uint (att_element_id d))),
      msgpack_encode (Msg_int (uint (att_index d)))])"
    by (intro emitter_write_all list.rel_intros emits_rules start_array.emitter_axioms)
  from emitter.emits [OF this, of ?w] obtain w where
    w: "write_all ?ops ?w = Ret w" "length (wbuffer w) = length (wbuffer ?w)"
    by (auto simp: writer_ok_def wrote_def)
  define w' where "w' = mpack_writer_flag_error mpack_error_invalid w"
  have "?txt w = Ret w'"
    using write_utf8_cstr_invalid [OF assms(3-5)] assms(2)
    by (simp add: mpack_write_utf8_cstr_or_nil_def w'_def)
  then have "write_all (?ops @ [?txt]) ?w = Ret w'"
    using w(1) by (simp only: write_all_append and_then.simps write_all.simps)
  moreover have "werror w' \<noteq> mpack_ok" "length (wbuffer w') = bbuf_size dest"
    using w(2) assms(1) by (simp_all add: w'_def mpack_writer_flag_error_def)
  ultimately show ?thesis
    using assms(1)
    by (intro exI [of _ "wbuffer w' @ drop (bbuf_size dest) (bbuf dest)"])
      (simp add: serialize_add_toot_element_def serialize_with_def mpack_writer_init_def
        mpack_writer_destroy_def Let_def)
qed

subsection \<open>The fields of a message\<close>

text \<open>
  A reader of one field of a message. \<open>safe_field\<close> holds for any bytes the parser has accepted;
  \<open>field_reader\<close> adds what is read when the message is a value \<open>v\<close>.
\<close>

definition root_state :: "msgpack \<Rightarrow> mpack_node \<Rightarrow> mpack_tree \<Rightarrow> bool" where
  "root_state v root t \<longleftrightarrow> terror t \<noteq> mpack_ok \<or> root = Pool_node 0 \<and> denoted t 0 v"

locale safe_field =
  fixes rd :: "mpack_node \<Rightarrow> 'a tree_op"
  assumes safe: "usable t root \<Longrightarrow> \<exists>x t'. rd root t = Ret (x, t') \<and> usable t' root"

locale field_reader = safe_field rd for rd :: "mpack_node \<Rightarrow> 'a tree_op" +
  fixes spec :: "msgpack \<Rightarrow> 'a option"
  assumes reads: "root_state v root t \<Longrightarrow>
    \<exists>x t'. rd root t = Ret (x, t') \<and> root_state v root t' \<and>
      (terror t' = mpack_ok \<longleftrightarrow> terror t = mpack_ok \<and> spec v \<noteq> None) \<and>
      (terror t' = mpack_ok \<longrightarrow> spec v = Some x)"

fun element :: "msgpack \<Rightarrow> nat \<Rightarrow> msgpack option" where
  "element (Msg_array vs) k = (if k < length vs then Some (vs ! k) else None)"
| "element v k = None"

fun as_int :: "int \<Rightarrow> int \<Rightarrow> msgpack \<Rightarrow> 'a::len word option" where
  "as_int lo hi (Msg_int x) = (if lo \<le> x \<and> x \<le> hi then Some (word_of_int x) else None)"
| "as_int lo hi v = None"

fun as_name :: "bytes \<Rightarrow> msgpack \<Rightarrow> bytes option" where
  "as_name name (Msg_str s) =
     (if length s < length name \<and> mpack_utf8_check_no_null s
      then Some (s @ 0 # drop (length s + 1) name) else None)"
| "as_name name v = None"

definition msg_field :: "(msgpack \<Rightarrow> 'a option) \<Rightarrow> nat \<Rightarrow> msgpack \<Rightarrow> 'a option" where
  "msg_field f k v = Option.bind (element v k) f"

definition msg_u32 :: "nat \<Rightarrow> msgpack \<Rightarrow> u32 option" where
  "msg_u32 = msg_field (as_int 0 4294967295)"

definition msg_i32 :: "nat \<Rightarrow> msgpack \<Rightarrow> u32 option" where
  "msg_i32 = msg_field (as_int (- 2147483648) 2147483647)"

definition msg_name :: "bytes \<Rightarrow> nat \<Rightarrow> msgpack \<Rightarrow> bytes option" where
  "msg_name name = msg_field (as_name name)"

text \<open>An element of the root array and a reader of that node make a field.\<close>

lemma safe_field_at:
  assumes "node_reader rd dflt"
  shows "safe_field (\<lambda>root t. and_then (mpack_node_array_at root k t) (\<lambda>(node, t). rd node t))"
proof
  fix t root
  assume u: "usable t root"
  then obtain node t1 where 1: "mpack_node_array_at root k t = Ret (node, t1)"
    using node_array_at.not_stuck [OF u, of k] by (auto simp: returns_iff)
  have u1: "usable t1 node" "usable t1 root"
    using array_at_handle [OF u 1] node_array_at.stays_usable [OF u 1 u] .
  obtain x t2 where 2: "rd node t1 = Ret (x, t2)"
    using node_reader.not_stuck [OF assms u1(1)] by (auto simp: returns_iff)
  have "usable t2 root" using node_reader.stays_usable [OF assms u1(1) 2 u1(2)] .
  with 1 2 show "\<exists>x t'. and_then (mpack_node_array_at root k t) (\<lambda>(node, t). rd node t) = Ret (x, t') \<and>
      usable t' root" by simp
qed

lemma field_reader_at:
  assumes "node_reader rd dflt"
    "\<And>t i v. denoted t i v \<Longrightarrow>
       (case f v of Some x \<Rightarrow> rd (Pool_node i) t = Ret (x, t)
        | None \<Rightarrow> \<exists>x e. e \<noteq> mpack_ok \<and> rd (Pool_node i) t = Ret (x, t\<lparr>terror := e\<rparr>))"
  shows "field_reader (\<lambda>root t. and_then (mpack_node_array_at root k t) (\<lambda>(node, t). rd node t))
           (msg_field f k)"
proof (intro field_reader.intro safe_field_at [OF assms(1)], unfold_locales)
  fix v root t
  assume st: "root_state v root t"
  let ?rd = "and_then (mpack_node_array_at root k t) (\<lambda>(node, t). rd node t)"
  let ?goal = "\<exists>x t'. ?rd = Ret (x, t') \<and> root_state v root t' \<and>
      (terror t' = mpack_ok \<longleftrightarrow> terror t = mpack_ok \<and> msg_field f k v \<noteq> None) \<and>
      (terror t' = mpack_ok \<longrightarrow> msg_field f k v = Some x)"
  have error: ?goal
    if "mpack_node_array_at root k t = Ret (node, t1)" "terror t1 \<noteq> mpack_ok"
      "terror t = mpack_ok \<Longrightarrow> msg_field f k v = None" for node t1
    using that node_reader.sticky [OF assms(1) that(2)] by (auto simp: root_state_def)
  show ?goal
  proof (cases "terror t = mpack_ok")
    case False
    then show ?thesis using error node_array_at.sticky [OF False] by blast
  next
    case True
    then have d: "root = Pool_node 0" "denoted t 0 v" using st by (simp_all add: root_state_def)
    show ?thesis
    proof (cases "element v k")
      case None
      have "\<exists>node t1. mpack_node_array_at root k t = Ret (node, t1) \<and> terror t1 \<noteq> mpack_ok"
      proof (cases "\<exists>vs. v = Msg_array vs")
        case True
        with None d array_at_denoted(2) [of t 0 _ k] show ?thesis by (auto split: if_splits)
      qed (use d array_at_other [of t 0 v k] in auto)
      with None error show ?thesis by (auto simp: msg_field_def)
    next
      case (Some x)
      then obtain vs where vs: "v = Msg_array vs" "k < length vs" "x = vs ! k"
        by (cases v) (auto split: if_splits)
      obtain c where c: "mpack_node_array_at root k t = Ret (Pool_node c, t)" "denoted t c x"
        using array_at_denoted(1) [of t 0 vs k] d vs by auto
      have m: "msg_field f k v = f x" using Some by (simp add: msg_field_def)
      show ?thesis
        using assms(2) [OF c(2)] c(1) st True m
        by (cases "f x") (auto simp: root_state_def)
    qed
  qed
qed

interpretation u32_field: field_reader "\<lambda>root. u32_at root k" "msg_u32 k" for k
  unfolding u32_at_def [abs_def] msg_u32_def
proof (rule field_reader_at [OF node_u32.node_reader_axioms])
  fix t i v
  assume "denoted t i v"
  then have "mpack_node_u32 (Pool_node i) t = int_in 0 4294967295 v t"
    unfolding mpack_node_u32_def by (simp add: node_number_denoted)
  then show "case as_int 0 4294967295 v of Some x \<Rightarrow> mpack_node_u32 (Pool_node i) t = Ret (x, t)
      | None \<Rightarrow> \<exists>x e. e \<noteq> mpack_ok \<and> mpack_node_u32 (Pool_node i) t = Ret (x, t\<lparr>terror := e\<rparr>)"
    by (cases v) (auto simp: int_in_def)
qed

interpretation i32_field: field_reader "\<lambda>root. i32_at root k" "msg_i32 k" for k
  unfolding i32_at_def [abs_def] msg_i32_def
proof (rule field_reader_at [OF node_i32.node_reader_axioms])
  fix t i v
  assume "denoted t i v"
  then have "mpack_node_i32 (Pool_node i) t = int_in (- 2147483648) 2147483647 v t"
    unfolding mpack_node_i32_def by (simp add: node_number_denoted)
  then show "case as_int (- 2147483648) 2147483647 v of
        Some x \<Rightarrow> mpack_node_i32 (Pool_node i) t = Ret (x, t)
      | None \<Rightarrow> \<exists>x e. e \<noteq> mpack_ok \<and> mpack_node_i32 (Pool_node i) t = Ret (x, t\<lparr>terror := e\<rparr>)"
    by (cases v) (auto simp: int_in_def)
qed

lemma name_field:
  assumes "name \<noteq> []"
  shows "field_reader (\<lambda>root. name_at name root k) (msg_name name k)"
  unfolding name_at_def [abs_def] msg_name_def mpack_node_copy_utf8_cstr_def
proof (rule field_reader_at [OF node_reader_copy_terminated [of "length name" name]])
  fix t i v
  assume "denoted t i v"
  from copy_terminated_denoted [OF this, of "length name" name mpack_utf8_check_no_null] assms
  show "case as_name name v of
      Some x \<Rightarrow> copy_terminated mpack_utf8_check_no_null (Pool_node i) (Some name) (length name) t = Ret (x, t)
    | None \<Rightarrow> \<exists>x e. e \<noteq> mpack_ok \<and>
        copy_terminated mpack_utf8_check_no_null (Pool_node i) (Some name) (length name) t =
          Ret (x, t\<lparr>terror := e\<rparr>)"
    by (cases v) auto
qed (use assms in auto)

subsection \<open>Deserializers on a value\<close>

text \<open>The buffer holds the encoding of \<open>v\<close>, within what the code claims and what there is.\<close>

definition carries :: "msgpack \<Rightarrow> crmna_buf \<Rightarrow> bool" where
  "carries v data \<longleftrightarrow>
     representable v \<and> nodes_in v < 50 \<and> depth v < 32 \<and>
     (\<exists>rest. bbuf data = msgpack_encode v @ rest) \<and>
     length (msgpack_encode v) \<le> bused_size data \<and> bused_size data \<le> length (bbuf data) \<and>
     bused_size data < SIZE_MAX"

lemma parse_message_carries:
  assumes "carries v data" "length nodes = 50"
  shows "\<exists>t. parse_message nodes data = Ret (Pool_node 0, t) \<and> root_state v (Pool_node 0) t \<and>
     terror t = mpack_ok"
proof -
  obtain rest where "bbuf data = msgpack_encode v @ [] @ rest"
    using assms(1) by (auto simp: carries_def)
  then obtain t where "mpack_tree_parse (mpack_tree_init_pool (bbuf data) (bused_size data) nodes 50)
      = Ret t" "tstate t = Parsed" "troot t = 0" "denoted t 0 v"
    using parse_denotes_root [of v 50 nodes "[]" "bused_size data" rest] assms
    by (auto simp: carries_def)
  then show ?thesis
    by (auto simp: parse_message_def mpack_tree_root_def root_state_def denoted_def)
qed

text \<open>Reading a field and going on, in a form that chains.\<close>

lemma field_then:
  assumes "field_reader rd spec" "root_state v root t"
    "\<And>x t'. root_state v root t' \<Longrightarrow>
       (terror t' = mpack_ok \<longleftrightarrow> terror t = mpack_ok \<and> spec v \<noteq> None) \<Longrightarrow>
       (terror t' = mpack_ok \<Longrightarrow> spec v = Some x) \<Longrightarrow> P (k x t')"
  shows "P (and_then (rd root t) (\<lambda>(x, t'). k x t'))"
proof -
  obtain x t' where "rd root t = Ret (x, t')" "root_state v root t'"
    "terror t' = mpack_ok \<longleftrightarrow> terror t = mpack_ok \<and> spec v \<noteq> None"
    "terror t' = mpack_ok \<longrightarrow> spec v = Some x"
    using field_reader.reads [OF assms(1,2)] by blast
  with assms(3) [of t' x] show ?thesis by simp
qed

lemma parse_then:
  assumes "carries v data" "length nodes = 50"
    "\<And>t. root_state v (Pool_node 0) t \<Longrightarrow> terror t = mpack_ok \<Longrightarrow> P (k (Pool_node 0) t)"
  shows "P (and_then (parse_message nodes data) (\<lambda>(root, t). k root t))"
  using parse_message_carries [OF assms(1,2)] assms(3) by auto

text \<open>The call has returned \<open>ok\<close>, and if it is true the result satisfies \<open>P\<close>.\<close>

definition returned :: "bool \<Rightarrow> ('r \<Rightarrow> bool) \<Rightarrow> (bool \<times> 'r) outcome \<Rightarrow> bool" where
  "returned ok P m \<longleftrightarrow> (\<exists>r. m = Ret (ok, r) \<and> (ok \<longrightarrow> P r))"

lemma returned_Ret: "b = ok \<Longrightarrow> (ok \<Longrightarrow> P r) \<Longrightarrow> returned ok P (Ret (b, r))"
  by (simp add: returned_def)

lemma returned_parse:
  assumes "carries v data" "length nodes = 50"
    "\<And>t. root_state v (Pool_node 0) t \<Longrightarrow> terror t = mpack_ok \<Longrightarrow> returned ok P (k (Pool_node 0) t)"
  shows "returned ok P (and_then (parse_message nodes data) (\<lambda>(root, t). k root t))"
  by (rule parse_then [OF assms(1,2)]) (rule assms(3))

lemma returned_u32:
  assumes "root_state v root t"
    "\<And>x t'. root_state v root t' \<Longrightarrow>
       (terror t' = mpack_ok \<longleftrightarrow> terror t = mpack_ok \<and> msg_u32 n v \<noteq> None) \<Longrightarrow>
       (terror t' = mpack_ok \<Longrightarrow> msg_u32 n v = Some x) \<Longrightarrow> returned ok P (k x t')"
  shows "returned ok P (and_then (u32_at root n t) (\<lambda>(x, t'). k x t'))"
  by (rule field_then [OF u32_field.field_reader_axioms assms(1)]) (rule assms(2))

lemma returned_i32:
  assumes "root_state v root t"
    "\<And>x t'. root_state v root t' \<Longrightarrow>
       (terror t' = mpack_ok \<longleftrightarrow> terror t = mpack_ok \<and> msg_i32 n v \<noteq> None) \<Longrightarrow>
       (terror t' = mpack_ok \<Longrightarrow> msg_i32 n v = Some x) \<Longrightarrow> returned ok P (k x t')"
  shows "returned ok P (and_then (i32_at root n t) (\<lambda>(x, t'). k x t'))"
  by (rule field_then [OF i32_field.field_reader_axioms assms(1)]) (rule assms(2))

lemma returned_name:
  assumes "name \<noteq> []" "root_state v root t"
    "\<And>x t'. root_state v root t' \<Longrightarrow>
       (terror t' = mpack_ok \<longleftrightarrow> terror t = mpack_ok \<and> msg_name name n v \<noteq> None) \<Longrightarrow>
       (terror t' = mpack_ok \<Longrightarrow> msg_name name n v = Some x) \<Longrightarrow> returned ok P (k x t')"
  shows "returned ok P (and_then (name_at name root n t) (\<lambda>(x, t'). k x t'))"
  by (rule field_then [OF name_field [OF assms(1)] assms(2)]) (rule assms(3))

lemma deserialize_get_health_value:
  assumes "carries v data" "length nodes = 50"
  shows "returned (msg_u32 0 v \<noteq> None)
      (\<lambda>r. msg_u32 0 v = Some (gh_device_id r))
      (deserialize_get_health nodes data)"
  unfolding deserialize_get_health_def mpack_tree_destroy_def
  by (rule returned_parse [OF assms(1,2)],
      (rule returned_u32 returned_i32, assumption)+, rule returned_Ret)
    (simp_all only: simp_thms conj_assoc, simp_all)

lemma deserialize_destroy_device_value:
  assumes "carries v data" "length nodes = 50"
  shows "returned (msg_u32 0 v \<noteq> None)
      (\<lambda>r. msg_u32 0 v = Some (dd_id r))
      (deserialize_destroy_device nodes data)"
  unfolding deserialize_destroy_device_def mpack_tree_destroy_def
  by (rule returned_parse [OF assms(1,2)],
      (rule returned_u32 returned_i32, assumption)+, rule returned_Ret)
    (simp_all only: simp_thms conj_assoc, simp_all)

lemma deserialize_create_conn_value:
  assumes "carries v data" "length nodes = 50" "name0 \<noteq> []"
  shows "returned (msg_name name0 0 v \<noteq> None \<and> msg_u32 1 v \<noteq> None)
      (\<lambda>r. msg_name name0 0 v = Some (cd_name r) \<and>
           msg_u32 1 v = Some (cd_uid r))
      (deserialize_create_conn nodes name0 data)"
  unfolding deserialize_create_conn_def mpack_tree_destroy_def
  by (rule returned_parse [OF assms(1,2)],
      (rule returned_u32 returned_i32 returned_name [OF assms(3)], assumption)+, rule returned_Ret)
    (simp_all only: simp_thms conj_assoc, simp_all)

lemma deserialize_new_toot_result_value:
  assumes "carries v data" "length nodes = 50"
  shows "returned (msg_u32 0 v \<noteq> None \<and> msg_u32 1 v \<noteq> None \<and> msg_i32 2 v \<noteq> None)
      (\<lambda>r. msg_u32 0 v = Some (ntr_toot_id r) \<and>
           msg_u32 1 v = Some (ntr_device_id r) \<and>
           msg_i32 2 v = Some (ntr_result r))
      (deserialize_new_toot_result nodes data)"
  unfolding deserialize_new_toot_result_def mpack_tree_destroy_def
  by (rule returned_parse [OF assms(1,2)],
      (rule returned_u32 returned_i32, assumption)+, rule returned_Ret)
    (simp_all only: simp_thms conj_assoc, simp_all)

lemma deserialize_add_toot_element_result_value:
  assumes "carries v data" "length nodes = 50"
  shows "returned (msg_u32 0 v \<noteq> None \<and> msg_u32 1 v \<noteq> None \<and> msg_u32 2 v \<noteq> None \<and> msg_i32 3 v \<noteq> None)
      (\<lambda>r. msg_u32 0 v = Some (atr_toot_id r) \<and>
           msg_u32 1 v = Some (atr_device_id r) \<and>
           msg_u32 2 v = Some (atr_element_id r) \<and>
           msg_i32 3 v = Some (atr_result r))
      (deserialize_add_toot_element_result nodes data)"
  unfolding deserialize_add_toot_element_result_def mpack_tree_destroy_def
  by (rule returned_parse [OF assms(1,2)],
      (rule returned_u32 returned_i32, assumption)+, rule returned_Ret)
    (simp_all only: simp_thms conj_assoc, simp_all)

lemma deserialize_send_toot_result_value:
  assumes "carries v data" "length nodes = 50"
  shows "returned (msg_u32 0 v \<noteq> None \<and> msg_u32 1 v \<noteq> None \<and> msg_i32 2 v \<noteq> None)
      (\<lambda>r. msg_u32 0 v = Some (str_toot_id r) \<and>
           msg_u32 1 v = Some (str_device_id r) \<and>
           msg_i32 2 v = Some (str_result r))
      (deserialize_send_toot_result nodes data)"
  unfolding deserialize_send_toot_result_def mpack_tree_destroy_def
  by (rule returned_parse [OF assms(1,2)],
      (rule returned_u32 returned_i32, assumption)+, rule returned_Ret)
    (simp_all only: simp_thms conj_assoc, simp_all)

subsection \<open>Deserializers on any bytes\<close>

definition has_float_tag :: "crmna_buf \<Rightarrow> bool" where
  "has_float_tag data \<longleftrightarrow>
     0xCA \<in> set (take (bused_size data) (bbuf data)) \<or>
     0xCB \<in> set (take (bused_size data) (bbuf data))"

definition answers :: "crmna_buf \<Rightarrow> 'r outcome \<Rightarrow> bool" where
  "answers data m \<longleftrightarrow> returns m \<or> m = Fault Assert_failed \<and> has_float_tag data"

definition within_memory :: "crmna_buf \<Rightarrow> bool" where
  "within_memory data \<longleftrightarrow> bused_size data \<le> length (bbuf data) \<and> bused_size data < SIZE_MAX"

lemma parse_message_safe:
  assumes "within_memory data" "length nodes = 50"
  shows "(\<exists>root t. parse_message nodes data = Ret (root, t) \<and> usable t root) \<or>
         parse_message nodes data = Fault Assert_failed \<and> has_float_tag data"
proof -
  let ?t = "mpack_tree_init_pool (bbuf data) (bused_size data) nodes 50"
  have ok: "pool_tree_ok ?t"
    using assms by (intro pool_tree_ok_init) (simp_all add: within_memory_def)
  have "float_tag_in ?t \<Longrightarrow> has_float_tag data"
    by (auto simp: float_tag_in_def has_float_tag_def mpack_tree_init_pool_def
        mpack_tree_init_clear_def)
  moreover have "usable (snd (mpack_tree_root t)) (fst (mpack_tree_root t))"
    if "terror t \<noteq> mpack_ok \<or> parse_success ?t t" for t
    using that
    by (auto simp: mpack_tree_root_def parse_success_def usable_def handle_ok_def tree_ok_def)
  ultimately show ?thesis
    using parse_safe [OF ok] by (fastforce simp: parse_message_def)
qed

lemma answers_parse:
  assumes "within_memory data" "length nodes = 50"
    "\<And>root t. usable t root \<Longrightarrow> returns (k root t)"
  shows "answers data (and_then (parse_message nodes data) (\<lambda>(root, t). k root t))"
  using parse_message_safe [OF assms(1,2)] assms(3) by (auto simp: answers_def)

lemma returns_field:
  assumes "safe_field rd" "usable t root" "\<And>x t'. usable t' root \<Longrightarrow> returns (k x t')"
  shows "returns (and_then (rd root t) (\<lambda>(x, t'). k x t'))"
  using safe_field.safe [OF assms(1,2)] assms(3) by auto

lemma returns_u32:
  "usable t root \<Longrightarrow> (\<And>x t'. usable t' root \<Longrightarrow> returns (k x t')) \<Longrightarrow>
     returns (and_then (u32_at root n t) (\<lambda>(x, t'). k x t'))"
  by (rule returns_field [OF u32_field.safe_field_axioms])

lemma returns_i32:
  "usable t root \<Longrightarrow> (\<And>x t'. usable t' root \<Longrightarrow> returns (k x t')) \<Longrightarrow>
     returns (and_then (i32_at root n t) (\<lambda>(x, t'). k x t'))"
  by (rule returns_field [OF i32_field.safe_field_axioms])

lemma returns_name:
  "name \<noteq> [] \<Longrightarrow> usable t root \<Longrightarrow> (\<And>x t'. usable t' root \<Longrightarrow> returns (k x t')) \<Longrightarrow>
     returns (and_then (name_at name root n t) (\<lambda>(x, t'). k x t'))"
  by (rule returns_field [OF field_reader.axioms(1) [OF name_field]])

lemmas answers_rules = answers_parse returns_u32 returns_i32 returns_name

subsection \<open>Properties\<close>

lemma deserializers_answer:
  assumes "within_memory data" "length nodes = 50" "name0 \<noteq> []"
  shows "answers data (deserialize_get_health nodes data)"
    "answers data (deserialize_create_conn nodes name0 data)"
    "answers data (deserialize_destroy_device nodes data)"
    "answers data (deserialize_new_toot_result nodes data)"
    "answers data (deserialize_add_toot_element_result nodes data)"
    "answers data (deserialize_send_toot_result nodes data)"
  unfolding deserialize_get_health_def deserialize_create_conn_def deserialize_destroy_device_def
    deserialize_new_toot_result_def deserialize_add_toot_element_result_def
    deserialize_send_toot_result_def
  by (intro answers_rules assms; (assumption | simp))+

text \<open>
  C13. Whatever bytes a message holds, as long as its claimed size is within the memory behind it,
  every deserializer returns a result, whatever its 50 stack nodes held before. The only exception
  is the unreachable assertion of the parser, for a message with a float tag byte in it.
\<close>

theorem deserializers_safe:
  assumes "within_memory data" "length nodes = 50" "name0 \<noteq> []"
  shows "answers data (deserialize_get_health nodes data) \<and>
    answers data (deserialize_create_conn nodes name0 data) \<and>
    answers data (deserialize_destroy_device nodes data) \<and>
    answers data (deserialize_new_toot_result nodes data) \<and>
    answers data (deserialize_add_toot_element_result nodes data) \<and>
    answers data (deserialize_send_toot_result nodes data)"
  using deserializers_answer [OF assms] by simp

definition sample_nodes :: "mpack_node_data list" where
  "sample_nodes = replicate 50 \<lparr>ntype = mpack_type_missing, nlen = 0, nvalue = Val_none\<rparr>"

theorem deserializers_safe_witness:
  "answers (DEFINE_CRMNA_BUF_FROM_MEMORY [0x93, 0xFF] 2)
     (deserialize_new_toot_result sample_nodes (DEFINE_CRMNA_BUF_FROM_MEMORY [0x93, 0xFF] 2))"
  using deserializers_safe [of "DEFINE_CRMNA_BUF_FROM_MEMORY [0x93, 0xFF] 2" sample_nodes "[0]"]
  by (simp add: within_memory_def DEFINE_CRMNA_BUF_FROM_MEMORY_def sample_nodes_def SIZE_MAX_def)

text \<open>
  C17. The three result messages of the daemon. On a buffer that holds any value, the deserializer
  returns true exactly when the value is an array with the fields of the message at their places
  and in the range of their types, and then the struct holds these fields.
\<close>

theorem deserialize_results:
  assumes "carries v data" "length nodes = 50"
  shows "returned (msg_u32 0 v \<noteq> None \<and> msg_u32 1 v \<noteq> None \<and> msg_i32 2 v \<noteq> None)
      (\<lambda>r. msg_u32 0 v = Some (ntr_toot_id r) \<and> msg_u32 1 v = Some (ntr_device_id r) \<and>
           msg_i32 2 v = Some (ntr_result r)) (deserialize_new_toot_result nodes data) \<and>
    returned (msg_u32 0 v \<noteq> None \<and> msg_u32 1 v \<noteq> None \<and> msg_u32 2 v \<noteq> None \<and> msg_i32 3 v \<noteq> None)
      (\<lambda>r. msg_u32 0 v = Some (atr_toot_id r) \<and> msg_u32 1 v = Some (atr_device_id r) \<and>
           msg_u32 2 v = Some (atr_element_id r) \<and> msg_i32 3 v = Some (atr_result r))
      (deserialize_add_toot_element_result nodes data) \<and>
    returned (msg_u32 0 v \<noteq> None \<and> msg_u32 1 v \<noteq> None \<and> msg_i32 2 v \<noteq> None)
      (\<lambda>r. msg_u32 0 v = Some (str_toot_id r) \<and> msg_u32 1 v = Some (str_device_id r) \<and>
           msg_i32 2 v = Some (str_result r)) (deserialize_send_toot_result nodes data)"
  by (intro conjI deserialize_new_toot_result_value deserialize_add_toot_element_result_value
      deserialize_send_toot_result_value assms)

theorem deserialize_results_witness:
  "\<exists>r. deserialize_new_toot_result sample_nodes
         (DEFINE_CRMNA_BUF_FROM_MEMORY [0x93, 5, 1, 0xFF] 4) = Ret (True, r) \<and>
       ntr_toot_id r = 5 \<and> ntr_device_id r = 1 \<and> ntr_result r = - 1"
proof -
  let ?v = "Msg_array [Msg_int 5, Msg_int 1, Msg_int (- 1)]"
  have "carries ?v (DEFINE_CRMNA_BUF_FROM_MEMORY [0x93, 5, 1, 0xFF] 4)"
    by (simp add: carries_def DEFINE_CRMNA_BUF_FROM_MEMORY_def msgpack_array_header_def
        msgpack_int_def be_bytes_def fix_tag_def SIZE_MAX_def)
  from deserialize_results [OF this, of sample_nodes, THEN conjunct1] show ?thesis
    by (auto simp: returned_def msg_u32_def msg_i32_def msg_field_def sample_nodes_def)
qed

text \<open>
  C18. The three requests of the daemon, likewise; a name is accepted when it is UTF-8 without NUL
  and fits the array with its terminator, and it is stored as a C string.
\<close>

theorem deserialize_requests:
  assumes "carries v data" "length nodes = 50" "name0 \<noteq> []"
  shows "returned (msg_u32 0 v \<noteq> None) (\<lambda>r. msg_u32 0 v = Some (gh_device_id r))
      (deserialize_get_health nodes data) \<and>
    returned (msg_u32 0 v \<noteq> None) (\<lambda>r. msg_u32 0 v = Some (dd_id r))
      (deserialize_destroy_device nodes data) \<and>
    returned (msg_name name0 0 v \<noteq> None \<and> msg_u32 1 v \<noteq> None)
      (\<lambda>r. msg_name name0 0 v = Some (cd_name r) \<and> msg_u32 1 v = Some (cd_uid r))
      (deserialize_create_conn nodes name0 data)"
  by (intro conjI deserialize_get_health_value deserialize_destroy_device_value
      deserialize_create_conn_value assms)

theorem deserialize_requests_witness:
  "\<exists>r. deserialize_create_conn sample_nodes (replicate 4 7)
         (DEFINE_CRMNA_BUF_FROM_MEMORY [0x92, 0xA2, 0x68, 0x69, 9] 5) = Ret (True, r) \<and>
       cd_name r = [0x68, 0x69, 0, 7] \<and> cd_uid r = 9"
proof -
  let ?v = "Msg_array [Msg_str [0x68, 0x69], Msg_int 9]"
  have "carries ?v (DEFINE_CRMNA_BUF_FROM_MEMORY [0x92, 0xA2, 0x68, 0x69, 9] 5)"
    by (simp add: carries_def DEFINE_CRMNA_BUF_FROM_MEMORY_def msgpack_array_header_def
        msgpack_str_header_def msgpack_int_def be_bytes_def fix_tag_def SIZE_MAX_def)
  moreover have "mpack_utf8_check_no_null [0x68, 0x69]"
    by (simp add: mpack_utf8_check_no_null_def mpack_utf8_check_impl.simps)
  ultimately show ?thesis
    using deserialize_requests [of ?v "DEFINE_CRMNA_BUF_FROM_MEMORY [0x92, 0xA2, 0x68, 0x69, 9] 5"
        sample_nodes "replicate 4 7"]
    by (auto simp: returned_def msg_u32_def msg_name_def msg_field_def sample_nodes_def
        numeral_eq_Suc)
qed

text \<open>
  C19. The messages of the driver. Each serializer puts the encoding of the value of its message
  into the buffer and sets the used size, when the encoding fits the buffer, and otherwise returns
  false; only the result of destroying a device reports success in that case too, with the used
  size it had before.
\<close>

theorem serializers_encode:
  assumes "bbuf_size dest \<le> length (bbuf dest)"
  shows "serialized (msgpack_encode (get_health_result_value ghr)) False dest
      (serialize_get_health_result ghr dest) \<and>
    serialized (msgpack_encode (id_value (cdr_id cdr))) False dest
      (serialize_create_device_result cdr dest) \<and>
    serialized (msgpack_encode (id_value (ddr_id ddr))) True dest
      (serialize_destroy_device_result ddr dest) \<and>
    serialized (msgpack_encode (toot_value (nt_toot_id nt) (nt_device_id nt))) False dest
      (serialize_new_toot nt dest) \<and>
    serialized (msgpack_encode (toot_value (st_toot_id st) (st_device_id st))) False dest
      (serialize_send_toot st dest)"
  using assms
  by (intro conjI serialize_get_health_result_ok serialize_create_device_result_ok
      serialize_destroy_device_result_ok serialize_new_toot_ok serialize_send_toot_ok)

theorem serializers_encode_witness:
  "serialized (msgpack_encode (toot_value 5 1)) False (DEFINE_CRMNA_BUF (replicate 10 0) 10)
     (serialize_new_toot \<lparr>nt_toot_id = 5, nt_device_id = 1\<rparr>
        (DEFINE_CRMNA_BUF (replicate 10 0) 10))"
  using serializers_encode [of "DEFINE_CRMNA_BUF (replicate 10 0) 10" undefined undefined undefined
      "\<lparr>nt_toot_id = 5, nt_device_id = 1\<rparr>" undefined]
  by (simp add: DEFINE_CRMNA_BUF_def)

text \<open>
  The text of a toot is sent as a string exactly when it is UTF-8 up to its NUL and the message
  fits; a text that is not UTF-8 is refused and the used size stays as it was.
\<close>

theorem serialize_text:
  assumes "bbuf_size dest \<le> length (bbuf dest)" "att_text d = Some (s @ 0 # rest)"
    "0 \<notin> set s" "length s < 2 ^ 32"
  shows "if mpack_utf8_check s
    then serialized (msgpack_encode (add_toot_value d (Msg_str s))) False dest
           (serialize_add_toot_element d dest)
    else \<exists>mem. serialize_add_toot_element d dest = Ret (False, dest\<lparr>bbuf := mem\<rparr>) \<and>
           length mem = length (bbuf dest)"
  using serialize_add_toot_element_ok [OF assms] serialize_add_toot_element_invalid [OF assms]
  by simp

theorem serialize_text_witness:
  "\<exists>mem. serialize_add_toot_element
      \<lparr>att_toot_id = 1, att_device_id = 1, att_element_id = 1, att_index = 1,
       att_text = Some [0x41, 0xC0, 0, 7]\<rparr> (DEFINE_CRMNA_BUF (replicate 200 0) 200) =
        Ret (False, DEFINE_CRMNA_BUF mem 200)"
proof -
  have "\<not> mpack_utf8_check [0x41, 0xC0]"
    by (simp add: mpack_utf8_check_def mpack_utf8_check_impl.simps)
  then show ?thesis
    using serialize_text [of "DEFINE_CRMNA_BUF (replicate 200 0) 200"
        "\<lparr>att_toot_id = 1, att_device_id = 1, att_element_id = 1, att_index = 1,
          att_text = Some [0x41, 0xC0, 0, 7]\<rparr>" "[0x41, 0xC0]" "[7]"]
    by (auto simp: DEFINE_CRMNA_BUF_def)
qed

end
