(* ===== verification/Driver_Store_Facts.thy ===== *)
theory Driver_Store_Facts
  imports Driver_Store
begin

text \<open>
  The invariant of the store and what its operations do to the abstract store: three maps from ids
  to objects. The heap and the \<open>idr\<close> structures stay in step: every pointer leads to a live object
  with its id, every live object is found under its id, and every allocated id leads to an object, so
  nothing dangles and nothing leaks.
\<close>

subsection \<open>Invariant and abstraction\<close>

definition linked :: "(u32 \<rightharpoonup> nat) \<Rightarrow> (nat \<rightharpoonup> 'o) \<Rightarrow> ('o \<Rightarrow> u32) \<Rightarrow> bool" where
  "linked f h key \<longleftrightarrow>
     (\<forall>k p. f k = Some p \<longrightarrow> (\<exists>x. h p = Some x \<and> key x = k)) \<and>
     (\<forall>p x. h p = Some x \<longrightarrow> f (key x) = Some p)"

definition at :: "(u32 \<rightharpoonup> nat) \<Rightarrow> (nat \<rightharpoonup> 'o) \<Rightarrow> u32 \<rightharpoonup> 'o" where
  "at f h k = (case f k of None \<Rightarrow> None | Some p \<Rightarrow> h p)"

record astore =
  a_dev :: "u32 \<rightharpoonup> device_store_t"
  a_toot :: "u32 \<rightharpoonup> toot_store_t"
  a_elem :: "u32 \<rightharpoonup> element_store_t"

definition abs_store :: "('i, 'e) kernel \<Rightarrow> ('i, 'e) world \<Rightarrow> astore" where
  "abs_store K w =
     \<lparr>a_dev = at (k_idr_find K (devices w)) (dev_heap w),
      a_toot = at (k_idr_find K (toots w)) (toot_heap w),
      a_elem = at (k_idr_find K (elements w)) (element_heap w)\<rparr>"

text \<open>No id is allocated without an object.\<close>

definition no_spare :: "('i, 'e) kernel \<Rightarrow> 'i \<Rightarrow> bool" where
  "no_spare K i \<longleftrightarrow> (\<forall>k. k_idr_has K i k \<longrightarrow> k_idr_find K i k \<noteq> None)"

text \<open>References between the objects lead to objects, ids fit an \<open>int\<close>, and no lock is held.\<close>

definition astore_ok :: "astore \<Rightarrow> bool" where
  "astore_ok a \<longleftrightarrow>
     (\<forall>k d. a_dev a k = Some d \<longrightarrow> d_sem d = 0 \<and> k \<le> INT_MAX) \<and>
     (\<forall>k t. a_toot a k = Some t \<longrightarrow> k \<le> INT_MAX \<and> a_dev a (t_device_id t) \<noteq> None) \<and>
     (\<forall>k el. a_elem a k = Some el \<longrightarrow> k \<le> INT_MAX \<and> a_toot a (e_toot_id el) \<noteq> None)"

definition heaps_ok :: "('i, 'e) kernel \<Rightarrow> ('i, 'e) world \<Rightarrow> bool" where
  "heaps_ok K w \<longleftrightarrow>
     linked (k_idr_find K (devices w)) (dev_heap w) d_device_id \<and>
     linked (k_idr_find K (toots w)) (toot_heap w) t_toot_id \<and>
     linked (k_idr_find K (elements w)) (element_heap w) e_element_id \<and>
     no_spare K (devices w) \<and> no_spare K (toots w) \<and> no_spare K (elements w) \<and>
     (\<forall>p d. dev_heap w p = Some d \<longrightarrow> name_heap w (d_name d) \<noteq> None)"

definition store_inv :: "('i, 'e) kernel \<Rightarrow> ('i, 'e) world \<Rightarrow> bool" where
  "store_inv K w \<longleftrightarrow>
     kernel_ok K \<and> heaps_ok K w \<and> astore_ok (abs_store K w) \<and> miner_max w \<le> INT_MAX"

text \<open>The rest of the world, which the operations of the store leave alone.\<close>

definition outside :: "('i, 'e) world \<Rightarrow>
    com_ref \<times> (u32 \<times> nat \<times> bytes) list \<times> (nat \<rightharpoonup> nat) \<times> (nat \<rightharpoonup> u32) \<times> (nat \<rightharpoonup> nat) \<times> resource list \<times>
      u32 \<times> nat \<times> u32" where
  "outside w = (communicator w, wsent w, private_data w, data_heap w, com_heap w, held w, chrdev w,
     device_class w, miner_max w)"

lemma linkedI:
  "(\<And>k p. f k = Some p \<Longrightarrow> \<exists>x. h p = Some x \<and> key x = k) \<Longrightarrow>
   (\<And>p x. h p = Some x \<Longrightarrow> f (key x) = Some p) \<Longrightarrow> linked f h key"
  by (simp add: linked_def)

lemma linked_object: "linked f h key \<Longrightarrow> f k = Some p \<Longrightarrow> \<exists>x. h p = Some x \<and> key x = k"
  by (simp add: linked_def)

lemma linked_id: "linked f h key \<Longrightarrow> h p = Some x \<Longrightarrow> f (key x) = Some p"
  by (simp add: linked_def)

lemma linked_inj:
  assumes "linked f h key" "f k = Some p" "f j = Some p"
  shows "j = k"
proof -
  obtain x where "h p = Some x" "key x = k" using linked_object [OF assms(1,2)] by blast
  moreover obtain y where "h p = Some y" "key y = j" using linked_object [OF assms(1,3)] by blast
  ultimately show ?thesis by simp
qed

lemma at_Some: "f k = Some p \<Longrightarrow> at f h k = h p"
  by (simp add: at_def)

lemma at_None: "f k = None \<Longrightarrow> at f h k = None"
  by (simp add: at_def)

lemma at_cases:
  assumes "linked f h key"
  obtains "f k = None" "at f h k = None"
  | p x where "f k = Some p" "h p = Some x" "at f h k = Some x" "key x = k"
proof (cases "f k")
  case None
  then show ?thesis using that(1) by (simp add: at_None)
next
  case (Some p)
  then show ?thesis using linked_object [OF assms Some] that(2) by (auto simp: at_Some)
qed

lemma linked_update:
  assumes "linked f h key" "h p = Some x" "key y = key x"
  shows "linked f (h(p \<mapsto> y)) key"
proof (rule linkedI)
  fix k q
  assume k: "f k = Some q"
  then obtain z where "h q = Some z" "key z = k" using linked_object [OF assms(1)] by blast
  then show "\<exists>z. (h(p \<mapsto> y)) q = Some z \<and> key z = k" using assms(2,3) by (cases "q = p") auto
next
  fix q z
  assume "(h(p \<mapsto> y)) q = Some z"
  then show "f (key z) = Some q"
    using linked_id [OF assms(1)] assms(2,3) by (cases "q = p") auto
qed

lemma at_update:
  assumes "linked f h key" "f k = Some p"
  shows "at f (h(p \<mapsto> y)) = (at f h)(k \<mapsto> y)"
proof
  fix j
  show "at f (h(p \<mapsto> y)) j = ((at f h)(k \<mapsto> y)) j"
    using assms linked_inj [OF assms, of j] by (cases "f j") (auto simp: at_def)
qed

lemma linked_insert:
  assumes "linked f h key" "f k = None" "h p = None" "key x = k"
  shows "linked (f(k \<mapsto> p)) (h(p \<mapsto> x)) key" "at (f(k \<mapsto> p)) (h(p \<mapsto> x)) = (at f h)(k \<mapsto> x)"
proof -
  have other: "f j = Some q \<Longrightarrow> q \<noteq> p" for j q using linked_object [OF assms(1)] assms(3) by fastforce
  show "linked (f(k \<mapsto> p)) (h(p \<mapsto> x)) key"
  proof (rule linkedI)
    fix j q
    assume "(f(k \<mapsto> p)) j = Some q"
    then show "\<exists>y. (h(p \<mapsto> x)) q = Some y \<and> key y = j"
      using linked_object [OF assms(1)] other assms(4) by (cases "j = k") fastforce+
  next
    fix q y
    assume q: "(h(p \<mapsto> x)) q = Some y"
    show "(f(k \<mapsto> p)) (key y) = Some q"
    proof (cases "q = p")
      case False
      then have "f (key y) = Some q" using q linked_id [OF assms(1)] by simp
      then show ?thesis using assms(2) by (cases "key y = k") auto
    qed (use q assms(4) in auto)
  qed
  show "at (f(k \<mapsto> p)) (h(p \<mapsto> x)) = (at f h)(k \<mapsto> x)"
  proof
    fix j
    show "at (f(k \<mapsto> p)) (h(p \<mapsto> x)) j = ((at f h)(k \<mapsto> x)) j"
      using other by (cases "f j") (auto simp: at_def)
  qed
qed

lemma linked_delete:
  assumes "linked f h key" "f k = Some p"
  shows "linked (f(k := None)) (h(p := None)) key" "at (f(k := None)) (h(p := None)) = (at f h)(k := None)"
proof -
  note inj = linked_inj [OF assms]
  show "linked (f(k := None)) (h(p := None)) key"
  proof (rule linkedI)
    fix j q
    assume "(f(k := None)) j = Some q"
    then have "f j = Some q" "j \<noteq> k" by (auto split: if_splits)
    then show "\<exists>y. (h(p := None)) q = Some y \<and> key y = j"
      using linked_object [OF assms(1)] inj by fastforce
  next
    fix q y
    assume "(h(p := None)) q = Some y"
    then have "h q = Some y" "q \<noteq> p" by (auto split: if_splits)
    then show "(f(k := None)) (key y) = Some q"
      using linked_id [OF assms(1)] assms(2) by fastforce
  qed
  show "at (f(k := None)) (h(p := None)) = (at f h)(k := None)"
  proof
    fix j
    show "at (f(k := None)) (h(p := None)) j = ((at f h)(k := None)) j"
      using inj by (cases "f j") (auto simp: at_def)
  qed
qed

subsection \<open>Operations as refinements\<close>

text \<open>
  \<open>reads K w r m\<close>: the call \<open>m\<close> in the world \<open>w\<close> returns \<open>r\<close> and has only written error entries.
  \<open>refines\<close>: it returns \<open>r\<close>, keeps the invariant and the outside, and leaves the abstract store \<open>a\<close>.
\<close>

definition reads :: "('i, 'e) world \<Rightarrow> 'a \<Rightarrow> ('a \<times> ('i, 'e) world) outcome \<Rightarrow> bool" where
  "reads w r m \<longleftrightarrow> (\<exists>err. m = Ret (r, w\<lparr>werr := err\<rparr>))"

definition reaches :: "('i, 'e) kernel \<Rightarrow> ('i, 'e) world \<Rightarrow> astore \<Rightarrow> ('i, 'e) world \<Rightarrow> bool" where
  "reaches K w a w' \<longleftrightarrow> store_inv K w' \<and> abs_store K w' = a \<and> outside w' = outside w"

definition refines :: "('i, 'e) kernel \<Rightarrow> ('i, 'e) world \<Rightarrow> 'a \<Rightarrow> astore \<Rightarrow>
    ('a \<times> ('i, 'e) world) outcome \<Rightarrow> bool" where
  "refines K w r a m \<longleftrightarrow> (\<exists>w'. m = Ret (r, w') \<and> reaches K w a w')"

definition proc_refines :: "('i, 'e) kernel \<Rightarrow> ('i, 'e) world \<Rightarrow> astore \<Rightarrow>
    ('i, 'e) world outcome \<Rightarrow> bool" where
  "proc_refines K w a m \<longleftrightarrow> (\<exists>w'. m = Ret w' \<and> reaches K w a w')"

lemma err_frame [simp]:
  "heaps_ok K (w\<lparr>werr := err\<rparr>) = heaps_ok K w" "abs_store K (w\<lparr>werr := err\<rparr>) = abs_store K w"
  "store_inv K (w\<lparr>werr := err\<rparr>) = store_inv K w" "outside (w\<lparr>werr := err\<rparr>) = outside w"
  "find_device K k (w\<lparr>werr := err\<rparr>) = find_device K k w"
  "find_toot K k (w\<lparr>werr := err\<rparr>) = find_toot K k w"
  "find_element K k (w\<lparr>werr := err\<rparr>) = find_element K k w"
  by (simp_all add: heaps_ok_def abs_store_def store_inv_def outside_def find_device_def find_toot_def
      find_element_def)

lemma env_frame [simp]:
  "heaps_ok K (w\<lparr>kenv := e\<rparr>) = heaps_ok K w" "abs_store K (w\<lparr>kenv := e\<rparr>) = abs_store K w"
  "store_inv K (w\<lparr>kenv := e\<rparr>) = store_inv K w" "outside (w\<lparr>kenv := e\<rparr>) = outside w"
  by (simp_all add: heaps_ok_def abs_store_def store_inv_def outside_def)

lemma add_error_frame: "\<exists>err. add_error fmt args w = w\<lparr>werr := err\<rparr>"
  by (auto simp: add_error_def)

lemma reads_same [simp]: "reads w r (Ret (r, w))"
proof -
  have "w = w\<lparr>werr := werr w\<rparr>" by simp
  then show ?thesis unfolding reads_def by metis
qed

lemma reads_error [simp]: "reads w r (Ret (r, add_error fmt args w))"
  by (auto simp: reads_def add_error_def)

lemma reads_then:
  assumes "reads w r m" "\<And>w'. w' = w\<lparr>werr := werr w'\<rparr> \<Longrightarrow> reads w' r' (f (r, w'))"
  shows "reads w r' (and_then m f)"
proof -
  obtain err where m: "m = Ret (r, w\<lparr>werr := err\<rparr>)" using assms(1) by (auto simp: reads_def)
  have "reads (w\<lparr>werr := err\<rparr>) r' (f (r, w\<lparr>werr := err\<rparr>))" by (rule assms(2)) simp
  with m show ?thesis by (auto simp: reads_def)
qed

text \<open>
  \<open>unchanged\<close> is stronger: no block, no id, no registered device and no held resource is more or less
  than before; only error entries and the state of Linux may be new.
\<close>

definition same_ids :: "('i, 'e) kernel \<Rightarrow> 'i \<Rightarrow> 'i \<Rightarrow> bool" where
  "same_ids K i i' \<longleftrightarrow> k_idr_find K i' = k_idr_find K i \<and> k_idr_has K i' = k_idr_has K i"

definition unchanged :: "('i, 'e) kernel \<Rightarrow> ('i, 'e) world \<Rightarrow> ('i, 'e) world \<Rightarrow> bool" where
  "unchanged K w w' \<longleftrightarrow>
     same_ids K (devices w) (devices w') \<and> same_ids K (toots w) (toots w') \<and>
     same_ids K (elements w) (elements w') \<and>
     dev_heap w' = dev_heap w \<and> toot_heap w' = toot_heap w \<and> element_heap w' = element_heap w \<and>
     name_heap w' = name_heap w \<and> cdevs w' = cdevs w \<and> outside w' = outside w"

lemma same_ids_refl [simp]: "same_ids K i i"
  by (simp add: same_ids_def)

lemma unchanged_reaches:
  "store_inv K w \<Longrightarrow> unchanged K w w' \<Longrightarrow> reaches K w (abs_store K w) w'"
  by (simp add: unchanged_def same_ids_def reaches_def store_inv_def heaps_ok_def abs_store_def outside_def
      no_spare_def)

lemma unchanged_refines:
  "store_inv K w \<Longrightarrow> m = Ret (r, w') \<Longrightarrow> unchanged K w w' \<Longrightarrow> refines K w r (abs_store K w) m"
  using unchanged_reaches by (auto simp: refines_def)

lemma reads_refines:
  "reads w r m \<Longrightarrow> store_inv K w \<Longrightarrow> a = abs_store K w \<Longrightarrow> refines K w r a m"
  by (auto simp: reads_def refines_def reaches_def)

text \<open>An id of the invariant, seen from both sides.\<close>

lemma device_cases:
  assumes "store_inv K w"
  obtains "find_device K k w = None" "a_dev (abs_store K w) k = None"
  | p d where "find_device K k w = Some p" "dev_heap w p = Some d" "d_device_id d = k"
      "a_dev (abs_store K w) k = Some d" "d_sem d = 0"
proof -
  have l: "linked (k_idr_find K (devices w)) (dev_heap w) d_device_id"
    using assms by (simp add: store_inv_def heaps_ok_def)
  from l show ?thesis
  proof (cases rule: at_cases [where k = k])
    case 1
    then show ?thesis using that(1) by (simp add: find_device_def abs_store_def)
  next
    case (2 p d)
    moreover from this have "d_sem d = 0"
      using assms by (simp add: store_inv_def astore_ok_def abs_store_def)
    ultimately show ?thesis using that(2) by (simp add: find_device_def abs_store_def)
  qed
qed

lemma toot_cases:
  assumes "store_inv K w"
  obtains "find_toot K k w = None" "a_toot (abs_store K w) k = None"
  | p t where "find_toot K k w = Some p" "toot_heap w p = Some t" "t_toot_id t = k"
      "a_toot (abs_store K w) k = Some t"
proof -
  have l: "linked (k_idr_find K (toots w)) (toot_heap w) t_toot_id"
    using assms by (simp add: store_inv_def heaps_ok_def)
  then show ?thesis using that
    by (cases rule: at_cases [where k = k]) (simp_all add: find_toot_def abs_store_def)
qed

lemma element_cases:
  assumes "store_inv K w"
  obtains "find_element K k w = None" "a_elem (abs_store K w) k = None"
  | p el where "find_element K k w = Some p" "element_heap w p = Some el" "e_element_id el = k"
      "a_elem (abs_store K w) k = Some el"
proof -
  have l: "linked (k_idr_find K (elements w)) (element_heap w) e_element_id"
    using assms by (simp add: store_inv_def heaps_ok_def)
  then show ?thesis using that
    by (cases rule: at_cases [where k = k]) (simp_all add: find_element_def abs_store_def)
qed

subsection \<open>Checks and lookups\<close>

definition ready_dev :: "astore \<Rightarrow> u32 \<Rightarrow> bool" where
  "ready_dev a k \<longleftrightarrow> (case a_dev a k of None \<Rightarrow> False | Some d \<Rightarrow> d_is_ready d)"

definition open_toot :: "astore \<Rightarrow> u32 \<Rightarrow> bool" where
  "open_toot a k \<longleftrightarrow>
     (case a_toot a k of None \<Rightarrow> False | Some t \<Rightarrow> t_state t = OPEND \<and> ready_dev a (t_device_id t))"

definition usable_toot :: "astore \<Rightarrow> u32 \<Rightarrow> bool" where
  "usable_toot a k \<longleftrightarrow>
     (case a_toot a k of None \<Rightarrow> False
      | Some t \<Rightarrow> t_state t \<in> {OPEN_RESULT_WAIT, OPEND, CLOSE_RESULT_WAIT} \<and>
                  ready_dev a (t_device_id t))"

definition usable_elem :: "astore \<Rightarrow> u32 \<Rightarrow> bool" where
  "usable_elem a k \<longleftrightarrow>
     (case a_elem a k of None \<Rightarrow> False
      | Some el \<Rightarrow> e_state el \<in> {ELEMENT_READY, ELEMENT_SEND_WAIT} \<and> open_toot a (e_toot_id el))"

lemma dev_heap_same: "dev_heap w p = Some d \<Longrightarrow> w\<lparr>dev_heap := (dev_heap w)(p \<mapsto> d)\<rparr> = w"
  by (simp add: fun_upd_idem)

lemma dev_sem_same: "d_sem d = n \<Longrightarrow> d\<lparr>d_sem := n\<rparr> = d"
  by (cases d) simp

lemma check_device_ready_reads:
  assumes "store_inv K w"
  shows "reads w (ready_dev (abs_store K w) k) (check_device_ready K k w)"
  using assms
proof (cases rule: device_cases [where k = k])
  case 1
  then show ?thesis by (simp add: check_device_ready_def ready_dev_def)
next
  case (2 p d)
  then have "check_device_ready K k w =
      Ret (d_is_ready d, if d_is_ready d then w else add_error ''check_device_ready: device is not ready'' [] w)"
    by (simp add: check_device_ready_def sem_defs heap_step_defs add_error_def dev_sem_same
        fun_upd_idem)
  then show ?thesis using 2 by (simp add: ready_dev_def)
qed

lemma get_device_pid_reads:
  assumes "store_inv K w"
  shows "reads w (map_option d_pid (a_dev (abs_store K w) k)) (get_device_pid K k w)"
  using assms by (cases rule: device_cases [where k = k])
    (simp_all add: get_device_pid_def heap_step_defs)

lemma check_toot_ready_reads:
  assumes "store_inv K w"
  shows "reads w (open_toot (abs_store K w) k) (check_toot_ready K k w)"
  using assms
proof (cases rule: toot_cases [where k = k])
  case (2 p t)
  then show ?thesis
    using check_device_ready_reads [OF assms, of "t_device_id t"]
    by (simp add: check_toot_ready_def open_toot_def heap_step_defs)
qed (simp add: check_toot_ready_def open_toot_def)

lemma get_toot_when_ready_reads:
  assumes "store_inv K w"
  shows "reads w (if usable_toot (abs_store K w) k then find_toot K k w else None)
           (get_toot_when_ready K k w)"
  using assms
proof (cases rule: toot_cases [where k = k])
  case (2 p t)
  show ?thesis
  proof (cases "t_state t \<in> {OPEN_RESULT_WAIT, OPEND, CLOSE_RESULT_WAIT}")
    case True
    have "reads w (if ready_dev (abs_store K w) (t_device_id t) then Some p else None)
       (and_then (check_device_ready K (t_device_id t) w) (\<lambda>(ready, w).
          if \<not> ready then Ret (None, add_error ''get_toot_when_ready: device is not ready. toot id: %d'' [k] w)
          else Ret (Some p, w)))"
      by (rule reads_then [OF check_device_ready_reads [OF assms]]) simp
    with 2 True show ?thesis
      by (cases "ready_dev (abs_store K w) (t_device_id t)")
        (auto simp: get_toot_when_ready_def usable_toot_def heap_step_defs)
  next
    case False
    with 2 show ?thesis by (simp add: get_toot_when_ready_def usable_toot_def heap_step_defs)
  qed
qed (simp add: get_toot_when_ready_def usable_toot_def)

lemma get_element_when_ready_reads:
  assumes "store_inv K w"
  shows "reads w (if usable_elem (abs_store K w) k then find_element K k w else None)
           (get_element_when_ready K k w)"
  using assms
proof (cases rule: element_cases [where k = k])
  case (2 p el)
  show ?thesis
  proof (cases "e_state el \<in> {ELEMENT_READY, ELEMENT_SEND_WAIT}")
    case True
    have "reads w (if open_toot (abs_store K w) (e_toot_id el) then Some p else None)
       (and_then (check_toot_ready K (e_toot_id el) w) (\<lambda>(ready, w).
          if \<not> ready then Ret (None, add_error ''get_element_when_ready: toot is not ready. toot id: %d, element id: %d''
                       [e_toot_id el, k] w)
          else Ret (Some p, w)))"
      by (rule reads_then [OF check_toot_ready_reads [OF assms]]) simp
    with 2 True show ?thesis
      by (cases "open_toot (abs_store K w) (e_toot_id el)")
        (auto simp: get_element_when_ready_def usable_elem_def heap_step_defs)
  next
    case False
    with 2 show ?thesis by (simp add: get_element_when_ready_def usable_elem_def heap_step_defs)
  qed
qed (simp add: get_element_when_ready_def usable_elem_def)

lemma usable_toot_exists:
  "usable_toot a k \<Longrightarrow> \<exists>t d. a_toot a k = Some t \<and> a_dev a (t_device_id t) = Some d \<and> d_is_ready d"
  by (auto simp: usable_toot_def ready_dev_def split: option.splits)

lemma inv_err: "store_inv K w \<Longrightarrow> w' = w\<lparr>werr := err\<rparr> \<Longrightarrow> store_inv K w'"
  by simp

lemma get_device_id_from_toot_reads:
  assumes "store_inv K w"
  shows "reads w
    (if usable_toot (abs_store K w) k then map_option t_device_id (a_toot (abs_store K w) k) else None)
    (get_device_id_from_toot K k w)"
  unfolding get_device_id_from_toot_def
proof (rule reads_then [OF get_toot_when_ready_reads [OF assms]])
  fix w'
  assume w': "w' = w\<lparr>werr := werr w'\<rparr>"
  have a: "abs_store K w' = abs_store K w" "find_device K j w' = find_device K j w"
      "toot_heap w' = toot_heap w" for j
    by (subst w', simp)+
  show "reads w' (if usable_toot (abs_store K w) k then map_option t_device_id (a_toot (abs_store K w) k)
      else None) (case (if usable_toot (abs_store K w) k then find_toot K k w else None, w') of
      (r, w) \<Rightarrow> case r of None \<Rightarrow> Ret (None, add_error ''get_device_id_from_toot: toot not ready. toot id: %d'' [k] w)
        | Some toot \<Rightarrow> and_then (get_toot toot w) (\<lambda>t.
             case find_device K (t_device_id t) w of
               None \<Rightarrow> Ret (None, add_error ''get_device_id_from_toot: canot find device id. toot id: %d'' [t_device_id t] w)
             | Some _ \<Rightarrow> Ret (Some (t_device_id t), w)))"
  proof (cases "usable_toot (abs_store K w) k")
    case True
    then obtain t d where t: "a_toot (abs_store K w) k = Some t"
      "a_dev (abs_store K w) (t_device_id t) = Some d"
      using usable_toot_exists by blast
    obtain p where "find_toot K k w = Some p" "toot_heap w p = Some t"
      using t(1) by (cases rule: toot_cases [OF assms, where k = k]) auto
    moreover obtain q where "find_device K (t_device_id t) w = Some q"
      using t(2) by (cases rule: device_cases [OF assms, where k = "t_device_id t"]) auto
    ultimately show ?thesis using True t(1) a by (simp add: heap_step_defs)
  qed simp
qed

lemma get_device_pid_from_toot_reads:
  assumes "store_inv K w"
  shows "reads w
    (if usable_toot (abs_store K w) k
     then map_option (\<lambda>t. d_pid (the (a_dev (abs_store K w) (t_device_id t)))) (a_toot (abs_store K w) k)
     else None)
    (get_device_pid_from_toot K k w)"
  unfolding get_device_pid_from_toot_def
proof (rule reads_then [OF get_toot_when_ready_reads [OF assms]])
  fix w'
  assume w': "w' = w\<lparr>werr := werr w'\<rparr>"
  have a: "abs_store K w' = abs_store K w" "toot_heap w' = toot_heap w"
    by (subst w', simp)+
  have inv: "store_inv K w'" by (subst w') (simp add: assms)
  show "reads w' (if usable_toot (abs_store K w) k
     then map_option (\<lambda>t. d_pid (the (a_dev (abs_store K w) (t_device_id t)))) (a_toot (abs_store K w) k)
     else None) (case (if usable_toot (abs_store K w) k then find_toot K k w else None, w') of
      (r, w) \<Rightarrow> case r of None \<Rightarrow> Ret (None, add_error ''get_device_pid_from_toot: toot not ready. toot id: %d'' [k] w)
        | Some toot \<Rightarrow> and_then (get_toot toot w) (\<lambda>t.
           and_then (get_device_pid K (t_device_id t) w) (\<lambda>(pid, w).
             case pid of
               None \<Rightarrow> Ret (None, add_error ''get_device_pid_from_toot: cannot get pid. toot id: %d device id: %d''
                        [k, t_device_id t] w)
             | Some pid \<Rightarrow> Ret (Some pid, w))))"
  proof (cases "usable_toot (abs_store K w) k")
    case True
    then obtain t d where t: "a_toot (abs_store K w) k = Some t"
      "a_dev (abs_store K w) (t_device_id t) = Some d"
      using usable_toot_exists by blast
    obtain p where p: "find_toot K k w = Some p" "toot_heap w p = Some t"
      using t(1) by (cases rule: toot_cases [OF assms, where k = k]) auto
    have "reads w' (Some (d_pid d)) (and_then (get_device_pid K (t_device_id t) w') (\<lambda>(pid, w).
             case pid of
               None \<Rightarrow> Ret (None, add_error ''get_device_pid_from_toot: cannot get pid. toot id: %d device id: %d''
                        [k, t_device_id t] w)
             | Some pid \<Rightarrow> Ret (Some pid, w)))"
      by (rule reads_then [OF get_device_pid_reads [OF inv]]) (simp add: a t)
    then show ?thesis using True t p a by (simp add: heap_step_defs)
  qed simp
qed

end
