(* ===== verification/Driver_Contract.thy ===== *)
theory Driver_Contract
  imports Driver_Handlers Cremona_Messages Driver_Store_Facts
begin

text \<open>
  What the handlers rely on, as two locales over the record of store operations. The first is about
  safety: every operation returns into the invariant, or stops with one of the faults \<open>F\<close> that the
  caller accepts. The second adds what the operations do to the abstract store and which messages
  have left. The handlers are verified inside, once, against the laws.
\<close>

subsection \<open>Results that keep an invariant\<close>

definition keeps :: "('s \<Rightarrow> bool) \<Rightarrow> fault set \<Rightarrow> ('a \<times> 's) outcome \<Rightarrow> bool" where
  "keeps I F m \<longleftrightarrow> (case m of Ret (r, s) \<Rightarrow> I s | Fault f \<Rightarrow> f \<in> F)"

definition keeps_proc :: "('s \<Rightarrow> bool) \<Rightarrow> fault set \<Rightarrow> 's outcome \<Rightarrow> bool" where
  "keeps_proc I F m \<longleftrightarrow> (case m of Ret s \<Rightarrow> I s | Fault f \<Rightarrow> f \<in> F)"

lemma keeps_Ret [simp]: "keeps I F (Ret (r, s)) = I s"
  by (simp add: keeps_def)

lemma keeps_proc_Ret [simp]: "keeps_proc I F (Ret s) = I s"
  by (simp add: keeps_proc_def)

lemma keeps_then:
  "keeps I F m \<Longrightarrow> (\<And>r s. I s \<Longrightarrow> keeps I F (f r s)) \<Longrightarrow>
     keeps I F (and_then m (\<lambda>(r, s). f r s))"
  by (cases m) (auto simp: keeps_def)

lemma keeps_proc_then:
  "keeps_proc I F m \<Longrightarrow> (\<And>s. I s \<Longrightarrow> keeps I F (f s)) \<Longrightarrow> keeps I F (and_then m f)"
  by (cases m) (auto simp: keeps_def keeps_proc_def)

lemma keeps_mono: "keeps I F m \<Longrightarrow> F \<subseteq> G \<Longrightarrow> keeps I G m"
  by (auto simp: keeps_def split: outcome.splits prod.splits)

subsection \<open>Messages of the driver\<close>

text \<open>A serializer on a buffer of the frame returns, with a used size inside the buffer.\<close>

definition well_formed :: "crmna_buf \<Rightarrow> bool" where
  "well_formed buf \<longleftrightarrow> bused_size buf \<le> length (bbuf buf)"

definition serializes :: "(bool \<times> crmna_buf) outcome \<Rightarrow> bool" where
  "serializes m \<longleftrightarrow> (\<exists>ok buf. m = Ret (ok, buf) \<and> well_formed buf)"

lemma serializes_Ret [simp]: "serializes (Ret (ok, buf)) = well_formed buf"
  by (auto simp: serializes_def)

lemma serialized_serializes:
  assumes "serialized enc on_error dest m" "bbuf_size dest \<le> length (bbuf dest)" "well_formed dest"
  shows "serializes m"
proof (cases "length enc \<le> bbuf_size dest")
  case True
  then obtain mem where "m = Ret (True, dest\<lparr>bbuf := mem, bused_size := length enc\<rparr>)"
      "length mem = length (bbuf dest)"
    using assms(1) by (auto simp: serialized_def)
  then show ?thesis using True assms(2) by (simp add: well_formed_def)
next
  case False
  then obtain mem where "m = Ret (on_error, dest\<lparr>bbuf := mem\<rparr>)" "length mem = length (bbuf dest)"
    using assms(1) by (auto simp: serialized_def)
  then show ?thesis using assms(3) by (simp add: well_formed_def)
qed

lemma keeps_serialize:
  "serializes m \<Longrightarrow> (\<And>ok buf. well_formed buf \<Longrightarrow> keeps I F (f ok buf)) \<Longrightarrow>
     keeps I F (and_then m (\<lambda>(ok, buf). f ok buf))"
  by (auto simp: serializes_def)


lemma keeps_if: "(b \<Longrightarrow> keeps I F m) \<Longrightarrow> (\<not> b \<Longrightarrow> keeps I F m') \<Longrightarrow> keeps I F (if b then m else m')"
  by simp

lemma keeps_option:
  "(x = None \<Longrightarrow> keeps I F m) \<Longrightarrow> (\<And>y. x = Some y \<Longrightarrow> keeps I F (f y)) \<Longrightarrow>
     keeps I F (case x of None \<Rightarrow> m | Some y \<Rightarrow> f y)"
  by (cases x) auto

lemma keeps_prod: "(\<And>a b. x = (a, b) \<Longrightarrow> keeps I F (f a b)) \<Longrightarrow> keeps I F (case x of (a, b) \<Rightarrow> f a b)"
  by (cases x) simp

text \<open>
  A name that \<open>strlen\<close> can read, a text that the serializer can read, and a function pointer that
  keeps the invariant.
\<close>

definition action_ok :: "('s \<Rightarrow> bool) \<Rightarrow> fault set \<Rightarrow> 's action \<Rightarrow> bool" where
  "action_ok I F act =
     (case act of
        CREATE_DEVICE p \<Rightarrow> 0 \<in> set (cp_name p)
      | CREATE_TOOT p \<Rightarrow>
          (\<forall>k s. I s \<longrightarrow> keeps I F (tp_set_toot_id p k (tp_set_toot_id_context p) s))
      | ADD_TOOT_ELEMENT p \<Rightarrow> 0 \<in> set (bbuf (ap_text p)) \<and> length (bbuf (ap_text p)) < 2 ^ 32
      | _ \<Rightarrow> True)"

subsection \<open>The safety contract\<close>

text \<open>
  The only operation that may leave the invariant is attaching, when it fails: then the device
  cannot be removed any more, and the caller, who tries, stops.
\<close>

locale store_contract =
  fixes D :: "'s store_ops" and I :: "'s \<Rightarrow> bool" and F :: "fault set"
  assumes error: "I s \<Longrightarrow> I (op_add_error D fmt args s)"
    and frame: "I s \<Longrightarrow> length (op_stack D n s) = n" "I s \<Longrightarrow> length (op_nodes D s) = 50"
    and add_device: "I s \<Longrightarrow> 0 \<in> set name \<Longrightarrow> keeps I F (op_add_device D pid uid name s)"
    and remove_device: "I s \<Longrightarrow> keeps_proc I F (op_remove_device D k s)"
    and attach: "I s \<Longrightarrow> op_attach_device_class D k s = Ret (b, s') \<Longrightarrow>
        I s' \<or> \<not> b \<and> (\<exists>f \<in> F. op_remove_device D k s' = Fault f)"
      "I s \<Longrightarrow> op_attach_device_class D k s = Fault f \<Longrightarrow> f \<in> F"
    and detach: "I s \<Longrightarrow> keeps_proc I F (op_detach_device_class D k s)"
    and check_ready: "I s \<Longrightarrow> keeps I F (op_check_device_ready D k s)"
    and set_ready: "I s \<Longrightarrow> keeps_proc I F (op_set_device_ready D k s)"
    and get_pid: "I s \<Longrightarrow> keeps I F (op_get_device_pid D k s)"
    and send: "I s \<Longrightarrow> well_formed buf \<Longrightarrow> keeps I F (send D pid ty buf s)"
    and add_toot: "I s \<Longrightarrow> keeps I F (op_add_toot D k s)"
    and remove_toot: "I s \<Longrightarrow> keeps_proc I F (op_remove_toot D k s)"
    and wait_toot: "I s \<Longrightarrow> keeps I F (op_wait_toot_ready_or_failer D k s)"
      "I s \<Longrightarrow> keeps I F (op_wait_toot_sent_or_failer D k s)"
    and set_toot: "I s \<Longrightarrow> keeps_proc I F (op_set_toot_failer D k s)"
      "I s \<Longrightarrow> keeps_proc I F (op_set_toot_ready D k s)"
      "I s \<Longrightarrow> keeps_proc I F (op_set_toot_sent D k s)"
    and id_from_toot: "I s \<Longrightarrow> keeps I F (op_get_device_id_from_toot D k s)"
    and pid_from_toot: "I s \<Longrightarrow> keeps I F (op_get_device_pid_from_toot D k s)"
    and add_element: "I s \<Longrightarrow> keeps I F (op_add_element D k s)"
    and remove_element: "I s \<Longrightarrow> keeps_proc I F (op_remove_element D k s)"
    and wait_element: "I s \<Longrightarrow> keeps I F (op_wait_element_sent_or_failer D k s)"
    and set_element: "I s \<Longrightarrow> keeps_proc I F (op_set_element_sent D k s)"
      "I s \<Longrightarrow> keeps_proc I F (op_set_element_failer D k s)"
begin

lemmas calls = add_device check_ready get_pid send add_toot wait_toot id_from_toot pid_from_toot
  add_element wait_element

lemmas procs = remove_device detach set_ready remove_toot set_toot remove_element set_element

lemmas keeps_rules = calls [THEN keeps_then] procs [THEN keeps_proc_then] keeps_serialize
  keeps_if keeps_option

lemma serializer:
  assumes "I s"
  shows "serializes (serialize_get_health_result ghr (local_buf D n s))"
    "serializes (serialize_create_device_result cdr (local_buf D n s))"
    "serializes (serialize_destroy_device_result ddr (local_buf D n s))"
    "serializes (serialize_new_toot nt (local_buf D n s))"
    "serializes (serialize_send_toot st (local_buf D n s))"
proof -
  have "bbuf_size (local_buf D n s) \<le> length (bbuf (local_buf D n s))" "well_formed (local_buf D n s)"
    using frame(1) [OF assms, of n]
    by (simp_all add: local_buf_def DEFINE_CRMNA_BUF_def well_formed_def)
  then show "serializes (serialize_get_health_result ghr (local_buf D n s))"
    "serializes (serialize_create_device_result cdr (local_buf D n s))"
    "serializes (serialize_destroy_device_result ddr (local_buf D n s))"
    "serializes (serialize_new_toot nt (local_buf D n s))"
    "serializes (serialize_send_toot st (local_buf D n s))"
    by (blast intro: serialized_serializes serialize_get_health_result_ok
        serialize_create_device_result_ok serialize_destroy_device_result_ok serialize_new_toot_ok
        serialize_send_toot_ok)+
qed

lemma serialize_element:
  assumes "I s" "0 \<in> set txt" "length txt < 2 ^ 32" "att_text d = Some txt"
  shows "serializes (serialize_add_toot_element d (local_buf D n s))"
proof -
  let ?b = "local_buf D n s"
  obtain t r where t: "txt = t @ 0 # r" "0 \<notin> set t" using split_list_first [OF assms(2)] by blast
  have b: "bbuf_size ?b \<le> length (bbuf ?b)" "well_formed ?b"
    using frame(1) [OF assms(1), of n]
    by (simp_all add: local_buf_def DEFINE_CRMNA_BUF_def well_formed_def)
  show ?thesis
  proof (cases "mpack_utf8_check t")
    case True
    with serialize_add_toot_element_ok [OF b(1), of d t r] assms t b(2) show ?thesis
      by (auto intro: serialized_serializes [OF _ b(1)])
  next
    case False
    with serialize_add_toot_element_invalid [OF b(1), of d t r] assms t b(2) show ?thesis
      by (auto simp: well_formed_def)
  qed
qed

lemma get_health_keeps: "I s \<Longrightarrow> keeps I F (get_health p D s)"
  unfolding get_health_def
  by (intro keeps_rules keeps_then [of I F "if _ then _ else _"] serializer keeps_if check_ready)
    simp_all

lemma create_device_keeps:
  assumes "I s" "0 \<in> set (cp_name p)"
  shows "keeps I F (create_device p D s)"
  unfolding create_device_def
proof (intro add_device [THEN keeps_then] keeps_option assms)
  fix s k
  assume s: "I s"
  let ?rest = "\<lambda>b s. if \<not> b then and_then (op_remove_device D k s) (\<lambda>s. Ret (False, s))
    else let give_up = (\<lambda>s. and_then (op_detach_device_class D k s) (\<lambda>s.
                            and_then (op_remove_device D k s) (\<lambda>s. Ret (False, s)))) in
         and_then (serialize_create_device_result \<lparr>cdr_id = k\<rparr> (local_buf D 10 s)) (\<lambda>(ok, buf).
           if \<not> ok then give_up s
           else and_then (send D (cp_pid p) CRMNA_CREATE_DEVICE_RESULT buf s) (\<lambda>(sent, s).
             if \<not> sent then give_up s
             else and_then (op_set_device_ready D k s) (\<lambda>s. Ret (True, s))))"
  have rest: "keeps I F (?rest b s)" if "I s" for b s
    unfolding Let_def using that by (intro keeps_rules serializer) simp_all
  show "keeps I F (and_then (op_attach_device_class D k s) (\<lambda>(b, s). ?rest b s))"
  proof (cases "op_attach_device_class D k s")
    case (Fault f)
    then show ?thesis using attach(2) [OF s] by (simp add: keeps_def)
  next
    case (Ret bs)
    then obtain b s' where r: "op_attach_device_class D k s = Ret (b, s')" by (cases bs) auto
    show ?thesis
    proof (cases "I s'")
      case True
      then show ?thesis using rest r by simp
    next
      case False
      then show ?thesis using attach(1) [OF s r] r by (auto simp: keeps_def)
    qed
  qed
qed simp

lemma destroy_device_keeps: "I s \<Longrightarrow> keeps I F (destroy_device p D s)"
  unfolding destroy_device_def Let_def by (intro keeps_rules serializer) simp_all

lemma create_toot_keeps:
  assumes "I s" "action_ok I F (CREATE_TOOT p)"
  shows "keeps I F (create_toot p D s)"
proof -
  have set_id: "I s \<Longrightarrow> keeps I F (tp_set_toot_id p k (tp_set_toot_id_context p) s)" for k s
    using assms(2) by (simp add: action_ok_def)
  show ?thesis
    unfolding create_toot_def Let_def using assms(1)
    by (intro keeps_rules serializer set_id [THEN keeps_then]) simp_all
qed

lemma create_toot_result_keeps: "I s \<Longrightarrow> keeps I F (create_toot_result p D s)"
  unfolding create_toot_result_def Let_def by (intro keeps_rules error) (simp_all add: error)

lemma add_toot_element_keeps:
  assumes "I s" "action_ok I F (ADD_TOOT_ELEMENT p)"
  shows "keeps I F (add_toot_element p D s)"
proof -
  have text_ok: "0 \<in> set (bbuf (ap_text p))" "length (bbuf (ap_text p)) < 2 ^ 32"
    using assms(2) by (simp_all add: action_ok_def)
  show ?thesis
    unfolding add_toot_element_def Let_def using assms(1)
    by (intro keeps_rules keeps_prod error serialize_element [OF _ text_ok]) (simp_all add: error)
qed

lemma add_toot_element_result_keeps: "I s \<Longrightarrow> keeps I F (add_toot_element_result p D s)"
  unfolding add_toot_element_result_def by (intro keeps_rules error) (simp_all add: error)

lemma send_toot_keeps: "I s \<Longrightarrow> keeps I F (send_toot p D s)"
  unfolding send_toot_def Let_def by (intro keeps_rules serializer) simp_all

lemma send_toot_result_keeps: "I s \<Longrightarrow> keeps I F (send_toot_result p D s)"
  unfolding send_toot_result_def
  by (intro keeps_rules keeps_proc_then [of I F "if _ then _ else _"]) (simp_all add: set_toot)

lemma dispatch_keeps:
  assumes "I s" "action_ok I F act"
  shows "keeps I F (dispatch D act s)"
  using assms
  by (cases act) (simp_all add: create_device_keeps create_toot_keeps create_toot_result_keeps
      add_toot_element_keeps add_toot_element_result_keeps send_toot_keeps send_toot_result_keeps
      destroy_device_keeps get_health_keeps error action_ok_def)

end

text \<open>A message within its memory becomes an action that may be dispatched, or nothing.\<close>

definition action_made :: "crmna_buf \<Rightarrow> ('s \<Rightarrow> bool) \<Rightarrow> fault set \<Rightarrow> ('s action option \<times> 's) outcome \<Rightarrow> bool" where
  "action_made message I F m \<longleftrightarrow>
     (case m of
        Ret (act, s) \<Rightarrow> I s \<and> (case act of None \<Rightarrow> True | Some act \<Rightarrow> action_ok I F act)
      | Fault f \<Rightarrow> f = Assert_failed \<and> has_float_tag message)"

lemma action_made_then:
  assumes "answers message m" "I s" "\<And>payload. m = Ret (True, payload) \<Longrightarrow> action_ok I F (f payload)"
  shows "action_made message I F
    (and_then m (\<lambda>(ok, payload). if \<not> ok then Ret (None, s) else Ret (Some (f payload), s)))"
proof (cases m)
  case (Ret r)
  then obtain ok payload where "m = Ret (ok, payload)" by (cases r) auto
  then show ?thesis using assms(2,3) by (cases ok) (simp_all add: action_made_def)
next
  case (Fault f)
  then show ?thesis using assms(1) by (simp add: answers_def action_made_def)
qed

text \<open>The name of a message is a C string inside its array.\<close>

lemma store_nul:
  "store_at m p bs = Ret m' \<Longrightarrow> length m' = length m \<and> (0 \<in> set bs \<longrightarrow> 0 \<in> set m')"
  by (auto simp: store_at_def split: if_splits)

lemma copy_terminated_nul:
  "copy_terminated chk node (Some m) n t = Ret (x, t') \<Longrightarrow> 0 \<in> set x \<and> length x = length m"
  by (auto simp: copy_terminated_def Let_def outcome_simps dest!: store_nul split: if_splits)

lemma create_conn_name:
  "deserialize_create_conn nodes name0 data = Ret (ok, r) \<Longrightarrow>
     0 \<in> set (cd_name r) \<and> length (cd_name r) = length name0"
  by (auto simp: deserialize_create_conn_def name_at_def mpack_node_copy_utf8_cstr_def outcome_simps
      dest!: copy_terminated_nul split: prod.splits)

lemma strncpy_nul:
  assumes "length src \<le> n" "0 \<in> set src"
  shows "0 \<in> set (strncpy src n)"
proof -
  obtain ys zs where "src = ys @ 0 # zs" "0 \<notin> set ys" using split_list_first [OF assms(2)] by blast
  moreover from this have "takeWhile (\<lambda>c. c \<noteq> 0) src = ys" by (auto simp: takeWhile_append)
  ultimately show ?thesis using assms(1) by (simp add: strncpy_def Let_def)
qed

context store_contract begin

lemma action_made:
  assumes "I s" "within_memory message"
  shows "action_made message I F (create_action_from_message D ty pid message s)"
proof -
  have len: "length (op_stack D 50 s) = 50" "length (op_nodes D s) = 50"
    using frame [OF assms(1)] by auto
  then have "op_stack D 50 s \<noteq> []" by auto
  note safe = deserializers_answer [OF assms(2) len(2) this]
  have name: "0 \<in> set (strncpy (cd_name r) 50)"
    if "deserialize_create_conn (op_nodes D s) (op_stack D 50 s) message = Ret (True, r)" for r
    using create_conn_name [OF that] len(1) by (intro strncpy_nul) simp_all
  have "action_made message I F (create_action_from_get_health_message D pid message s)"
    "action_made message I F (create_action_from_create_device_message D pid message s)"
    "action_made message I F (create_action_from_destroy_device_message D pid message s)"
    "action_made message I F (create_action_from_create_toot_result_message D pid message s)"
    "action_made message I F (create_action_from_add_toot_element_result_message D pid message s)"
    "action_made message I F (create_action_from_send_toot_result_message D pid message s)"
    unfolding create_action_from_get_health_message_def create_action_from_create_device_message_def
      create_action_from_destroy_device_message_def create_action_from_create_toot_result_message_def
      create_action_from_add_toot_element_result_message_def
      create_action_from_send_toot_result_message_def
    by (rule action_made_then, simp add: safe, rule assms, simp add: action_ok_def name)+
  then show ?thesis
    using error [OF assms(1)]
    by (simp add: create_action_from_message_def, simp add: action_made_def)
qed

end

end
