(* ===== verification/Driver_Store_Refine.thy ===== *)
theory Driver_Store_Refine
  imports Driver_Store_Facts
begin

text \<open>
  The operations that change the store, as functions on the abstract store. Each keeps the
  invariant: no pointer dangles, no object leaks, no lock stays held.
\<close>

subsection \<open>Updates of one object\<close>

lemma inv_parts:
  assumes "store_inv K w"
  shows "kernel_ok K" "heaps_ok K w" "astore_ok (abs_store K w)"
    "linked (k_idr_find K (devices w)) (dev_heap w) d_device_id"
    "linked (k_idr_find K (toots w)) (toot_heap w) t_toot_id"
    "linked (k_idr_find K (elements w)) (element_heap w) e_element_id"
    "miner_max w \<le> INT_MAX"
  using assms by (simp_all add: store_inv_def heaps_ok_def)

definition put_dev :: "u32 \<Rightarrow> device_store_t option \<Rightarrow> astore \<Rightarrow> astore" where
  "put_dev k d a = a\<lparr>a_dev := (a_dev a)(k := d)\<rparr>"

definition put_toot :: "u32 \<Rightarrow> toot_store_t option \<Rightarrow> astore \<Rightarrow> astore" where
  "put_toot k t a = a\<lparr>a_toot := (a_toot a)(k := t)\<rparr>"

definition put_elem :: "u32 \<Rightarrow> element_store_t option \<Rightarrow> astore \<Rightarrow> astore" where
  "put_elem k el a = a\<lparr>a_elem := (a_elem a)(k := el)\<rparr>"

lemma put_same:
  "a_dev a k = d \<Longrightarrow> put_dev k d a = a" "a_toot a k = t \<Longrightarrow> put_toot k t a = a"
  "a_elem a k = el \<Longrightarrow> put_elem k el a = a"
  by (auto simp: put_dev_def put_toot_def put_elem_def fun_upd_idem)

lemma astore_okD:
  assumes "astore_ok a"
  shows "a_dev a k = Some d \<Longrightarrow> d_sem d = 0"
    "a_toot a k = Some t \<Longrightarrow> k \<le> INT_MAX" "a_toot a k = Some t \<Longrightarrow> a_dev a (t_device_id t) \<noteq> None"
    "a_elem a k = Some el \<Longrightarrow> k \<le> INT_MAX" "a_elem a k = Some el \<Longrightarrow> a_toot a (e_toot_id el) \<noteq> None"
    "a_dev a k = Some d \<Longrightarrow> k \<le> INT_MAX"
  using assms unfolding astore_ok_def by blast+

lemma astore_ok_put:
  "astore_ok a \<Longrightarrow> d_sem d = 0 \<Longrightarrow> k \<le> INT_MAX \<Longrightarrow> astore_ok (put_dev k (Some d) a)"
  "astore_ok a \<Longrightarrow> k \<le> INT_MAX \<Longrightarrow> a_dev a (t_device_id t) \<noteq> None \<Longrightarrow> astore_ok (put_toot k (Some t) a)"
  "astore_ok a \<Longrightarrow> k \<le> INT_MAX \<Longrightarrow> a_toot a (e_toot_id el) \<noteq> None \<Longrightarrow> astore_ok (put_elem k (Some el) a)"
  by (simp_all add: astore_ok_def put_dev_def put_toot_def put_elem_def)

lemma dev_update_reaches:
  assumes "store_inv K w" "find_device K k w = Some p" "dev_heap w p = Some d"
    "d_device_id d' = d_device_id d" "d_name d' = d_name d" "d_sem d' = 0"
  shows "reaches K w (put_dev k (Some d') (abs_store K w)) (w\<lparr>dev_heap := (dev_heap w)(p \<mapsto> d')\<rparr>)"
proof -
  note i = inv_parts [OF assms(1)]
  have f: "k_idr_find K (devices w) k = Some p" using assms(2) by (simp add: find_device_def)
  let ?w = "w\<lparr>dev_heap := (dev_heap w)(p \<mapsto> d')\<rparr>"
  have abs: "abs_store K ?w = put_dev k (Some d') (abs_store K w)"
    by (simp add: abs_store_def put_dev_def at_update [OF i(4) f])
  moreover have "a_dev (abs_store K w) k = Some d" using f assms(3) by (simp add: abs_store_def at_Some)
  then have "astore_ok (abs_store K ?w)"
    unfolding abs by (intro astore_ok_put i(3) assms(6) astore_okD(6) [OF i(3)])
  moreover have "heaps_ok K ?w"
    using i(2) assms(3-5) linked_update [OF i(4) assms(3,4)] by (auto simp: heaps_ok_def)
  ultimately show ?thesis using i(1,7) by (simp add: reaches_def store_inv_def outside_def)
qed

lemma toot_update_reaches:
  assumes "store_inv K w" "find_toot K k w = Some p" "toot_heap w p = Some t"
    "t_toot_id t' = t_toot_id t" "t_device_id t' = t_device_id t"
  shows "reaches K w (put_toot k (Some t') (abs_store K w)) (w\<lparr>toot_heap := (toot_heap w)(p \<mapsto> t')\<rparr>)"
proof -
  note i = inv_parts [OF assms(1)]
  have f: "k_idr_find K (toots w) k = Some p" using assms(2) by (simp add: find_toot_def)
  let ?w = "w\<lparr>toot_heap := (toot_heap w)(p \<mapsto> t')\<rparr>"
  have abs: "abs_store K ?w = put_toot k (Some t') (abs_store K w)"
    by (simp add: abs_store_def put_toot_def at_update [OF i(5) f])
  have "a_toot (abs_store K w) k = Some t"
    using f assms(3) by (simp add: abs_store_def at_Some)
  then have "astore_ok (abs_store K ?w)"
    unfolding abs using astore_okD(2,3) [OF i(3)] i(3) assms(5) by (intro astore_ok_put) auto
  moreover have "heaps_ok K ?w"
    using i(2) linked_update [OF i(5) assms(3,4)] by (auto simp: heaps_ok_def)
  ultimately show ?thesis using i(1,7) abs by (simp add: reaches_def store_inv_def outside_def)
qed

lemma elem_update_reaches:
  assumes "store_inv K w" "find_element K k w = Some p" "element_heap w p = Some el"
    "e_element_id el' = e_element_id el" "e_toot_id el' = e_toot_id el"
  shows "reaches K w (put_elem k (Some el') (abs_store K w))
           (w\<lparr>element_heap := (element_heap w)(p \<mapsto> el')\<rparr>)"
proof -
  note i = inv_parts [OF assms(1)]
  have f: "k_idr_find K (elements w) k = Some p" using assms(2) by (simp add: find_element_def)
  let ?w = "w\<lparr>element_heap := (element_heap w)(p \<mapsto> el')\<rparr>"
  have abs: "abs_store K ?w = put_elem k (Some el') (abs_store K w)"
    by (simp add: abs_store_def put_elem_def at_update [OF i(6) f])
  have "a_elem (abs_store K w) k = Some el"
    using f assms(3) by (simp add: abs_store_def at_Some)
  then have "astore_ok (abs_store K ?w)"
    unfolding abs using astore_okD(4,5) [OF i(3)] i(3) assms(5) by (intro astore_ok_put) auto
  moreover have "heaps_ok K ?w"
    using i(2) linked_update [OF i(6) assms(3,4)] by (auto simp: heaps_ok_def)
  ultimately show ?thesis using i(1,7) abs by (simp add: reaches_def store_inv_def outside_def)
qed

lemma reaches_refl: "store_inv K w \<Longrightarrow> reaches K w (abs_store K w) w"
  by (simp add: reaches_def)

lemma reaches_trans: "reaches K w a w' \<Longrightarrow> reaches K w' b w'' \<Longrightarrow> reaches K w b w''"
  by (simp add: reaches_def)

lemma reaches_env [simp]:
  "reaches K (w\<lparr>werr := e\<rparr>) a w' = reaches K w a w'" "reaches K w a (w'\<lparr>werr := e\<rparr>) = reaches K w a w'"
  "reaches K (w\<lparr>kenv := x\<rparr>) a w' = reaches K w a w'" "reaches K w a (w'\<lparr>kenv := x\<rparr>) = reaches K w a w'"
  by (simp_all add: reaches_def)

text \<open>The fields that \<open>reaches\<close> looks at.\<close>

definition same_fields :: "('i, 'e) world \<Rightarrow> ('i, 'e) world \<Rightarrow> bool" where
  "same_fields w w' \<longleftrightarrow>
     devices w' = devices w \<and> toots w' = toots w \<and> elements w' = elements w \<and>
     dev_heap w' = dev_heap w \<and> toot_heap w' = toot_heap w \<and> element_heap w' = element_heap w \<and>
     name_heap w' = name_heap w \<and> outside w' = outside w"

lemma same_store:
  "same_fields w w' \<Longrightarrow> store_inv K w' = store_inv K w \<and> abs_store K w' = abs_store K w \<and>
     outside w' = outside w"
  by (simp add: same_fields_def store_inv_def heaps_ok_def abs_store_def outside_def)

lemma reaches_same: "reaches K w a w1 \<Longrightarrow> same_fields w1 w2 \<Longrightarrow> reaches K w a w2"
  using same_store [of w1 w2 K] by (simp add: reaches_def)

lemma reaches_from: "reaches K w1 a w' \<Longrightarrow> outside w = outside w1 \<Longrightarrow> reaches K w a w'"
  by (simp add: reaches_def)

lemma proc_refinesI: "m = Ret w' \<Longrightarrow> reaches K w a w' \<Longrightarrow> proc_refines K w a m"
  by (auto simp: proc_refines_def)

text \<open>Devices.\<close>

definition ready_spec :: "u32 \<Rightarrow> astore \<Rightarrow> astore" where
  "ready_spec k a = put_dev k (map_option (\<lambda>d. d\<lparr>d_is_ready := True\<rparr>) (a_dev a k)) a"

lemma set_device_ready_refines:
  assumes "store_inv K w"
  shows "proc_refines K w (ready_spec k (abs_store K w)) (set_device_ready K k w)"
  using assms
proof (cases rule: device_cases [where k = k])
  case 1
  then show ?thesis using assms
    by (auto intro!: proc_refinesI [of _ w] simp: set_device_ready_def ready_spec_def put_same
        reaches_refl)
next
  case (2 p d)
  let ?d = "d\<lparr>d_is_ready := True\<rparr>"
  have "set_device_ready K k w = Ret (w\<lparr>dev_heap := (dev_heap w)(p \<mapsto> ?d)\<rparr>)"
    using 2 by (cases d) (simp add: set_device_ready_def sem_defs heap_step_defs)
  then show ?thesis
    using dev_update_reaches [OF assms 2(1,2), of ?d] 2
    by (auto intro: proc_refinesI simp: ready_spec_def)
qed

definition attach_spec :: "bool \<Rightarrow> u32 \<Rightarrow> astore \<Rightarrow> astore" where
  "attach_spec b k a = put_dev k (map_option (\<lambda>d. d\<lparr>d_is_attached := b\<rparr>) (a_dev a k)) a"

definition detached :: "('i, 'e) kernel \<Rightarrow> nat \<Rightarrow> device_store_t \<Rightarrow> ('i, 'e) world \<Rightarrow> ('i, 'e) world" where
  "detached K p d w = w\<lparr>dev_heap := (dev_heap w)(p \<mapsto> d\<lparr>d_is_attached := False\<rparr>),
     kenv := (if d_is_attached d then k_cdev_device_del K (d_dev d) (kenv w) else kenv w),
     cdevs := (if d_is_attached d then cdevs w - {p} else cdevs w)\<rparr>"

lemma detach_device_class_run:
  assumes "find_device K k w = Some p" "dev_heap w p = Some d" "d_sem d = 0"
  shows "detach_device_class K k w = Ret (detached K p d w)"
  using assms by (cases d, cases "d_is_attached d")
    (auto simp: detach_device_class_def detached_def sem_defs heap_step_defs)

lemma detach_device_class_refines:
  assumes "store_inv K w"
  shows "proc_refines K w (attach_spec False k (abs_store K w)) (detach_device_class K k w)"
  using assms
proof (cases rule: device_cases [where k = k])
  case 1
  then show ?thesis using assms
    by (auto intro!: proc_refinesI [of _ w] simp: detach_device_class_def attach_spec_def put_same
        reaches_refl)
next
  case (2 p d)
  let ?d = "d\<lparr>d_is_attached := False\<rparr>"
  have "reaches K w (put_dev k (Some ?d) (abs_store K w)) (detached K p d w)"
    by (rule reaches_same [OF dev_update_reaches [OF assms 2(1,2), of ?d]])
      (simp_all add: 2(5) detached_def same_fields_def outside_def)
  then show ?thesis
    using detach_device_class_run [OF 2(1,2,5)] 2 by (auto intro!: proc_refinesI simp: attach_spec_def)
qed

text \<open>
  Attaching is the exception: when \<open>cdev_device_add\<close> fails, the device stays write-locked, and
  every later operation on it blocks.
\<close>

definition locked_forever :: "('i, 'e) kernel \<Rightarrow> u32 \<Rightarrow> ('i, 'e) world \<Rightarrow> bool" where
  "locked_forever K k w \<longleftrightarrow>
     check_device_ready K k w = Fault Deadlock \<and> remove_device K k w = Fault Deadlock \<and>
     detach_device_class K k w = Fault Deadlock \<and> set_device_ready K k w = Fault Deadlock"

definition attached_dev :: "nat \<Rightarrow> device_store_t \<Rightarrow> 'e \<Rightarrow> ('i, 'e) world \<Rightarrow> ('i, 'e) world" where
  "attached_dev p d e w = w\<lparr>dev_heap := (dev_heap w)(p \<mapsto> d\<lparr>d_is_attached := True\<rparr>), kenv := e,
     cdevs := insert p (cdevs w)\<rparr>"

lemma attach_device_class_run:
  assumes "find_device K k w = Some p" "dev_heap w p = Some d" "d_sem d = 0"
    "name_heap w (d_name d) = Some name" "k_cdev_device_add K (d_dev d) name (kenv w) = (r, e)"
  shows "attach_device_class K k w =
    (if r = 0 then Ret (True, attached_dev p d e w)
     else Ret (False, add_error ''attach_device_class: fail device add'' []
            (w\<lparr>dev_heap := (dev_heap w)(p \<mapsto> d\<lparr>d_sem := - 1\<rparr>), kenv := e\<rparr>)))"
  using assms by (cases d, cases "r = 0")
    (auto simp: attach_device_class_def attached_dev_def sem_defs heap_step_defs)

lemma locked_forever_writer:
  assumes "find_device K k w = Some p" "dev_heap w p = Some d" "d_sem d = - 1"
  shows "locked_forever K k w"
  using assms by (simp add: locked_forever_def check_device_ready_def remove_device_def
      detach_device_class_def set_device_ready_def sem_defs heap_step_defs)

lemma attached_reaches:
  assumes "store_inv K w" "find_device K k w = Some p" "dev_heap w p = Some d" "d_sem d = 0"
  shows "reaches K w (put_dev k (Some (d\<lparr>d_is_attached := True\<rparr>)) (abs_store K w)) (attached_dev p d e w)"
  by (rule reaches_same [OF dev_update_reaches [OF assms(1-3), of "d\<lparr>d_is_attached := True\<rparr>"]])
    (simp_all add: assms(4) attached_dev_def same_fields_def outside_def)

lemma attach_device_class_outcome:
  assumes "store_inv K w" "a_dev (abs_store K w) k = Some d"
  shows "\<exists>p name. find_device K k w = Some p \<and> dev_heap w p = Some d \<and> name_heap w (d_name d) = Some name \<and>
    (if fst (k_cdev_device_add K (d_dev d) name (kenv w)) = 0
     then \<exists>w'. attach_device_class K k w = Ret (True, w') \<and>
       reaches K w (attach_spec True k (abs_store K w)) w' \<and> name_heap w' = name_heap w \<and>
       cdevs w' = insert p (cdevs w)
     else \<exists>w'. attach_device_class K k w = Ret (False, w') \<and> locked_forever K k w' \<and> cdevs w' = cdevs w)"
  using assms(1)
proof (cases rule: device_cases [where k = k])
  case 1
  then show ?thesis using assms(2) by simp
next
  case (2 p d')
  then have d: "dev_heap w p = Some d" "d_sem d = 0" using assms(2) by simp_all
  obtain name where name: "name_heap w (d_name d) = Some name"
    using inv_parts(2) [OF assms(1)] d by (auto simp: heaps_ok_def)
  obtain r e where r: "k_cdev_device_add K (d_dev d) name (kenv w) = (r, e)" by fastforce
  note run = attach_device_class_run [OF 2(1) d name r]
  note good = attached_reaches [OF assms(1) 2(1) d, of e]
  let ?w = "add_error ''attach_device_class: fail device add'' []
      (w\<lparr>dev_heap := (dev_heap w)(p \<mapsto> d\<lparr>d_sem := - 1\<rparr>), kenv := e\<rparr>)"
  have locked: "locked_forever K k ?w"
    by (rule locked_forever_writer [of _ _ _ p "d\<lparr>d_sem := - 1\<rparr>"])
      (use 2(1) in \<open>simp_all add: add_error_def find_device_def\<close>)
  have "name_heap (attached_dev p d e w) = name_heap w" "cdevs (attached_dev p d e w) = insert p (cdevs w)"
      "cdevs ?w = cdevs w"
    by (simp_all add: attached_dev_def add_error_def)
  then show ?thesis
    using run good locked 2(1) d name r assms(2)
    by (intro exI [of _ p] exI [of _ name]) (simp add: attach_spec_def)
qed

lemma attach_device_class_cases:
  assumes "store_inv K w" "a_dev (abs_store K w) k = Some d"
  obtains (attached) w' where "attach_device_class K k w = Ret (True, w')"
      "reaches K w (attach_spec True k (abs_store K w)) w'"
    | (failed) w' name e where "attach_device_class K k w = Ret (False, w')" "locked_forever K k w'"
      "fst (k_cdev_device_add K (d_dev d) name e) \<noteq> 0"
  using attach_device_class_outcome [OF assms] attached failed by (metis (full_types))

text \<open>States of toots and elements.\<close>

definition toot_state_spec :: "toot_state \<Rightarrow> u32 \<Rightarrow> astore \<Rightarrow> astore" where
  "toot_state_spec st k a =
     (if usable_toot a k then put_toot k (map_option (\<lambda>t. t\<lparr>t_state := st\<rparr>) (a_toot a k)) a else a)"

definition elem_state_spec :: "element_state \<Rightarrow> u32 \<Rightarrow> astore \<Rightarrow> astore" where
  "elem_state_spec st k a =
     (if usable_elem a k then put_elem k (map_option (\<lambda>el. el\<lparr>e_state := st\<rparr>) (a_elem a k)) a else a)"

lemma set_toot_state_refines:
  assumes "store_inv K w"
  shows "proc_refines K w (toot_state_spec st k (abs_store K w)) (set_toot_state K report st k w)"
proof -
  obtain err where g: "get_toot_when_ready K k (w\<lparr>werr := []\<rparr>) =
      Ret (if usable_toot (abs_store K w) k then find_toot K k w else None, w\<lparr>werr := err\<rparr>)"
    using get_toot_when_ready_reads [of K "w\<lparr>werr := []\<rparr>" k] assms by (auto simp: reads_def)
  show ?thesis
  proof (cases "usable_toot (abs_store K w) k")
    case False
    then have "set_toot_state K report st k w = Ret w"
      by (auto simp: set_toot_state_def with_local_err_def g add_error_def split: option.splits)
    then show ?thesis using False assms reaches_refl
      by (auto intro!: proc_refinesI simp: toot_state_spec_def)
  next
    case True
    then obtain t p where t: "a_toot (abs_store K w) k = Some t" "find_toot K k w = Some p"
        "toot_heap w p = Some t"
      using usable_toot_exists toot_cases [OF assms, of k] by (metis option.inject option.simps(3))
    have "set_toot_state K report st k w =
        Ret (w\<lparr>toot_heap := (toot_heap w)(p \<mapsto> t\<lparr>t_state := st\<rparr>)\<rparr>)"
      using True t by (simp add: set_toot_state_def with_local_err_def g heap_step_defs)
    then show ?thesis
      using True t toot_update_reaches [OF assms t(2,3), of "t\<lparr>t_state := st\<rparr>"]
      by (auto intro!: proc_refinesI simp: toot_state_spec_def)
  qed
qed

lemma set_element_state_refines:
  assumes "store_inv K w"
  shows "proc_refines K w (elem_state_spec st k (abs_store K w)) (set_element_state K st k w)"
proof -
  obtain err where g: "get_element_when_ready K k (w\<lparr>werr := []\<rparr>) =
      Ret (if usable_elem (abs_store K w) k then find_element K k w else None, w\<lparr>werr := err\<rparr>)"
    using get_element_when_ready_reads [of K "w\<lparr>werr := []\<rparr>" k] assms by (auto simp: reads_def)
  show ?thesis
  proof (cases "usable_elem (abs_store K w) k")
    case False
    then have "set_element_state K st k w = Ret w"
      by (auto simp: set_element_state_def with_local_err_def g add_error_def)
    then show ?thesis using False assms reaches_refl
      by (auto intro!: proc_refinesI simp: elem_state_spec_def)
  next
    case True
    then have "a_elem (abs_store K w) k \<noteq> None"
      by (auto simp: usable_elem_def split: option.splits)
    then obtain el p where t: "a_elem (abs_store K w) k = Some el" "find_element K k w = Some p"
        "element_heap w p = Some el"
      using element_cases [OF assms, of k] by metis
    have "set_element_state K st k w =
        Ret (w\<lparr>element_heap := (element_heap w)(p \<mapsto> el\<lparr>e_state := st\<rparr>)\<rparr>)"
      using True t by (simp add: set_element_state_def with_local_err_def g heap_step_defs)
    then show ?thesis
      using True t elem_update_reaches [OF assms t(2,3), of "el\<lparr>e_state := st\<rparr>"]
      by (auto intro!: proc_refinesI simp: elem_state_spec_def)
  qed
qed

end
