(* ===== verification/Driver_Store_Alloc.thy ===== *)
theory Driver_Store_Alloc
  imports Driver_Store_Refine
begin

text \<open>
  Adding to and removing from the store. An addition either gives an id that was free and stores
  the new object under it, or changes nothing; a removal takes the object and everything that
  refers to it.
\<close>

subsection \<open>What Linux promises\<close>

lemma idr_alloc_facts:
  assumes "kernel_ok K" "k_idr_alloc K i lo hi e = ((r, k, i'), e')"
  shows "k_idr_find K i' = k_idr_find K i" "r \<noteq> 0 \<Longrightarrow> k_idr_has K i' = k_idr_has K i"
    "r = 0 \<Longrightarrow> lo \<le> k \<and> k \<le> hi \<and> k_idr_find K i k = None \<and> \<not> k_idr_has K i k \<and>
       k_idr_has K i' = (k_idr_has K i)(k := True)"
proof -
  have "if r = 0
     then lo \<le> k \<and> k \<le> hi \<and> \<not> k_idr_has K i k \<and>
          k_idr_find K i' = k_idr_find K i \<and> k_idr_has K i' = (k_idr_has K i)(k := True)
     else k_idr_find K i' = k_idr_find K i \<and> k_idr_has K i' = k_idr_has K i"
    using assms unfolding kernel_ok_def idr_ok_def by blast
  moreover have "k_idr_find K i k = None" if "\<not> k_idr_has K i k"
    using assms(1) that unfolding kernel_ok_def idr_ok_def by (metis not_None_eq)
  ultimately show "k_idr_find K i' = k_idr_find K i" "r \<noteq> 0 \<Longrightarrow> k_idr_has K i' = k_idr_has K i"
    "r = 0 \<Longrightarrow> lo \<le> k \<and> k \<le> hi \<and> k_idr_find K i k = None \<and> \<not> k_idr_has K i k \<and>
       k_idr_has K i' = (k_idr_has K i)(k := True)"
    by (simp_all split: if_splits)
qed

lemma idr_facts:
  assumes "kernel_ok K"
  shows "k_idr_has K i k \<Longrightarrow> k_idr_find K (k_idr_replace K i p k) = (k_idr_find K i)(k \<mapsto> p)"
    "k_idr_find K (k_idr_remove K i k) = (k_idr_find K i)(k := None)"
    "k_idr_has K i k \<Longrightarrow> k_idr_has K (k_idr_replace K i p k) = k_idr_has K i"
    "k_idr_has K (k_idr_remove K i k) = (k_idr_has K i)(k := False)"
    "\<not> k_idr_has K (k_idr_init K) k"
  using assms by (simp_all add: kernel_ok_def idr_ok_def)

lemma no_spare_remove: "kernel_ok K \<Longrightarrow> no_spare K i \<Longrightarrow> no_spare K (k_idr_remove K i k)"
  by (simp add: no_spare_def idr_facts)

lemma no_spare_init: "kernel_ok K \<Longrightarrow> no_spare K (k_idr_init K)"
  by (simp add: no_spare_def idr_facts)

lemma idr_next_facts:
  assumes "kernel_ok K"
  shows "k_idr_get_next K i k = Some (n, p) \<Longrightarrow> k \<le> n \<and> k_idr_find K i n = Some p"
    "k_idr_get_next K i k = Some (n, p) \<Longrightarrow> k \<le> j \<Longrightarrow> j < n \<Longrightarrow> k_idr_find K i j = None"
    "k_idr_get_next K i k = None \<Longrightarrow> k \<le> j \<Longrightarrow> k_idr_find K i j = None"
proof -
  have "case k_idr_get_next K i k of
        None \<Rightarrow> \<forall>j \<ge> k. k_idr_find K i j = None
      | Some (n, p) \<Rightarrow> k \<le> n \<and> k_idr_find K i n = Some p \<and>
          (\<forall>j. k \<le> j \<and> j < n \<longrightarrow> k_idr_find K i j = None)"
    using assms by (simp only: kernel_ok_def idr_ok_def)
  then show "k_idr_get_next K i k = Some (n, p) \<Longrightarrow> k \<le> n \<and> k_idr_find K i n = Some p"
    "k_idr_get_next K i k = Some (n, p) \<Longrightarrow> k \<le> j \<Longrightarrow> j < n \<Longrightarrow> k_idr_find K i j = None"
    "k_idr_get_next K i k = None \<Longrightarrow> k \<le> j \<Longrightarrow> k_idr_find K i j = None"
    by simp_all
qed

lemma kmalloc_object_run:
  "k_kmalloc_object K (live w) (kenv w) = (q, e) \<Longrightarrow>
     kmalloc_object K w =
       Ret (q, w\<lparr>kenv := e, held := (case q of None \<Rightarrow> held w | Some p \<Rightarrow> Block p # held w)\<rparr>)"
  by (simp add: kmalloc_object_def)

lemma kmalloc_object_fresh:
  assumes "kernel_ok K" "k_kmalloc_object K used e = (Some p, e')"
  shows "\<not> used p"
proof -
  have law: "\<forall>used e a e'. k_kmalloc_object K used e = (Some a, e') \<longrightarrow> \<not> used a"
    using assms(1) unfolding kernel_ok_def malloc_ok_def by (elim conjE)
  show ?thesis
    by (rule law [THEN spec [of _ used], THEN spec [of _ e], THEN spec [of _ p],
        THEN spec [of _ e'], THEN mp]) (rule assms(2))
qed

lemma live_frame [simp]:
  "live (w\<lparr>werr := x1\<rparr>) = live w" "live (w\<lparr>kenv := x2\<rparr>) = live w" "live (w\<lparr>toots := x3\<rparr>) = live w"
  "live (w\<lparr>elements := x4\<rparr>) = live w" "live (w\<lparr>devices := x5\<rparr>) = live w"
  by (simp_all add: live_def fun_eq_iff)

lemma not_live: "\<not> live w p \<Longrightarrow> dev_heap w p = None \<and> toot_heap w p = None \<and> element_heap w p = None \<and>
    name_heap w p = None"
  by (auto simp: live_def)

text \<open>
  An id from the \<open>idr\<close>, then a block for the object: what an addition asks Linux for. \<open>None\<close> when either
  is refused.
\<close>

definition object_given ::
    "('i, 'e) kernel \<Rightarrow> 'i \<Rightarrow> u32 \<Rightarrow> u32 \<Rightarrow> (nat \<Rightarrow> bool) \<Rightarrow> 'e \<Rightarrow> (u32 \<times> nat \<times> 'e) option" where
  "object_given K i lo hi used e =
     (let ((r, k, i'), e) = k_idr_alloc K i lo hi e in
      if r \<noteq> 0 then None
      else let (q, e) = k_kmalloc_object K used e in map_option (\<lambda>p. (k, p, e)) q)"

lemma object_given_cases:
  assumes "kernel_ok K"
  obtains (no_id) r k i' e' where "k_idr_alloc K i lo hi e = ((r, k, i'), e')" "r \<noteq> 0"
      "object_given K i lo hi used e = None" "same_ids K i i'"
    | (no_memory) k i' e' e'' where "k_idr_alloc K i lo hi e = ((0, k, i'), e')"
      "k_kmalloc_object K used e' = (None, e'')" "object_given K i lo hi used e = None"
      "same_ids K i (k_idr_remove K i' k)"
    | (given) k i' e' p e'' where "k_idr_alloc K i lo hi e = ((0, k, i'), e')"
      "k_kmalloc_object K used e' = (Some p, e'')" "object_given K i lo hi used e = Some (k, p, e'')"
      "lo \<le> k" "k \<le> hi" "k_idr_find K i k = None" "\<not> used p"
      "k_idr_find K (k_idr_replace K i' p k) = (k_idr_find K i)(k \<mapsto> p)"
      "no_spare K i \<longrightarrow> no_spare K (k_idr_replace K i' p k)"
proof -
  obtain r k i' e' where al: "k_idr_alloc K i lo hi e = ((r, k, i'), e')" by (metis prod.collapse)
  note al_ok = idr_alloc_facts [OF assms al]
  show ?thesis
  proof (cases "r = 0")
    case False
    then show ?thesis using al al_ok by (intro no_id [of r k i' e']) (simp_all add: object_given_def same_ids_def)
  next
    case True
    obtain q e'' where q: "k_kmalloc_object K used e' = (q, e'')" by fastforce
    have has: "k_idr_has K i' k" using al_ok True by simp
    show ?thesis
    proof (cases q)
      case None
      have "same_ids K i (k_idr_remove K i' k)"
        using al_ok True by (simp add: same_ids_def idr_facts [OF assms] fun_upd_idem)
      then show ?thesis using al q None True by (intro no_memory [of k i' e' e'']) (simp_all add: object_given_def)
    next
      case (Some p)
      have "no_spare K i \<longrightarrow> no_spare K (k_idr_replace K i' p k)"
        using al_ok True by (auto simp: no_spare_def idr_facts(1,3) [OF assms has])
      then show ?thesis
        using al q Some True al_ok kmalloc_object_fresh [OF assms, of used e' p e'']
          idr_facts(1) [OF assms has]
        by (intro given [of k i' e' p e'']) (simp_all add: object_given_def)
    qed
  qed
qed

subsection \<open>Insertion of a fresh object\<close>

lemma toot_insert_reaches:
  assumes "store_inv K w" "no_spare K i'" "k_idr_find K i' = (k_idr_find K (toots w))(k \<mapsto> p)"
    "find_toot K k w = None" "\<not> live w p" "t_toot_id t = k" "k \<le> INT_MAX"
    "a_dev (abs_store K w) (t_device_id t) \<noteq> None"
  shows "reaches K w (put_toot k (Some t) (abs_store K w))
           (w\<lparr>toot_heap := (toot_heap w)(p \<mapsto> t), toots := i'\<rparr>)"
proof -
  note i = inv_parts [OF assms(1)]
  have f: "k_idr_find K (toots w) k = None" "toot_heap w p = None"
    using assms(4) not_live [OF assms(5)] by (simp_all add: find_toot_def)
  let ?w = "w\<lparr>toot_heap := (toot_heap w)(p \<mapsto> t), toots := i'\<rparr>"
  have abs: "abs_store K ?w = put_toot k (Some t) (abs_store K w)"
    by (simp add: abs_store_def put_toot_def assms(3) linked_insert(2) [OF i(5) f assms(6)])
  have "astore_ok (abs_store K ?w)"
    unfolding abs using i(3) assms(7,8) by (rule astore_ok_put)
  moreover have "heaps_ok K ?w"
    using i(2) linked_insert(1) [OF i(5) f assms(6)] by (auto simp: heaps_ok_def assms(2,3))
  ultimately show ?thesis using i(1,7) abs by (simp add: reaches_def store_inv_def outside_def)
qed

lemma elem_insert_reaches:
  assumes "store_inv K w" "no_spare K i'" "k_idr_find K i' = (k_idr_find K (elements w))(k \<mapsto> p)"
    "find_element K k w = None" "\<not> live w p" "e_element_id el = k" "k \<le> INT_MAX"
    "a_toot (abs_store K w) (e_toot_id el) \<noteq> None"
  shows "reaches K w (put_elem k (Some el) (abs_store K w))
           (w\<lparr>element_heap := (element_heap w)(p \<mapsto> el), elements := i'\<rparr>)"
proof -
  note i = inv_parts [OF assms(1)]
  have f: "k_idr_find K (elements w) k = None" "element_heap w p = None"
    using assms(4) not_live [OF assms(5)] by (simp_all add: find_element_def)
  let ?w = "w\<lparr>element_heap := (element_heap w)(p \<mapsto> el), elements := i'\<rparr>"
  have abs: "abs_store K ?w = put_elem k (Some el) (abs_store K w)"
    by (simp add: abs_store_def put_elem_def assms(3) linked_insert(2) [OF i(6) f assms(6)])
  have "astore_ok (abs_store K ?w)"
    unfolding abs using i(3) assms(7,8) by (rule astore_ok_put)
  moreover have "heaps_ok K ?w"
    using i(2) linked_insert(1) [OF i(6) f assms(6)] by (auto simp: heaps_ok_def assms(2,3))
  ultimately show ?thesis using i(1,7) abs by (simp add: reaches_def store_inv_def outside_def)
qed

lemma dev_insert_reaches:
  assumes "store_inv K w" "no_spare K i'" "k_idr_find K i' = (k_idr_find K (devices w))(k \<mapsto> p)"
    "find_device K k w = None" "\<not> live w p" "d_device_id d = k" "d_sem d = 0" "k \<le> INT_MAX"
    "name_heap w (d_name d) \<noteq> None"
  shows "reaches K w (put_dev k (Some d) (abs_store K w))
           (w\<lparr>dev_heap := (dev_heap w)(p \<mapsto> d), devices := i'\<rparr>)"
proof -
  note i = inv_parts [OF assms(1)]
  have f: "k_idr_find K (devices w) k = None" "dev_heap w p = None"
    using assms(4) not_live [OF assms(5)] by (simp_all add: find_device_def)
  let ?w = "w\<lparr>dev_heap := (dev_heap w)(p \<mapsto> d), devices := i'\<rparr>"
  have abs: "abs_store K ?w = put_dev k (Some d) (abs_store K w)"
    by (simp add: abs_store_def put_dev_def assms(3) linked_insert(2) [OF i(4) f assms(6)])
  have "astore_ok (abs_store K ?w)"
    unfolding abs using i(3) assms(7,8) by (rule astore_ok_put)
  moreover have "heaps_ok K ?w"
    using i(2) assms(9) linked_insert(1) [OF i(4) f assms(6)] by (auto simp: heaps_ok_def assms(2,3))
  ultimately show ?thesis using i(1,7) abs by (simp add: reaches_def store_inv_def outside_def)
qed

subsection \<open>Adding a toot\<close>

text \<open>
  For a device that is not ready, or when Linux has no id or no block, nothing is added and all is
  \<open>unchanged\<close>. Otherwise the new toot is the object at the block that Linux gave, under the id that Linux
  gave, which was free.
\<close>

definition added_toot :: "('i, 'e) kernel \<Rightarrow> ('i, 'e) world \<Rightarrow> u32 \<Rightarrow>
    (u32 option \<times> ('i, 'e) world) outcome \<Rightarrow> bool" where
  "added_toot K w device_id m \<longleftrightarrow>
     (case if ready_dev (abs_store K w) device_id
           then object_given K (toots w) 0 INT_MAX (live w) (kenv w) else None of
        None \<Rightarrow> \<exists>w'. m = Ret (None, w') \<and> unchanged K w w'
      | Some (k, p, e) \<Rightarrow>
          let t = \<lparr>t_toot_id = k, t_device_id = device_id, t_state = OPEN_RESULT_WAIT,
                   t_element_count = k_word K e\<rparr> in
          a_toot (abs_store K w) k = None \<and>
          (\<exists>w'. m = Ret (Some k, w') \<and> reaches K w (put_toot k (Some t) (abs_store K w)) w' \<and>
             toot_heap w' = (toot_heap w)(p \<mapsto> t) \<and> name_heap w' = name_heap w \<and> cdevs w' = cdevs w))"

lemma add_toot_refines:
  assumes "store_inv K w"
  shows "added_toot K w device_id (add_toot K device_id w)"
proof -
  have K: "kernel_ok K" using assms by (simp add: store_inv_def)
  obtain err where c: "check_device_ready K device_id w =
      Ret (ready_dev (abs_store K w) device_id, w\<lparr>werr := err\<rparr>)"
    using check_device_ready_reads [OF assms] by (auto simp: reads_def)
  show ?thesis
  proof (cases "ready_dev (abs_store K w) device_id")
    case False
    then show ?thesis
      by (auto simp: added_toot_def add_toot_def c unchanged_def outside_def)
  next
    case ready: True
    from K show ?thesis
    proof (cases rule: object_given_cases [where i = "toots w" and lo = 0 and hi = INT_MAX
          and used = "live w" and e = "kenv w"])
      case (no_id r k i' e')
      then show ?thesis using ready
        by (auto simp: added_toot_def add_toot_def c unchanged_def outside_def add_error_def)
    next
      case (no_memory k i' e' e'')
      have "kmalloc_object K (w\<lparr>werr := err, kenv := e', toots := i'\<rparr>) =
          Ret (None, w\<lparr>werr := err, kenv := e'', toots := i'\<rparr>)"
        using kmalloc_object_run [of K "w\<lparr>werr := err, kenv := e', toots := i'\<rparr>"] no_memory(2) by simp
      then show ?thesis using ready no_memory
        by (auto simp: added_toot_def add_toot_def c unchanged_def outside_def add_error_def)
    next
      case (given k i' e' p e'')
      define t where "t = \<lparr>t_toot_id = k, t_device_id = device_id, t_state = OPEN_RESULT_WAIT,
                          t_element_count = k_word K e''\<rparr>"
      let ?j = "k_idr_replace K i' p k"
      let ?w = "w\<lparr>werr := err, kenv := e'', held := held w, toot_heap := (toot_heap w)(p \<mapsto> t), toots := ?j\<rparr>"
      have none: "find_toot K k w = None" "a_toot (abs_store K w) k = None"
        using given(6) by (simp_all add: find_toot_def abs_store_def at_None)
      have "reaches K w (put_toot k (Some t) (abs_store K w))
          (w\<lparr>toot_heap := (toot_heap w)(p \<mapsto> t), toots := ?j\<rparr>)"
        using toot_insert_reaches [OF assms _ given(8) none(1) given(7), of t] given(5,9) ready
          inv_parts(2) [OF assms]
        by (simp add: t_def ready_dev_def heaps_ok_def split: option.splits)
      then have "reaches K w (put_toot k (Some t) (abs_store K w)) ?w"
        by (rule reaches_same) (simp add: same_fields_def outside_def)
      moreover have "kmalloc_object K (w\<lparr>werr := err, kenv := e', toots := i'\<rparr>) =
          Ret (Some p, w\<lparr>werr := err, kenv := e'', toots := i', held := Block p # held w\<rparr>)"
        using kmalloc_object_run [of K "w\<lparr>werr := err, kenv := e', toots := i'\<rparr>"] given(2) by simp
      then have "add_toot K device_id w = Ret (Some k, ?w)"
        using ready given(1) by (simp add: add_toot_def c settle_def t_def)
      ultimately show ?thesis using ready given(3) none(2) by (simp add: added_toot_def t_def)
    qed
  qed
qed

text \<open>What the handlers need of it: all or nothing.\<close>

lemma added_toot_cases:
  assumes "store_inv K w" "added_toot K w device_id m"
  shows "refines K w None (abs_store K w) m \<or>
     ready_dev (abs_store K w) device_id \<and>
     (\<exists>k n. a_toot (abs_store K w) k = None \<and>
        refines K w (Some k)
          (put_toot k (Some \<lparr>t_toot_id = k, t_device_id = device_id, t_state = OPEN_RESULT_WAIT,
                            t_element_count = n\<rparr>) (abs_store K w)) m)"
  using assms(2) unchanged_refines [OF assms(1)]
  by (fastforce simp: added_toot_def refines_def Let_def split: if_splits option.splits)

subsection \<open>Adding an element\<close>

definition added_element :: "('i, 'e) kernel \<Rightarrow> ('i, 'e) world \<Rightarrow> u32 \<Rightarrow>
    ((u32 \<times> u32) option \<times> ('i, 'e) world) outcome \<Rightarrow> bool" where
  "added_element K w toot_id m \<longleftrightarrow>
     (case if open_toot (abs_store K w) toot_id
           then object_given K (elements w) 0 INT_MAX (live w) (kenv w) else None of
        None \<Rightarrow> \<exists>w'. m = Ret (None, w') \<and> unchanged K w w'
      | Some (k, p, e) \<Rightarrow>
          a_elem (abs_store K w) k = None \<and>
          (\<exists>t. a_toot (abs_store K w) toot_id = Some t \<and>
             (let n = t_element_count t + 1;
                  el = \<lparr>e_element_id = k, e_toot_id = toot_id, e_state = ELEMENT_READY, e_index = n\<rparr> in
              \<exists>w'. m = Ret (Some (k, n), w') \<and>
                reaches K w (put_elem k (Some el)
                  (put_toot toot_id (Some (t\<lparr>t_element_count := n\<rparr>)) (abs_store K w))) w' \<and>
                element_heap w' = (element_heap w)(p \<mapsto> el) \<and>
                name_heap w' = name_heap w \<and> cdevs w' = cdevs w)))"

lemma add_element_refines:
  assumes "store_inv K w"
  shows "added_element K w toot_id (add_element K toot_id w)"
proof -
  have K: "kernel_ok K" using assms by (simp add: store_inv_def)
  let ?a = "abs_store K w"
  obtain err where c: "check_toot_ready K toot_id w = Ret (open_toot ?a toot_id, w\<lparr>werr := err\<rparr>)"
    using check_toot_ready_reads [OF assms] by (auto simp: reads_def)
  show ?thesis
  proof (cases "open_toot ?a toot_id")
    case False
    then show ?thesis
      by (auto simp: added_element_def add_element_def c unchanged_def outside_def add_error_def)
  next
    case ready: True
    then have "a_toot ?a toot_id \<noteq> None" by (auto simp: open_toot_def split: option.splits)
    then obtain q t where q: "find_toot K toot_id w = Some q" "toot_heap w q = Some t"
        "a_toot ?a toot_id = Some t"
      using toot_cases [OF assms, of toot_id] by metis
    from K show ?thesis
    proof (cases rule: object_given_cases [where i = "elements w" and lo = 0 and hi = INT_MAX
          and used = "live w" and e = "kenv w"])
      case (no_id r k i' e')
      then show ?thesis using ready
        by (auto simp: added_element_def add_element_def c unchanged_def outside_def add_error_def)
    next
      case (no_memory k i' e' e'')
      have "kmalloc_object K (w\<lparr>werr := err, kenv := e', elements := i'\<rparr>) =
          Ret (None, w\<lparr>werr := err, kenv := e'', elements := i'\<rparr>)"
        using kmalloc_object_run [of K "w\<lparr>werr := err, kenv := e', elements := i'\<rparr>"] no_memory(2) by simp
      then show ?thesis using ready no_memory
        by (auto simp: added_element_def add_element_def c unchanged_def outside_def add_error_def)
    next
      case (given k i' e' p e'')
      define n where "n = t_element_count t + 1"
      define el where "el = \<lparr>e_element_id = k, e_toot_id = toot_id, e_state = ELEMENT_READY, e_index = n\<rparr>"
      define t' where "t' = t\<lparr>t_element_count := n\<rparr>"
      let ?j = "k_idr_replace K i' p k"
      let ?w1 = "w\<lparr>toot_heap := (toot_heap w)(q \<mapsto> t')\<rparr>"
      let ?w2 = "?w1\<lparr>element_heap := (element_heap w)(p \<mapsto> el), elements := ?j\<rparr>"
      let ?w = "?w2\<lparr>werr := err, kenv := e'', held := held w\<rparr>"
      have none: "find_element K k w = None" "a_elem ?a k = None"
        using given(6) by (simp_all add: find_element_def abs_store_def at_None)
      have w1: "reaches K w (put_toot toot_id (Some t') ?a) ?w1"
        by (rule toot_update_reaches [OF assms q(1,2)]) (simp_all add: t'_def)
      then have inv1: "store_inv K ?w1" "abs_store K ?w1 = put_toot toot_id (Some t') ?a"
        by (simp_all add: reaches_def)
      have "\<not> live ?w1 p" using given(7) q(2) by (auto simp: live_def)
      then have "reaches K ?w1 (put_elem k (Some el) (put_toot toot_id (Some t') ?a)) ?w2"
        using elem_insert_reaches [OF inv1(1), of ?j k p el] given(5,8,9) none(1) inv1(2)
          inv_parts(2) [OF assms]
        by (simp add: el_def find_element_def put_toot_def heaps_ok_def)
      from reaches_trans [OF w1 this]
      have w2: "reaches K w (put_elem k (Some el) (put_toot toot_id (Some t') ?a)) ?w"
        by (rule reaches_same) (simp add: same_fields_def outside_def)
      have "kmalloc_object K (w\<lparr>werr := err, kenv := e', elements := i'\<rparr>) =
          Ret (Some p, w\<lparr>werr := err, kenv := e'', elements := i', held := Block p # held w\<rparr>)"
        using kmalloc_object_run [of K "w\<lparr>werr := err, kenv := e', elements := i'\<rparr>"] given(2) by simp
      then have "add_element K toot_id w = Ret (Some (k, n), ?w)"
        using ready given(1) q
        by (simp add: add_element_def c find_toot_def heap_step_defs settle_def el_def t'_def n_def Let_def)
      then show ?thesis
        unfolding added_element_def Let_def
        using ready given(3) none(2) q(3) w2 by (simp add: el_def t'_def n_def)
    qed
  qed
qed

lemma added_element_cases:
  assumes "store_inv K w" "added_element K w toot_id m"
  shows "refines K w None (abs_store K w) m \<or>
     open_toot (abs_store K w) toot_id \<and>
     (\<exists>k t. a_elem (abs_store K w) k = None \<and> a_toot (abs_store K w) toot_id = Some t \<and>
        (let n = t_element_count t + 1 in
         refines K w (Some (k, n))
           (put_elem k (Some \<lparr>e_element_id = k, e_toot_id = toot_id, e_state = ELEMENT_READY,
                             e_index = n\<rparr>)
             (put_toot toot_id (Some (t\<lparr>t_element_count := n\<rparr>)) (abs_store K w))) m))"
  using assms(2) unchanged_refines [OF assms(1)]
  by (fastforce simp: added_element_def refines_def Let_def split: if_splits option.splits)

end
