(* ===== verification/Driver_Store_Remove.thy ===== *)
theory Driver_Store_Remove
  imports Driver_Store_Alloc
begin

text \<open>
  Removal, with everything that refers to the object removed: the loops over an \<open>idr\<close> end, and
  what they leave behind is the store without these objects.
\<close>

subsection \<open>One element\<close>

lemma astore_ok_drop_elem: "astore_ok a \<Longrightarrow> astore_ok (put_elem k None a)"
  by (simp add: astore_ok_def put_elem_def)

lemma remove_element_refines:
  assumes "store_inv K w"
  shows "proc_refines K w (put_elem k None (abs_store K w)) (remove_element K k w)"
  using assms
proof (cases rule: element_cases [where k = k])
  case 1
  then show ?thesis using assms
    by (auto intro!: proc_refinesI [of _ w] simp: remove_element_def put_same reaches_refl)
next
  case (2 p el)
  note i = inv_parts [OF assms]
  have f: "k_idr_find K (elements w) k = Some p" using 2(1) by (simp add: find_element_def)
  let ?w = "w\<lparr>elements := k_idr_remove K (elements w) k, element_heap := (element_heap w)(p := None)\<rparr>"
  have run: "remove_element K k w = Ret ?w"
    using 2 by (simp add: remove_element_def heap_step_defs)
  have abs: "abs_store K ?w = put_elem k None (abs_store K w)"
    by (simp add: abs_store_def put_elem_def idr_facts(2) [OF i(1)] linked_delete(2) [OF i(6) f])
  have "heaps_ok K ?w"
    using i(2) linked_delete(1) [OF i(6) f] by (simp add: heaps_ok_def idr_facts(2) [OF i(1)] no_spare_remove [OF i(1)])
  then have "reaches K w (put_elem k None (abs_store K w)) ?w"
    using i(1,7) abs astore_ok_drop_elem [OF i(3)] by (simp add: reaches_def store_inv_def outside_def)
  with run show ?thesis by (rule proc_refinesI)
qed

subsection \<open>Loops over an \<open>idr\<close>\<close>

lemma unat_add_1: "k \<le> INT_MAX \<Longrightarrow> unat (k + 1) = unat k + 1"
  by (simp add: INT_MAX_def word_le_nat_alt unat_word_ariths)

lemma for_each_rule:
  assumes "I lo w" "IDS \<le> unat lo + fuel"
    "\<And>lo w k p. I lo w \<Longrightarrow> nxt w lo = Some (k, p) \<Longrightarrow>
       lo \<le> k \<and> k \<le> INT_MAX \<and> (\<exists>w'. body k p w = Ret w' \<and> I (k + 1) w')"
  shows "\<exists>w' last. for_each_entry fuel nxt body lo w = Ret w' \<and> I last w' \<and> nxt w' last = None"
  using assms(1,2)
proof (induction fuel arbitrary: lo w)
  case 0
  then show ?case using unat_u32_less [of lo] by (simp add: IDS_def)
next
  case (Suc fuel)
  show ?case
  proof (cases "nxt w lo")
    case None
    then show ?thesis using Suc.prems(1) by (subst for_each_entry.simps) auto
  next
    case (Some kp)
    obtain k p where kp: "kp = (k, p)" by fastforce
    obtain w' where w': "lo \<le> k" "k \<le> INT_MAX" "body k p w = Ret w'" "I (k + 1) w'"
      using assms(3) [OF Suc.prems(1)] Some kp by blast
    have "IDS \<le> unat (k + 1) + fuel"
      using Suc.prems(2) w'(1,2) by (simp add: unat_add_1 word_le_nat_alt)
    from Suc.IH [OF w'(4) this] Some kp w'(3) show ?thesis
      by (subst for_each_entry.simps) simp
  qed
qed

subsection \<open>A toot and its elements\<close>

text \<open>The elements of toot \<open>k\<close> with ids below a bound are gone.\<close>

definition drop_elems :: "(element_store_t \<Rightarrow> bool) \<Rightarrow> (u32 \<Rightarrow> bool) \<Rightarrow> astore \<Rightarrow> astore" where
  "drop_elems P below a =
     a\<lparr>a_elem := (\<lambda>j. case a_elem a j of None \<Rightarrow> None
                      | Some el \<Rightarrow> if P el \<and> below j then None else Some el)\<rparr>"

definition remove_toot_spec :: "u32 \<Rightarrow> astore \<Rightarrow> astore" where
  "remove_toot_spec k a = drop_elems (\<lambda>el. e_toot_id el = k) (\<lambda>_. True) (put_toot k None a)"

lemma drop_elems_sel [simp]:
  "a_toot (drop_elems P b a) = a_toot a" "a_dev (drop_elems P b a) = a_dev a"
  by (simp_all add: drop_elems_def)

lemma drop_elems_none: "(\<And>j el. a_elem a j = Some el \<Longrightarrow> P el \<Longrightarrow> b j \<Longrightarrow> False) \<Longrightarrow> drop_elems P b a = a"
proof -
  assume "\<And>j el. a_elem a j = Some el \<Longrightarrow> P el \<Longrightarrow> b j \<Longrightarrow> False"
  then have "(\<lambda>j. case a_elem a j of None \<Rightarrow> None
      | Some el \<Rightarrow> if P el \<and> b j then None else Some el) = a_elem a"
    by (intro ext) (auto split: option.splits)
  then show ?thesis by (simp add: drop_elems_def)
qed

text \<open>Removing elements leaves toots and devices where they are.\<close>

definition keeps_toots :: "('i, 'e) world \<Rightarrow> ('i, 'e) world \<Rightarrow> bool" where
  "keeps_toots w w' \<longleftrightarrow>
     toots w' = toots w \<and> toot_heap w' = toot_heap w \<and> devices w' = devices w \<and>
     dev_heap w' = dev_heap w \<and> name_heap w' = name_heap w \<and> cdevs w' = cdevs w"

lemma remove_element_keeps: "remove_element K k w = Ret w' \<Longrightarrow> keeps_toots w w'"
  by (auto simp: remove_element_def heap_step_defs keeps_toots_def outcome_simps
      split: option.splits)

lemma remove_elements_loop:
  assumes "store_inv K w"
  shows "\<exists>w'. for_each_entry IDS (\<lambda>w. k_idr_get_next K (elements w)) (remove_element_of K k) 0 w = Ret w' \<and>
    reaches K w (drop_elems (\<lambda>el. e_toot_id el = k) (\<lambda>_. True) (abs_store K w)) w' \<and> keeps_toots w w'"
proof -
  let ?a = "abs_store K w" and ?P = "\<lambda>el. e_toot_id el = k"
  let ?I = "\<lambda>lo w'. reaches K w (drop_elems ?P (\<lambda>j. j < lo) ?a) w' \<and> keeps_toots w w'"
  have K: "kernel_ok K" using assms by (rule inv_parts)
  have "\<exists>w' last. for_each_entry IDS (\<lambda>w. k_idr_get_next K (elements w)) (remove_element_of K k) 0 w =
      Ret w' \<and> ?I last w' \<and> k_idr_get_next K (elements w') last = None"
  proof (rule for_each_rule)
    have "drop_elems ?P (\<lambda>j. j < 0) ?a = ?a" by (rule drop_elems_none) simp
    then show "?I 0 w" using reaches_refl [OF assms] by (simp add: keeps_toots_def)
    show "IDS \<le> unat (0 :: u32) + IDS" by simp
  next
    fix lo :: u32 and w1 :: "('a, 'b) world" and j p
    assume I: "?I lo w1" and nxt: "k_idr_get_next K (elements w1) lo = Some (j, p)"
    have inv: "store_inv K w1" and abs: "abs_store K w1 = drop_elems ?P (\<lambda>j. j < lo) ?a"
      using I by (simp_all add: reaches_def)
    note nx = idr_next_facts(1,2) [OF K nxt]
    obtain el where el: "element_heap w1 p = Some el" "a_elem (abs_store K w1) j = Some el"
      using nx(1) by (cases rule: element_cases [OF inv, where k = j]) (auto simp: find_element_def)
    have j: "j \<le> INT_MAX" using astore_okD(4) [OF inv_parts(3) [OF inv] el(2)] .
    have gap: "a_elem (abs_store K w1) i = None" if "lo \<le> i" "i < j" for i
      using nx(2) [OF that] by (simp add: abs_store_def at_None)
    have le: "i < j + 1 \<longleftrightarrow> i \<le> j" for i :: u32
      using unat_add_1 [OF j] by (simp add: word_le_nat_alt word_less_nat_alt less_Suc_eq_le)
    have step: "(if ?P el then put_elem j None (abs_store K w1) else abs_store K w1) =
        drop_elems ?P (\<lambda>i. i < j + 1) ?a"
    proof -
      have "(case a_elem ?a i of None \<Rightarrow> None | Some e \<Rightarrow> if ?P e \<and> i < j + 1 then None else Some e) =
          (if ?P el then (a_elem (abs_store K w1))(j := None) else a_elem (abs_store K w1)) i" for i
      proof (cases "i = j")
        case True
        with el(2) show ?thesis unfolding abs le
          by (auto simp: drop_elems_def split: option.splits if_splits)
      next
        case False
        have "i < lo \<Longrightarrow> i \<le> j" using nx(1) by (auto intro: less_imp_le less_le_trans)
        moreover have "lo \<le> i \<Longrightarrow> i \<le> j \<Longrightarrow> a_elem (abs_store K w1) i = None"
          using gap [of i] False by (simp add: le_less)
        ultimately show ?thesis using False unfolding abs le
          by (cases "i < lo") (auto simp: drop_elems_def not_less split: option.splits if_splits)
      qed
      then show ?thesis unfolding abs
        by (simp add: drop_elems_def put_elem_def fun_eq_iff)
    qed
    have "\<exists>w'. remove_element_of K k j p w1 = Ret w' \<and> ?I (j + 1) w'"
    proof (cases "?P el")
      case True
      then have "proc_refines K w1 (drop_elems ?P (\<lambda>i. i < j + 1) ?a) (remove_element_of K k j p w1)"
        using remove_element_refines [OF inv, of j] step el(1)
        by (simp add: remove_element_of_def heap_step_defs)
      then obtain w' where w': "remove_element_of K k j p w1 = Ret w'"
          "reaches K w1 (drop_elems ?P (\<lambda>i. i < j + 1) ?a) w'"
        by (auto simp: proc_refines_def)
      moreover have "keeps_toots w1 w'"
        using remove_element_keeps w'(1) True el(1)
        by (auto simp: remove_element_of_def heap_step_defs)
      ultimately show ?thesis using I reaches_trans [of K w] by (auto simp: keeps_toots_def)
    next
      case False
      then show ?thesis using step el(1) I abs by (auto simp: remove_element_of_def heap_step_defs)
    qed
    then show "lo \<le> j \<and> j \<le> INT_MAX \<and> (\<exists>w'. remove_element_of K k j p w1 = Ret w' \<and> ?I (j + 1) w')"
      using nx(1) j by simp
  qed
  then obtain w' last where w': "for_each_entry IDS (\<lambda>w. k_idr_get_next K (elements w))
      (remove_element_of K k) 0 w = Ret w'" "?I last w'" "k_idr_get_next K (elements w') last = None"
    by blast
  have "a_elem (drop_elems ?P (\<lambda>j. j < last) ?a) i = None" if "last \<le> i" for i
  proof -
    have "a_elem (abs_store K w') i = None"
      using idr_next_facts(3) [OF K w'(3) that] by (simp add: abs_store_def at_None)
    then show ?thesis using w'(2) by (simp add: reaches_def)
  qed
  then have "drop_elems ?P (\<lambda>j. j < last) ?a = drop_elems ?P (\<lambda>_. True) ?a"
    by (force simp: drop_elems_def not_less fun_eq_iff split: option.splits if_splits)
  with w' show ?thesis by auto
qed

lemma astore_ok_remove_toot: "astore_ok a \<Longrightarrow> astore_ok (remove_toot_spec k a)"
  unfolding astore_ok_def remove_toot_spec_def
  by (auto simp: put_toot_def drop_elems_def split: option.splits if_splits)

definition keeps_devices :: "('i, 'e) world \<Rightarrow> ('i, 'e) world \<Rightarrow> bool" where
  "keeps_devices w w' \<longleftrightarrow>
     devices w' = devices w \<and> dev_heap w' = dev_heap w \<and> name_heap w' = name_heap w \<and>
     cdevs w' = cdevs w"

lemma remove_toot_refines_keeps:
  assumes "store_inv K w"
  shows "\<exists>w'. remove_toot K k w = Ret w' \<and> reaches K w (remove_toot_spec k (abs_store K w)) w' \<and>
    keeps_devices w w'"
  using assms
proof (cases rule: toot_cases [where k = k])
  case 1
  have "e_toot_id el \<noteq> k" if "a_elem (abs_store K w) j = Some el" for j el
    using astore_okD(5) [OF inv_parts(3) [OF assms] that] 1(2) by auto
  then have "remove_toot_spec k (abs_store K w) = abs_store K w"
    unfolding remove_toot_spec_def using 1(2)
    by (subst put_same(2)) (auto intro!: drop_elems_none)
  then show ?thesis using assms 1 reaches_refl by (auto simp: remove_toot_def keeps_devices_def)
next
  case (2 p t)
  let ?a = "abs_store K w" and ?P = "\<lambda>el. e_toot_id el = k"
  define t' where "t' = t\<lparr>t_state := DESTROYED\<rparr>"
  let ?w1 = "w\<lparr>toot_heap := (toot_heap w)(p \<mapsto> t')\<rparr>"
  have w1: "reaches K w (put_toot k (Some t') ?a) ?w1"
    using toot_update_reaches [OF assms 2(1,2)] by (simp add: t'_def)
  then have inv1: "store_inv K ?w1" by (simp add: reaches_def)
  obtain w2 where w2: "for_each_entry IDS (\<lambda>w. k_idr_get_next K (elements w)) (remove_element_of K k) 0 ?w1 =
      Ret w2" "reaches K ?w1 (drop_elems ?P (\<lambda>_. True) (abs_store K ?w1)) w2" "keeps_toots ?w1 w2"
    using remove_elements_loop [OF inv1, of k] by blast
  have inv2: "store_inv K w2" and abs2: "abs_store K w2 = drop_elems ?P (\<lambda>_. True) (put_toot k (Some t') ?a)"
      and out2: "outside w2 = outside w"
    using w1 w2(2) by (simp_all add: reaches_def)
  note i = inv_parts [OF inv2]
  have f: "k_idr_find K (toots w2) k = Some p"
    using 2(1) w2(3) by (simp add: find_toot_def keeps_toots_def)
  let ?w3 = "w2\<lparr>toots := k_idr_remove K (toots w2) k, toot_heap := (toot_heap w2)(p := None)\<rparr>"
  have "toot_heap w2 p = Some t'" using w2(3) by (simp add: keeps_toots_def)
  then have run: "remove_toot K k w = Ret ?w3"
    using 2 w2(1) by (simp add: remove_toot_def heap_step_defs t'_def)
  have "abs_store K ?w3 = put_toot k None (abs_store K w2)"
    by (simp add: abs_store_def put_toot_def idr_facts(2) [OF i(1)] linked_delete(2) [OF i(5) f])
  then have abs: "abs_store K ?w3 = remove_toot_spec k ?a"
    unfolding abs2 by (simp add: remove_toot_spec_def put_toot_def drop_elems_def)
  have "heaps_ok K ?w3"
    using i(2) linked_delete(1) [OF i(5) f] by (simp add: heaps_ok_def idr_facts(2) [OF i(1)] no_spare_remove [OF i(1)])
  then have "reaches K w (remove_toot_spec k ?a) ?w3"
    using i(1,7) abs astore_ok_remove_toot [OF inv_parts(3) [OF assms]] out2
    by (simp add: reaches_def store_inv_def outside_def)
  moreover have "keeps_devices w ?w3"
    using w2(3) by (simp add: keeps_toots_def keeps_devices_def)
  ultimately show ?thesis using run by blast
qed

lemma remove_toot_refines:
  "store_inv K w \<Longrightarrow> proc_refines K w (remove_toot_spec k (abs_store K w)) (remove_toot K k w)"
  using remove_toot_refines_keeps [of K w k] by (auto simp: proc_refines_def)

subsection \<open>A device with its toots\<close>

definition drop_toots :: "(toot_store_t \<Rightarrow> bool) \<Rightarrow> (u32 \<Rightarrow> bool) \<Rightarrow> astore \<Rightarrow> astore" where
  "drop_toots P below a =
     a\<lparr>a_toot := (\<lambda>j. case a_toot a j of None \<Rightarrow> None
                      | Some t \<Rightarrow> if P t \<and> below j then None else Some t),
       a_elem := (\<lambda>j. case a_elem a j of None \<Rightarrow> None
                      | Some el \<Rightarrow> (case a_toot a (e_toot_id el) of None \<Rightarrow> Some el
                          | Some t \<Rightarrow> if P t \<and> below (e_toot_id el) then None else Some el))\<rparr>"

definition remove_device_spec :: "u32 \<Rightarrow> astore \<Rightarrow> astore" where
  "remove_device_spec k a = drop_toots (\<lambda>t. t_device_id t = k) (\<lambda>_. True) (put_dev k None a)"

lemma drop_toots_dev [simp]: "a_dev (drop_toots P b a) = a_dev a"
  by (simp add: drop_toots_def)

lemma drop_toots_cong:
  assumes "\<And>j t. a_toot a j = Some t \<Longrightarrow> P t \<Longrightarrow> b j = c j"
  shows "drop_toots P b a = drop_toots P c a"
proof -
  have "(P t \<and> b j) = (P t \<and> c j)" if "a_toot a j = Some t" for j t
    using assms [OF that] by blast
  then show ?thesis
    unfolding drop_toots_def by (auto simp: fun_eq_iff cong: option.case_cong if_cong split: option.split)
qed

lemma drop_toots_none: "drop_toots P (\<lambda>_. False) a = a"
proof -
  have "a_toot (drop_toots P (\<lambda>_. False) a) = a_toot a"
    "a_elem (drop_toots P (\<lambda>_. False) a) = a_elem a"
    by (auto simp: drop_toots_def fun_eq_iff split: option.splits)
  then show ?thesis by simp
qed

lemma remove_toot_drop_toots:
  assumes "a_toot a j = Some t" "P t" "\<not> b j"
  shows "remove_toot_spec j (drop_toots P b a) = drop_toots P (b(j := True)) a"
  using assms
  by (auto simp: remove_toot_spec_def drop_toots_def drop_elems_def put_toot_def fun_eq_iff
      split: option.splits if_splits)

lemma remove_toots_loop:
  assumes "store_inv K w"
  shows "\<exists>w'. for_each_entry IDS (\<lambda>w. k_idr_get_next K (toots w)) (remove_toot_of K k) 0 w = Ret w' \<and>
    reaches K w (drop_toots (\<lambda>t. t_device_id t = k) (\<lambda>_. True) (abs_store K w)) w' \<and>
    keeps_devices w w'"
proof -
  let ?a = "abs_store K w" and ?P = "\<lambda>t. t_device_id t = k"
  let ?I = "\<lambda>lo w'. reaches K w (drop_toots ?P (\<lambda>j. j < lo) ?a) w' \<and> keeps_devices w w'"
  have K: "kernel_ok K" using assms by (rule inv_parts)
  have "\<exists>w' last. for_each_entry IDS (\<lambda>w. k_idr_get_next K (toots w)) (remove_toot_of K k) 0 w =
      Ret w' \<and> ?I last w' \<and> k_idr_get_next K (toots w') last = None"
  proof (rule for_each_rule)
    have "drop_toots ?P (\<lambda>j. j < 0) ?a = ?a" using drop_toots_none by simp
    then show "?I 0 w" using reaches_refl [OF assms] by (simp add: keeps_devices_def)
    show "IDS \<le> unat (0 :: u32) + IDS" by simp
  next
    fix lo :: u32 and w1 :: "('a, 'b) world" and j p
    assume I: "?I lo w1" and nxt: "k_idr_get_next K (toots w1) lo = Some (j, p)"
    have inv: "store_inv K w1" and abs: "abs_store K w1 = drop_toots ?P (\<lambda>j. j < lo) ?a"
      using I by (simp_all add: reaches_def)
    note nx = idr_next_facts(1,2) [OF K nxt]
    obtain t where t: "toot_heap w1 p = Some t" "a_toot (abs_store K w1) j = Some t"
      using nx(1) by (cases rule: toot_cases [OF inv, where k = j]) (auto simp: find_toot_def)
    have j: "j \<le> INT_MAX" using astore_okD(2) [OF inv_parts(3) [OF inv] t(2)] .
    have at: "a_toot ?a j = Some t"
      using t(2) unfolding abs by (auto simp: drop_toots_def split: option.splits if_splits)
    have gap: "a_toot ?a i = None" if "lo \<le> i" "i < j" for i
    proof -
      have "a_toot (abs_store K w1) i = None" using nx(2) [OF that] by (simp add: abs_store_def at_None)
      then show ?thesis using that(1) unfolding abs
        by (auto simp: drop_toots_def not_less split: option.splits if_splits)
    qed
    have le: "i < j + 1 \<longleftrightarrow> i \<le> j" for i :: u32
      using unat_add_1 [OF j] by (simp add: word_le_nat_alt word_less_nat_alt less_Suc_eq_le)
    have below: "(i < lo \<or> i = j) = (i < j + 1)" if "a_toot ?a i \<noteq> None" for i
      using gap [of i] that nx(1) unfolding le
      by (metis le_less less_le_trans linorder_not_less order_refl)
    have "\<exists>w'. remove_toot_of K k j p w1 = Ret w' \<and> ?I (j + 1) w'"
    proof (cases "?P t")
      case True
      have "remove_toot_spec j (abs_store K w1) = drop_toots ?P ((\<lambda>j. j < lo)(j := True)) ?a"
        unfolding abs using at True nx(1) by (intro remove_toot_drop_toots) auto
      also have "\<dots> = drop_toots ?P (\<lambda>i. i < j + 1) ?a"
        using below by (intro drop_toots_cong) (auto simp: fun_upd_apply)
      finally have step: "remove_toot_spec j (abs_store K w1) = drop_toots ?P (\<lambda>i. i < j + 1) ?a" .
      obtain w' where "remove_toot K j w1 = Ret w'" "reaches K w1 (drop_toots ?P (\<lambda>i. i < j + 1) ?a) w'"
          "keeps_devices w1 w'"
        using remove_toot_refines_keeps [OF inv, of j] unfolding step by blast
      then show ?thesis using I True t(1) reaches_trans [of K w]
        by (auto simp: remove_toot_of_def heap_step_defs keeps_devices_def)
    next
      case False
      have "drop_toots ?P (\<lambda>i. i < lo) ?a = drop_toots ?P (\<lambda>i. i < j + 1) ?a"
      proof (rule drop_toots_cong)
        fix i s
        assume "a_toot ?a i = Some s" "?P s"
        then show "(i < lo) = (i < j + 1)" using below [of i] at False by auto
      qed
      with False t(1) I show ?thesis by (auto simp: remove_toot_of_def heap_step_defs)
    qed
    then show "lo \<le> j \<and> j \<le> INT_MAX \<and> (\<exists>w'. remove_toot_of K k j p w1 = Ret w' \<and> ?I (j + 1) w')"
      using nx(1) j by simp
  qed
  then obtain w' last where w': "for_each_entry IDS (\<lambda>w. k_idr_get_next K (toots w))
      (remove_toot_of K k) 0 w = Ret w'" "?I last w'" "k_idr_get_next K (toots w') last = None"
    by blast
  have "i < last" if "a_toot ?a i = Some t" for i t
  proof (rule ccontr)
    assume i: "\<not> i < last"
    have "a_toot (abs_store K w') i = None"
      using idr_next_facts(3) [OF K w'(3), of i] i by (simp add: abs_store_def at_None not_less)
    then have "a_toot (drop_toots ?P (\<lambda>j. j < last) ?a) i = None" using w'(2) by (simp add: reaches_def)
    with that i show False by (simp add: drop_toots_def)
  qed
  then have "drop_toots ?P (\<lambda>j. j < last) ?a = drop_toots ?P (\<lambda>_. True) ?a"
    by (intro drop_toots_cong) auto
  with w' show ?thesis by auto
qed

lemma drop_toots_put_dev: "drop_toots P b (put_dev k d a) = put_dev k d (drop_toots P b a)"
  by (simp add: drop_toots_def put_dev_def cong: option.case_cong)

lemma put_dev_twice: "put_dev k d (put_dev k d' a) = put_dev k d a"
  by (simp add: put_dev_def)

lemma astore_ok_remove_device:
  assumes "astore_ok a"
  shows "astore_ok (remove_device_spec k a)"
  unfolding astore_ok_def
proof (intro conjI allI impI)
  fix j el
  assume "a_elem (remove_device_spec k a) j = Some el"
  then have el: "a_elem a j = Some el"
    and keep: "\<And>t. a_toot a (e_toot_id el) = Some t \<Longrightarrow> t_device_id t \<noteq> k"
    by (auto simp: remove_device_spec_def put_dev_def drop_toots_def split: option.splits if_splits)
  show "j \<le> INT_MAX" using el assms by (rule astore_okD(4) [rotated])
  obtain t where "a_toot a (e_toot_id el) = Some t" using astore_okD(5) [OF assms el] by blast
  then show "a_toot (remove_device_spec k a) (e_toot_id el) \<noteq> None"
    using keep by (simp add: remove_device_spec_def put_dev_def drop_toots_def)
qed (use astore_okD(1-3,6) [OF assms] in
    \<open>auto simp: remove_device_spec_def put_dev_def drop_toots_def split: option.splits if_splits\<close>)

lemma remove_device_spec_none:
  assumes "astore_ok a" "a_dev a k = None"
  shows "remove_device_spec k a = a"
proof -
  have "t_device_id t \<noteq> k" if "a_toot a j = Some t" for j t
    using astore_okD(3) [OF assms(1) that] assms(2) by auto
  then have "drop_toots (\<lambda>t. t_device_id t = k) (\<lambda>_. True) a = a"
    by (subst drop_toots_cong [of _ _ _ "\<lambda>_. False"]) (auto simp: drop_toots_none)
  then show ?thesis
    unfolding remove_device_spec_def using assms(2) by (subst put_same(1)) simp_all
qed

lemma remove_device_spec_put: "remove_device_spec k (put_dev k d a) = remove_device_spec k a"
  by (simp add: remove_device_spec_def put_dev_twice)

text \<open>The block of the device's name is never given back.\<close>

lemma remove_device_refines_names:
  assumes "store_inv K w"
  shows "\<exists>w'. remove_device K k w = Ret w' \<and> reaches K w (remove_device_spec k (abs_store K w)) w' \<and>
    name_heap w' = name_heap w \<and> cdevs w' = cdevs w \<and>
    (\<forall>p. find_device K k w = Some p \<longrightarrow> dev_heap w' = (dev_heap w)(p := None))"
  using assms
proof (cases rule: device_cases [where k = k])
  case 1
  have "remove_device_spec k (abs_store K w) = abs_store K w"
    by (rule remove_device_spec_none [OF inv_parts(3) [OF assms] 1(2)])
  then show ?thesis using assms 1 reaches_refl by (auto simp: remove_device_def)
next
  case (2 p d)
  let ?a = "abs_store K w" and ?P = "\<lambda>t. t_device_id t = k"
  define d' where "d' = d\<lparr>d_is_ready := False\<rparr>"
  let ?w1 = "w\<lparr>dev_heap := (dev_heap w)(p \<mapsto> d')\<rparr>"
  have w1: "reaches K w (put_dev k (Some d') ?a) ?w1"
    using dev_update_reaches [OF assms 2(1,2)] 2(5) by (simp add: d'_def)
  then have inv1: "store_inv K ?w1" by (simp add: reaches_def)
  obtain w2 where w2: "for_each_entry IDS (\<lambda>w. k_idr_get_next K (toots w)) (remove_toot_of K k) 0 ?w1 =
      Ret w2" "reaches K ?w1 (drop_toots ?P (\<lambda>_. True) (abs_store K ?w1)) w2" "keeps_devices ?w1 w2"
    using remove_toots_loop [OF inv1, of k] by blast
  have inv2: "store_inv K w2" and abs2: "abs_store K w2 = drop_toots ?P (\<lambda>_. True) (put_dev k (Some d') ?a)"
      and out2: "outside w2 = outside w"
    using w1 w2(2) by (simp_all add: reaches_def)
  note i = inv_parts [OF inv2]
  have f: "k_idr_find K (devices w2) k = Some p"
    using 2(1) w2(3) by (simp add: find_device_def keeps_devices_def)
  let ?w3 = "w2\<lparr>devices := k_idr_remove K (devices w2) k, dev_heap := (dev_heap w2)(p := None)\<rparr>"
  have "dev_heap w2 p = Some d'" using w2(3) by (simp add: keeps_devices_def)
  moreover have "(dev_heap w)(p \<mapsto> d\<lparr>d_is_ready := False, d_sem := 0\<rparr>) = (dev_heap w)(p \<mapsto> d')"
    using 2(5) by (cases d) (simp add: d'_def)
  ultimately have run: "remove_device K k w = Ret ?w3"
    using 2 w2(1) by (simp add: remove_device_def sem_defs heap_step_defs)
  have "abs_store K ?w3 = put_dev k None (abs_store K w2)"
    by (simp add: abs_store_def put_dev_def idr_facts(2) [OF i(1)] linked_delete(2) [OF i(4) f])
  then have abs: "abs_store K ?w3 = remove_device_spec k ?a"
    unfolding abs2 by (simp add: remove_device_spec_def drop_toots_put_dev put_dev_twice)
  have "heaps_ok K ?w3"
    using i(2) linked_delete(1) [OF i(4) f] by (auto simp: heaps_ok_def idr_facts(2) [OF i(1)] no_spare_remove [OF i(1)])
  then have "reaches K w (remove_device_spec k ?a) ?w3"
    using i(1,7) abs astore_ok_remove_device [OF inv_parts(3) [OF assms]] out2
    by (simp add: reaches_def store_inv_def outside_def)
  moreover have "name_heap ?w3 = name_heap w" "cdevs ?w3 = cdevs w" "dev_heap ?w3 = (dev_heap w)(p := None)"
    using w2(3) by (simp_all add: keeps_devices_def)
  ultimately show ?thesis using run 2(1) by auto
qed

lemma remove_device_refines:
  "store_inv K w \<Longrightarrow> proc_refines K w (remove_device_spec k (abs_store K w)) (remove_device K k w)"
  using remove_device_refines_names [of K w k] by (auto simp: proc_refines_def)

end
