(* ===== verification/Driver_Store_Add.thy ===== *)
theory Driver_Store_Add
  imports Driver_Store_Remove
begin

text \<open>
  Adding a device, whose name is copied into a block of its own, and the waits for an answer of
  the daemon.
\<close>

subsection \<open>Adding a device\<close>

text \<open>
  What happens once the name is in its block \<open>a\<close>: when Linux has no id or no block for the object, the
  name's block is given back and all is \<open>unchanged\<close>; otherwise the new device is the object at the block
  that Linux gave, under a free minor number between the bounds, with its name in \<open>a\<close>.
\<close>

definition added_device :: "('i, 'e) kernel \<Rightarrow> ('i, 'e) world \<Rightarrow> u32 \<Rightarrow> u32 \<Rightarrow> nat \<Rightarrow> 'e \<Rightarrow> bytes \<Rightarrow>
    (u32 option \<times> ('i, 'e) world) outcome \<Rightarrow> bool" where
  "added_device K w pid uid a e name m \<longleftrightarrow>
     (case object_given K (devices w) (miner_min w) (miner_max w) (\<lambda>p. p = a \<or> live w p) e of
        None \<Rightarrow> \<exists>w'. m = Ret (None, w') \<and> unchanged K w w'
      | Some (k, p, _) \<Rightarrow>
          let d = \<lparr>d_device_id = k, d_pid = pid, d_uid = uid, d_name = a,
                   d_dev = MKDEV (device_major w) k, d_sem = 0, d_is_ready = False,
                   d_is_attached = False\<rparr> in
          a_dev (abs_store K w) k = None \<and> miner_min w \<le> k \<and> k \<le> miner_max w \<and>
          (\<exists>w'. m = Ret (Some k, w') \<and> reaches K w (put_dev k (Some d) (abs_store K w)) w' \<and>
             dev_heap w' = (dev_heap w)(p \<mapsto> d) \<and> name_heap w a = None \<and>
             name_heap w' = (name_heap w)(a \<mapsto> name) \<and> cdevs w' = cdevs w))"

lemma kmalloc_room:
  assumes "kernel_ok K" "k_kmalloc K (live w) n (kenv w) = (Some (a, room), e)"
  shows "\<not> live w a" "n \<le> room"
proof -
  have law: "\<forall>used n e a size e'. k_kmalloc K used n e = (Some (a, size), e') \<longrightarrow> \<not> used a \<and> n \<le> size"
    using assms(1) unfolding kernel_ok_def malloc_ok_def by (elim conjE)
  have "\<not> live w a \<and> n \<le> room"
    by (rule law [THEN spec [of _ "live w"], THEN spec [of _ n], THEN spec [of _ "kenv w"],
          THEN spec [of _ a], THEN spec [of _ room], THEN spec [of _ e], THEN mp]) (rule assms(2))
  then show "\<not> live w a" "n \<le> room" by simp_all
qed

text \<open>A name in a block of its own is no part of the abstract store.\<close>

lemma name_insert_reaches:
  assumes "store_inv K w" "\<not> live w p"
  shows "reaches K w (abs_store K w) (w\<lparr>name_heap := (name_heap w)(p \<mapsto> name)\<rparr>)"
  using assms by (auto simp: reaches_def store_inv_def abs_store_def heaps_ok_def outside_def)

lemma live_name: "live (w\<lparr>name_heap := (name_heap w)(a \<mapsto> x)\<rparr>) = (\<lambda>p. p = a \<or> live w p)"
  by (auto simp: live_def fun_eq_iff)

lemma add_device_named:
  assumes "store_inv K w" "mpack_strlen name = Ret len"
    "k_kmalloc K (live w) len (kenv w) = (Some (a, room), e)" "len < room"
  shows "added_device K w pid uid a e (take (len + 1) name) (add_device K pid uid name w)"
proof -
  let ?a = "abs_store K w" and ?n = "take (len + 1) name"
  let ?wn = "w\<lparr>kenv := e, name_heap := (name_heap w)(a \<mapsto> ?n)\<rparr>"
  have K: "kernel_ok K" using assms(1) by (rule inv_parts)
  have a: "\<not> live w a" using kmalloc_room(1) [OF K assms(3)] .
  then have name: "name_heap w a = None" "(name_heap w)(a := None) = name_heap w"
    using not_live [OF a] by (simp_all add: fun_upd_idem)
  from K show ?thesis
  proof (cases rule: object_given_cases [where i = "devices w" and lo = "miner_min w"
        and hi = "miner_max w" and used = "\<lambda>p. p = a \<or> live w p" and e = e])
    case (no_id r k i' e')
    have "add_device K pid uid name w =
        Ret (None, add_error ''add_device: fail device id allocation'' []
          (w\<lparr>kenv := e', devices := i', name_heap := name_heap w\<rparr>))"
      using assms(2-4) no_id(1,2) name(2) by (simp add: add_device_def heap_step_defs)
    then show ?thesis using no_id
      by (auto simp: added_device_def unchanged_def outside_def add_error_def)
  next
    case (no_memory k i' e' e'')
    have "kmalloc_object K (?wn\<lparr>kenv := e', devices := i'\<rparr>) = Ret (None, ?wn\<lparr>kenv := e'', devices := i'\<rparr>)"
      using kmalloc_object_run [of K "?wn\<lparr>kenv := e', devices := i'\<rparr>"] no_memory(2) by (simp add: live_name)
    then have "add_device K pid uid name w =
        Ret (None, add_error ''add_device: fail device allocation'' []
          (w\<lparr>kenv := e'', devices := k_idr_remove K i' k, name_heap := name_heap w\<rparr>))"
      using assms(2-4) no_memory(1) name(2) by (simp add: add_device_def heap_step_defs)
    then show ?thesis using no_memory
      by (auto simp: added_device_def unchanged_def outside_def add_error_def)
  next
    case (given k i' e' p e'')
    let ?d = "\<lparr>d_device_id = k, d_pid = pid, d_uid = uid, d_name = a,
       d_dev = MKDEV (device_major w) k, d_sem = 0, d_is_ready = False, d_is_attached = False\<rparr>"
    let ?j = "k_idr_replace K i' p k" and ?w1 = "w\<lparr>name_heap := (name_heap w)(a \<mapsto> ?n)\<rparr>"
    let ?w2 = "?w1\<lparr>dev_heap := (dev_heap w)(p \<mapsto> ?d), devices := ?j\<rparr>"
    let ?w = "?w2\<lparr>kenv := e'', held := held w\<rparr>"
    have w1: "reaches K w ?a ?w1" by (rule name_insert_reaches [OF assms(1) a])
    then have inv1: "store_inv K ?w1" "abs_store K ?w1 = ?a" by (simp_all add: reaches_def)
    have small: "k \<le> INT_MAX" using given(5) inv_parts(7) [OF assms(1)] by simp
    have none: "find_device K k ?w1 = None" "a_dev ?a k = None"
      using given(6) by (simp_all add: find_device_def abs_store_def at_None)
    have "\<not> live ?w1 p" using given(7) live_name [of w a ?n] by simp
    then have "reaches K ?w1 (put_dev k (Some ?d) ?a) ?w2"
      using dev_insert_reaches [OF inv1(1), of ?j k p ?d] given(8,9) none(1) small inv1(2)
        inv_parts(2) [OF assms(1)]
      by (simp add: heaps_ok_def)
    from reaches_trans [OF w1 this] have w2: "reaches K w (put_dev k (Some ?d) ?a) ?w"
      by (rule reaches_same) (simp add: same_fields_def outside_def)
    have "kmalloc_object K (?wn\<lparr>kenv := e', devices := i'\<rparr>) =
        Ret (Some p, ?wn\<lparr>kenv := e'', devices := i', held := Block p # held w\<rparr>)"
      using kmalloc_object_run [of K "?wn\<lparr>kenv := e', devices := i'\<rparr>"] given(2) by (simp add: live_name)
    then have "add_device K pid uid name w = Ret (Some k, ?w)"
      using assms(2-4) given(1) by (simp add: add_device_def settle_def)
    then show ?thesis
      unfolding added_device_def Let_def using given(3-5) none(2) w2 name(1) by simp
  qed
qed

lemma add_device_refines:
  assumes "store_inv K w" "mpack_strlen name = Ret len"
  shows "case k_kmalloc K (live w) len (kenv w) of
       (None, e) \<Rightarrow> \<exists>w'. add_device K pid uid name w = Ret (None, w') \<and> unchanged K w w'
     | (Some (a, room), e) \<Rightarrow>
         if room \<le> len then add_device K pid uid name w = Fault Oob_write
         else added_device K w pid uid a e (take (len + 1) name) (add_device K pid uid name w)"
proof -
  obtain r e where m: "k_kmalloc K (live w) len (kenv w) = (r, e)" by fastforce
  show ?thesis
  proof (cases r)
    case None
    then show ?thesis using assms m
      by (auto simp: add_device_def unchanged_def outside_def add_error_def)
  next
    case (Some q)
    then show ?thesis
      using assms m add_device_named [OF assms, of "fst q" "snd q" e pid uid]
      by (cases q) (simp add: add_device_def)
  qed
qed

text \<open>What the handlers need of it.\<close>

lemma added_device_cases:
  assumes "store_inv K w" "added_device K w pid uid a e name m"
  shows "(\<exists>w'. m = Ret (None, w') \<and> unchanged K w w') \<or>
     (\<exists>k w' d. a_dev (abs_store K w) k = None \<and> m = Ret (Some k, w') \<and> d_device_id d = k \<and>
        d_pid d = pid \<and> d_uid d = uid \<and> d_sem d = 0 \<and> d_name d = a \<and> \<not> d_is_attached d \<and>
        reaches K w (put_dev k (Some d) (abs_store K w)) w' \<and> name_heap w a = None \<and>
        name_heap w' = (name_heap w)(a \<mapsto> name) \<and> cdevs w' = cdevs w)"
  using assms(2)
  by (fastforce simp: added_device_def Let_def split: if_splits option.splits)

subsection \<open>Waiting\<close>

text \<open>
  What a wait on a usable toot does: it sleeps unless the awaited state is there, then looks
  through the pointer it took before.
\<close>

lemma wait_toot_run:
  assumes "store_inv K w" "usable_toot (abs_store K w) k" "a_toot (abs_store K w) k = Some t"
  shows "\<exists>p err. find_toot K k w = Some p \<and>
    (let w1 = w\<lparr>werr := err\<rparr>; w2 = (if t_state t \<in> A then w1 else k_sleep K w1) in
     case toot_heap w2 p of
       None \<Rightarrow> wait_toot K func A st k w = Fault Use_after_free
     | Some t' \<Rightarrow> \<exists>err'. wait_toot K func A st k w = Ret (t_state t' = st, w2\<lparr>werr := err'\<rparr>))"
proof -
  obtain p where p: "find_toot K k w = Some p" "toot_heap w p = Some t"
    using assms(3) by (cases rule: toot_cases [OF assms(1), where k = k]) auto
  obtain err where g: "get_toot_when_ready K k w = Ret (Some p, w\<lparr>werr := err\<rparr>)"
    using get_toot_when_ready_reads [OF assms(1), of k] assms(2) p(1) by (auto simp: reads_def)
  define w2 where "w2 = (if t_state t \<in> A then w\<lparr>werr := err\<rparr> else k_sleep K (w\<lparr>werr := err\<rparr>))"
  have run: "wait_toot K func A st k w = and_then (get_toot p w2) (\<lambda>t.
               if t_state t \<noteq> st
               then Ret (False, add_error (func @ '': wake up with failure state. toot id: %d state: %d'') [k, toot_state_code (t_state t)] w2)
               else Ret (True, w2))"
    using p(2) by (auto simp: wait_toot_def g heap_step_defs w2_def Let_def intro!: arg_cong2 [where f = and_then])
  have "case toot_heap w2 p of
       None \<Rightarrow> wait_toot K func A st k w = Fault Use_after_free
     | Some t' \<Rightarrow> \<exists>err'. wait_toot K func A st k w = Ret (t_state t' = st, w2\<lparr>werr := err'\<rparr>)"
  proof (cases "toot_heap w2 p")
    case None
    then show ?thesis by (simp add: run heap_step_defs)
  next
    case (Some t')
    have "w2 = w2\<lparr>werr := werr w2\<rparr>" by simp
    then have "\<exists>err'. w2 = w2\<lparr>werr := err'\<rparr>" ..
    with Some show ?thesis by (auto simp: run heap_step_defs add_error_def)
  qed
  then show ?thesis using p(1) unfolding w2_def Let_def by blast
qed

lemma wait_toot_unusable:
  assumes "store_inv K w" "\<not> usable_toot (abs_store K w) k"
  shows "reads w False (wait_toot K func A st k w)"
  unfolding wait_toot_def
  by (rule reads_then [OF get_toot_when_ready_reads [OF assms(1)]]) (simp add: assms(2))

lemma wait_element_unusable:
  assumes "store_inv K w" "\<not> usable_elem (abs_store K w) k"
  shows "reads w False (wait_element_sent_or_failer K k w)"
  unfolding wait_element_sent_or_failer_def
  by (rule reads_then [OF get_element_when_ready_reads [OF assms(1)]]) (simp add: assms(2))

end
