(* ===== verification/Driver_Module_Safety.thy ===== *)
theory Driver_Module_Safety
  imports Driver_Module Driver_Contract Driver_Store_Add
begin

text \<open>
  The module's operations satisfy the safety contract of the handlers, so every action and every
  message of the daemon keeps the store intact. What can still stop the module are the hazards of
  its environment: each needs a behaviour of Linux that the code does not provide for.
\<close>

subsection \<open>Invariant and hazards\<close>

text \<open>The communicator in the store, if any, is a live object.\<close>

definition com_live :: "('i, 'e) world \<Rightarrow> bool" where
  "com_live w \<longleftrightarrow>
     (c_interface (communicator w) \<noteq> None \<longrightarrow>
      (\<forall>obj. c_obj (communicator w) = Some obj \<longrightarrow> com_heap w obj \<noteq> None))"

text \<open>
  What the store does not own: the communicators, the blocks behind the files, the files themselves, and
  what is held from Linux with the fields that say what to give back. \<open>P\<close> is what a caller relies on
  about them.
\<close>

type_synonym blocks =
  "(nat \<rightharpoonup> nat) \<times> (nat \<rightharpoonup> u32) \<times> (nat \<rightharpoonup> nat) \<times> resource list \<times> u32 \<times> nat \<times> u32"

definition blocks :: "('i, 'e) world \<Rightarrow> blocks" where
  "blocks w = (com_heap w, data_heap w, private_data w, held w, chrdev w, device_class w, miner_max w)"

definition intact ::
    "('i, 'e) kernel \<Rightarrow> (blocks \<Rightarrow> bool) \<Rightarrow> ('i, 'e) world \<Rightarrow> bool" where
  "intact K P w \<longleftrightarrow> store_inv K w \<and> com_live w \<and> P (blocks w)"

text \<open>The other threads, while this one sleeps, keep all of this too.\<close>

definition sleep_ok ::
    "('i, 'e) kernel \<Rightarrow> (blocks \<Rightarrow> bool) \<Rightarrow> bool" where
  "sleep_ok K P \<longleftrightarrow> (\<forall>w. intact K P w \<longrightarrow> intact K P (k_sleep K w))"

definition module_with ::
    "('i, 'e) kernel \<Rightarrow> (blocks \<Rightarrow> bool) \<Rightarrow> ('i, 'e) world \<Rightarrow> bool" where
  "module_with K P w \<longleftrightarrow> intact K P w \<and> sleep_ok K P"

lemma module_with_alt:
  "module_with K P w \<longleftrightarrow> store_inv K w \<and> com_live w \<and> P (blocks w) \<and> sleep_ok K P"
  by (auto simp: module_with_def intact_def)

abbreviation module_inv :: "('i, 'e) kernel \<Rightarrow> ('i, 'e) world \<Rightarrow> bool" where
  "module_inv K \<equiv> module_with K (\<lambda>_. True)"

text \<open>
  A block with no slack behind the characters of a device name, a character device that cannot be
  added, a toot or element that other threads remove while this one waits for it, and a netlink
  message that cannot be allocated.
\<close>

definition hazards :: "('i, 'e) kernel \<Rightarrow> fault set" where
  "hazards K =
     {f. f = Oob_write \<and> (\<exists>used n e a room e'. k_kmalloc K used n e = (Some (a, room), e') \<and> room \<le> n) \<or>
         f = Deadlock \<and> (\<exists>dev name e. fst (k_cdev_device_add K dev name e) \<noteq> 0) \<or>
         f = Use_after_free \<and> (\<exists>w p. toot_heap w p \<noteq> None \<and> toot_heap (k_sleep K w) p = None \<or>
                                  element_heap w p \<noteq> None \<and> element_heap (k_sleep K w) p = None) \<or>
         f = Null_deref \<and> (\<exists>n e. \<not> fst (k_nlmsg_new K n e))}"

lemma reaches_module:
  "reaches K w a w' \<Longrightarrow> module_with K P w \<Longrightarrow> module_with K P w'"
  by (auto simp: reaches_def module_with_alt blocks_def com_live_def blocks_def outside_def)

lemma module_store: "module_with K P w \<Longrightarrow> store_inv K w"
  by (simp add: module_with_alt)

lemma module_err: "module_with K P (w\<lparr>werr := err\<rparr>) = module_with K P w"
  by (simp add: module_with_alt blocks_def com_live_def)

lemma module_env: "module_with K P (w\<lparr>kenv := e\<rparr>) = module_with K P w"
  by (simp add: module_with_alt blocks_def com_live_def)

lemma module_error: "module_with K P (add_error fmt args w) = module_with K P w"
  by (simp add: add_error_def module_err)

lemma unchanged_module: "unchanged K w w' \<Longrightarrow> module_with K P w \<Longrightarrow> module_with K P w'"
  by (rule reaches_module [OF unchanged_reaches]) (auto simp: module_store)

lemma reads_keeps: "reads w r m \<Longrightarrow> module_with K P w \<Longrightarrow> keeps (module_with K P) F m"
  by (auto simp: reads_def module_err)

lemma refines_keeps: "refines K w r a m \<Longrightarrow> module_with K P w \<Longrightarrow> keeps (module_with K P) F m"
  by (auto simp: refines_def intro: reaches_module)

lemma proc_keeps: "proc_refines K w a m \<Longrightarrow> module_with K P w \<Longrightarrow> keeps_proc (module_with K P) F m"
  by (auto simp: proc_refines_def intro: reaches_module)

subsection \<open>The laws of the contract\<close>

lemma add_device_keeps:
  assumes "module_with K P w" "0 \<in> set name"
  shows "keeps (module_with K P) (hazards K) (add_device K pid uid name w)"
proof -
  obtain s r where s: "name = s @ 0 # r" "0 \<notin> set s" using split_list_first [OF assms(2)] by blast
  then have len: "mpack_strlen name = Ret (length s)" by simp
  obtain q e where q: "k_kmalloc K (live w) (length s) (kenv w) = (q, e)" by fastforce
  note r = add_device_refines [OF module_store [OF assms(1)] len, of pid uid]
  show ?thesis
  proof (cases q)
    case None
    then show ?thesis using r q assms(1) unchanged_module [of K w] by auto
  next
    case (Some ar)
    obtain a room where ar: "ar = (a, room)" by fastforce
    show ?thesis
    proof (cases "room \<le> length s")
      case True
      moreover have "Oob_write \<in> hazards K"
        using q Some ar True unfolding hazards_def by blast
      ultimately have "add_device K pid uid name w = Fault Oob_write" "Oob_write \<in> hazards K"
        using r q Some ar by simp_all
      then show ?thesis by (simp add: keeps_def)
    next
      case False
      then have "added_device K w pid uid a e (take (length s + 1) name) (add_device K pid uid name w)"
        using r q Some ar by simp
      from added_device_cases [OF module_store [OF assms(1)] this] show ?thesis
        using assms(1) unchanged_module [of K w] by (auto intro: reaches_module)
    qed
  qed
qed

lemma add_toot_keeps: "module_with K P w \<Longrightarrow> keeps (module_with K P) F (add_toot K k w)"
  using added_toot_cases [OF _ add_toot_refines, of K w k] module_store [of K P w]
  by (blast intro: refines_keeps)

lemma add_element_keeps: "module_with K P w \<Longrightarrow> keeps (module_with K P) F (add_element K k w)"
  using added_element_cases [OF _ add_element_refines, of K w k] module_store [of K P w] unfolding Let_def
  by (blast intro: refines_keeps)

lemma attach_keeps:
  assumes "module_with K P w"
  shows "attach_device_class K k w = Ret (b, w') \<Longrightarrow>
      module_with K P w' \<or> \<not> b \<and> (\<exists>f \<in> hazards K. remove_device K k w' = Fault f)"
    "attach_device_class K k w = Fault f \<Longrightarrow> f \<in> hazards K"
proof -
  have inv: "store_inv K w" using assms by (rule module_store)
  have "\<exists>b w'. attach_device_class K k w = Ret (b, w') \<and>
      (module_with K P w' \<or> \<not> b \<and> (\<exists>f \<in> hazards K. remove_device K k w' = Fault f))"
    using inv
  proof (cases rule: device_cases [where k = k])
    case 1
    then have "attach_device_class K k w = Ret (False, add_error ''attach_device_class: canot find device id'' [] w)"
      by (simp add: attach_device_class_def)
    then show ?thesis using assms module_error by blast
  next
    case (2 p d)
    from inv 2(4) show ?thesis
    proof (cases rule: attach_device_class_cases)
      case (attached w')
      then show ?thesis using reaches_module [OF _ assms] by blast
    next
      case (failed w' name e)
      from failed(3) have "Deadlock \<in> hazards K" by (auto simp: hazards_def)
      with failed(1,2) show ?thesis by (auto simp: locked_forever_def)
    qed
  qed
  then show "attach_device_class K k w = Ret (b, w') \<Longrightarrow>
      module_with K P w' \<or> \<not> b \<and> (\<exists>f \<in> hazards K. remove_device K k w' = Fault f)"
    "attach_device_class K k w = Fault f \<Longrightarrow> f \<in> hazards K"
    by auto
qed

lemma woken:
  assumes "module_with K P w"
  shows "module_with K P (k_sleep K w)"
  using assms by (simp add: module_with_def sleep_ok_def)

lemma wait_toot_keeps:
  assumes "module_with K P w"
  shows "keeps (module_with K P) (hazards K) (wait_toot K func A st k w)"
proof (cases "usable_toot (abs_store K w) k")
  case False
  then show ?thesis using wait_toot_unusable [OF module_store [OF assms]] assms by (blast intro: reads_keeps)
next
  case True
  then obtain t where t: "a_toot (abs_store K w) k = Some t" using usable_toot_exists by blast
  obtain p err where p: "find_toot K k w = Some p"
    "let w1 = w\<lparr>werr := err\<rparr>; w2 = (if t_state t \<in> A then w1 else k_sleep K w1) in
     case toot_heap w2 p of
       None \<Rightarrow> wait_toot K func A st k w = Fault Use_after_free
     | Some t' \<Rightarrow> \<exists>err'. wait_toot K func A st k w = Ret (t_state t' = st, w2\<lparr>werr := err'\<rparr>)"
    using wait_toot_run [OF module_store [OF assms] True t, of A func st] by blast
  define w1 where "w1 = w\<lparr>werr := err\<rparr>"
  define w2 where "w2 = (if t_state t \<in> A then w1 else k_sleep K w1)"
  have run: "case toot_heap w2 p of
       None \<Rightarrow> wait_toot K func A st k w = Fault Use_after_free
     | Some t' \<Rightarrow> \<exists>err'. wait_toot K func A st k w = Ret (t_state t' = st, w2\<lparr>werr := err'\<rparr>)"
    using p(2) unfolding w1_def w2_def Let_def .
  have inv: "module_with K P w1" "module_with K P w2"
    using assms woken [of K _ w1] by (simp_all add: w1_def w2_def module_err)
  have live: "toot_heap w1 p \<noteq> None"
    using p(1) t by (cases rule: toot_cases [OF module_store [OF assms], where k = k]) (auto simp: w1_def)
  show ?thesis
  proof (cases "toot_heap w2 p")
    case None
    then have "toot_heap (k_sleep K w1) p = None" using live by (simp add: w2_def split: if_splits)
    with live have "Use_after_free \<in> hazards K" by (auto simp: hazards_def)
    then show ?thesis using run None by (simp add: keeps_def)
  next
    case (Some t')
    then obtain err' where "wait_toot K func A st k w = Ret (t_state t' = st, w2\<lparr>werr := err'\<rparr>)"
      using run by auto
    then show ?thesis using inv(2) by (simp add: module_err)
  qed
qed

lemma wait_element_keeps:
  assumes "module_with K P w"
  shows "keeps (module_with K P) (hazards K) (wait_element_sent_or_failer K k w)"
proof (cases "usable_elem (abs_store K w) k")
  case False
  then show ?thesis using wait_element_unusable [OF module_store [OF assms]] assms by (blast intro: reads_keeps)
next
  case True
  obtain p el where p: "find_element K k w = Some p" "element_heap w p = Some el"
    using True by (cases rule: element_cases [OF module_store [OF assms], where k = k])
      (auto simp: usable_elem_def)
  obtain err where g: "get_element_when_ready K k w = Ret (Some p, w\<lparr>werr := err\<rparr>)"
    using get_element_when_ready_reads [OF module_store [OF assms], of k] True p(1) by (auto simp: reads_def)
  define w1 where "w1 = w\<lparr>werr := err\<rparr>"
  have inv: "module_with K P w1" "module_with K P (k_sleep K w1)"
    using assms woken [of K _ w1] by (simp_all add: w1_def module_err)
  have el: "element_heap w1 p = Some el" using p(2) by (simp add: w1_def)
  have "Use_after_free \<in> hazards K" if "element_heap (k_sleep K w1) p = None"
    using that el by (auto simp: hazards_def)
  then show ?thesis
    using inv el
    by (auto simp: wait_element_sent_or_failer_def g w1_def [symmetric] heap_step_defs keeps_def
        module_error Let_def split: option.splits)
qed

lemma module_sent: "module_with K P (w\<lparr>kenv := e, wsent := m\<rparr>) = module_with K P w"
  by (simp add: module_with_alt blocks_def com_live_def store_inv_def heaps_ok_def abs_store_def)

text \<open>What sending does, for every state of the communicator.\<close>

lemma send_cases:
  assumes "module_with K P w" "well_formed buf"
  obtains (no_memory) "send (module_ops K) pid ty buf w = Fault Null_deref"
      "\<not> fst (k_nlmsg_new K (bused_size buf) (kenv w))"
    | (no_communicator) fmt where "send (module_ops K) pid ty buf w = Ret (True, add_error fmt [] w)"
      "c_interface (communicator w) = None \<or> c_obj (communicator w) = None"
    | (refused) e where "send (module_ops K) pid ty buf w =
          Ret (False, add_error ''send_message: send message error'' [] (w\<lparr>kenv := e\<rparr>))"
    | (sent) e where "send (module_ops K) pid ty buf w =
          Ret (True, w\<lparr>kenv := e, wsent := wsent w @ [(pid, ty, take (bused_size buf) (bbuf buf))]\<rparr>)"
proof (cases "\<exists>obj. communicator w = \<lparr>c_interface = Some Netlink_interface, c_obj = Some obj\<rparr>")
  case False
  then have "c_interface (communicator w) = None \<or> c_obj (communicator w) = None"
    by (cases "communicator w") (metis (full_types) com_interface.exhaust not_None_eq com_ref.select_convs)
  then show ?thesis
    by (intro no_communicator [of "if c_interface (communicator w) = None
        then ''communicator_send_message: interface is null''
        else ''communicator_send_message: interface reference is null''"])
      (auto simp: send_def module_ops_def get_communicator_def deref_com_def
        communicator_send_message_def split: option.splits)
next
  case True
  then obtain obj where obj: "communicator w = \<lparr>c_interface = Some Netlink_interface, c_obj = Some obj\<rparr>"
    by blast
  then obtain sock where sock: "com_heap w obj = Some sock"
    using assms(1) by (auto simp: module_with_alt blocks_def com_live_def)
  have run: "send (module_ops K) pid ty buf w = netlink_send_message K obj pid ty buf w"
    using obj by (simp add: send_def module_ops_def get_communicator_def deref_com_def
        communicator_send_message_def netlink_interface_def)
  let ?n = "bused_size buf" and ?msg = "(pid, ty, take (bused_size buf) (bbuf buf))"
  obtain b e where new: "k_nlmsg_new K ?n (kenv w) = (b, e)" by fastforce
  obtain r e' where uni: "k_nlmsg_unicast K sock ?msg e = (r, e')" by fastforce
  show ?thesis
  proof (cases b)
    case False
    then show ?thesis using run new by (intro no_memory) (simp_all add: netlink_send_message_def)
  next
    case True
    then show ?thesis
      using run new uni sock assms(2) refused [of e'] sent [of e']
      by (cases "r < 0") (simp_all add: netlink_send_message_def heap_step_defs well_formed_def)
  qed
qed

lemma send_keeps:
  assumes "module_with K P w" "well_formed buf"
  shows "keeps (module_with K P) (hazards K) (send (module_ops K) pid ty buf w)"
  using assms
proof (cases rule: send_cases [of _ _ _ _ pid ty])
  case no_memory
  from no_memory(2) have "Null_deref \<in> hazards K" by (auto simp: hazards_def)
  with no_memory(1) show ?thesis by (simp add: keeps_def)
qed (use assms(1) in \<open>simp_all add: module_error module_env module_sent\<close>)

subsection \<open>The contract holds\<close>

lemma procs_keep:
  assumes "module_with K P w"
  shows "keeps_proc (module_with K P) F (remove_device K k w)"
    "keeps_proc (module_with K P) F (detach_device_class K k w)"
    "keeps_proc (module_with K P) F (set_device_ready K k w)"
    "keeps_proc (module_with K P) F (remove_toot K k w)"
    "keeps_proc (module_with K P) F (set_toot_state K b st k w)"
    "keeps_proc (module_with K P) F (remove_element K k w)"
    "keeps_proc (module_with K P) F (set_element_state K est k w)"
  using module_store [OF assms]
  by (auto intro!: proc_keeps [OF _ assms] remove_device_refines detach_device_class_refines
      set_device_ready_refines remove_toot_refines set_toot_state_refines remove_element_refines
      set_element_state_refines)

lemma lookups_keep:
  assumes "module_with K P w"
  shows "keeps (module_with K P) F (check_device_ready K k w)"
    "keeps (module_with K P) F (get_device_pid K k w)"
    "keeps (module_with K P) F (get_device_id_from_toot K k w)"
    "keeps (module_with K P) F (get_device_pid_from_toot K k w)"
  using module_store [OF assms]
  by (auto intro!: reads_keeps [OF _ assms] check_device_ready_reads get_device_pid_reads
      get_device_id_from_toot_reads get_device_pid_from_toot_reads)

lemmas module_keeps = procs_keep lookups_keep add_device_keeps add_toot_keeps add_element_keeps
  wait_toot_keeps wait_element_keeps

lemmas module_op_defs = module_ops_def set_toot_failer_def set_toot_ready_def set_toot_sent_def
  set_element_sent_def set_element_failer_def wait_toot_ready_or_failer_def
  wait_toot_sent_or_failer_def

interpretation safe: store_contract "module_ops K" "module_with K P" "hazards K" for K P
proof (unfold_locales, goal_cases)
  case (2 s n)
  then show ?case by (simp add: module_ops_def module_with_alt store_inv_def kernel_ok_def)
next
  case (3 s)
  then show ?case by (simp add: module_ops_def module_with_alt store_inv_def kernel_ok_def)
next
  case (6 s k b s')
  then show ?case using attach_keeps(1) [of K P s k b s'] by (simp add: module_ops_def)
next
  case (7 s k f)
  then show ?case using attach_keeps(2) [of K P s k f] by (simp add: module_ops_def)
next
  case (12 s buf pid "ty")
  then show ?case by (rule send_keeps)
qed (simp_all add: module_op_defs module_keeps module_error)

text \<open>A message of the daemon, from its bytes to its effect.\<close>

lemma action_then_world:
  "and_then m (\<lambda>(ok, payload). if \<not> ok then Ret (None, w) else Ret (Some (f payload), w)) = Ret (act, w') \<Longrightarrow>
     w' = w"
  by (cases m) (auto split: prod.splits if_splits)

lemma create_action_world:
  assumes "create_action_from_message (module_ops K) ty pid message w = Ret (act, w')"
  shows "\<exists>err. w' = w\<lparr>werr := err\<rparr>"
proof -
  have "w' = w \<or> (\<exists>fmt args. w' = add_error fmt args w)"
    using assms
    unfolding create_action_from_message_def create_action_from_get_health_message_def
      create_action_from_create_device_message_def create_action_from_destroy_device_message_def
      create_action_from_create_toot_result_message_def
      create_action_from_add_toot_element_result_message_def
      create_action_from_send_toot_result_message_def
    by (auto simp: module_ops_def dest: action_then_world split: if_splits)
  moreover have "\<exists>err. w = w\<lparr>werr := err\<rparr>" by (rule exI [of _ "werr w"]) simp
  ultimately show ?thesis by (auto simp: add_error_def)
qed

lemma process_recive_data_keeps:
  assumes "module_with K P w" "com_heap w com \<noteq> None" "len \<le> length mem" "len < SIZE_MAX"
  shows "keeps (module_with K P)
    (hazards K \<union> (if 0xCA \<in> set (take len mem) \<or> 0xCB \<in> set (take len mem) then {Assert_failed} else {}))
    (process_recive_data K com ty pid len mem w)"
proof -
  let ?F = "hazards K \<union> (if 0xCA \<in> set (take len mem) \<or> 0xCB \<in> set (take len mem) then {Assert_failed} else {})"
  let ?buf = "DEFINE_CRMNA_BUF_FROM_MEMORY mem len" and ?w = "w\<lparr>werr := []\<rparr>"
  have inv: "module_with K P ?w" using assms(1) by (simp add: module_err)
  have "within_memory ?buf" using assms(3,4)
    by (simp add: within_memory_def DEFINE_CRMNA_BUF_FROM_MEMORY_def)
  note made = safe.action_made [OF inv this, of ty pid]
  show ?thesis
  proof (cases "create_action_from_message (module_ops K) ty pid ?buf ?w")
    case (Fault f)
    then have "f = Assert_failed" "has_float_tag ?buf" using made by (simp_all add: action_made_def)
    then show ?thesis
      using Fault by (auto simp: process_recive_data_def with_err_def keeps_def has_float_tag_def
          DEFINE_CRMNA_BUF_FROM_MEMORY_def)
  next
    case (Ret r)
    obtain act w1 where r: "r = (act, w1)" by fastforce
    have inv1: "module_with K P w1" using made Ret r by (simp add: action_made_def)
    obtain err where w1: "w1 = w\<lparr>werr := err\<rparr>"
      using create_action_world [of K ty pid ?buf ?w act w1] Ret r by auto
    show ?thesis
    proof (cases act)
      case None
      then show ?thesis
        using Ret r inv1 by (simp add: process_recive_data_def with_err_def module_err module_error)
    next
      case (Some a)
      then have "action_ok (module_with K P) (hazards K) a" using made Ret r by (simp add: action_made_def)
      then have "keeps (module_with K P) ?F (dispatch (module_ops K) a w1)"
        using safe.dispatch_keeps [OF inv1] keeps_mono by blast
      then show ?thesis
        using Ret r Some assms(2) w1
        by (cases "dispatch (module_ops K) a w1")
          (auto simp: process_recive_data_def with_err_def heap_step_defs keeps_def module_err
            module_error split: prod.splits)
    qed
  qed
qed

end
