(* ===== verification/Driver_Model.thy ===== *)
theory Driver_Model
  imports Driver_Contract Driver_Store_Remove
begin

text \<open>
  What the handlers do, in terms of the abstract store and the messages that have left: the second
  contract extends the first by the effect of each operation, for the time the communicator works.
\<close>

type_synonym outbox = "(u32 \<times> nat \<times> bytes) list"

text \<open>The call returns \<open>r\<close> into \<open>J\<close>, with the abstract store \<open>a\<close> and the messages \<open>ms\<close>.\<close>

definition gives :: "('s \<Rightarrow> bool) \<Rightarrow> ('s \<Rightarrow> astore) \<Rightarrow> ('s \<Rightarrow> outbox) \<Rightarrow> 'a \<Rightarrow> astore \<Rightarrow> outbox \<Rightarrow>
    ('a \<times> 's) outcome \<Rightarrow> bool" where
  "gives J view out r a ms m \<longleftrightarrow> (\<exists>s. m = Ret (r, s) \<and> J s \<and> view s = a \<and> out s = ms)"

definition gives_proc :: "('s \<Rightarrow> bool) \<Rightarrow> ('s \<Rightarrow> astore) \<Rightarrow> ('s \<Rightarrow> outbox) \<Rightarrow> astore \<Rightarrow> outbox \<Rightarrow>
    's outcome \<Rightarrow> bool" where
  "gives_proc J view out a ms m \<longleftrightarrow> (\<exists>s. m = Ret s \<and> J s \<and> view s = a \<and> out s = ms)"

lemma gives_Ret [simp]: "gives J view out r a ms (Ret (r', s)) \<longleftrightarrow> r' = r \<and> J s \<and> view s = a \<and> out s = ms"
  by (auto simp: gives_def)

lemma gives_proc_Ret [simp]: "gives_proc J view out a ms (Ret s) \<longleftrightarrow> J s \<and> view s = a \<and> out s = ms"
  by (auto simp: gives_proc_def)

lemma gives_then:
  assumes "gives J view out r a ms m" "\<And>s. J s \<Longrightarrow> view s = a \<Longrightarrow> out s = ms \<Longrightarrow> P (f r s)"
  shows "P (and_then m (\<lambda>(r, s). f r s))"
  using assms by (auto simp: gives_def)

lemma gives_proc_then:
  assumes "gives_proc J view out a ms m" "\<And>s. J s \<Longrightarrow> view s = a \<Longrightarrow> out s = ms \<Longrightarrow> P (f s)"
  shows "P (and_then m f)"
  using assms by (auto simp: gives_proc_def)

text \<open>A serialized message that fits.\<close>

definition encoded :: "bytes \<Rightarrow> (bool \<times> crmna_buf) outcome \<Rightarrow> bool" where
  "encoded enc m \<longleftrightarrow>
     (\<exists>buf. m = Ret (True, buf) \<and> well_formed buf \<and> take (bused_size buf) (bbuf buf) = enc)"

lemma serialized_encoded:
  assumes "serialized enc on_error dest m" "length enc \<le> bbuf_size dest"
    "bbuf_size dest \<le> length (bbuf dest)"
  shows "encoded enc m"
proof -
  obtain mem where "m = Ret (True, dest\<lparr>bbuf := mem, bused_size := length enc\<rparr>)"
      "length mem = length (bbuf dest)" "take (length enc) mem = enc"
    using assms(1,2) by (auto simp: serialized_def)
  then show ?thesis using assms(2,3) by (simp add: encoded_def well_formed_def)
qed

lemma encoded_then:
  assumes "encoded enc m"
    "\<And>buf. well_formed buf \<Longrightarrow> take (bused_size buf) (bbuf buf) = enc \<Longrightarrow> P (f True buf)"
  shows "P (and_then m (\<lambda>(ok, buf). f ok buf))"
  using assms by (auto simp: encoded_def)

lemma length_id_value: "length (msgpack_encode (id_value k)) \<le> 6"
  using uint_less(3) [of k] by (simp add: id_value_def length_msgpack_headers length_msgpack_int)

lemma length_health_value: "length (msgpack_encode (get_health_result_value r)) \<le> 7"
  using uint_less(3) [of "ghr_device_id r"]
  by (simp add: get_health_result_value_def length_msgpack_headers length_msgpack_int msgpack_bool_def)

lemma length_toot_value:
  "length (msgpack_encode (toot_value j k)) \<le> 10 \<longleftrightarrow> uint j \<le> 65535 \<or> uint k \<le> 65535"
  using uint_less(3) [of j] uint_less(3) [of k]
  by (simp add: toot_value_def length_msgpack_headers length_msgpack_int)

text \<open>The process and the device behind a toot that is in use.\<close>

definition toot_owner :: "astore \<Rightarrow> u32 \<Rightarrow> (u32 \<times> u32) option" where
  "toot_owner a k =
     (if usable_toot a k
      then map_option (\<lambda>t. (d_pid (the (a_dev a (t_device_id t))), t_device_id t)) (a_toot a k)
      else None)"

subsection \<open>The second contract\<close>

locale store_model = store_contract D I F
  for D :: "'s store_ops" and I :: "'s \<Rightarrow> bool" and F :: "fault set" +
  fixes J :: "'s \<Rightarrow> bool" and view :: "'s \<Rightarrow> astore" and out :: "'s \<Rightarrow> outbox"
  assumes J_I: "J s \<Longrightarrow> I s"
    and abs_ok: "J s \<Longrightarrow> astore_ok (view s)"
    and report: "J s \<Longrightarrow> J (op_add_error D fmt args s) \<and>
        view (op_add_error D fmt args s) = view s \<and> out (op_add_error D fmt args s) = out s"
    and pid_of: "J s \<Longrightarrow>
        gives J view out (map_option d_pid (a_dev (view s) k)) (view s) (out s) (op_get_device_pid D k s)"
    and ready_of: "J s \<Longrightarrow>
        gives J view out (ready_dev (view s) k) (view s) (out s) (op_check_device_ready D k s)"
    and toot_device: "J s \<Longrightarrow>
        gives J view out (map_option snd (toot_owner (view s) k)) (view s) (out s)
          (op_get_device_id_from_toot D k s)"
    and toot_pid: "J s \<Longrightarrow>
        gives J view out (map_option fst (toot_owner (view s) k)) (view s) (out s)
          (op_get_device_pid_from_toot D k s)"
    and sending: "J s \<Longrightarrow> well_formed buf \<Longrightarrow>
        gives J view out True (view s) (out s @ [(pid, ty, take (bused_size buf) (bbuf buf))])
          (send D pid ty buf s)"
    and make_ready: "J s \<Longrightarrow>
        gives_proc J view out (ready_spec k (view s)) (out s) (op_set_device_ready D k s)"
    and toot_states: "J s \<Longrightarrow>
        gives_proc J view out (toot_state_spec TOOT_ERROR k (view s)) (out s) (op_set_toot_failer D k s)"
      "J s \<Longrightarrow>
        gives_proc J view out (toot_state_spec OPEND k (view s)) (out s) (op_set_toot_ready D k s)"
      "J s \<Longrightarrow>
        gives_proc J view out (toot_state_spec DESTROYED k (view s)) (out s) (op_set_toot_sent D k s)"
    and element_states: "J s \<Longrightarrow>
        gives_proc J view out (elem_state_spec ELEMENT_SENT k (view s)) (out s) (op_set_element_sent D k s)"
      "J s \<Longrightarrow>
        gives_proc J view out (elem_state_spec ELEMENT_ERROR k (view s)) (out s)
          (op_set_element_failer D k s)"
    and new_device: "J s \<Longrightarrow> 0 \<in> set name \<Longrightarrow>
        (\<exists>f \<in> F. op_add_device D pid uid name s = Fault f) \<or>
        gives J view out None (view s) (out s) (op_add_device D pid uid name s) \<or>
        (\<exists>k d. a_dev (view s) k = None \<and> d_pid d = pid \<and> d_uid d = uid \<and> d_device_id d = k \<and>
           d_sem d = 0 \<and> gives J view out (Some k) (put_dev k (Some d) (view s)) (out s)
             (op_add_device D pid uid name s))"
    and attach_new: "J s \<Longrightarrow> a_dev (view s) k = Some d \<Longrightarrow>
        gives J view out True (attach_spec True k (view s)) (out s) (op_attach_device_class D k s) \<or>
        (\<exists>s' f. f \<in> F \<and> op_attach_device_class D k s = Ret (False, s') \<and>
           op_remove_device D k s' = Fault f)"
begin

lemma local_buf_fits:
  "J s \<Longrightarrow> bbuf_size (local_buf D n s) = n \<and> length (bbuf (local_buf D n s)) = n"
  using frame(1) [OF J_I] by (simp add: local_buf_def DEFINE_CRMNA_BUF_def)

lemma id_messages:
  assumes "J s"
  shows "encoded (msgpack_encode (id_value k)) (serialize_create_device_result \<lparr>cdr_id = k\<rparr> (local_buf D 10 s))"
    "encoded (msgpack_encode (id_value k)) (serialize_destroy_device_result \<lparr>ddr_id = k\<rparr> (local_buf D 10 s))"
    "encoded (msgpack_encode (get_health_result_value r)) (serialize_get_health_result r (local_buf D 10 s))"
  using local_buf_fits [OF assms, of 10] length_id_value [of k] length_health_value [of r]
    serialize_create_device_result_ok [of "local_buf D 10 s" "\<lparr>cdr_id = k\<rparr>"]
    serialize_destroy_device_result_ok [of "local_buf D 10 s" "\<lparr>ddr_id = k\<rparr>"]
    serialize_get_health_result_ok [of "local_buf D 10 s" r]
  by (auto intro: serialized_encoded)

text \<open>A question about a device's health is answered, to the one who asked.\<close>

lemma get_health_gives:
  assumes "J s"
  shows "gives J view out True (view s)
    (out s @ [(gp_pid p, CRMNA_GET_HEALTH_RESULT, msgpack_encode (get_health_result_value
       \<lparr>ghr_device_id = gp_device_id p,
        ghr_status = (case a_dev (view s) (gp_device_id p) of None \<Rightarrow> False
                      | Some d \<Rightarrow> d_pid d = gp_pid p \<and> d_is_ready d)\<rparr>))])
    (get_health p D s)"
  unfolding get_health_def
proof (rule gives_then [OF pid_of [OF assms]])
  fix s1
  assume s1: "J s1" "view s1 = view s" "out s1 = out s"
  let ?own = "map_option d_pid (a_dev (view s) (gp_device_id p)) = Some (gp_pid p)"
  let ?st = "?own \<and> ready_dev (view s) (gp_device_id p)"
  have st: "?st = (case a_dev (view s) (gp_device_id p) of None \<Rightarrow> False
                   | Some d \<Rightarrow> d_pid d = gp_pid p \<and> d_is_ready d)"
    by (auto simp: ready_dev_def split: option.splits)
  have check: "gives J view out ?st (view s) (out s)
      (if ?own then op_check_device_ready D (gp_device_id p) s1 else Ret (False, s1))"
    using ready_of [OF s1(1), of "gp_device_id p"] s1 by simp
  show "gives J view out True (view s)
    (out s @ [(gp_pid p, CRMNA_GET_HEALTH_RESULT, msgpack_encode (get_health_result_value
       \<lparr>ghr_device_id = gp_device_id p,
        ghr_status = (case a_dev (view s) (gp_device_id p) of None \<Rightarrow> False
                      | Some d \<Rightarrow> d_pid d = gp_pid p \<and> d_is_ready d)\<rparr>))])
    (and_then
       (if ?own then op_check_device_ready D (gp_device_id p) s1 else Ret (False, s1))
       (\<lambda>(status, s).
     and_then (serialize_get_health_result \<lparr>ghr_device_id = gp_device_id p, ghr_status = status\<rparr>
                 (local_buf D 10 s)) (\<lambda>(ok, buf).
       if \<not> ok then Ret (False, s)
       else
         and_then (send D (gp_pid p) CRMNA_GET_HEALTH_RESULT buf s) (\<lambda>(sent, s).
           if \<not> sent then Ret (False, s) else Ret (True, s)))))"
    unfolding st [symmetric]
    by (rule gives_then [OF check], rule encoded_then [OF id_messages(3)], assumption,
        simp only: simp_thms if_False, rule gives_then [OF sending], assumption+)
      (auto simp: s1)
qed

text \<open>Destroying a device answers, and leaves the device in the store, ready.\<close>

lemma destroy_device_gives:
  assumes "J s"
  shows "gives J view out True (ready_spec (dp_device_id p) (view s))
    (out s @ [(dp_pid p, CRMNA_DESTROY_DEVICE_RESULT, msgpack_encode (id_value (dp_device_id p)))])
    (destroy_device p D s)"
  unfolding destroy_device_def Let_def
proof (rule encoded_then [OF id_messages(2) [OF assms]])
  fix buf
  assume buf: "well_formed buf"
    "take (bused_size buf) (bbuf buf) = msgpack_encode (id_value (dp_device_id p))"
  show "gives J view out True (ready_spec (dp_device_id p) (view s))
    (out s @ [(dp_pid p, CRMNA_DESTROY_DEVICE_RESULT, msgpack_encode (id_value (dp_device_id p)))])
    (if \<not> True then and_then (op_detach_device_class D (dp_device_id p) s) (\<lambda>s.
                       and_then (op_remove_device D (dp_device_id p) s) (\<lambda>s. Ret (False, s)))
     else and_then (send D (dp_pid p) CRMNA_DESTROY_DEVICE_RESULT buf s) (\<lambda>(sent, s).
        if \<not> sent then and_then (op_detach_device_class D (dp_device_id p) s) (\<lambda>s.
                       and_then (op_remove_device D (dp_device_id p) s) (\<lambda>s. Ret (False, s)))
        else and_then (op_set_device_ready D (dp_device_id p) s) (\<lambda>s. Ret (True, s))))"
    by (simp only: simp_thms if_False, rule gives_then [OF sending [OF assms buf(1)]],
        simp only: simp_thms if_False, rule gives_proc_then [OF make_ready], assumption)
      (simp add: buf(2))
qed

text \<open>Creating a device is all or nothing, as long as it does not stop.\<close>

lemma create_device_gives:
  assumes "J s" "0 \<in> set (cp_name p)"
  shows "(\<exists>f \<in> F. create_device p D s = Fault f) \<or>
    gives J view out False (view s) (out s) (create_device p D s) \<or>
    (\<exists>k d. a_dev (view s) k = None \<and> d_device_id d = k \<and> d_pid d = cp_pid p \<and> d_uid d = cp_uid p \<and>
       d_is_ready d \<and> d_is_attached d \<and>
       gives J view out True (put_dev k (Some d) (view s))
         (out s @ [(cp_pid p, CRMNA_CREATE_DEVICE_RESULT, msgpack_encode (id_value k))])
         (create_device p D s))"
  using new_device [OF assms, of "cp_pid p" "cp_uid p"]
proof (elim disjE bexE exE conjE)
  fix f
  assume "f \<in> F" "op_add_device D (cp_pid p) (cp_uid p) (cp_name p) s = Fault f"
  then show ?thesis by (auto simp: create_device_def)
next
  assume "gives J view out None (view s) (out s) (op_add_device D (cp_pid p) (cp_uid p) (cp_name p) s)"
  then show ?thesis by (auto simp: create_device_def gives_def)
next
  fix k d
  assume d: "a_dev (view s) k = None" "d_pid d = cp_pid p" "d_uid d = cp_uid p" "d_device_id d = k"
    and "gives J view out (Some k) (put_dev k (Some d) (view s)) (out s)
           (op_add_device D (cp_pid p) (cp_uid p) (cp_name p) s)"
  then obtain s1 where s1: "op_add_device D (cp_pid p) (cp_uid p) (cp_name p) s = Ret (Some k, s1)"
      "J s1" "view s1 = put_dev k (Some d) (view s)" "out s1 = out s"
    by (auto simp: gives_def)
  have at: "a_dev (view s1) k = Some d" using s1(3) by (simp add: put_dev_def)
  let ?d = "d\<lparr>d_is_attached := True, d_is_ready := True\<rparr>"
  from attach_new [OF s1(2) at] show ?thesis
  proof (elim disjE exE conjE)
    fix s' f
    assume "f \<in> F" "op_attach_device_class D k s1 = Ret (False, s')" "op_remove_device D k s' = Fault f"
    then show ?thesis using s1(1) by (auto simp: create_device_def)
  next
    assume "gives J view out True (attach_spec True k (view s1)) (out s1) (op_attach_device_class D k s1)"
    then obtain s2 where s2: "op_attach_device_class D k s1 = Ret (True, s2)" "J s2"
        "view s2 = attach_spec True k (view s1)" "out s2 = out s1"
      by (auto simp: gives_def)
    obtain buf where buf: "serialize_create_device_result \<lparr>cdr_id = k\<rparr> (local_buf D 10 s2) = Ret (True, buf)"
        "well_formed buf" "take (bused_size buf) (bbuf buf) = msgpack_encode (id_value k)"
      using id_messages(1) [OF s2(2), of k] by (auto simp: encoded_def)
    obtain s3 where s3: "send D (cp_pid p) CRMNA_CREATE_DEVICE_RESULT buf s2 = Ret (True, s3)" "J s3"
        "view s3 = view s2"
        "out s3 = out s2 @ [(cp_pid p, CRMNA_CREATE_DEVICE_RESULT, msgpack_encode (id_value k))]"
      using sending [OF s2(2) buf(2)] buf(3) by (auto simp: gives_def)
    obtain s4 where s4: "op_set_device_ready D k s3 = Ret s4" "J s4" "view s4 = ready_spec k (view s3)"
        "out s4 = out s3"
      using make_ready [OF s3(2)] by (auto simp: gives_proc_def)
    have "view s4 = put_dev k (Some ?d) (view s)"
      using s4(3) s3(3) s2(3) s1(3) by (simp add: ready_spec_def attach_spec_def put_dev_def)
    then have "gives J view out True (put_dev k (Some ?d) (view s))
        (out s @ [(cp_pid p, CRMNA_CREATE_DEVICE_RESULT, msgpack_encode (id_value k))])
        (create_device p D s)"
      using s1 s2 buf(1) s3 s4 by (simp add: create_device_def)
    with d show ?thesis by (intro disjI2 exI [of _ k] exI [of _ ?d]) simp
  qed
qed

text \<open>Answers of the daemon. One that creates a toot has to come from the owner of its device.\<close>

lemma create_toot_result_gives:
  assumes "J s"
  shows "gives J view out
    (toot_owner (view s) (rp_toot_id p) = Some (rp_pid p, rp_device_id p) \<and> rp_result p = 0)
    (if toot_owner (view s) (rp_toot_id p) = Some (rp_pid p, rp_device_id p)
     then toot_state_spec (if rp_result p = 0 then OPEND else TOOT_ERROR) (rp_toot_id p) (view s)
     else view s) (out s) (create_toot_result p D s)"
  unfolding create_toot_result_def
proof (rule gives_then [OF toot_device [OF assms]], goal_cases)
  case (1 s1)
  show ?case
  proof (cases "toot_owner (view s) (rp_toot_id p)")
    case None
    then show ?thesis using 1 report [OF 1(1)] by simp
  next
    case (Some o')
    obtain pid dev where o': "o' = (pid, dev)" by fastforce
    obtain s2 where s2: "op_get_device_pid_from_toot D (rp_toot_id p) s1 = Ret (Some pid, s2)"
        "J s2" "view s2 = view s" "out s2 = out s"
      using toot_pid [OF 1(1), of "rp_toot_id p"] Some o' 1 by (auto simp: gives_def)
    show ?thesis
    proof (cases "rp_result p = 0")
      case True
      then show ?thesis
        using Some o' s2 report [OF s2(2)] toot_states(2) [OF s2(2), of "rp_toot_id p"]
        by (auto simp: gives_proc_def)
    next
      case False
      define s3 where "s3 = op_add_error D ''create_toot_result: result is not null: %d'' [rp_result p] s2"
      have s3: "J s3" "view s3 = view s" "out s3 = out s"
        using report [OF s2(2)] s2(3,4) by (simp_all add: s3_def)
      then show ?thesis
        using False Some o' s2 report [OF s2(2)] toot_states(1) [OF s3(1), of "rp_toot_id p"]
        by (auto simp: gives_proc_def s3_def)
    qed
  qed
qed

text \<open>
  The others are only refused when they come from the owner of the device, but name another one.
\<close>

lemma send_toot_result_gives:
  assumes "J s"
  shows "case toot_owner (view s) (qp_toot_id p) of
      None \<Rightarrow> gives J view out False (view s) (out s) (send_toot_result p D s)
    | Some (pid, dev) \<Rightarrow>
        if pid = qp_pid p \<and> dev \<noteq> qp_device_id p
        then gives J view out False (view s) (out s) (send_toot_result p D s)
        else gives J view out True
          (toot_state_spec (if qp_result p = 0 then DESTROYED else TOOT_ERROR) (qp_toot_id p) (view s))
          (out s) (send_toot_result p D s)"
proof -
  obtain s1 where s1: "op_get_device_id_from_toot D (qp_toot_id p) s =
      Ret (map_option snd (toot_owner (view s) (qp_toot_id p)), s1)" "J s1" "view s1 = view s" "out s1 = out s"
    using toot_device [OF assms, of "qp_toot_id p"] by (auto simp: gives_def)
  show ?thesis
  proof (cases "toot_owner (view s) (qp_toot_id p)")
    case None
    then show ?thesis using s1 by (simp add: send_toot_result_def)
  next
    case (Some o')
    obtain pid dev where o': "o' = (pid, dev)" by fastforce
    obtain s2 where s2: "op_get_device_pid_from_toot D (qp_toot_id p) s1 = Ret (Some pid, s2)"
        "J s2" "view s2 = view s" "out s2 = out s"
      using toot_pid [OF s1(2), of "qp_toot_id p"] Some o' s1 by (auto simp: gives_def)
    show ?thesis
      using s1 s2 Some o' toot_states(1,3) [OF s2(2), of "qp_toot_id p"]
      by (auto simp: send_toot_result_def gives_proc_def)
  qed
qed

lemma add_toot_element_result_gives:
  assumes "J s"
  shows "case toot_owner (view s) (ep_toot_id p) of
      None \<Rightarrow> gives J view out False (view s) (out s) (add_toot_element_result p D s)
    | Some (pid, dev) \<Rightarrow>
        if pid = ep_pid p \<and> dev \<noteq> ep_device_id p
        then gives J view out False (view s) (out s) (add_toot_element_result p D s)
        else gives J view out True
          (elem_state_spec (if sint (ep_result p) < 0 then ELEMENT_ERROR else ELEMENT_SENT)
             (ep_element_id p) (view s))
          (out s) (add_toot_element_result p D s)"
proof -
  obtain s1 where s1: "op_get_device_id_from_toot D (ep_toot_id p) s =
      Ret (map_option snd (toot_owner (view s) (ep_toot_id p)), s1)" "J s1" "view s1 = view s" "out s1 = out s"
    using toot_device [OF assms, of "ep_toot_id p"] by (auto simp: gives_def)
  show ?thesis
  proof (cases "toot_owner (view s) (ep_toot_id p)")
    case None
    then show ?thesis using s1 report [OF s1(2)] by (simp add: add_toot_element_result_def)
  next
    case (Some o')
    obtain pid dev where o': "o' = (pid, dev)" by fastforce
    obtain s2 where s2: "op_get_device_pid_from_toot D (ep_toot_id p) s1 = Ret (Some pid, s2)"
        "J s2" "view s2 = view s" "out s2 = out s"
      using toot_pid [OF s1(2), of "ep_toot_id p"] Some o' s1 by (auto simp: gives_def)
    show ?thesis
      using s1 s2 Some o' report element_states [OF s2(2), of "ep_element_id p"]
      by (auto simp: add_toot_element_result_def gives_proc_def)
  qed
qed

end

end
