(* ===== verification/Driver_Module_Model.thy ===== *)
theory Driver_Module_Model
  imports Driver_Module_Safety Driver_Model
begin

text \<open>
  The module's operations satisfy the second contract while the netlink socket works, so what the
  handlers do is known in terms of the abstract store and the messages sent.
\<close>

text \<open>The communicator is set, and netlink takes every message.\<close>

definition link_up :: "('i, 'e) kernel \<Rightarrow> ('i, 'e) world \<Rightarrow> bool" where
  "link_up K w \<longleftrightarrow>
     c_interface (communicator w) \<noteq> None \<and> c_obj (communicator w) \<noteq> None \<and>
     (\<forall>n e. fst (k_nlmsg_new K n e)) \<and> (\<forall>sock m e. 0 \<le> fst (k_nlmsg_unicast K sock m e))"

definition working :: "('i, 'e) kernel \<Rightarrow> ('i, 'e) world \<Rightarrow> bool" where
  "working K w \<longleftrightarrow> module_inv K w \<and> link_up K w"

abbreviation module_gives ::
    "('i, 'e) kernel \<Rightarrow> 'a \<Rightarrow> astore \<Rightarrow> outbox \<Rightarrow> ('a \<times> ('i, 'e) world) outcome \<Rightarrow> bool" where
  "module_gives K \<equiv> gives (working K) (abs_store K) wsent"

lemma reaches_working:
  assumes "reaches K w a w'" "working K w"
  shows "working K w' \<and> abs_store K w' = a \<and> wsent w' = wsent w"
  using assms reaches_module [OF assms(1)]
  by (auto simp: working_def link_up_def reaches_def outside_def)

lemma working_error: "working K (add_error fmt args w) = working K w"
  by (simp add: working_def module_error) (simp add: link_up_def add_error_def)

lemma reads_gives:
  assumes "reads w r m" "working K w" "r' = r" "a = abs_store K w" "ms = wsent w"
  shows "module_gives K r' a ms m"
proof -
  obtain err where m: "m = Ret (r, w\<lparr>werr := err\<rparr>)" using assms(1) by (auto simp: reads_def)
  have "working K (w\<lparr>werr := err\<rparr>)"
    using assms(2) by (simp add: working_def module_err link_up_def)
  then show ?thesis using m assms by simp
qed

lemma refines_gives:
  "refines K w r a m \<Longrightarrow> working K w \<Longrightarrow> module_gives K r a (wsent w) m"
  by (auto simp: refines_def dest!: reaches_working)

lemma proc_gives:
  "proc_refines K w a m \<Longrightarrow> working K w \<Longrightarrow> gives_proc (working K) (abs_store K) wsent a (wsent w) m"
  by (auto simp: proc_refines_def dest!: reaches_working)

lemma working_store: "working K w \<Longrightarrow> store_inv K w"
  by (simp add: working_def module_with_alt)

lemma send_working:
  assumes "working K w" "well_formed buf"
  shows "\<exists>e. send (module_ops K) pid ty buf w =
    Ret (True, w\<lparr>kenv := e, wsent := wsent w @ [(pid, ty, take (bused_size buf) (bbuf buf))]\<rparr>)"
proof -
  have inv: "module_inv K w" using assms(1) by (simp add: working_def)
  obtain obj where obj: "communicator w = \<lparr>c_interface = Some Netlink_interface, c_obj = Some obj\<rparr>"
    using assms(1) by (cases "communicator w") (auto simp: working_def link_up_def, metis (full_types) com_interface.exhaust)
  obtain sock where sock: "com_heap w obj = Some sock"
    using inv obj by (auto simp: module_with_alt blocks_def com_live_def)
  let ?msg = "(pid, ty, take (bused_size buf) (bbuf buf))"
  obtain b e where new: "k_nlmsg_new K (bused_size buf) (kenv w) = (b, e)" by fastforce
  obtain r e' where uni: "k_nlmsg_unicast K sock ?msg e = (r, e')" by fastforce
  have "b" "0 \<le> r"
    using assms(1) new uni fst_conv [of b e] fst_conv [of r e'] unfolding working_def link_up_def by metis+
  then have "send (module_ops K) pid ty buf w = Ret (True, w\<lparr>kenv := e', wsent := wsent w @ [?msg]\<rparr>)"
    using obj sock new uni assms(2)
    by (simp add: send_def module_ops_def get_communicator_def deref_com_def well_formed_def
        communicator_send_message_def netlink_interface_def netlink_send_message_def heap_step_defs)
  then show ?thesis by blast
qed

lemma working_sent: "working K (w\<lparr>kenv := e, wsent := ms\<rparr>) = working K w"
  by (simp add: working_def module_sent link_up_def)

lemma send_gives:
  assumes "working K w" "well_formed buf"
  shows "module_gives K True (abs_store K w)
    (wsent w @ [(pid, ty, take (bused_size buf) (bbuf buf))]) (send (module_ops K) pid ty buf w)"
  using send_working [OF assms, of pid "ty"] assms(1)
  by (elim exE) (simp add: working_sent, simp add: abs_store_def)

lemma add_device_gives:
  assumes "working K w" "0 \<in> set name"
  shows "(\<exists>f \<in> hazards K. add_device K pid uid name w = Fault f) \<or>
    module_gives K None (abs_store K w) (wsent w) (add_device K pid uid name w) \<or>
    (\<exists>k d. a_dev (abs_store K w) k = None \<and> d_pid d = pid \<and> d_uid d = uid \<and> d_device_id d = k \<and>
       d_sem d = 0 \<and> module_gives K (Some k) (put_dev k (Some d) (abs_store K w)) (wsent w)
         (add_device K pid uid name w))"
proof (cases "add_device K pid uid name w")
  case (Fault f)
  have "keeps (module_inv K) (hazards K) (add_device K pid uid name w)"
    using assms add_device_keeps by (auto simp: working_def)
  then show ?thesis using Fault by (simp add: keeps_def)
next
  case (Ret r)
  obtain s t where s: "name = s @ 0 # t" "0 \<notin> set s" using split_list_first [OF assms(2)] by blast
  then have len: "mpack_strlen name = Ret (length s)" by simp
  obtain q e where q: "k_kmalloc K (live w) (length s) (kenv w) = (q, e)" by fastforce
  note r = add_device_refines [OF working_store [OF assms(1)] len, of pid uid]
  have "(\<exists>w'. add_device K pid uid name w = Ret (None, w') \<and> unchanged K w w') \<or>
      (\<exists>a e. added_device K w pid uid a e (take (length s + 1) name) (add_device K pid uid name w))"
    using r q Ret by (cases q) (auto split: if_splits)
  then have "(\<exists>w'. add_device K pid uid name w = Ret (None, w') \<and> unchanged K w w') \<or>
      (\<exists>k d w'. a_dev (abs_store K w) k = None \<and> add_device K pid uid name w = Ret (Some k, w') \<and>
        d_device_id d = k \<and> d_pid d = pid \<and> d_uid d = uid \<and> d_sem d = 0 \<and>
        reaches K w (put_dev k (Some d) (abs_store K w)) w')"
    using added_device_cases [OF working_store [OF assms(1)]] by blast
  then show ?thesis
  proof (elim disjE exE conjE)
    fix k d w'
    assume "a_dev (abs_store K w) k = None" "add_device K pid uid name w = Ret (Some k, w')"
      "reaches K w (put_dev k (Some d) (abs_store K w)) w'"
      "d_device_id d = k" "d_pid d = pid" "d_uid d = uid" "d_sem d = 0"
    then show ?thesis
      using reaches_working [OF _ assms(1)] by (intro disjI2 exI [of _ k] exI [of _ d]) simp
  next
    fix w'
    assume "add_device K pid uid name w = Ret (None, w')" "unchanged K w w'"
    then have "refines K w None (abs_store K w) (add_device K pid uid name w)"
      by (rule unchanged_refines [OF working_store [OF assms(1)]])
    then show ?thesis by (intro disjI2 disjI1 refines_gives assms(1))
  qed
qed

lemma attach_gives:
  assumes "working K w" "a_dev (abs_store K w) k = Some d"
  shows "module_gives K True (attach_spec True k (abs_store K w)) (wsent w) (attach_device_class K k w) \<or>
    (\<exists>w' f. f \<in> hazards K \<and> attach_device_class K k w = Ret (False, w') \<and> remove_device K k w' = Fault f)"
  using working_store [OF assms(1)] assms(2)
proof (cases rule: attach_device_class_cases)
  case (attached w')
  then show ?thesis using reaches_working [OF _ assms(1)] by (auto simp: gives_def)
next
  case (failed w' name e)
  from failed(3) have "Deadlock \<in> hazards K" by (auto simp: hazards_def)
  with failed(1,2) show ?thesis by (auto simp: locked_forever_def)
qed

lemma toot_owner_ids:
  "map_option snd (toot_owner a k) = (if usable_toot a k then map_option t_device_id (a_toot a k) else None)"
  "map_option fst (toot_owner a k) =
     (if usable_toot a k then map_option (\<lambda>t. d_pid (the (a_dev a (t_device_id t)))) (a_toot a k)
      else None)"
  by (simp_all add: toot_owner_def option.map_comp comp_def)

lemma lookups_give:
  assumes "working K w"
  shows "module_gives K (map_option d_pid (a_dev (abs_store K w) k)) (abs_store K w) (wsent w)
      (get_device_pid K k w)"
    "module_gives K (ready_dev (abs_store K w) k) (abs_store K w) (wsent w) (check_device_ready K k w)"
    "module_gives K (map_option snd (toot_owner (abs_store K w) k)) (abs_store K w) (wsent w)
      (get_device_id_from_toot K k w)"
    "module_gives K (map_option fst (toot_owner (abs_store K w) k)) (abs_store K w) (wsent w)
      (get_device_pid_from_toot K k w)"
  unfolding toot_owner_ids
  by (rule reads_gives [OF get_device_pid_reads [OF working_store [OF assms]] assms]
      reads_gives [OF check_device_ready_reads [OF working_store [OF assms]] assms]
      reads_gives [OF get_device_id_from_toot_reads [OF working_store [OF assms]] assms]
      reads_gives [OF get_device_pid_from_toot_reads [OF working_store [OF assms]] assms]; simp)+

lemma procs_give:
  assumes "working K w"
  shows "gives_proc (working K) (abs_store K) wsent (ready_spec k (abs_store K w)) (wsent w)
      (set_device_ready K k w)"
    "gives_proc (working K) (abs_store K) wsent (toot_state_spec st k (abs_store K w)) (wsent w)
      (set_toot_state K b st k w)"
    "gives_proc (working K) (abs_store K) wsent (elem_state_spec est k (abs_store K w)) (wsent w)
      (set_element_state K est k w)"
  using working_store [OF assms]
  by (auto intro!: proc_gives [OF _ assms] set_device_ready_refines set_toot_state_refines
      set_element_state_refines)

interpretation model: store_model "module_ops K" "module_inv K" "hazards K" "working K" "abs_store K" wsent
  for K
proof (unfold_locales, goal_cases)
  case (2 s)
  then show ?case by (simp add: working_def module_with_alt store_inv_def)
next
  case (3 s fmt args)
  then show ?case
    by (simp add: module_ops_def working_error) (simp add: add_error_def)
next
  case (8 s buf pid "ty")
  then show ?case by (rule send_gives)
next
  case (15 s name pid uid)
  then show ?case using add_device_gives [of K s name pid uid] by (simp add: module_ops_def)
next
  case (16 s k d)
  then show ?case using attach_gives [of K s k d] by (simp add: module_ops_def)
qed (simp_all add: module_op_defs lookups_give procs_give working_def)

end
