(* ===== verification/Driver_Sample.thy ===== *)
theory Driver_Sample
  imports Driver_Module_Model
begin

text \<open>
  A concrete Linux for the witnesses: an \<open>idr\<close> as an association list, an allocator that hands out
  the lowest free address in blocks of a multiple of eight bytes, more than was asked for, and calls
  that succeed. It has the documented behaviour that \<open>kernel_ok\<close> asks for and none of the hazards.
  And two concrete worlds: the module right after its start, and with one object of each kind.
\<close>

type_synonym list_idr = "(u32 \<times> nat option) list"

definition li_has :: "list_idr \<Rightarrow> u32 \<Rightarrow> bool" where
  "li_has i k = (map_of i k \<noteq> None)"

definition li_find :: "list_idr \<Rightarrow> u32 \<Rightarrow> nat option" where
  "li_find i k = (case map_of i k of Some (Some p) \<Rightarrow> Some p | _ \<Rightarrow> None)"

definition li_alloc :: "list_idr \<Rightarrow> u32 \<Rightarrow> u32 \<Rightarrow> nat \<Rightarrow> (int \<times> u32 \<times> list_idr) \<times> nat" where
  "li_alloc i lo hi e =
     (case find (\<lambda>k. lo \<le> k \<and> k \<le> hi \<and> \<not> li_has i k) (map (\<lambda>n. lo + of_nat n) [0..<Suc (length i)]) of
        None \<Rightarrow> ((- 28, 0, i), e)
      | Some k \<Rightarrow> ((0, k, (k, None) # i), e))"

definition li_replace :: "list_idr \<Rightarrow> nat \<Rightarrow> u32 \<Rightarrow> list_idr" where
  "li_replace i p k = (k, Some p) # i"

definition li_remove :: "list_idr \<Rightarrow> u32 \<Rightarrow> list_idr" where
  "li_remove i k = filter (\<lambda>(j, _). j \<noteq> k) i"

definition li_get_next :: "list_idr \<Rightarrow> u32 \<Rightarrow> (u32 \<times> nat) option" where
  "li_get_next i k =
     (case filter (\<lambda>j. k \<le> j \<and> li_find i j \<noteq> None) (map fst i) of
        [] \<Rightarrow> None
      | j # js \<Rightarrow> let n = foldr min js j in map_option (Pair n) (li_find i n))"

definition sample_kernel :: "(list_idr, nat) kernel" where
  "sample_kernel =
     \<lparr>k_idr_init = [], k_idr_has = li_has, k_idr_find = li_find, k_idr_alloc = li_alloc,
      k_idr_replace = li_replace, k_idr_remove = li_remove, k_idr_get_next = li_get_next,
      k_kmalloc = (\<lambda>used n e. (map_option (\<lambda>a. (a, 8 * (n div 8 + 1)))
                                 (find (\<lambda>a. \<not> used a) [0..<32]), e)),
      k_kmalloc_object = (\<lambda>used e. (find (\<lambda>a. \<not> used a) [0..<32], e)),
      k_cdev_device_add = (\<lambda>dev name e. (0, e)),
      k_cdev_device_del = (\<lambda>dev e. e),
      k_nlmsg_new = (\<lambda>size e. (True, e)),
      k_nlmsg_unicast = (\<lambda>sock msg e. (0, e)),
      k_netlink_kernel_create = (\<lambda>unit e. (Some 7, e)),
      k_alloc_chrdev_region = (\<lambda>first count e. ((0, MKDEV 240 first), e)),
      k_class_create = (\<lambda>e. (Some 1, e)),
      k_copy_from_user = (\<lambda>n e. ((0, replicate n 65), e)),
      k_sleep = (\<lambda>w. w),
      k_stack = (\<lambda>n e. replicate n 170),
      k_nodes = (\<lambda>e. replicate 50 \<lparr>ntype = mpack_type_missing, nlen = 0, nvalue = Val_none\<rparr>),
      k_word = (\<lambda>e. of_nat e)\<rparr>"

lemma map_of_filter_key: "map_of (filter (\<lambda>(j, _). j \<noteq> k) i) = (map_of i)(k := None)"
  by (induction i) (auto simp: fun_eq_iff)

lemma foldr_min: "foldr min js (j :: u32) \<in> set (j # js) \<and> (\<forall>x \<in> set (j # js). foldr min js j \<le> x)"
proof (induction js)
  case (Cons y js)
  then show ?case
    by (cases "y \<le> foldr min js j") (auto simp: min_def not_le intro: order_trans less_imp_le)
qed simp

lemma li_get_next_spec:
  "case li_get_next i k of
     None \<Rightarrow> \<forall>j \<ge> k. li_find i j = None
   | Some (n, p) \<Rightarrow> k \<le> n \<and> li_find i n = Some p \<and> (\<forall>j. k \<le> j \<and> j < n \<longrightarrow> li_find i j = None)"
proof -
  let ?S = "filter (\<lambda>j. k \<le> j \<and> li_find i j \<noteq> None) (map fst i)"
  have mem: "j \<in> set ?S" if "k \<le> j" "li_find i j \<noteq> None" for j
  proof -
    have "map_of i j \<noteq> None" using that(2) by (auto simp: li_find_def split: option.splits)
    then show ?thesis using that by (simp add: map_of_eq_None_iff)
  qed
  show ?thesis
  proof (cases ?S)
    case Nil
    then have "li_find i j = None" if "k \<le> j" for j using mem [OF that] by (cases "li_find i j") auto
    with Nil show ?thesis by (simp add: li_get_next_def)
  next
    case (Cons j js)
    let ?n = "foldr min js j"
    have n: "?n \<in> set ?S" "\<forall>x \<in> set ?S. ?n \<le> x" unfolding Cons using foldr_min [of js j] by auto
    then obtain p where p: "li_find i ?n = Some p" "k \<le> ?n" by auto
    have "li_find i x = None" if x: "k \<le> x" "x < ?n" for x
    proof (rule ccontr)
      assume "li_find i x \<noteq> None"
      then have "?n \<le> x" by (rule bspec [OF n(2) mem [OF x(1)]])
      with x(2) show False by simp
    qed
    moreover have "li_get_next i k = Some (?n, p)"
      by (simp only: li_get_next_def Cons p(1) list.case Let_def option.map)
    ultimately show ?thesis using p by simp
  qed
qed

lemma li_alloc_cases:
  assumes "li_alloc i lo hi e = ((r, k, i'), e')"
  shows "r = - 28 \<and> i' = i \<or>
    r = 0 \<and> lo \<le> k \<and> k \<le> hi \<and> map_of i k = None \<and> i' = (k, None) # i"
proof (cases "find (\<lambda>k. lo \<le> k \<and> k \<le> hi \<and> \<not> li_has i k) (map (\<lambda>n. lo + of_nat n) [0..<Suc (length i)])")
  case None
  then show ?thesis using assms by (simp add: li_alloc_def)
next
  case (Some k')
  then have "lo \<le> k' \<and> k' \<le> hi \<and> \<not> li_has i k'" by (metis (mono_tags, lifting) find_Some_iff)
  then show ?thesis using assms Some by (auto simp: li_alloc_def li_has_def)
qed

lemma sample_idr_ok: "idr_ok sample_kernel"
  unfolding idr_ok_def
proof (intro conjI allI impI)
  fix i lo hi e r k i' e'
  assume "k_idr_alloc sample_kernel i lo hi e = ((r, k, i'), e')"
  then show "if r = 0
    then lo \<le> k \<and> k \<le> hi \<and> \<not> k_idr_has sample_kernel i k \<and>
      k_idr_find sample_kernel i' = k_idr_find sample_kernel i \<and>
      k_idr_has sample_kernel i' = (k_idr_has sample_kernel i)(k := True)
    else k_idr_find sample_kernel i' = k_idr_find sample_kernel i \<and>
      k_idr_has sample_kernel i' = k_idr_has sample_kernel i"
    by (auto dest!: li_alloc_cases simp: sample_kernel_def li_has_def li_find_def fun_eq_iff)
next
  fix i k
  show "case k_idr_get_next sample_kernel i k of
        None \<Rightarrow> \<forall>j \<ge> k. k_idr_find sample_kernel i j = None
      | Some (n, p) \<Rightarrow> k \<le> n \<and> k_idr_find sample_kernel i n = Some p \<and>
          (\<forall>j. k \<le> j \<and> j < n \<longrightarrow> k_idr_find sample_kernel i j = None)"
    using li_get_next_spec [where i = i and k = k] by (simp add: sample_kernel_def cong: option.case_cong)
qed (auto simp: sample_kernel_def li_has_def li_find_def li_replace_def li_remove_def
    map_of_filter_key fun_eq_iff split: option.splits)

lemma sample_malloc_ok: "malloc_ok sample_kernel"
  by (auto simp: malloc_ok_def sample_kernel_def find_Some_iff)

lemma sample_kernel_ok: "kernel_ok sample_kernel"
  using sample_idr_ok sample_malloc_ok by (simp add: kernel_ok_def sample_kernel_def)

text \<open>Another answer of \<open>cdev_device_add\<close>, or other threads, change nothing of this.\<close>

lemma kernel_ok_cong:
  "kernel_ok (K\<lparr>k_cdev_device_add := f\<rparr>) = kernel_ok K"
  "kernel_ok (K\<lparr>k_sleep := g\<rparr>) = kernel_ok K"
  by (cases K, simp only: kernel_ok_def idr_ok_def malloc_ok_def kernel.simps)+

text \<open>An allocator that gives exactly what is asked for.\<close>

definition tight_kernel :: "(list_idr, nat) kernel" where
  "tight_kernel = sample_kernel
     \<lparr>k_kmalloc := (\<lambda>used n e. (map_option (\<lambda>a. (a, n)) (find (\<lambda>a. \<not> used a) [0..<32]), e))\<rparr>"

lemma idr_ok_cong: "idr_ok (K\<lparr>k_kmalloc := f\<rparr>) = idr_ok K"
  by (cases K) (simp only: idr_ok_def kernel.simps)

lemma tight_kernel_ok: "kernel_ok tight_kernel"
proof -
  have "malloc_ok tight_kernel"
    by (auto simp: malloc_ok_def tight_kernel_def sample_kernel_def find_Some_iff)
  then show ?thesis
    using sample_kernel_ok by (simp add: kernel_ok_def tight_kernel_def idr_ok_cong)
qed

text \<open>A Linux with no memory for objects.\<close>

definition starved_kernel :: "(list_idr, nat) kernel" where
  "starved_kernel = sample_kernel\<lparr>k_kmalloc_object := (\<lambda>used e. (None, e))\<rparr>"

lemma idr_ok_cong_object: "idr_ok (K\<lparr>k_kmalloc_object := f\<rparr>) = idr_ok K"
  by (cases K) (simp only: idr_ok_def kernel.simps)

lemma starved_kernel_ok: "kernel_ok starved_kernel"
proof -
  have "malloc_ok starved_kernel"
    by (auto simp: malloc_ok_def starved_kernel_def sample_kernel_def find_Some_iff)
  then show ?thesis
    using sample_kernel_ok by (simp add: kernel_ok_def starved_kernel_def idr_ok_cong_object)
qed

lemma sample_hazards: "hazards sample_kernel = {}"
proof -
  have "n < 8 * (n div 8 + 1)" for n :: nat by presburger
  then have "\<not> 8 * (n div 8 + 1) \<le> n" for n :: nat by (simp add: not_le)
  then show ?thesis by (auto simp: hazards_def sample_kernel_def)
qed

lemma sample_sleep: "sleep_ok sample_kernel P"
  by (simp add: sleep_ok_def sample_kernel_def)

definition start_world :: "(list_idr, nat) world" where
  "start_world =
     \<lparr>devices = [], toots = [], elements = [], miner_min = 0, miner_max = 33, device_major = 240,
      chrdev = MKDEV 240 0, device_class = 1,
      communicator = \<lparr>c_interface = Some Netlink_interface, c_obj = Some 30\<rparr>,
      dev_heap = Map.empty, toot_heap = Map.empty, element_heap = Map.empty, name_heap = Map.empty,
      data_heap = Map.empty, com_heap = [30 \<mapsto> 7],
      held = [Socket 7, Class 1, Region (MKDEV 240 0) 33, Block 31], cdevs = {}, private_data = Map.empty, wsent = [], werr = [],
      kenv = 0\<rparr>"

definition sample_dev :: device_store_t where
  "sample_dev = \<lparr>d_device_id = 1, d_pid = 100, d_uid = 0, d_name = 1, d_dev = MKDEV 240 1, d_sem = 0,
     d_is_ready = True, d_is_attached = True\<rparr>"

definition sample_toot :: toot_store_t where
  "sample_toot = \<lparr>t_toot_id = 5, t_device_id = 1, t_state = OPEND, t_element_count = 2\<rparr>"

definition sample_element :: element_store_t where
  "sample_element = \<lparr>e_element_id = 9, e_toot_id = 5, e_state = ELEMENT_READY, e_index = 2\<rparr>"

definition sample_world :: "(list_idr, nat) world" where
  "sample_world = start_world
     \<lparr>devices := [(1, Some 0)], toots := [(5, Some 2)], elements := [(9, Some 3)],
      dev_heap := [0 \<mapsto> sample_dev], name_heap := [1 \<mapsto> [0x61, 0]],
      toot_heap := [2 \<mapsto> sample_toot], element_heap := [3 \<mapsto> sample_element], cdevs := {0}\<rparr>"

lemmas sample_defs = sample_world_def start_world_def sample_dev_def sample_toot_def sample_element_def

lemma sample_sent: "wsent start_world = []" "wsent sample_world = []"
  by (simp_all add: sample_world_def start_world_def)

lemma sample_find [simp]: "k_idr_find sample_kernel = li_find" "k_idr_find tight_kernel = li_find"
  "k_idr_find starved_kernel = li_find"
  by (simp_all add: sample_kernel_def tight_kernel_def starved_kernel_def)

lemma no_spare_sample [simp]:
  "no_spare sample_kernel [] = True" "no_spare sample_kernel [(k, Some p)]"
  "no_spare tight_kernel [] = True" "no_spare starved_kernel [] = True" "no_spare starved_kernel [(k, Some p)]"
  by (auto simp: no_spare_def sample_kernel_def tight_kernel_def starved_kernel_def li_has_def li_find_def)

lemma li_find_simps [simp]:
  "li_find [] k = None" "li_find ((j, Some p) # i) k = (if k = j then Some p else li_find i k)"
  by (simp_all add: li_find_def)

lemma sample_abs [simp]:
  "abs_store sample_kernel start_world = \<lparr>a_dev = Map.empty, a_toot = Map.empty, a_elem = Map.empty\<rparr>"
  "abs_store sample_kernel sample_world =
     \<lparr>a_dev = [1 \<mapsto> sample_dev], a_toot = [5 \<mapsto> sample_toot], a_elem = [9 \<mapsto> sample_element]\<rparr>"
  "abs_store starved_kernel w = abs_store sample_kernel w"
  by (auto simp: abs_store_def at_def sample_world_def start_world_def fun_eq_iff)

lemma sample_inv [simp]:
  "store_inv sample_kernel start_world" "store_inv sample_kernel sample_world"
  "store_inv tight_kernel start_world" "store_inv starved_kernel start_world"
  "store_inv starved_kernel sample_world"
proof -
  show "store_inv sample_kernel start_world"
    using sample_kernel_ok
    by (simp add: store_inv_def heaps_ok_def linked_def astore_ok_def) (simp add: start_world_def INT_MAX_def)
  show "store_inv sample_kernel sample_world"
    using sample_kernel_ok
    by (simp add: store_inv_def heaps_ok_def linked_def astore_ok_def)
      (simp add: sample_defs INT_MAX_def)
  show "store_inv tight_kernel start_world"
    using tight_kernel_ok
    by (simp add: store_inv_def heaps_ok_def linked_def astore_ok_def abs_store_def at_def)
      (simp add: start_world_def INT_MAX_def)
  show "store_inv starved_kernel start_world"
    using starved_kernel_ok
    by (simp add: store_inv_def heaps_ok_def linked_def astore_ok_def) (simp add: start_world_def INT_MAX_def)
  show "store_inv starved_kernel sample_world"
    using starved_kernel_ok
    by (simp add: store_inv_def heaps_ok_def linked_def astore_ok_def)
      (simp add: sample_defs INT_MAX_def)
qed

text \<open>What the sample Linux gives to an addition.\<close>

lemma sample_given [simp]:
  "object_given sample_kernel (toots sample_world) 0 INT_MAX (live sample_world) (kenv sample_world) =
     Some (0, 4, 0)"
  "object_given sample_kernel (elements sample_world) 0 INT_MAX (live sample_world) (kenv sample_world) =
     Some (0, 4, 0)"
  "object_given sample_kernel (devices start_world) (miner_min start_world) (miner_max start_world)
     (\<lambda>p. p = 0 \<or> live start_world p) 0 = Some (0, 1, 0)"
  "object_given starved_kernel i lo hi used e = None"
  "k_kmalloc sample_kernel (live start_world) 1 (kenv start_world) = (Some (0, 8), 0)"
  "k_kmalloc starved_kernel (live start_world) 1 (kenv start_world) = (Some (0, 8), 0)"
  "k_kmalloc tight_kernel (live start_world) 1 (kenv start_world) = (Some (0, 1), 0)"
proof -
  have "find (\<lambda>a. \<not> live sample_world a) [0..<32] = Some 4"
    by (simp add: upt_conv_Cons live_def sample_defs)
  moreover have "find (\<lambda>a. \<not> (a = 0 \<or> live start_world a)) [0..<32] = Some 1"
    "find (\<lambda>a. \<not> live start_world a) [0..<32] = Some 0"
    by (simp_all add: upt_conv_Cons live_def start_world_def)
  moreover have "toots sample_world = [(5, Some 2)]" "elements sample_world = [(9, Some 3)]"
    "kenv sample_world = 0" "devices start_world = []" "miner_min start_world = 0"
    "miner_max start_world = 33" "kenv start_world = 0"
    by (simp_all add: sample_defs)
  ultimately show
    "object_given sample_kernel (toots sample_world) 0 INT_MAX (live sample_world) (kenv sample_world) =
       Some (0, 4, 0)"
    "object_given sample_kernel (elements sample_world) 0 INT_MAX (live sample_world) (kenv sample_world) =
       Some (0, 4, 0)"
    "object_given sample_kernel (devices start_world) (miner_min start_world) (miner_max start_world)
       (\<lambda>p. p = 0 \<or> live start_world p) 0 = Some (0, 1, 0)"
    "k_kmalloc sample_kernel (live start_world) 1 (kenv start_world) = (Some (0, 8), 0)"
    "k_kmalloc starved_kernel (live start_world) 1 (kenv start_world) = (Some (0, 8), 0)"
    "k_kmalloc tight_kernel (live start_world) 1 (kenv start_world) = (Some (0, 1), 0)"
    by (simp_all add: object_given_def sample_kernel_def tight_kernel_def starved_kernel_def li_alloc_def
        li_has_def INT_MAX_def)
  show "object_given starved_kernel i lo hi used e = None"
    by (simp add: object_given_def starved_kernel_def split: prod.split)
qed

lemma sample_working [simp]: "working sample_kernel start_world" "working sample_kernel sample_world"
proof -
  have "com_live start_world" "com_live sample_world" by (simp_all add: com_live_def sample_defs)
  moreover have "link_up sample_kernel start_world" "link_up sample_kernel sample_world"
    by (simp_all add: link_up_def sample_defs) (simp_all add: sample_kernel_def)
  ultimately show "working sample_kernel start_world" "working sample_kernel sample_world"
    using sample_sleep by (simp_all add: working_def module_with_alt)
qed

lemma sample_module [simp]: "module_inv sample_kernel start_world" "module_inv sample_kernel sample_world"
  using sample_working by (simp_all add: working_def)

end
