(* ===== verification/Driver_Sending.thy ===== *)
theory Driver_Sending
  imports Driver_Sample
begin

text \<open>
  What leaves for the daemon. The three actions of a file (a new toot, an element with a text, the
  end of the toot) each change the store, send one message and wait for the answer; the third contract
  adds what they need of the store, and says what is stored and sent before they wait.
\<close>

subsection \<open>The contract\<close>

text \<open>The call gets into a state with the store \<open>a\<close> and the messages \<open>ms\<close>, and goes on as \<open>k\<close>.\<close>

definition goes_on :: "('s \<Rightarrow> bool) \<Rightarrow> ('s \<Rightarrow> astore) \<Rightarrow> ('s \<Rightarrow> outbox) \<Rightarrow> astore \<Rightarrow> outbox \<Rightarrow>
    ('s \<Rightarrow> ('a \<times> 's) outcome) \<Rightarrow> ('a \<times> 's) outcome \<Rightarrow> bool" where
  "goes_on J view out a ms k m \<longleftrightarrow> (\<exists>s. J s \<and> view s = a \<and> out s = ms \<and> m = k s)"

definition new_toot :: "u32 \<Rightarrow> u32 \<Rightarrow> u32 \<Rightarrow> toot_store_t" where
  "new_toot k device_id n =
     \<lparr>t_toot_id = k, t_device_id = device_id, t_state = OPEN_RESULT_WAIT, t_element_count = n\<rparr>"

definition new_element :: "u32 \<Rightarrow> u32 \<Rightarrow> u32 \<Rightarrow> element_store_t" where
  "new_element k toot_id n =
     \<lparr>e_element_id = k, e_toot_id = toot_id, e_state = ELEMENT_READY, e_index = n\<rparr>"

text \<open>The store with a new element \<open>j\<close> of the toot \<open>t\<close>, and the message that carries its text.\<close>

definition with_element :: "toot_store_t \<Rightarrow> u32 \<Rightarrow> u32 \<Rightarrow> astore \<Rightarrow> astore" where
  "with_element t k j a =
     put_elem j (Some (new_element j k (t_element_count t + 1)))
       (put_toot k (Some (t\<lparr>t_element_count := t_element_count t + 1\<rparr>)) a)"

definition text_message :: "toot_store_t \<Rightarrow> u32 \<Rightarrow> u32 \<Rightarrow> bytes \<Rightarrow> bytes" where
  "text_message t k j text =
     msgpack_encode (Msg_array [Msg_int (uint k), Msg_int (uint (t_device_id t)), Msg_int (uint j),
       Msg_int (uint (t_element_count t + 1)), Msg_str text])"

text \<open>What follows after the message: the wait for the answer, and giving up when it is not the right one.\<close>

definition await_open :: "'s create_toot_payload \<Rightarrow> 's store_ops \<Rightarrow> u32 \<Rightarrow> ('s, bool) call" where
  "await_open p D k s =
     (let give_up = (\<lambda>s. and_then (op_remove_toot D k s) (\<lambda>s. Ret (False, s))) in
      and_then (op_wait_toot_ready_or_failer D k s) (\<lambda>(ready, s).
        if \<not> ready then give_up s
        else and_then (tp_set_toot_id p k (tp_set_toot_id_context p) s)
               (\<lambda>(stored, s). if \<not> stored then give_up s else Ret (True, s))))"

definition await_element :: "u32 \<Rightarrow> 's store_ops \<Rightarrow> u32 \<Rightarrow> ('s, bool) call" where
  "await_element toot_id D k s =
     and_then (op_wait_element_sent_or_failer D k s) (\<lambda>(success, s).
       if \<not> success
       then and_then (op_remove_element D k (op_add_error D
              ''add_toot_element: fail add element. toot id: %d element id: %d'' [toot_id, k] s)) (\<lambda>s. Ret (False, s))
       else Ret (True, s))"

definition await_sent :: "'s store_ops \<Rightarrow> u32 \<Rightarrow> ('s, bool) call" where
  "await_sent D k s =
     and_then (op_wait_toot_sent_or_failer D k s) (\<lambda>(success, s).
       and_then (op_remove_toot D k s) (\<lambda>s. Ret (success, s)))"

text \<open>What an operation of the store has made.\<close>

definition made :: "('a option \<times> 's) outcome \<Rightarrow> 'a option" where
  "made m = (case m of Ret (r, s) \<Rightarrow> r | Fault f \<Rightarrow> None)"

lemma made_simps [simp]: "made (Ret (r, s)) = r" "made (Fault f) = None"
  by (simp_all add: made_def)

locale store_sender = store_model D I F J view out
  for D :: "'s store_ops" and I :: "'s \<Rightarrow> bool" and F :: "fault set"
    and J :: "'s \<Rightarrow> bool" and view :: "'s \<Rightarrow> astore" and out :: "'s \<Rightarrow> outbox" +
  assumes toot_added: "J s \<Longrightarrow>
        gives J view out None (view s) (out s) (op_add_toot D k s) \<or>
        ready_dev (view s) k \<and> (\<exists>j n. a_toot (view s) j = None \<and>
          gives J view out (Some j) (put_toot j (Some (new_toot j k n)) (view s)) (out s)
            (op_add_toot D k s))"
    and element_added: "J s \<Longrightarrow>
        gives J view out None (view s) (out s) (op_add_element D k s) \<or>
        open_toot (view s) k \<and> (\<exists>j t. a_elem (view s) j = None \<and> a_toot (view s) k = Some t \<and>
          gives J view out (Some (j, t_element_count t + 1)) (with_element t k j (view s)) (out s)
            (op_add_element D k s))"
    and element_dropped: "J s \<Longrightarrow>
        gives_proc J view out (put_elem k None (view s)) (out s) (op_remove_element D k s)"
begin

lemma toot_messages:
  assumes "J s" "uint j \<le> 65535 \<or> uint k \<le> 65535"
  shows "encoded (msgpack_encode (toot_value j k))
      (serialize_new_toot \<lparr>nt_toot_id = j, nt_device_id = k\<rparr> (local_buf D 10 s))"
    "encoded (msgpack_encode (toot_value j k))
      (serialize_send_toot \<lparr>st_toot_id = j, st_device_id = k\<rparr> (local_buf D 10 s))"
  using local_buf_fits [OF assms(1), of 10] length_toot_value [of j k] assms(2)
    serialize_new_toot_ok [of "local_buf D 10 s" "\<lparr>nt_toot_id = j, nt_device_id = k\<rparr>"]
    serialize_send_toot_ok [of "local_buf D 10 s" "\<lparr>st_toot_id = j, st_device_id = k\<rparr>"]
  by (auto intro: serialized_encoded)

text \<open>The part of a request from the look-up of the process to the wait.\<close>

lemma owner_and_send:
  assumes "J s" "well_formed buf" "take (bused_size buf) (bbuf buf) = msg"
    "map_option fst (toot_owner (view s) k) = Some pid"
  obtains s1 s2 where "op_get_device_pid_from_toot D k s = Ret (Some pid, s1)"
    "send D pid ty buf s1 = Ret (True, s2)" "J s2" "view s2 = view s" "out s2 = out s @ [(pid, ty, msg)]"
proof -
  obtain s1 where s1: "op_get_device_pid_from_toot D k s = Ret (Some pid, s1)" "J s1" "view s1 = view s"
      "out s1 = out s"
    using toot_pid [OF assms(1), of k] assms(4) by (auto simp: gives_def)
  obtain s2 where "send D pid ty buf s1 = Ret (True, s2)" "J s2" "view s2 = view s"
      "out s2 = out s @ [(pid, ty, msg)]"
    using sending [OF s1(2) assms(2), of pid "ty"] assms(3) s1(3,4) by (auto simp: gives_def)
  with s1(1) show ?thesis by (rule that)
qed

lemma create_toot_sends:
  fixes p :: "'s create_toot_payload"
  assumes "J s" "uint (tp_device_id p) \<le> 65535"
  defines "k \<equiv> tp_device_id p"
  shows "case made (op_add_toot D k s) of
      None \<Rightarrow> gives J view out False (view s) (out s) (create_toot p D s)
    | Some j \<Rightarrow> (\<exists>d n. a_dev (view s) k = Some d \<and> d_is_ready d \<and> a_toot (view s) j = None \<and>
       goes_on J view out (put_toot j (Some (new_toot j k n)) (view s))
         (out s @ [(d_pid d, CRMNA_NEW_TOOT, msgpack_encode (toot_value j k))])
         (await_open p D j) (create_toot p D s))"
  using toot_added [OF assms(1), of k]
proof (elim disjE conjE exE)
  assume "gives J view out None (view s) (out s) (op_add_toot D k s)"
  then show ?thesis by (auto simp: create_toot_def gives_def k_def)
next
  fix j n
  assume ready: "ready_dev (view s) k" and fresh: "a_toot (view s) j = None"
    and "gives J view out (Some j) (put_toot j (Some (new_toot j k n)) (view s)) (out s) (op_add_toot D k s)"
  then obtain s1 where s1: "op_add_toot D k s = Ret (Some j, s1)" "J s1"
      "view s1 = put_toot j (Some (new_toot j k n)) (view s)" "out s1 = out s"
    by (auto simp: gives_def)
  obtain d where d: "a_dev (view s) k = Some d" "d_is_ready d"
    using ready by (auto simp: ready_dev_def split: option.splits)
  obtain buf where buf: "serialize_new_toot \<lparr>nt_toot_id = j, nt_device_id = k\<rparr> (local_buf D 10 s1) = Ret (True, buf)"
      "well_formed buf" "take (bused_size buf) (bbuf buf) = msgpack_encode (toot_value j k)"
    using toot_messages(1) [OF s1(2), of j k] assms(2) by (auto simp: encoded_def k_def)
  have "map_option fst (toot_owner (view s1) j) = Some (d_pid d)"
    using d by (simp add: s1(3) toot_owner_def usable_toot_def ready_dev_def put_toot_def new_toot_def)
  from owner_and_send [OF s1(2) buf(2,3) this] obtain s2 s3 where
    s3: "op_get_device_pid_from_toot D j s1 = Ret (Some (d_pid d), s2)"
      "send D (d_pid d) CRMNA_NEW_TOOT buf s2 = Ret (True, s3)" "J s3" "view s3 = view s1"
      "out s3 = out s1 @ [(d_pid d, CRMNA_NEW_TOOT, msgpack_encode (toot_value j k))]" .
  have "goes_on J view out (put_toot j (Some (new_toot j k n)) (view s))
      (out s @ [(d_pid d, CRMNA_NEW_TOOT, msgpack_encode (toot_value j k))])
      (await_open p D j) (create_toot p D s)"
    unfolding goes_on_def using s1 s3 buf(1)
    by (intro exI [of _ s3]) (simp add: create_toot_def await_open_def k_def [symmetric] Let_def)
  then show ?thesis unfolding s1(1) made_simps option.case using d fresh by blast
qed

text \<open>A text of an element fits the buffer of its message.\<close>

lemma element_message:
  assumes "J s" "att_text d = Some (txt @ 0 # rest)" "0 \<notin> set txt" "length txt \<le> 99" "mpack_utf8_check txt"
  shows "encoded (msgpack_encode (add_toot_value d (Msg_str txt)))
    (serialize_add_toot_element d (local_buf D 200 s))"
proof (rule serialized_encoded)
  show "serialized (msgpack_encode (add_toot_value d (Msg_str txt))) False (local_buf D 200 s)
      (serialize_add_toot_element d (local_buf D 200 s))"
    using assms local_buf_fits [OF assms(1), of 200] by (intro serialize_add_toot_element_ok) simp_all
  show "length (msgpack_encode (add_toot_value d (Msg_str txt))) \<le> bbuf_size (local_buf D 200 s)"
    using assms(4) local_buf_fits [OF assms(1), of 200]
    by (simp add: add_toot_value_def length_msgpack_headers length_msgpack_int)
  show "bbuf_size (local_buf D 200 s) \<le> length (bbuf (local_buf D 200 s))"
    using local_buf_fits [OF assms(1), of 200] by simp
qed

lemma open_toot_owner:
  "a_toot a k = Some t \<Longrightarrow> open_toot a k \<Longrightarrow>
     toot_owner a k = Some (d_pid (the (a_dev a (t_device_id t))), t_device_id t)"
  by (simp add: toot_owner_def usable_toot_def open_toot_def)

lemma add_toot_element_sends:
  fixes p :: add_toot_element_payload
  assumes "J s" "bbuf (ap_text p) = txt @ 0 # rest" "0 \<notin> set txt" "length txt \<le> 99" "mpack_utf8_check txt"
  defines "k \<equiv> ap_toot_id p"
  shows "case made (op_add_element D k s) of
      None \<Rightarrow> gives J view out False (view s) (out s) (add_toot_element p D s)
    | Some (j, n) \<Rightarrow> (\<exists>pid t. a_toot (view s) k = Some t \<and> t_state t = OPEND \<and>
       toot_owner (view s) k = Some (pid, t_device_id t) \<and> a_elem (view s) j = None \<and>
       goes_on J view out (with_element t k j (view s))
         (out s @ [(pid, CRMNA_ADD_TOOT_TEXT, text_message t k j txt)])
         (await_element k D j) (add_toot_element p D s))"
  using element_added [OF assms(1), of k]
proof (elim disjE conjE exE)
  assume "gives J view out None (view s) (out s) (op_add_element D k s)"
  then show ?thesis using report by (auto simp: add_toot_element_def gives_def k_def)
next
  fix j and t :: toot_store_t
  let ?n = "t_element_count t + 1"
  define a where "a = with_element t k j (view s)"
  assume t: "open_toot (view s) k" "a_elem (view s) j = None" "a_toot (view s) k = Some t"
    and "gives J view out (Some (j, ?n)) (with_element t k j (view s)) (out s) (op_add_element D k s)"
  then obtain s1 where s1: "op_add_element D k s = Ret (Some (j, ?n), s1)" "J s1" "view s1 = a" "out s1 = out s"
    by (auto simp: gives_def a_def)
  define pid where "pid = d_pid (the (a_dev (view s) (t_device_id t)))"
  have at: "a_toot a k = Some (t\<lparr>t_element_count := ?n\<rparr>)" "a_dev a = a_dev (view s)"
    by (simp_all add: a_def with_element_def put_elem_def put_toot_def)
  then have open': "open_toot a k" using t by (simp add: open_toot_def ready_dev_def)
  have owner: "toot_owner (view s) k = Some (pid, t_device_id t)" "toot_owner a k = Some (pid, t_device_id t)"
    using open_toot_owner [OF t(3,1)] open_toot_owner [OF at(1) open'] at(2) by (simp_all add: pid_def)
  let ?d = "\<lparr>att_toot_id = k, att_device_id = t_device_id t, att_element_id = j, att_index = ?n,
      att_text = Some (bbuf (ap_text p))\<rparr>"
  let ?msg = "text_message t k j txt"
  obtain s2 where s2: "op_get_device_id_from_toot D k s1 = Ret (Some (t_device_id t), s2)" "J s2"
      "view s2 = a" "out s2 = out s"
    using toot_device [OF s1(2), of k] owner s1(3,4) by (auto simp: gives_def)
  obtain buf where buf: "serialize_add_toot_element ?d (local_buf D 200 s2) = Ret (True, buf)"
      "well_formed buf" "take (bused_size buf) (bbuf buf) = ?msg"
    using element_message [OF s2(2) _ assms(3-5), of ?d rest] assms(2)
    by (auto simp: encoded_def text_message_def add_toot_value_def)
  have "map_option fst (toot_owner (view s2) k) = Some pid" using owner s2(3) by simp
  from owner_and_send [OF s2(2) buf(2,3) this] obtain s3 s4 where
    s4: "op_get_device_pid_from_toot D k s2 = Ret (Some pid, s3)"
      "send D pid CRMNA_ADD_TOOT_TEXT buf s3 = Ret (True, s4)" "J s4" "view s4 = view s2"
      "out s4 = out s2 @ [(pid, CRMNA_ADD_TOOT_TEXT, ?msg)]" .
  have "goes_on J view out a (out s @ [(pid, CRMNA_ADD_TOOT_TEXT, ?msg)])
      (await_element k D j) (add_toot_element p D s)"
    unfolding goes_on_def add_toot_element_def await_element_def k_def [symmetric]
    using s1(1) s2(1,3,4) s4 buf(1) by (intro exI [of _ s4]) simp
  moreover have "t_state t = OPEND" using t by (simp add: open_toot_def)
  ultimately show ?thesis using t(2,3) owner(1) unfolding a_def s1(1) made_simps option.case prod.case by blast
qed

text \<open>A text that is not UTF-8 is not sent, and its element is removed.\<close>

lemma add_toot_element_invalid:
  fixes p :: add_toot_element_payload
  assumes "J s" "bbuf (ap_text p) = txt @ 0 # rest" "0 \<notin> set txt" "length txt \<le> 99" "\<not> mpack_utf8_check txt"
  shows "\<exists>a. a_dev a = a_dev (view s) \<and> a_elem a = a_elem (view s) \<and>
     gives J view out False a (out s) (add_toot_element p D s)"
  using element_added [OF assms(1), of "ap_toot_id p"]
proof (elim disjE conjE exE)
  assume "gives J view out None (view s) (out s) (op_add_element D (ap_toot_id p) s)"
  then show ?thesis using report by (intro exI [of _ "view s"]) (auto simp: add_toot_element_def gives_def)
next
  fix j and t :: toot_store_t
  let ?k = "ap_toot_id p" and ?n = "t_element_count t + 1"
  let ?a = "put_toot ?k (Some (t\<lparr>t_element_count := ?n\<rparr>)) (view s)"
  assume t: "open_toot (view s) ?k" "a_elem (view s) j = None" "a_toot (view s) ?k = Some t"
    and "gives J view out (Some (j, ?n)) (with_element t ?k j (view s)) (out s) (op_add_element D ?k s)"
  then obtain s1 where s1: "op_add_element D ?k s = Ret (Some (j, ?n), s1)" "J s1"
      "view s1 = put_elem j (Some (new_element j ?k ?n)) ?a" "out s1 = out s"
    by (auto simp: gives_def with_element_def)
  have "open_toot (view s1) ?k" "a_toot (view s1) ?k = Some (t\<lparr>t_element_count := ?n\<rparr>)"
    using t by (simp_all add: s1(3) open_toot_def ready_dev_def put_elem_def put_toot_def)
  then obtain s2 where s2: "op_get_device_id_from_toot D ?k s1 = Ret (Some (t_device_id t), s2)" "J s2"
      "view s2 = view s1" "out s2 = out s"
    using toot_device [OF s1(2), of ?k] open_toot_owner s1(4) by (auto simp: gives_def)
  let ?d = "\<lparr>att_toot_id = ?k, att_device_id = t_device_id t, att_element_id = j, att_index = ?n,
      att_text = Some (bbuf (ap_text p))\<rparr>"
  obtain buf where buf: "serialize_add_toot_element ?d (local_buf D 200 s2) = Ret (False, buf)"
    using serialize_add_toot_element_invalid [of "local_buf D 200 s2" ?d "txt" rest] assms(2-5)
      local_buf_fits [OF s2(2), of 200] by auto
  let ?s2 = "op_add_error D ''add_toot_element: cannot get serialize message.'' [] s2"
  obtain s3 where s3: "op_remove_element D j ?s2 = Ret s3" "J s3" "view s3 = put_elem j None (view s1)"
      "out s3 = out s"
    using report [OF s2(2)] element_dropped [of ?s2 j] s2(3,4) by (auto simp: gives_proc_def)
  have "add_toot_element p D s = Ret (False, s3)"
    using s1(1) s2(1) s3(1) buf by (simp add: add_toot_element_def)
  then show ?thesis
    using s3(2-4) t(2) by (intro exI [of _ "view s3"]) (auto simp: s1(3) put_elem_def put_toot_def)
qed

text \<open>Sending a toot.\<close>

lemma send_toot_sends:
  fixes p :: send_toot_payload
  assumes "J s" "toot_owner (view s) (sp_toot_id p) = Some (pid, dev)"
    "toot_owner (view s) (sp_word_8 p) = Some (pid', dev')" "uint dev' \<le> 65535"
  defines "k \<equiv> sp_toot_id p"
  shows "goes_on J view out (view s)
    (out s @ [(pid, CRMNA_SEND_TOOT, msgpack_encode (toot_value k dev'))])
    (await_sent D k) (send_toot p D s)"
proof -
  obtain s1 where s1: "op_get_device_id_from_toot D (sp_word_8 p) s = Ret (Some dev', s1)" "J s1"
      "view s1 = view s" "out s1 = out s"
    using toot_device [OF assms(1), of "sp_word_8 p"] assms(3) by (auto simp: gives_def)
  obtain buf where buf: "serialize_send_toot \<lparr>st_toot_id = k, st_device_id = dev'\<rparr> (local_buf D 10 s1) = Ret (True, buf)"
      "well_formed buf" "take (bused_size buf) (bbuf buf) = msgpack_encode (toot_value k dev')"
    using toot_messages(2) [OF s1(2), of k dev'] assms(4) by (auto simp: encoded_def)
  have "map_option fst (toot_owner (view s1) k) = Some pid" using assms(2) s1(3) by (simp add: k_def)
  from owner_and_send [OF s1(2) buf(2,3) this] obtain s2 s3 where
    "op_get_device_pid_from_toot D k s1 = Ret (Some pid, s2)"
      "send D pid CRMNA_SEND_TOOT buf s2 = Ret (True, s3)" "J s3" "view s3 = view s1"
      "out s3 = out s1 @ [(pid, CRMNA_SEND_TOOT, msgpack_encode (toot_value k dev'))]" .
  with s1 buf(1) show ?thesis
    unfolding goes_on_def
    by (intro exI [of _ s3])
      (auto simp: send_toot_def await_sent_def k_def [symmetric] Let_def intro!: and_then_cong)
qed

lemma send_toot_refused:
  assumes "J s" "toot_owner (view s) (sp_word_8 p) = None"
  shows "gives J view out False (view s) (out s) (send_toot p D s)"
  using toot_device [OF assms(1), of "sp_word_8 p"] assms(2) by (auto simp: send_toot_def gives_def)

end

interpretation sender: store_sender "module_ops K" "module_inv K" "hazards K" "working K" "abs_store K" wsent
  for K
proof (unfold_locales, goal_cases)
  case (1 w k)
  from add_toot_refines [OF working_store [OF 1], of k] show ?case
    using added_toot_cases [OF working_store [OF 1], of k "add_toot K k w"]
    unfolding module_ops_def new_toot_def by (auto intro: refines_gives [OF _ 1])
next
  case (2 w k)
  from add_element_refines [OF working_store [OF 2], of k] show ?case
    using added_element_cases [OF working_store [OF 2], of k "add_element K k w"]
    unfolding module_ops_def new_element_def with_element_def Let_def by (auto intro: refines_gives [OF _ 2])
next
  case (3 w k)
  then show ?case using proc_gives [OF remove_element_refines [OF working_store [OF 3]] 3] by (simp add: module_ops_def)
qed

text \<open>The same for the end of a toot, with the world in which it waits.\<close>

lemma send_toot_run:
  assumes "working K w" "toot_owner (abs_store K w) k = Some (pid, dev)"
    "toot_owner (abs_store K w) j = Some (pid', dev')" "uint dev' \<le> 65535"
  shows "\<exists>err e. send_toot \<lparr>sp_toot_id = k, sp_word_8 = j\<rparr> (module_ops K) w =
    await_sent (module_ops K) k (w\<lparr>werr := err, kenv := e,
      wsent := wsent w @ [(pid, CRMNA_SEND_TOOT, msgpack_encode (toot_value k dev'))]\<rparr>)"
proof -
  let ?D = "module_ops K"
  have inv: "store_inv K w" by (rule working_store [OF assms(1)])
  obtain err where id: "get_device_id_from_toot K j w = Ret (Some dev', w\<lparr>werr := err\<rparr>)"
    using get_device_id_from_toot_reads [OF inv, of j, folded toot_owner_ids] assms(3) by (auto simp: reads_def)
  obtain err' where pid: "get_device_pid_from_toot K k (w\<lparr>werr := err\<rparr>) = Ret (Some pid, w\<lparr>werr := err'\<rparr>)"
    using get_device_pid_from_toot_reads [of K "w\<lparr>werr := err\<rparr>" k, folded toot_owner_ids] inv assms(2)
    by (auto simp: reads_def)
  have w: "working K (w\<lparr>werr := x\<rparr>)" for x
    using assms(1) by (simp add: working_def module_err link_up_def)
  obtain buf where buf: "serialize_send_toot \<lparr>st_toot_id = k, st_device_id = dev'\<rparr> (local_buf ?D 10 (w\<lparr>werr := err\<rparr>)) =
        Ret (True, buf)"
      "well_formed buf" "take (bused_size buf) (bbuf buf) = msgpack_encode (toot_value k dev')"
    using sender.toot_messages(2) [OF w, of k dev'] assms(4) by (auto simp: encoded_def)
  obtain e where sent: "send ?D pid CRMNA_SEND_TOOT buf (w\<lparr>werr := err'\<rparr>) = Ret (True, w\<lparr>werr := err', kenv := e,
      wsent := wsent w @ [(pid, CRMNA_SEND_TOOT, msgpack_encode (toot_value k dev'))]\<rparr>)"
    using send_working [OF w [of err'] buf(2), of pid CRMNA_SEND_TOOT] buf(3) by auto
  have ops: "op_get_device_id_from_toot ?D = get_device_id_from_toot K"
      "op_get_device_pid_from_toot ?D = get_device_pid_from_toot K"
    by (simp_all add: module_ops_def)
  show ?thesis
    by (intro exI [of _ err'] exI [of _ e])
      (auto simp: send_toot_def await_sent_def ops id pid buf(1) sent Let_def intro!: and_then_cong)
qed

subsection \<open>The files\<close>

text \<open>A file operation returns \<open>n\<close>, or an error, after the action \<open>m\<close>.\<close>

definition finished :: "int \<Rightarrow> (bool \<times> ('i, 'e) world) outcome \<Rightarrow> (int \<times> ('i, 'e) world) outcome \<Rightarrow> bool" where
  "finished n m m' \<longleftrightarrow>
     (case m of
        Ret (ok, w) \<Rightarrow> \<exists>err. m' = Ret (if ok then n else - EFAULT, w\<lparr>werr := err\<rparr>)
      | Fault f \<Rightarrow> m' = Fault f)"

text \<open>An operation that fails and has sent nothing.\<close>

definition refused :: "('i, 'e) kernel \<Rightarrow> ('i, 'e) world \<Rightarrow> (int \<times> ('i, 'e) world) outcome \<Rightarrow> bool" where
  "refused K w m \<longleftrightarrow> (\<exists>w'. m = Ret (- EFAULT, w') \<and> working K w' \<and>
     a_dev (abs_store K w') = a_dev (abs_store K w) \<and> a_elem (abs_store K w') = a_elem (abs_store K w) \<and>
     wsent w' = wsent w)"

lemma working_err: "working K (w\<lparr>werr := err\<rparr>) = working K w"
  by (simp add: working_def module_err link_up_def)

lemma working_env: "working K (w\<lparr>kenv := e\<rparr>) = working K w"
  by (simp add: working_def module_env link_up_def)

lemma env_abs [simp]: "abs_store K (w\<lparr>kenv := e\<rparr>) = abs_store K w"
  by (simp add: abs_store_def)

lemma gives_refused:
  assumes "module_gives K False a (wsent w) m" "finished n m m'"
    "a_dev a = a_dev (abs_store K w)" "a_elem a = a_elem (abs_store K w)"
  shows "refused K w m'"
  using assms by (auto simp: gives_def finished_def refused_def working_err)

lemma toot_write_run:
  assumes "private_data w file = Some data" "data_heap w data = Some k" "dev_heap w device \<noteq> None"
    "k_copy_from_user K (min count 99) (kenv w) = ((0, bs), e)"
  defines "copied \<equiv> take (min count 99) bs"
  shows "finished (int (min count 99))
    (add_toot_element \<lparr>ap_toot_id = k,
       ap_text = DEFINE_CRMNA_BUF (copied @ replicate (100 - length copied) 0) 100\<rparr>
       (module_ops K) (w\<lparr>werr := [], kenv := e\<rparr>))
    (toot_write K device file count w)"
proof -
  have cnt: "(if count < 99 then count else 99) = min count 99" by simp
  obtain d where "dev_heap w device = Some d" using assms(3) by blast
  then show ?thesis
    using assms(1,2,4) unfolding finished_def toot_write_def with_err_def cnt
    by (auto simp: heap_step_defs create_action_add_toot_element_def copied_def add_error_def Let_def
        split: outcome.splits)
qed

text \<open>What is copied goes through a zeroed buffer, so its text ends.\<close>

lemma written_text:
  assumes "copied = txt @ pad" "pad = [] \<or> hd pad = 0" "length copied \<le> 99"
  shows "\<exists>rest. copied @ replicate (100 - length copied) 0 = txt @ (0 :: u8) # rest"
proof (cases pad)
  case Nil
  have "replicate (100 - length copied) (0 :: u8) = 0 # replicate (99 - length copied) 0"
    using assms(3) by (cases "100 - length copied") auto
  then show ?thesis using assms(1) Nil by simp
next
  case (Cons b bs)
  then show ?thesis using assms(1,2) by simp
qed

lemma toot_write_action:
  assumes "private_data w file = Some data" "data_heap w data = Some k" "dev_heap w device \<noteq> None"
    "k_copy_from_user K (min count 99) (kenv w) = ((0, bs), e)"
    "take (min count 99) bs = text @ pad" "pad = [] \<or> hd pad = 0"
  obtains p rest where "ap_toot_id p = k" "bbuf (ap_text p) = text @ 0 # rest" "length text \<le> 99"
    "finished (int (min count 99)) (add_toot_element p (module_ops K) (w\<lparr>werr := [], kenv := e\<rparr>))
       (toot_write K device file count w)"
proof -
  let ?copied = "text @ pad"
  let ?p = "\<lparr>ap_toot_id = k, ap_text = DEFINE_CRMNA_BUF (?copied @ replicate (100 - length ?copied) 0) 100\<rparr>"
  have len: "length ?copied \<le> 99" unfolding assms(5) [symmetric] by simp
  obtain rest where "?copied @ replicate (100 - length ?copied) 0 = text @ 0 # rest"
    using written_text [OF refl assms(6) len] by blast
  then have "bbuf (ap_text ?p) = text @ 0 # rest" by (simp add: DEFINE_CRMNA_BUF_def)
  moreover have "finished (int (min count 99)) (add_toot_element ?p (module_ops K) (w\<lparr>werr := [], kenv := e\<rparr>))
      (toot_write K device file count w)"
    using toot_write_run [OF assms(1-4)] unfolding assms(5) .
  ultimately show ?thesis using len by (intro that [of ?p rest]) simp_all
qed

text \<open>
  C11. Writing to an open file. The bytes taken from the program, at most 99 and up to the first NUL, become
  an element of the toot behind the file, and one message with the ids and the text goes to the process
  that owns the device; then the call waits for the answer. When the store makes no element (the toot is
  not open, or Linux has no memory or id left), or the text is not UTF-8, the call fails and nothing is sent.
\<close>

theorem toot_write_sends:
  assumes "working K w" "private_data w file = Some data" "data_heap w data = Some k"
    "dev_heap w device \<noteq> None" "k_copy_from_user K (min count 99) (kenv w) = ((0, bs), e)"
    "take (min count 99) bs = text @ pad" "0 \<notin> set text" "pad = [] \<or> hd pad = 0"
  shows "case made (add_element K k (w\<lparr>werr := [], kenv := e\<rparr>)) of
      None \<Rightarrow> refused K w (toot_write K device file count w)
    | Some (j, n) \<Rightarrow> if \<not> mpack_utf8_check text then refused K w (toot_write K device file count w) else
    (\<exists>pid t s. a_toot (abs_store K w) k = Some t \<and> t_state t = OPEND \<and>
       toot_owner (abs_store K w) k = Some (pid, t_device_id t) \<and> a_elem (abs_store K w) j = None \<and>
       working K s \<and> abs_store K s = with_element t k j (abs_store K w) \<and>
       wsent s = wsent w @ [(pid, CRMNA_ADD_TOOT_TEXT, text_message t k j text)] \<and>
       finished (int (min count 99)) (await_element k (module_ops K) j s)
         (toot_write K device file count w))"
proof -
  let ?w = "w\<lparr>werr := [], kenv := e\<rparr>"
  obtain p rest where p: "ap_toot_id p = k" and bbuf: "bbuf (ap_text p) = text @ 0 # rest"
    and short: "length text \<le> 99"
    and run: "finished (int (min count 99)) (add_toot_element p (module_ops K) ?w) (toot_write K device file count w)"
    using toot_write_action [OF assms(2-6,8)] by blast
  have w: "working K ?w" "abs_store K ?w = abs_store K w" "wsent ?w = wsent w"
    using assms(1) by (simp_all add: working_err working_env)
  have add: "op_add_element (module_ops K) = add_element K" by (simp add: module_ops_def)
  show ?thesis
  proof (cases "mpack_utf8_check text")
    case False
    from sender.add_toot_element_invalid [OF w(1) bbuf assms(7) short False]
    have "refused K w (toot_write K device file count w)" using gives_refused [OF _ run] w(2,3) by auto
    then show ?thesis using False by (auto split: option.split)
  next
    case True
    note sends = sender.add_toot_element_sends [OF w(1) bbuf assms(7) short True, unfolded add
        p w(2,3)]
    show ?thesis
    proof (cases "made (add_element K k ?w)")
      case None
      then have "module_gives K False (abs_store K w) (wsent w) (add_toot_element p (module_ops K) ?w)"
        using sends by simp
      from gives_refused [OF this run] show ?thesis using None by simp
    next
      case (Some jn)
      obtain j n where jn: "jn = (j, n)" by fastforce
      obtain pid and t :: toot_store_t where t: "a_toot (abs_store K w) k = Some t" "t_state t = OPEND"
          "toot_owner (abs_store K w) k = Some (pid, t_device_id t)" "a_elem (abs_store K w) j = None"
        and g: "goes_on (working K) (abs_store K) wsent (with_element t k j (abs_store K w))
          (wsent w @ [(pid, CRMNA_ADD_TOOT_TEXT, text_message t k j text)])
          (await_element k (module_ops K) j) (add_toot_element p (module_ops K) ?w)"
        using sends Some jn by auto
      from g obtain s where s: "working K s" "abs_store K s = with_element t k j (abs_store K w)"
          "wsent s = wsent w @ [(pid, CRMNA_ADD_TOOT_TEXT, text_message t k j text)]"
          "add_toot_element p (module_ops K) ?w = await_element k (module_ops K) j s"
        by (auto simp: goes_on_def)
      show ?thesis
        unfolding Some jn option.case prod.case
        using t s(1-3) run [unfolded s(4)] True by auto
    qed
  qed
qed

definition opened_world :: "(list_idr, nat) world" where
  "opened_world = sample_world\<lparr>private_data := [4 \<mapsto> 8], data_heap := [8 \<mapsto> 5]\<rparr>"

lemma opened_defs:
  "private_data opened_world 4 = Some 8" "data_heap opened_world 8 = Some 5"
  "dev_heap opened_world 0 = Some sample_dev" "kenv opened_world = 0"
  "abs_store sample_kernel opened_world = abs_store sample_kernel sample_world"
  by (simp_all add: opened_world_def sample_defs abs_store_def)

lemma opened_working: "working sample_kernel opened_world"
proof -
  have "module_inv sample_kernel opened_world"
    using sample_module(2)
    by (simp add: opened_world_def module_with_alt blocks_def com_live_def store_inv_def heaps_ok_def abs_store_def)
  moreover have "link_up sample_kernel opened_world"
    by (simp add: link_up_def opened_world_def sample_kernel_def sample_defs)
  ultimately show ?thesis by (simp add: working_def)
qed

lemma sample_allocates:
  "\<not> used 20 \<Longrightarrow> \<exists>a. find (\<lambda>a. \<not> used a) [0..<32] = Some a" for used :: "nat \<Rightarrow> bool"
  using find_None_iff [of "\<lambda>a. \<not> used a" "[0..<32]"] by (cases "find (\<lambda>a. \<not> used a) [0..<32]") auto

lemma opened_add_element:
  "made (add_element sample_kernel 5 (opened_world\<lparr>werr := [], kenv := 0\<rparr>)) = Some (0, 3)"
proof -
  let ?w = "opened_world\<lparr>werr := [], kenv := 0\<rparr>"
  have "store_inv sample_kernel ?w"
    by (rule working_store) (simp add: working_err working_env opened_working)
  moreover have "open_toot (abs_store sample_kernel ?w) 5"
    by (simp add: opened_defs open_toot_def ready_dev_def) (simp add: sample_defs)
  ultimately obtain err where ready: "check_toot_ready sample_kernel 5 ?w = Ret (True, ?w\<lparr>werr := err\<rparr>)"
    using check_toot_ready_reads [of sample_kernel ?w 5] by (auto simp: reads_def)
  have alloc: "k_idr_alloc sample_kernel [(9, Some 3)] 0 INT_MAX 0 =
      ((0, 0, [(0, None), (9, Some 3)]), 0)"
    by (simp add: sample_kernel_def li_alloc_def li_has_def INT_MAX_def)
  have object: "k_kmalloc_object sample_kernel used 0 = (find (\<lambda>a. \<not> used a) [0..<32], 0)" for used
    by (simp add: sample_kernel_def)
  let ?live = "live (?w\<lparr>werr := err, elements := [(0, None), (9, Some 3)]\<rparr>)"
  have "\<not> ?live 20" by (simp add: live_def opened_world_def sample_defs)
  with sample_allocates [of ?live] obtain p where p: "find (\<lambda>a. \<not> ?live a) [0..<32] = Some p" by blast
  show ?thesis
    unfolding add_element_def ready
    using p by (simp add: opened_world_def sample_defs alloc object kmalloc_object_def find_toot_def heap_step_defs
        settle_def)
qed

theorem toot_write_sends_witness:
  "\<exists>s. working sample_kernel s \<and>
     abs_store sample_kernel s = with_element sample_toot 5 0 (abs_store sample_kernel sample_world) \<and>
     wsent s = [(100, CRMNA_ADD_TOOT_TEXT, text_message sample_toot 5 0 [65])] \<and>
     finished 1 (await_element 5 (module_ops sample_kernel) 0 s)
       (toot_write sample_kernel 0 4 1 opened_world)"
proof -
  have toot: "t_state sample_toot = OPEND" "t_device_id sample_toot = 1" by (simp_all add: sample_defs)
  have copy: "k_copy_from_user sample_kernel (Suc 0) 0 = ((0, [65]), 0)" by (simp add: sample_kernel_def)
  have "toot_owner (abs_store sample_kernel sample_world) 5 = Some (100, 1)"
    by (simp add: toot_owner_def usable_toot_def ready_dev_def) (simp add: sample_defs)
  moreover have "wsent opened_world = []" by (simp add: opened_world_def sample_defs)
  moreover have "mpack_utf8_check [65]" by (simp add: mpack_utf8_check_def mpack_utf8_check_impl.simps)
  ultimately show ?thesis
    using toot_write_sends [OF opened_working opened_defs(1,2), of 0 1 "[65]" 0 "[65]" "[]"]
    by (simp add: opened_defs opened_add_element toot copy)
qed

lemma toot_open_run:
  assumes "dev_heap w device = Some d"
  shows "finished 0 (create_toot \<lparr>tp_device_id = d_device_id d, tp_set_toot_id = set_toot_id K,
      tp_set_toot_id_context = file\<rparr> (module_ops K) (w\<lparr>werr := []\<rparr>)) (toot_open K device file w)"
  using assms unfolding finished_def toot_open_def with_err_def
  by (auto simp: heap_step_defs create_action_create_toot_def add_error_def split: outcome.splits)

text \<open>Closing frees the block behind the file in any case.\<close>

definition closed :: "nat \<Rightarrow> (bool \<times> ('i, 'e) world) outcome \<Rightarrow> (int \<times> ('i, 'e) world) outcome \<Rightarrow> bool" where
  "closed data m m' \<longleftrightarrow>
     (case m of
        Ret (ok, w) \<Rightarrow>
          if data_heap w data = None then m' = Fault Use_after_free
          else \<exists>err. m' = Ret (if ok then 0 else - EFAULT,
                 w\<lparr>data_heap := (data_heap w)(data := None), werr := err\<rparr>)
      | Fault f \<Rightarrow> m' = Fault f)"

lemma toot_close_run:
  assumes "private_data w file = Some data" "data_heap w data = Some k" "dev_heap w device \<noteq> None"
  shows "closed data (send_toot \<lparr>sp_toot_id = k, sp_word_8 = k_word K (kenv w)\<rparr> (module_ops K)
      (w\<lparr>werr := []\<rparr>)) (toot_close K device file w)"
proof -
  obtain d where d: "dev_heap w device = Some d" using assms(3) by blast
  let ?m = "send_toot \<lparr>sp_toot_id = k, sp_word_8 = k_word K (kenv w)\<rparr> (module_ops K) (w\<lparr>werr := []\<rparr>)"
  have run: "toot_close K device file w = and_then ?m (\<lambda>(ok, w1).
      and_then (free_at (data_heap w1) data) (\<lambda>h. let w1 = w1\<lparr>data_heap := h\<rparr> in
        if \<not> ok then Ret (- EFAULT, (add_error ''toot_close: toot close fail. toot id: %d'' [k] w1)\<lparr>werr := werr w\<rparr>)
        else Ret (0, w1\<lparr>werr := werr w\<rparr>)))"
    using assms(1,2) d
    by (cases ?m) (simp_all add: toot_close_def with_err_def heap_step_defs Let_def
        create_action_send_toot_def split: prod.splits option.splits)
  show ?thesis
  proof (cases ?m)
    case (Fault f)
    then show ?thesis using run by (simp add: closed_def)
  next
    case (Ret r)
    obtain ok w1 where r: "r = (ok, w1)" by fastforce
    show ?thesis
    proof (cases "data_heap w1 data")
      case None
      then show ?thesis using run Ret r by (simp add: closed_def free_at_def)
    next
      case (Some k')
      have "toot_close K device file w = Ret (if ok then 0 else - EFAULT,
          w1\<lparr>data_heap := (data_heap w1)(data := None), werr := werr w\<rparr>)"
        using run Ret r Some by (simp add: free_at_def add_error_def)
      then show ?thesis using Ret r Some by (simp add: closed_def) blast
    qed
  qed
qed

lemma send_toot_reads:
  assumes "store_inv K w" "toot_owner (abs_store K w) (sp_word_8 p) = None"
  shows "reads w False (send_toot p (module_ops K) w)"
proof -
  have "(if usable_toot (abs_store K w) (sp_word_8 p)
      then map_option t_device_id (a_toot (abs_store K w) (sp_word_8 p)) else None) = None"
    using assms(2) by (auto simp: toot_owner_def usable_toot_def split: option.splits if_splits)
  with get_device_id_from_toot_reads [OF assms(1), of "sp_word_8 p"]
  show ?thesis by (auto simp: reads_def send_toot_def module_ops_def)
qed

lemma device_in_store:
  assumes "store_inv K w" "dev_heap w p = Some d"
  shows "a_dev (abs_store K w) (d_device_id d) = Some d"
proof -
  have "k_idr_find K (devices w) (d_device_id d) = Some p"
    using assms linked_id by (fastforce simp: store_inv_def heaps_ok_def)
  then show ?thesis using assms(2) by (simp add: abs_store_def at_def)
qed

lemma toot_open_sends:
  assumes "working K w" "dev_heap w device = Some d" "uint (d_device_id d) \<le> 65535"
  shows "case made (add_toot K (d_device_id d) (w\<lparr>werr := []\<rparr>)) of
      None \<Rightarrow> refused K w (toot_open K device file w)
    | Some j \<Rightarrow> d_is_ready d \<and> (\<exists>n s. a_toot (abs_store K w) j = None \<and> working K s \<and>
         abs_store K s = put_toot j (Some (new_toot j (d_device_id d) n)) (abs_store K w) \<and>
         wsent s = wsent w @ [(d_pid d, CRMNA_NEW_TOOT, msgpack_encode (toot_value j (d_device_id d)))] \<and>
         finished 0 (await_open \<lparr>tp_device_id = d_device_id d, tp_set_toot_id = set_toot_id K,
             tp_set_toot_id_context = file\<rparr> (module_ops K) j s) (toot_open K device file w))"
proof -
  let ?w = "w\<lparr>werr := []\<rparr>"
  have w: "working K ?w" "abs_store K ?w = abs_store K w" "wsent ?w = wsent w"
    using assms(1) by (simp_all add: working_err)
  let ?p = "\<lparr>tp_device_id = d_device_id d, tp_set_toot_id = set_toot_id K, tp_set_toot_id_context = file\<rparr>"
  have run: "finished 0 (create_toot ?p (module_ops K) ?w) (toot_open K device file w)"
    by (rule toot_open_run [OF assms(2)])
  have here: "a_dev (abs_store K w) (d_device_id d) = Some d"
    by (rule device_in_store [OF working_store [OF assms(1)] assms(2)])
  have "uint (tp_device_id ?p) \<le> 65535" using assms(3) by simp
  note sends = sender.create_toot_sends [OF w(1) this, unfolded create_toot_payload.simps w(2,3)]
  have add: "op_add_toot (module_ops K) = add_toot K" by (simp add: module_ops_def)
  show ?thesis
  proof (cases "made (add_toot K (d_device_id d) ?w)")
    case None
    then have "module_gives K False (abs_store K w) (wsent w) (create_toot ?p (module_ops K) ?w)"
      using sends add by simp
    from gives_refused [OF this run] show ?thesis using None by simp
  next
    case (Some j)
    then obtain n where j: "a_toot (abs_store K w) j = None" "d_is_ready d" and
      "goes_on (working K) (abs_store K) wsent
        (put_toot j (Some (new_toot j (d_device_id d) n)) (abs_store K w))
        (wsent w @ [(d_pid d, CRMNA_NEW_TOOT, msgpack_encode (toot_value j (d_device_id d)))])
        (await_open ?p (module_ops K) j) (create_toot ?p (module_ops K) ?w)"
      using sends add here by auto
    then obtain s where "working K s"
        "abs_store K s = put_toot j (Some (new_toot j (d_device_id d) n)) (abs_store K w)"
        "wsent s = wsent w @ [(d_pid d, CRMNA_NEW_TOOT, msgpack_encode (toot_value j (d_device_id d)))]"
        "create_toot ?p (module_ops K) ?w = await_open ?p (module_ops K) j s"
      by (auto simp: goes_on_def)
    with j run show ?thesis unfolding Some option.case by metis
  qed
qed

lemma toot_close_sends:
  assumes "working K w" "dev_heap w device \<noteq> None" "private_data w file = Some data" "data_heap w data = Some k"
    "toot_owner (abs_store K w) k = Some (pid, dev)"
    "toot_owner (abs_store K w) (k_word K (kenv w)) = Some (pid', dev')" "uint dev' \<le> 65535"
  shows "\<exists>s. working K s \<and> abs_store K s = abs_store K w \<and>
    wsent s = wsent w @ [(pid, CRMNA_SEND_TOOT, msgpack_encode (toot_value k dev'))] \<and>
    closed data (await_sent (module_ops K) k s) (toot_close K device file w)"
proof -
  let ?w = "w\<lparr>werr := []\<rparr>" and ?q = "\<lparr>sp_toot_id = k, sp_word_8 = k_word K (kenv w)\<rparr>"
  have w: "working K ?w" "abs_store K ?w = abs_store K w" "wsent ?w = wsent w"
    using assms(1) by (simp_all add: working_err)
  have owners: "toot_owner (abs_store K ?w) (sp_toot_id ?q) = Some (pid, dev)"
      "toot_owner (abs_store K ?w) (sp_word_8 ?q) = Some (pid', dev')"
    using assms(5,6) w(2) by simp_all
  show ?thesis
    using sender.send_toot_sends [OF w(1) owners assms(7)] toot_close_run [OF assms(3,4,2), of K] w(2,3)
    by (auto simp: goes_on_def)
qed

lemma toot_close_refused:
  assumes "working K w" "dev_heap w device \<noteq> None" "private_data w file = Some data" "data_heap w data = Some k"
    "toot_owner (abs_store K w) (k_word K (kenv w)) = None"
  shows "\<exists>err. toot_close K device file w =
    Ret (- EFAULT, w\<lparr>data_heap := (data_heap w)(data := None), werr := err\<rparr>)"
proof -
  let ?w = "w\<lparr>werr := []\<rparr>" and ?q = "\<lparr>sp_toot_id = k, sp_word_8 = k_word K (kenv w)\<rparr>"
  have "reads ?w False (send_toot ?q (module_ops K) ?w)"
    using send_toot_reads [of K ?w ?q] working_store [OF assms(1)] assms(5) by simp
  then show ?thesis
    using toot_close_run [OF assms(3,4,2), of K] assms(4) by (auto simp: reads_def closed_def)
qed

text \<open>
  C12. Opening a device makes a toot that waits for the daemon, and asks the process that owns the device
  to open it; closing asks it to send the toot. The message of the latter names the device of another
  toot: the one whose id is the word that happens to lie in the frame. When there is no such toot, nothing
  is sent, and the call fails.
\<close>

theorem toot_open_close_send:
  assumes "working K w" "dev_heap w device = Some d" "uint (d_device_id d) \<le> 65535"
    "private_data w file = Some data" "data_heap w data = Some k"
    "toot_owner (abs_store K w) k = Some (pid, dev)"
    "\<forall>pid' dev'. toot_owner (abs_store K w) (k_word K (kenv w)) = Some (pid', dev') \<longrightarrow> uint dev' \<le> 65535"
  shows "(case made (add_toot K (d_device_id d) (w\<lparr>werr := []\<rparr>)) of
      None \<Rightarrow> refused K w (toot_open K device file' w)
    | Some j \<Rightarrow> d_is_ready d \<and> (\<exists>n s. a_toot (abs_store K w) j = None \<and> working K s \<and>
         abs_store K s = put_toot j (Some (new_toot j (d_device_id d) n)) (abs_store K w) \<and>
         wsent s = wsent w @ [(d_pid d, CRMNA_NEW_TOOT, msgpack_encode (toot_value j (d_device_id d)))] \<and>
         finished 0 (await_open \<lparr>tp_device_id = d_device_id d, tp_set_toot_id = set_toot_id K,
             tp_set_toot_id_context = file'\<rparr> (module_ops K) j s) (toot_open K device file' w))) \<and>
    (case toot_owner (abs_store K w) (k_word K (kenv w)) of
       None \<Rightarrow> \<exists>err. toot_close K device file w =
         Ret (- EFAULT, w\<lparr>data_heap := (data_heap w)(data := None), werr := err\<rparr>)
     | Some (pid', dev') \<Rightarrow> \<exists>s. working K s \<and> abs_store K s = abs_store K w \<and>
         wsent s = wsent w @ [(pid, CRMNA_SEND_TOOT, msgpack_encode (toot_value k dev'))] \<and>
         closed data (await_sent (module_ops K) k s) (toot_close K device file w))"
  using toot_open_sends [OF assms(1-3)] toot_close_sends [OF assms(1) _ assms(4-6)]
    toot_close_refused [OF assms(1) _ assms(4,5)] assms(2,7)
  by (auto split: option.splits)

theorem toot_open_close_send_witness:
  "\<exists>s. working sample_kernel s \<and> abs_store sample_kernel s = abs_store sample_kernel sample_world \<and>
     wsent s = [(100, CRMNA_SEND_TOOT, msgpack_encode (toot_value 5 1))] \<and>
     closed 8 (await_sent (module_ops sample_kernel) 5 s)
       (toot_close sample_kernel 0 4 (opened_world\<lparr>kenv := 5\<rparr>))"
proof -
  let ?w = "opened_world\<lparr>kenv := 5\<rparr>"
  have w: "abs_store sample_kernel ?w = abs_store sample_kernel sample_world" "wsent ?w = []"
    by (simp_all only: env_abs opened_defs) (simp add: opened_world_def sample_defs)
  have owner: "toot_owner (abs_store sample_kernel ?w) 5 = Some (100, 1)"
    unfolding w(1) by (simp add: toot_owner_def usable_toot_def ready_dev_def) (simp add: sample_defs)
  have id: "uint (d_device_id sample_dev) \<le> 65535" "k_word sample_kernel (kenv ?w) = 5"
    by (simp_all add: sample_defs sample_kernel_def)
  have heaps: "private_data ?w 4 = Some 8" "data_heap ?w 8 = Some 5" "dev_heap ?w 0 = Some sample_dev"
    by (simp_all add: opened_defs)
  have "working sample_kernel ?w" by (simp add: working_env opened_working)
  from toot_open_close_send [OF this heaps(3) id(1) heaps(1,2) owner] show ?thesis
    unfolding id(2) owner unfolding w by simp
qed

end
