(* ===== verification/Driver_Create.thy ===== *)
theory Driver_Create
  imports Driver_Module_Model
begin

text \<open>
  Creating a device, step by step: what the handler does when a step fails, whichever it is, and that
  it takes back what the steps before have done.
\<close>

lemma id_message_fits:
  assumes "kernel_ok K"
  shows "encoded (msgpack_encode (id_value k))
    (serialize_create_device_result \<lparr>cdr_id = k\<rparr> (local_buf (module_ops K) 10 w))"
proof -
  have "length (k_stack K n e) = n" for n e using assms by (simp add: kernel_ok_def)
  then have "bbuf_size (local_buf (module_ops K) 10 w) = 10 \<and> length (bbuf (local_buf (module_ops K) 10 w)) = 10"
    by (simp add: local_buf_def DEFINE_CRMNA_BUF_def module_ops_def)
  then show ?thesis
    using length_id_value [of k]
      serialize_create_device_result_ok [of "local_buf (module_ops K) 10 w" "\<lparr>cdr_id = k\<rparr>"]
    by (auto intro: serialized_encoded)
qed

lemma set_device_ready_frame: "set_device_ready K k w = Ret w' \<Longrightarrow> cdevs w' = cdevs w \<and> name_heap w' = name_heap w"
  by (auto simp: set_device_ready_def sem_defs heap_step_defs outcome_simps split: option.splits if_splits)

text \<open>Taking back a device that was attached: its object, its id and its registration go, its name stays.\<close>

lemma create_device_rollback:
  assumes "store_inv K v" "abs_store K v = put_dev k (Some d) a" "astore_ok a" "a_dev a k = None"
    "find_device K k v = Some q" "d_is_attached d"
  shows "\<exists>v' v''. detach_device_class K k v = Ret v' \<and> remove_device K k v' = Ret v'' \<and>
    reaches K v a v'' \<and> name_heap v'' = name_heap v \<and> cdevs v'' = cdevs v - {q}"
proof -
  have d: "dev_heap v q = Some d" "d_sem d = 0"
    using device_cases [OF assms(1), of k] assms(2,5) by (auto simp: put_dev_def)
  have run: "detach_device_class K k v = Ret (detached K q d v)"
    by (rule detach_device_class_run [OF assms(5) d])
  have r: "reaches K v (attach_spec False k (abs_store K v)) (detached K q d v)"
    using detach_device_class_refines [OF assms(1), of k] run by (auto simp: proc_refines_def)
  then have inv: "store_inv K (detached K q d v)"
    and abs: "abs_store K (detached K q d v) = put_dev k (Some (d\<lparr>d_is_attached := False\<rparr>)) a"
    by (simp_all add: reaches_def assms(2) attach_spec_def put_dev_def)
  obtain v'' where v'': "remove_device K k (detached K q d v) = Ret v''"
      "reaches K (detached K q d v) (remove_device_spec k (abs_store K (detached K q d v))) v''"
      "name_heap v'' = name_heap v" "cdevs v'' = cdevs v - {q}"
    using remove_device_refines_names [OF inv, of k] assms(6) by (auto simp: detached_def)
  have "remove_device_spec k (abs_store K (detached K q d v)) = a"
    unfolding abs remove_device_spec_put by (rule remove_device_spec_none [OF assms(3,4)])
  with run v'' reaches_trans [OF r] show ?thesis by auto
qed

lemma create_device_outcome:
  assumes "module_inv K w" "0 \<in> set (cp_name p)"
  shows "case add_device K (cp_pid p) (cp_uid p) (cp_name p) w of
      Fault f \<Rightarrow> f = Oob_write \<and> create_device p (module_ops K) w = Fault f
    | Ret (None, w1) \<Rightarrow> create_device p (module_ops K) w = Ret (False, w1) \<and> unchanged K w w1
    | Ret (Some k, w1) \<Rightarrow> a_dev (abs_store K w) k = None \<and>
        (case attach_device_class K k w1 of
           Fault f \<Rightarrow> False
         | Ret (False, w2) \<Rightarrow> create_device p (module_ops K) w = Fault Deadlock
         | Ret (True, w2) \<Rightarrow>
             \<exists>buf q. well_formed buf \<and> take (bused_size buf) (bbuf buf) = msgpack_encode (id_value k) \<and>
               find_device K k w1 = Some q \<and>
               (case send (module_ops K) (cp_pid p) CRMNA_CREATE_DEVICE_RESULT buf w2 of
                  Fault f \<Rightarrow> f = Null_deref \<and> create_device p (module_ops K) w = Fault f
                | Ret (False, w3) \<Rightarrow>
                    \<exists>w'. create_device p (module_ops K) w = Ret (False, w') \<and>
                      reaches K w (abs_store K w) w' \<and> name_heap w' = name_heap w1 \<and>
                      cdevs w' = cdevs w - {q}
                | Ret (True, w3) \<Rightarrow>
                    \<exists>w' d. create_device p (module_ops K) w = Ret (True, w') \<and> module_inv K w' \<and>
                      d_device_id d = k \<and> d_pid d = cp_pid p \<and> d_uid d = cp_uid p \<and>
                      d_is_ready d \<and> d_is_attached d \<and>
                      abs_store K w' = put_dev k (Some d) (abs_store K w) \<and>
                      cdevs w' = insert q (cdevs w) \<and>
                      (wsent w' = wsent w @
                         [(cp_pid p, CRMNA_CREATE_DEVICE_RESULT, msgpack_encode (id_value k))] \<or>
                       wsent w' = wsent w \<and>
                         (c_interface (communicator w) = None \<or> c_obj (communicator w) = None))))"
  (is "case ?add of Fault f \<Rightarrow> f = Oob_write \<and> ?create = Fault f | Ret (None, w1) \<Rightarrow> _ w1 |
    Ret (Some k, w1) \<Rightarrow> _ k w1")
proof -
  have inv: "store_inv K w" using assms(1) by (rule module_store)
  have K: "kernel_ok K" using inv by (rule inv_parts)
  obtain s t where s: "cp_name p = s @ 0 # t" "0 \<notin> set s" using split_list_first [OF assms(2)] by blast
  then have len: "mpack_strlen (cp_name p) = Ret (length s)" by simp
  obtain m e where m: "k_kmalloc K (live w) (length s) (kenv w) = (m, e)" by fastforce
  note added = add_device_refines [OF inv len, of "cp_pid p" "cp_uid p"]
  have ops: "op_add_device (module_ops K) = add_device K" "op_attach_device_class (module_ops K) = attach_device_class K"
    "op_detach_device_class (module_ops K) = detach_device_class K" "op_remove_device (module_ops K) = remove_device K"
    "op_set_device_ready (module_ops K) = set_device_ready K"
    by (simp_all add: module_ops_def)
  note run = create_device_def [of p "module_ops K" w, unfolded ops]
  have "?add = Fault Oob_write \<or> (\<exists>w'. ?add = Ret (None, w') \<and> unchanged K w w') \<or>
     (\<exists>k w' d. a_dev (abs_store K w) k = None \<and> ?add = Ret (Some k, w') \<and> d_device_id d = k \<and>
        d_pid d = cp_pid p \<and> d_uid d = cp_uid p \<and> d_sem d = 0 \<and>
        reaches K w (put_dev k (Some d) (abs_store K w)) w' \<and> cdevs w' = cdevs w)"
  proof (cases m)
    case None
    then show ?thesis using added m by simp
  next
    case (Some ar)
    obtain a room where ar: "ar = (a, room)" by fastforce
    show ?thesis
    proof (cases "room \<le> length s")
      case True
      then show ?thesis using added m Some ar by simp
    next
      case False
      then have "added_device K w (cp_pid p) (cp_uid p) a e (take (length s + 1) (cp_name p)) ?add"
        using added m Some ar by simp
      from added_device_cases [OF inv this] show ?thesis by blast
    qed
  qed
  then show ?thesis
  proof (elim disjE exE conjE)
    fix k w1 d
    let ?a = "abs_store K w"
    assume none: "a_dev ?a k = None" and add: "?add = Ret (Some k, w1)"
      and d: "d_device_id d = k" "d_pid d = cp_pid p" "d_uid d = cp_uid p" "d_sem d = 0"
      and w1: "reaches K w (put_dev k (Some d) ?a) w1" and cd1: "cdevs w1 = cdevs w"
    have inv1: "store_inv K w1" "a_dev (abs_store K w1) k = Some d" using w1 by (simp_all add: reaches_def put_dev_def)
    obtain q name where q: "find_device K k w1 = Some q" "dev_heap w1 q = Some d" "name_heap w1 (d_name d) = Some name"
      "if fst (k_cdev_device_add K (d_dev d) name (kenv w1)) = 0
       then \<exists>w'. attach_device_class K k w1 = Ret (True, w') \<and>
         reaches K w1 (attach_spec True k (abs_store K w1)) w' \<and> name_heap w' = name_heap w1 \<and>
         cdevs w' = insert q (cdevs w1)
       else \<exists>w'. attach_device_class K k w1 = Ret (False, w') \<and> locked_forever K k w' \<and> cdevs w' = cdevs w1"
      using attach_device_class_outcome [OF inv1] by blast
    show ?thesis
    proof (cases "fst (k_cdev_device_add K (d_dev d) name (kenv w1)) = 0")
      case False
      then obtain w2 where "attach_device_class K k w1 = Ret (False, w2)" "locked_forever K k w2"
        using q(4) by auto
      then show ?thesis using add none by (simp add: run locked_forever_def)
    next
      case True
      then obtain w2 where w2: "attach_device_class K k w1 = Ret (True, w2)"
          "reaches K w1 (attach_spec True k (abs_store K w1)) w2" "name_heap w2 = name_heap w1"
          "cdevs w2 = insert q (cdevs w)"
        using q(4) cd1 by auto
      let ?d = "d\<lparr>d_is_attached := True\<rparr>"
      have r2: "reaches K w (put_dev k (Some ?d) ?a) w2"
        using reaches_trans [OF w1 w2(2)] w1 by (simp add: reaches_def attach_spec_def put_dev_def)
      have inv2: "module_inv K w2" by (rule reaches_module [OF r2 assms(1)])
      have same: "communicator w2 = communicator w" "wsent w2 = wsent w" using r2 by (simp_all add: reaches_def outside_def)
      obtain buf where buf: "serialize_create_device_result \<lparr>cdr_id = k\<rparr> (local_buf (module_ops K) 10 w2) = Ret (True, buf)"
          "well_formed buf" "take (bused_size buf) (bbuf buf) = msgpack_encode (id_value k)"
        using id_message_fits [OF K, of k w2] by (auto simp: encoded_def)
      have found: "find_device K k w2 = Some q"
        using q(1) w2(1) attach_device_class_run [OF q(1,2) d(4) q(3) surjective_pairing] True
        by (auto simp: find_device_def attached_dev_def)
      let ?done = "\<lambda>w'. abs_store K w' = put_dev k (Some (?d\<lparr>d_is_ready := True\<rparr>)) ?a \<and> module_inv K w' \<and>
        cdevs w' = insert q (cdevs w)"
      have ready: "\<exists>w'. set_device_ready K k v = Ret w' \<and> ?done w' \<and> wsent w' = wsent v"
        if v: "module_inv K v" "abs_store K v = abs_store K w2" "cdevs v = cdevs w2" for v
      proof -
        obtain w' where w': "set_device_ready K k v = Ret w'" "reaches K v (ready_spec k (abs_store K v)) w'"
          using set_device_ready_refines [OF module_store [OF v(1)], of k] by (auto simp: proc_refines_def)
        moreover have "ready_spec k (abs_store K v) = put_dev k (Some (?d\<lparr>d_is_ready := True\<rparr>)) ?a"
          using r2 v(2) by (simp add: reaches_def ready_spec_def put_dev_def)
        ultimately show ?thesis
          using reaches_module [OF w'(2) v(1)] set_device_ready_frame [OF w'(1)] v(3) w2(4)
          by (auto simp: reaches_def outside_def)
      qed
      have run2: "?create = and_then (send (module_ops K) (cp_pid p) CRMNA_CREATE_DEVICE_RESULT buf w2) (\<lambda>(sent, s).
          if \<not> sent then and_then (detach_device_class K k s) (\<lambda>s. and_then (remove_device K k s) (\<lambda>s. Ret (False, s)))
          else and_then (set_device_ready K k s) (\<lambda>s. Ret (True, s)))"
        using add w2(1) buf(1) by (simp add: run)
      have "case send (module_ops K) (cp_pid p) CRMNA_CREATE_DEVICE_RESULT buf w2 of
          Fault f \<Rightarrow> f = Null_deref \<and> ?create = Fault f
        | Ret (False, w3) \<Rightarrow> \<exists>w'. ?create = Ret (False, w') \<and> reaches K w ?a w' \<and> name_heap w' = name_heap w1 \<and>
            cdevs w' = cdevs w - {q}
        | Ret (True, w3) \<Rightarrow> \<exists>w'. ?create = Ret (True, w') \<and> ?done w' \<and>
            (wsent w' = wsent w @ [(cp_pid p, CRMNA_CREATE_DEVICE_RESULT, msgpack_encode (id_value k))] \<or>
             wsent w' = wsent w \<and> (c_interface (communicator w) = None \<or> c_obj (communicator w) = None))"
        using inv2 buf(2)
      proof (cases rule: send_cases [where pid = "cp_pid p" and ty = CRMNA_CREATE_DEVICE_RESULT])
        case no_memory
        then show ?thesis by (simp add: run2)
      next
        case (no_communicator fmt)
        obtain w' where "set_device_ready K k (add_error fmt [] w2) = Ret w'" "?done w'" "wsent w' = wsent w"
          using ready [of "add_error fmt [] w2"] inv2 same(2) by (auto simp: module_error) (auto simp: add_error_def)
        then show ?thesis using no_communicator same by (simp add: run2)
      next
        case (refused e)
        let ?v = "add_error ''send_message: send message error'' [] (w2\<lparr>kenv := e\<rparr>)"
        have v: "reaches K w (put_dev k (Some ?d) ?a) ?v" using r2 by (simp add: add_error_def)
        have "store_inv K ?v" "abs_store K ?v = put_dev k (Some ?d) ?a" "find_device K k ?v = Some q"
            "name_heap ?v = name_heap w1" "cdevs ?v = insert q (cdevs w)"
          using v found w2(3,4) by (simp_all add: reaches_def) (simp_all add: add_error_def find_device_def)
        then show ?thesis
          using create_device_rollback [of K ?v k ?d ?a q] inv_parts(3) [OF inv] none refused reaches_trans [OF v]
          by (auto simp: run2)
      next
        case (sent e)
        let ?v = "w2\<lparr>kenv := e, wsent := wsent w2 @ [(cp_pid p, CRMNA_CREATE_DEVICE_RESULT, msgpack_encode (id_value k))]\<rparr>"
        obtain w' where "set_device_ready K k ?v = Ret w'" "?done w'" "wsent w' = wsent ?v"
          using ready [of ?v] inv2 by (auto simp: module_sent) (auto simp: abs_store_def)
        then show ?thesis using sent buf(3) same by (simp add: run2)
      qed
      then show ?thesis
        using add none w2(1) buf(2,3) q(1) d
        by (auto split: outcome.splits bool.splits intro!: exI [of _ buf] exI [of _ q] exI [of _ "?d\<lparr>d_is_ready := True\<rparr>"])
    qed
  qed (simp_all add: run)
qed

end
