(* ===== verification/Driver_Props.thy ===== *)
theory Driver_Props
  imports Driver_Sample Driver_Create
begin

text \<open>The properties of the handlers on the module's store, each with a concrete instance.\<close>

lemma keeps_returns: "keeps I {} m \<Longrightarrow> returns m"
  by (cases m) (simp_all add: keeps_def)

text \<open>
  C5. Whatever action is dispatched, with a name and a text that end and a function that may be
  called, the store is intact afterwards, and the communicator is live. The dispatch can stop the
  module only by one of the hazards of its environment; without these it returns.
\<close>

theorem dispatch_keeps_store:
  assumes "module_inv K w" "action_ok (module_inv K) (hazards K) act"
  shows "keeps (module_inv K) (hazards K) (dispatch (module_ops K) act w) \<and>
    (hazards K = {} \<longrightarrow> returns (dispatch (module_ops K) act w))"
  using safe.dispatch_keeps [OF assms] by (auto simp: keeps_def split: outcome.splits)

theorem dispatch_keeps_store_witness:
  "returns (dispatch (module_ops sample_kernel)
     (CREATE_DEVICE \<lparr>cp_pid = 100, cp_uid = 0, cp_name = [0x61, 0]\<rparr>) sample_world)"
  using dispatch_keeps_store [OF sample_module(2),
      of "CREATE_DEVICE \<lparr>cp_pid = 100, cp_uid = 0, cp_name = [0x61, 0]\<rparr>"]
  by (simp add: action_ok_def sample_hazards)

text \<open>
  C4. A message of the daemon, when the memory behind it is as long as the length it is handled with,
  keeps the store intact too, whatever its bytes. Besides the hazards there is one more way to stop:
  the unreachable assertion of the parser, for a float tag among the bytes.
\<close>

theorem receive_keeps_store:
  assumes "module_inv K w" "com_heap w com \<noteq> None" "len \<le> length mem" "len < SIZE_MAX"
  shows "keeps (module_inv K)
    (hazards K \<union> (if 0xCA \<in> set (take len mem) \<or> 0xCB \<in> set (take len mem) then {Assert_failed} else {}))
    (process_recive_data K com ty pid len mem w)"
  by (rule process_recive_data_keeps [OF assms])

theorem receive_keeps_store_witness:
  "returns (process_recive_data sample_kernel 30 CRMNA_NEW_TOOT_RESULT 100 4 [0x93, 5, 1, 0] sample_world)"
proof -
  have "com_heap sample_world 30 \<noteq> None" by (simp add: sample_defs)
  from receive_keeps_store [OF sample_module(2) this, of 4 "[0x93, 5, 1, 0]" CRMNA_NEW_TOOT_RESULT 100]
  show ?thesis by (simp add: sample_hazards SIZE_MAX_def keeps_returns)
qed

lemma parse_nothing: "mpack_tree_parse (mpack_tree_init_pool [] 16 nodes 50) = Fault Oob_read"
proof -
  have loop: "parse_loop 17 t = and_then (parse_round t) (\<lambda>(r, t).
       case r of Stop b \<Rightarrow> Ret (b, t) | Again \<Rightarrow> parse_loop 16 t)" for t
    using parse_loop.simps(2) [of 16 t] by simp
  show ?thesis
    by (simp add: mpack_tree_parse_def mpack_tree_init_pool_def mpack_tree_init_clear_def
        mpack_tree_parse_start_def mpack_tree_reserve_bytes_def mpack_tree_continue_parsing_def
        SIZE_MAX_def size_add_def size_sub_def done_after_def write_level_def read_level_def loop
        MPACK_NODE_MAX_DEPTH_WITHOUT_MALLOC_def parse_round_def mpack_tree_parse_node_def
        mpack_tree_parse_node_contents_def load_data_def load_at_def Let_def)
qed

text \<open>
  The length a message is handled with is that of the netlink message with its header of 16
  bytes, while the buffer starts behind the header. For a message that is nothing but a header, of
  any type the module knows, the parser reads the memory behind the message.
\<close>

theorem receive_reads_past_message:
  "\<forall>ty \<in> {CRMNA_CREATE_DEVICE, CRMNA_DESTROY_DEVICE, CRMNA_NEW_TOOT_RESULT,
            CRMNA_ADD_TOOT_TEXT_RESULT, CRMNA_SEND_TOOT_RESULT, CRMNA_GET_HEALTH}.
     process_recive_data K com ty pid 16 [] w = Fault Oob_read"
proof -
  have "parse_message nodes (DEFINE_CRMNA_BUF_FROM_MEMORY [] 16) = Fault Oob_read" for nodes
    by (simp add: parse_message_def DEFINE_CRMNA_BUF_FROM_MEMORY_def parse_nothing)
  then show ?thesis
    by (simp add: process_recive_data_def with_err_def create_action_from_message_def message_type_defs
        create_action_from_create_toot_result_message_def create_action_from_create_device_message_def
        create_action_from_destroy_device_message_def create_action_from_get_health_message_def
        create_action_from_add_toot_element_result_message_def
        create_action_from_send_toot_result_message_def deserialize_get_health_def
        deserialize_create_conn_def deserialize_destroy_device_def deserialize_new_toot_result_def
        deserialize_add_toot_element_result_def deserialize_send_toot_result_def)
qed

theorem receive_reads_past_message_witness:
  "process_recive_data sample_kernel 30 CRMNA_GET_HEALTH 100 16 [] sample_world = Fault Oob_read"
  using receive_reads_past_message [of sample_kernel 30 100 sample_world] by simp

text \<open>
  A question about a device's health is answered once, to the process that asked: with true
  exactly when the device exists, belongs to the process and is ready. Nothing else changes.
\<close>

theorem get_health_answers:
  assumes "working K w"
  shows "module_gives K True (abs_store K w)
    (wsent w @ [(gp_pid p, CRMNA_GET_HEALTH_RESULT, msgpack_encode (get_health_result_value
       \<lparr>ghr_device_id = gp_device_id p,
        ghr_status = (case a_dev (abs_store K w) (gp_device_id p) of None \<Rightarrow> False
                      | Some d \<Rightarrow> d_pid d = gp_pid p \<and> d_is_ready d)\<rparr>))])
    (get_health p (module_ops K) w)"
  by (rule model.get_health_gives [OF assms])

theorem get_health_answers_witness:
  "\<exists>w. get_health \<lparr>gp_device_id = 1, gp_pid = 100\<rparr> (module_ops sample_kernel) sample_world = Ret (True, w) \<and>
       wsent w = [(100, 48, [0x92, 1, 0xC3])]"
proof -
  have "msgpack_encode (get_health_result_value \<lparr>ghr_device_id = 1, ghr_status = True\<rparr>) = [0x92, 1, 0xC3]"
    by (simp add: get_health_result_value_def msgpack_array_header_def fix_tag_def msgpack_int_def
        be_bytes_def msgpack_bool_def)
  then show ?thesis
    using get_health_answers [OF sample_working(2), of "\<lparr>gp_device_id = 1, gp_pid = 100\<rparr>"]
    by (auto simp: gives_def sample_sent message_type_defs sample_dev_def)
qed

text \<open>
  C6. Creating a device, whatever Linux answers. When the device cannot be added, nothing has changed
  (or the copy of the name left its block). When its character device cannot be added, the handler blocks
  for ever. When the message to the process cannot be sent, the device is detached and removed again:
  objects, ids, messages, registered devices and held memory are as before, only the block of the name
  stays. Otherwise there is one more device, of the process that asked, attached, registered and ready,
  and its id has been sent to the process; or nothing was sent, because there is no communicator.
\<close>

theorem create_device_atomic:
  assumes "module_inv K w" "0 \<in> set (cp_name p)"
  shows "case add_device K (cp_pid p) (cp_uid p) (cp_name p) w of
      Fault f \<Rightarrow> f = Oob_write \<and> create_device p (module_ops K) w = Fault f
    | Ret (None, w1) \<Rightarrow> create_device p (module_ops K) w = Ret (False, w1) \<and> unchanged K w w1
    | Ret (Some k, w1) \<Rightarrow> a_dev (abs_store K w) k = None \<and>
        (case attach_device_class K k w1 of
           Fault f \<Rightarrow> False
         | Ret (False, w2) \<Rightarrow> create_device p (module_ops K) w = Fault Deadlock
         | Ret (True, w2) \<Rightarrow>
             \<exists>buf q. well_formed buf \<and> take (bused_size buf) (bbuf buf) = msgpack_encode (id_value k) \<and>
               find_device K k w1 = Some q \<and>
               (case send (module_ops K) (cp_pid p) CRMNA_CREATE_DEVICE_RESULT buf w2 of
                  Fault f \<Rightarrow> f = Null_deref \<and> create_device p (module_ops K) w = Fault f
                | Ret (False, w3) \<Rightarrow>
                    \<exists>w'. create_device p (module_ops K) w = Ret (False, w') \<and>
                      reaches K w (abs_store K w) w' \<and> name_heap w' = name_heap w1 \<and>
                      cdevs w' = cdevs w - {q}
                | Ret (True, w3) \<Rightarrow>
                    \<exists>w' d. create_device p (module_ops K) w = Ret (True, w') \<and> module_inv K w' \<and>
                      d_device_id d = k \<and> d_pid d = cp_pid p \<and> d_uid d = cp_uid p \<and>
                      d_is_ready d \<and> d_is_attached d \<and>
                      abs_store K w' = put_dev k (Some d) (abs_store K w) \<and>
                      cdevs w' = insert q (cdevs w) \<and>
                      (wsent w' = wsent w @
                         [(cp_pid p, CRMNA_CREATE_DEVICE_RESULT, msgpack_encode (id_value k))] \<or>
                       wsent w' = wsent w \<and>
                         (c_interface (communicator w) = None \<or> c_obj (communicator w) = None))))"
  using assms by (rule create_device_outcome)

text \<open>A netlink that takes a message, or not.\<close>

definition netlink_kernel :: "int \<Rightarrow> (list_idr, nat) kernel" where
  "netlink_kernel r = sample_kernel\<lparr>k_nlmsg_unicast := (\<lambda>sock m e. (r, e))\<rparr>"

lemma unicast_cong:
  "kernel_ok (K\<lparr>k_nlmsg_unicast := f\<rparr>) = kernel_ok K"
  "object_given (K\<lparr>k_nlmsg_unicast := f\<rparr>) i lo hi used e = object_given K i lo hi used e"
  by (cases K, simp only: kernel_ok_def idr_ok_def malloc_ok_def kernel.simps,
      cases K, simp only: object_given_def kernel.simps)

lemma netlink_kernel_module: "module_inv (netlink_kernel r) w = module_inv sample_kernel w"
proof -
  have inv: "store_inv (netlink_kernel r) w = store_inv sample_kernel w" for w
    by (simp add: store_inv_def netlink_kernel_def unicast_cong)
      (simp add: heaps_ok_def no_spare_def abs_store_def)
  have "k_sleep (netlink_kernel r) = k_sleep sample_kernel" by (simp add: netlink_kernel_def)
  then show ?thesis by (simp add: module_with_def intact_def sleep_ok_def inv)
qed

lemma netlink_kernel_sends:
  assumes "communicator w = communicator start_world" "com_heap w = com_heap start_world" "well_formed buf"
  shows "\<exists>w'. send (module_ops (netlink_kernel r)) pid ty buf w = Ret (0 \<le> r, w')"
proof -
  have "send (module_ops (netlink_kernel r)) pid ty buf w = netlink_send_message (netlink_kernel r) 30 pid ty buf w"
    using assms(1) by (simp add: send_def module_ops_def get_communicator_def deref_com_def start_world_def
        communicator_send_message_def netlink_interface_def)
  moreover have "com_heap w 30 = Some 7" using assms(2) by (simp add: start_world_def)
  moreover have "fst (k_nlmsg_new (netlink_kernel r) n e)" for n e
    by (simp add: netlink_kernel_def sample_kernel_def)
  then have "\<exists>e'. k_nlmsg_new (netlink_kernel r) n e = (True, e')" for n e
    by (metis (full_types) prod.collapse)
  then obtain e where "k_nlmsg_new (netlink_kernel r) (bused_size buf) (kenv w) = (True, e)" by blast
  moreover have "k_nlmsg_unicast (netlink_kernel r) sock m e = (r, e)" for sock m
    by (simp add: netlink_kernel_def)
  ultimately show ?thesis
    using assms(3) by (cases "r < 0") (simp_all add: netlink_send_message_def heap_step_defs well_formed_def)
qed

lemma netlink_kernel_given:
  "k_kmalloc (netlink_kernel r) = k_kmalloc sample_kernel"
  "object_given (netlink_kernel r) i lo hi used e' = object_given sample_kernel i lo hi used e'"
  "k_cdev_device_add (netlink_kernel r) dev name e = (0, e)"
  "abs_store (netlink_kernel r) = abs_store sample_kernel"
  "find_device (netlink_kernel r) = find_device sample_kernel"
  by (simp_all add: netlink_kernel_def fun_eq_iff unicast_cong abs_store_def find_device_def)
    (simp add: sample_kernel_def)

theorem create_device_atomic_witness:
  "let p = \<lparr>cp_pid = 100, cp_uid = 0, cp_name = [0x61, 0]\<rparr> in
   (\<exists>w. create_device p (module_ops (netlink_kernel 0)) start_world = Ret (True, w) \<and>
      wsent w = [(100, CRMNA_CREATE_DEVICE_RESULT, msgpack_encode (id_value 0))] \<and> cdevs w \<noteq> {}) \<and>
   (\<exists>w. create_device p (module_ops (netlink_kernel (- 11))) start_world = Ret (False, w) \<and>
      abs_store sample_kernel w = abs_store sample_kernel start_world \<and> wsent w = [] \<and> cdevs w = {} \<and>
      name_heap w = [0 \<mapsto> [0x61, 0]])"
proof -
  define p where "p = \<lparr>cp_pid = 100, cp_uid = 0, cp_name = [0x61, 0 :: u8]\<rparr>"
  have start: "cdevs start_world = {}" "wsent start_world = []" "name_heap start_world = Map.empty"
    "c_interface (communicator start_world) \<noteq> None" "c_obj (communicator start_world) \<noteq> None"
    by (simp_all add: start_world_def)
  have inv: "module_inv (netlink_kernel r) start_world" for r
    by (simp add: netlink_kernel_module)
  have len: "mpack_strlen [0x61, 0 :: u8] = Ret 1" by simp
  note abs = netlink_kernel_given(4)
  have nul: "0 \<in> set (cp_name p)" by (simp add: p_def)
  have run: "\<exists>w1 w2. add_device (netlink_kernel r) (cp_pid p) (cp_uid p) (cp_name p) start_world = Ret (Some 0, w1) \<and>
      name_heap w1 = [0 \<mapsto> [0x61, 0]] \<and>
      attach_device_class (netlink_kernel r) 0 w1 = Ret (True, w2) \<and>
      communicator w2 = communicator start_world \<and> com_heap w2 = com_heap start_world" for r
  proof -
    obtain w1 d where w1: "add_device (netlink_kernel r) 100 0 [0x61, 0] start_world = Ret (Some 0, w1)"
        "name_heap w1 = [0 \<mapsto> [0x61, 0]]"
        "reaches (netlink_kernel r) start_world (put_dev 0 (Some d) (abs_store sample_kernel start_world)) w1"
      using add_device_refines [OF module_store [OF inv] len, of r 100 0]
      unfolding netlink_kernel_given added_device_def sample_given start(3)
      by (auto simp: Let_def)
    then have "store_inv (netlink_kernel r) w1" "a_dev (abs_store (netlink_kernel r) w1) 0 = Some d"
      by (simp_all add: reaches_def put_dev_def)
    from attach_device_class_outcome [OF this] w1 show ?thesis
      by (auto simp: netlink_kernel_given p_def reaches_def outside_def)
  qed
  have nul: "0 \<in> set (cp_name p)" by (simp add: p_def)
  note abs = netlink_kernel_given(4)
  have "\<exists>w. create_device p (module_ops (netlink_kernel 0)) start_world = Ret (True, w) \<and>
      wsent w = [(100, CRMNA_CREATE_DEVICE_RESULT, msgpack_encode (id_value 0))] \<and> cdevs w \<noteq> {}"
  proof -
    obtain w1 w2 where w: "add_device (netlink_kernel 0) (cp_pid p) (cp_uid p) (cp_name p) start_world = Ret (Some 0, w1)"
        "attach_device_class (netlink_kernel 0) 0 w1 = Ret (True, w2)" "name_heap w1 = [0 \<mapsto> [0x61, 0]]"
        "communicator w2 = communicator start_world" "com_heap w2 = com_heap start_world"
      using run [of "0"] by blast
    from create_device_atomic [OF inv nul, of "0", unfolded w(1,2) outcome.case prod.case option.case bool.case]
    show ?thesis
    proof (elim conjE exE, goal_cases)
      case (1 buf q)
      obtain w3 where "send (module_ops (netlink_kernel 0)) (cp_pid p) CRMNA_CREATE_DEVICE_RESULT buf w2 = Ret (0 \<le> (0 :: int), w3)"
        using netlink_kernel_sends [OF w(4,5) 1(2)] by blast
      with 1(5) show ?case
        using start w(3) by (auto simp: p_def)
    qed
  qed
  moreover have "\<exists>w. create_device p (module_ops (netlink_kernel (- 11))) start_world = Ret (False, w) \<and>
      abs_store sample_kernel w = abs_store sample_kernel start_world \<and> wsent w = [] \<and> cdevs w = {} \<and>
      name_heap w = [0 \<mapsto> [0x61, 0]]"
  proof -
    obtain w1 w2 where w: "add_device (netlink_kernel (- 11)) (cp_pid p) (cp_uid p) (cp_name p) start_world = Ret (Some 0, w1)"
        "attach_device_class (netlink_kernel (- 11)) 0 w1 = Ret (True, w2)" "name_heap w1 = [0 \<mapsto> [0x61, 0]]"
        "communicator w2 = communicator start_world" "com_heap w2 = com_heap start_world"
      using run [of "- 11"] by blast
    from create_device_atomic [OF inv nul, of "- 11", unfolded w(1,2) outcome.case prod.case option.case bool.case]
    show ?thesis
    proof (elim conjE exE, goal_cases)
      case (1 buf q)
      obtain w3 where "send (module_ops (netlink_kernel (- 11))) (cp_pid p) CRMNA_CREATE_DEVICE_RESULT buf w2 = Ret (0 \<le> (- 11 :: int), w3)"
        using netlink_kernel_sends [OF w(4,5) 1(2)] by blast
      with 1(5) show ?case
        using start w(3) by (auto simp: reaches_def outside_def abs)
    qed
  qed
  ultimately show ?thesis unfolding p_def Let_def by (rule conjI)
qed

text \<open>
  C35. Destroying a device, with a working communicator, answers the process that asked, whether the
  device exists and whoever owns it, and does not destroy it: it is in the store as before, marked
  as ready.
\<close>

theorem destroy_device_keeps_device:
  assumes "working K w"
  shows "module_gives K True (ready_spec (dp_device_id p) (abs_store K w))
    (wsent w @ [(dp_pid p, CRMNA_DESTROY_DEVICE_RESULT, msgpack_encode (id_value (dp_device_id p)))])
    (destroy_device p (module_ops K) w)"
  by (rule model.destroy_device_gives [OF assms])

theorem destroy_device_keeps_device_witness:
  "\<exists>w. destroy_device \<lparr>dp_pid = 7, dp_device_id = 1\<rparr> (module_ops sample_kernel) sample_world = Ret (True, w) \<and>
       a_dev (abs_store sample_kernel w) 1 = Some sample_dev"
  using destroy_device_keeps_device [OF sample_working(2), of "\<lparr>dp_pid = 7, dp_device_id = 1\<rparr>"]
  by (auto simp: gives_def ready_spec_def put_dev_def sample_dev_def)

text \<open>
  The daemon's answer to a new toot counts only when it comes from the process of the toot's
  device and names this device; then the toot is open, or in error when the result is not 0. Any
  other answer changes nothing.
\<close>

theorem create_toot_result_checked:
  assumes "working K w"
  shows "module_gives K
    (toot_owner (abs_store K w) (rp_toot_id p) = Some (rp_pid p, rp_device_id p) \<and> rp_result p = 0)
    (if toot_owner (abs_store K w) (rp_toot_id p) = Some (rp_pid p, rp_device_id p)
     then toot_state_spec (if rp_result p = 0 then OPEND else TOOT_ERROR) (rp_toot_id p) (abs_store K w)
     else abs_store K w)
    (wsent w) (create_toot_result p (module_ops K) w)"
  by (rule model.create_toot_result_gives [OF assms])

theorem create_toot_result_checked_witness:
  "\<exists>w. create_toot_result \<lparr>rp_pid = 7, rp_device_id = 1, rp_toot_id = 5, rp_result = 0\<rparr>
         (module_ops sample_kernel) sample_world = Ret (False, w) \<and>
       abs_store sample_kernel w = abs_store sample_kernel sample_world"
  using create_toot_result_checked [OF sample_working(2),
      of "\<lparr>rp_pid = 7, rp_device_id = 1, rp_toot_id = 5, rp_result = 0\<rparr>"]
  by (auto simp: gives_def toot_owner_def sample_toot_def sample_dev_def)

text \<open>
  C34. The answers to a sent toot and to an element are refused only when they come from the owner of
  the device and name another device: any other process may end a toot or an element. The element is
  the one the payload names, whatever toot it belongs to.
\<close>

theorem other_results_unchecked:
  assumes "working K w"
  shows "(case toot_owner (abs_store K w) (qp_toot_id q) of
      None \<Rightarrow> module_gives K False (abs_store K w) (wsent w) (send_toot_result q (module_ops K) w)
    | Some (pid, dev) \<Rightarrow>
        if pid = qp_pid q \<and> dev \<noteq> qp_device_id q
        then module_gives K False (abs_store K w) (wsent w) (send_toot_result q (module_ops K) w)
        else module_gives K True
          (toot_state_spec (if qp_result q = 0 then DESTROYED else TOOT_ERROR) (qp_toot_id q)
             (abs_store K w))
          (wsent w) (send_toot_result q (module_ops K) w)) \<and>
    (case toot_owner (abs_store K w) (ep_toot_id p) of
      None \<Rightarrow> module_gives K False (abs_store K w) (wsent w) (add_toot_element_result p (module_ops K) w)
    | Some (pid, dev) \<Rightarrow>
        if pid = ep_pid p \<and> dev \<noteq> ep_device_id p
        then module_gives K False (abs_store K w) (wsent w) (add_toot_element_result p (module_ops K) w)
        else module_gives K True
          (elem_state_spec (if sint (ep_result p) < 0 then ELEMENT_ERROR else ELEMENT_SENT)
             (ep_element_id p) (abs_store K w))
          (wsent w) (add_toot_element_result p (module_ops K) w))"
  by (intro conjI model.send_toot_result_gives model.add_toot_element_result_gives assms)

theorem other_results_unchecked_witness:
  "\<exists>w. send_toot_result \<lparr>qp_pid = 7, qp_device_id = 3, qp_toot_id = 5, qp_result = 0\<rparr>
         (module_ops sample_kernel) sample_world = Ret (True, w) \<and>
       a_toot (abs_store sample_kernel w) 5 = Some (sample_toot\<lparr>t_state := DESTROYED\<rparr>)"
proof -
  have "usable_toot (abs_store sample_kernel sample_world) 5"
    by (simp add: usable_toot_def ready_dev_def sample_toot_def sample_dev_def)
  then have "toot_owner (abs_store sample_kernel sample_world) 5 = Some (100, 1)"
      "toot_state_spec DESTROYED 5 (abs_store sample_kernel sample_world) =
        put_toot 5 (Some (sample_toot\<lparr>t_state := DESTROYED\<rparr>)) (abs_store sample_kernel sample_world)"
    by (simp_all add: toot_owner_def toot_state_spec_def) (simp_all add: sample_toot_def sample_dev_def)
  then show ?thesis
    using other_results_unchecked [OF sample_working(2), THEN conjunct1,
        of "\<lparr>qp_pid = 7, qp_device_id = 3, qp_toot_id = 5, qp_result = 0\<rparr>"]
    by (auto simp: gives_def put_toot_def)
qed

lemma action_returned:
  assumes "returned ok P m" "\<And>r. ok \<Longrightarrow> P r \<Longrightarrow> a = Some (f r)" "\<not> ok \<Longrightarrow> a = None"
  shows "and_then m (\<lambda>(ok, payload). if \<not> ok then Ret (None, s) else Ret (Some (f payload), s)) = Ret (a, s)"
proof -
  obtain r where "m = Ret (ok, r)" "ok \<longrightarrow> P r" using assms(1) by (auto simp: returned_def)
  then show ?thesis using assms(2,3) by (cases ok) simp_all
qed

lemma actions_of_messages:
  assumes "module_inv K w" "carries v message"
  shows "create_action_from_message (module_ops K) CRMNA_NEW_TOOT_RESULT pid message w =
      Ret (case (msg_u32 0 v, msg_u32 1 v, msg_i32 2 v) of
             (Some t, Some d, Some r) \<Rightarrow> Some (CREATE_TOOT_RESULT
               \<lparr>rp_pid = pid, rp_device_id = d, rp_toot_id = t, rp_result = r\<rparr>)
           | _ \<Rightarrow> None, w) \<and>
    create_action_from_message (module_ops K) CRMNA_SEND_TOOT_RESULT pid message w =
      Ret (case (msg_u32 0 v, msg_u32 1 v, msg_i32 2 v) of
             (Some t, Some d, Some r) \<Rightarrow> Some (SEND_TOOT_RESULT
               \<lparr>qp_pid = pid, qp_device_id = d, qp_toot_id = t, qp_result = r\<rparr>)
           | _ \<Rightarrow> None, w) \<and>
    create_action_from_message (module_ops K) CRMNA_ADD_TOOT_TEXT_RESULT pid message w =
      Ret (case (msg_u32 0 v, msg_u32 1 v, msg_u32 2 v, msg_i32 3 v) of
             (Some t, Some d, Some el, Some r) \<Rightarrow> Some (ADD_TOOT_ELEMENT_RESULT
               \<lparr>ep_pid = pid, ep_device_id = d, ep_toot_id = t, ep_element_id = k_word K (kenv w),
                ep_result = r\<rparr>)
           | _ \<Rightarrow> None, w) \<and>
    create_action_from_message (module_ops K) CRMNA_DESTROY_DEVICE pid message w =
      Ret (map_option (\<lambda>d. DESTROY_DEVICE \<lparr>dp_pid = pid, dp_device_id = d\<rparr>) (msg_u32 0 v), w) \<and>
    create_action_from_message (module_ops K) CRMNA_GET_HEALTH pid message w =
      Ret (map_option (\<lambda>d. GET_HEALTH \<lparr>gp_device_id = d, gp_pid = pid\<rparr>) (msg_u32 0 v), w) \<and>
    create_action_from_message (module_ops K) CRMNA_CREATE_DEVICE pid message w =
      Ret (case (msg_name (k_stack K 50 (kenv w)) 0 v, msg_u32 1 v) of
             (Some n, Some uid) \<Rightarrow> Some (CREATE_DEVICE
               \<lparr>cp_pid = pid, cp_uid = uid, cp_name = strncpy n 50\<rparr>)
           | _ \<Rightarrow> None, w)"
proof -
  have nodes: "length (k_nodes K (kenv w)) = 50" and "length (k_stack K 50 (kenv w)) = 50"
    using assms(1) by (simp_all add: module_with_alt store_inv_def kernel_ok_def)
  then have stack: "k_stack K 50 (kenv w) \<noteq> []" by auto
  note types = create_action_from_message_def message_type_defs module_ops_def
    create_action_from_create_toot_result_message_def create_action_from_send_toot_result_message_def
    create_action_from_add_toot_element_result_message_def
    create_action_from_destroy_device_message_def create_action_from_get_health_message_def
    create_action_from_create_device_message_def
  note made = deserialize_new_toot_result_value [OF assms(2) nodes, THEN action_returned]
    deserialize_send_toot_result_value [OF assms(2) nodes, THEN action_returned]
    deserialize_add_toot_element_result_value [OF assms(2) nodes, THEN action_returned]
    deserialize_destroy_device_value [OF assms(2) nodes, THEN action_returned]
    deserialize_get_health_value [OF assms(2) nodes, THEN action_returned]
    deserialize_create_conn_value [OF assms(2) nodes stack, THEN action_returned]
  show ?thesis
    by (intro conjI; simp only: types store_ops.simps; simp; rule made; auto split: option.splits)
qed

text \<open>
  From a buffer that holds a value, each known message type makes the action with the fields of
  the value when they are all there and in range, and no action otherwise; an unknown type makes
  none. The id of an element is not taken from the message, but is what the frame held.
\<close>

theorem messages_become_actions:
  assumes "module_inv K w" "carries v message"
  shows "create_action_from_message (module_ops K) CRMNA_NEW_TOOT_RESULT pid message w =
      Ret (case (msg_u32 0 v, msg_u32 1 v, msg_i32 2 v) of
             (Some t, Some d, Some r) \<Rightarrow> Some (CREATE_TOOT_RESULT
               \<lparr>rp_pid = pid, rp_device_id = d, rp_toot_id = t, rp_result = r\<rparr>)
           | _ \<Rightarrow> None, w) \<and>
    create_action_from_message (module_ops K) CRMNA_SEND_TOOT_RESULT pid message w =
      Ret (case (msg_u32 0 v, msg_u32 1 v, msg_i32 2 v) of
             (Some t, Some d, Some r) \<Rightarrow> Some (SEND_TOOT_RESULT
               \<lparr>qp_pid = pid, qp_device_id = d, qp_toot_id = t, qp_result = r\<rparr>)
           | _ \<Rightarrow> None, w) \<and>
    create_action_from_message (module_ops K) CRMNA_ADD_TOOT_TEXT_RESULT pid message w =
      Ret (case (msg_u32 0 v, msg_u32 1 v, msg_u32 2 v, msg_i32 3 v) of
             (Some t, Some d, Some el, Some r) \<Rightarrow> Some (ADD_TOOT_ELEMENT_RESULT
               \<lparr>ep_pid = pid, ep_device_id = d, ep_toot_id = t, ep_element_id = k_word K (kenv w),
                ep_result = r\<rparr>)
           | _ \<Rightarrow> None, w) \<and>
    create_action_from_message (module_ops K) CRMNA_DESTROY_DEVICE pid message w =
      Ret (map_option (\<lambda>d. DESTROY_DEVICE \<lparr>dp_pid = pid, dp_device_id = d\<rparr>) (msg_u32 0 v), w) \<and>
    create_action_from_message (module_ops K) CRMNA_GET_HEALTH pid message w =
      Ret (map_option (\<lambda>d. GET_HEALTH \<lparr>gp_device_id = d, gp_pid = pid\<rparr>) (msg_u32 0 v), w) \<and>
    create_action_from_message (module_ops K) CRMNA_CREATE_DEVICE pid message w =
      Ret (case (msg_name (k_stack K 50 (kenv w)) 0 v, msg_u32 1 v) of
             (Some n, Some uid) \<Rightarrow> Some (CREATE_DEVICE
               \<lparr>cp_pid = pid, cp_uid = uid, cp_name = strncpy n 50\<rparr>)
           | _ \<Rightarrow> None, w)"
  using assms by (rule actions_of_messages)

theorem messages_become_actions_witness:
  "create_action_from_message (module_ops sample_kernel) CRMNA_NEW_TOOT_RESULT 100
     (DEFINE_CRMNA_BUF_FROM_MEMORY [0x93, 5, 1, 0] 4) sample_world =
   Ret (Some (CREATE_TOOT_RESULT \<lparr>rp_pid = 100, rp_device_id = 1, rp_toot_id = 5, rp_result = 0\<rparr>), sample_world)"
proof -
  let ?v = "Msg_array [Msg_int 5, Msg_int 1, Msg_int 0]"
  have "carries ?v (DEFINE_CRMNA_BUF_FROM_MEMORY [0x93, 5, 1, 0] 4)"
    by (simp add: carries_def DEFINE_CRMNA_BUF_FROM_MEMORY_def msgpack_array_header_def
        msgpack_int_def be_bytes_def fix_tag_def SIZE_MAX_def)
  from messages_become_actions [OF sample_module(2) this, THEN conjunct1] show ?thesis
    by (simp add: msg_u32_def msg_i32_def msg_field_def)
qed

text \<open>
  Without a communicator in the store a message is not sent, and the sender is told that it was.
\<close>

theorem unsent_reported_as_sent:
  assumes "c_interface (communicator w) = None \<or> c_obj (communicator w) = None"
  shows "\<exists>err. communicator_send_message add_error (Some (get_communicator K w)) pid ty buf w =
    Ret (True, w\<lparr>werr := err\<rparr>)"
  using assms
  by (auto simp: communicator_send_message_def get_communicator_def deref_com_def add_error_def
      split: option.splits)

theorem unsent_reported_as_sent_witness:
  "\<exists>w. communicator_send_message add_error
         (Some (get_communicator sample_kernel (set_communicator \<lparr>c_interface = None, c_obj = None\<rparr> sample_world)))
         100 CRMNA_NEW_TOOT (DEFINE_CRMNA_BUF [] 0) (set_communicator \<lparr>c_interface = None, c_obj = None\<rparr> sample_world) = Ret (True, w) \<and>
       wsent w = []"
  using unsent_reported_as_sent [of "set_communicator \<lparr>c_interface = None, c_obj = None\<rparr> sample_world"
      sample_kernel 100 CRMNA_NEW_TOOT "DEFINE_CRMNA_BUF [] 0"]
  by (auto simp: set_communicator_def sample_sent)

lemma serialized_fits:
  assumes "serialized enc False dest m"
  shows "(\<exists>buf. m = Ret (True, buf)) \<longleftrightarrow> length enc \<le> bbuf_size dest"
  using assms by (auto simp: serialized_def split: if_splits)

text \<open>
  The messages with a toot id and a device id go through a buffer of ten bytes. They fit unless
  both ids are above 65535.
\<close>

theorem toot_messages_fit:
  assumes "length content = 10"
  shows "((\<exists>buf. serialize_new_toot nt (DEFINE_CRMNA_BUF content 10) = Ret (True, buf)) \<longleftrightarrow>
      uint (nt_toot_id nt) \<le> 65535 \<or> uint (nt_device_id nt) \<le> 65535) \<and>
    ((\<exists>buf. serialize_send_toot st (DEFINE_CRMNA_BUF content 10) = Ret (True, buf)) \<longleftrightarrow>
      uint (st_toot_id st) \<le> 65535 \<or> uint (st_device_id st) \<le> 65535)"
proof -
  let ?b = "DEFINE_CRMNA_BUF content 10"
  have "bbuf_size ?b \<le> length (bbuf ?b)" using assms by (simp add: DEFINE_CRMNA_BUF_def)
  from serialized_fits [OF serialize_new_toot_ok [OF this, of nt]]
    serialized_fits [OF serialize_send_toot_ok [OF this, of st]]
  show ?thesis by (simp add: DEFINE_CRMNA_BUF_def length_toot_value)
qed

theorem toot_messages_fit_witness:
  "\<not> (\<exists>buf. serialize_new_toot \<lparr>nt_toot_id = 70000, nt_device_id = 70000\<rparr>
            (DEFINE_CRMNA_BUF (replicate 10 0) 10) = Ret (True, buf))"
  using toot_messages_fit [of "replicate 10 0" "\<lparr>nt_toot_id = 70000, nt_device_id = 70000\<rparr>"] by simp

end
