(* ===== verification/Driver_Store_Props.thy ===== *)
theory Driver_Store_Props
  imports Driver_Sample
begin

text \<open>The properties of the store, each with a concrete instance.\<close>

text \<open>
  The checks and lookups answer from the abstract store and change nothing but the error
  object: a device is ready when it is there and marked so; a toot's device and process are given
  exactly while the toot is in one of the states in use and its device is ready.
\<close>

theorem store_lookups:
  assumes "store_inv K w"
  shows "reads w (ready_dev (abs_store K w) k) (check_device_ready K k w) \<and>
    reads w (map_option d_pid (a_dev (abs_store K w) k)) (get_device_pid K k w) \<and>
    reads w (open_toot (abs_store K w) k) (check_toot_ready K k w) \<and>
    reads w (if usable_toot (abs_store K w) k then find_toot K k w else None) (get_toot_when_ready K k w) \<and>
    reads w (if usable_elem (abs_store K w) k then find_element K k w else None)
      (get_element_when_ready K k w) \<and>
    reads w (map_option snd (toot_owner (abs_store K w) k)) (get_device_id_from_toot K k w) \<and>
    reads w (map_option fst (toot_owner (abs_store K w) k)) (get_device_pid_from_toot K k w)"
  unfolding toot_owner_ids
  by (intro conjI check_device_ready_reads get_device_pid_reads check_toot_ready_reads
      get_toot_when_ready_reads get_element_when_ready_reads get_device_id_from_toot_reads
      get_device_pid_from_toot_reads assms)

theorem store_lookups_witness:
  "reads sample_world (Some 1) (get_device_id_from_toot sample_kernel 5 sample_world) \<and>
   reads sample_world (Some 100) (get_device_pid_from_toot sample_kernel 5 sample_world)"
proof -
  have "toot_owner (abs_store sample_kernel sample_world) 5 = Some (100, 1)"
    by (simp add: toot_owner_def usable_toot_def ready_dev_def sample_toot_def sample_dev_def)
  then show ?thesis using store_lookups [OF sample_inv(2), of 5] by simp
qed

text \<open>
  C20. The operations that change a state or a flag do so on the one object they name, when it may be
  changed, and on nothing else; they keep the store intact: no pointer dangles, no object leaks,
  every reference leads to an object, and no lock stays held.
\<close>

theorem store_updates_refine:
  assumes "store_inv K w"
  shows "proc_refines K w (ready_spec k (abs_store K w)) (set_device_ready K k w) \<and>
    proc_refines K w (attach_spec False k (abs_store K w)) (detach_device_class K k w) \<and>
    proc_refines K w (toot_state_spec OPEND k (abs_store K w)) (set_toot_ready K k w) \<and>
    proc_refines K w (toot_state_spec DESTROYED k (abs_store K w)) (set_toot_sent K k w) \<and>
    proc_refines K w (toot_state_spec TOOT_ERROR k (abs_store K w)) (set_toot_failer K k w) \<and>
    proc_refines K w (elem_state_spec ELEMENT_SENT k (abs_store K w)) (set_element_sent K k w) \<and>
    proc_refines K w (elem_state_spec ELEMENT_ERROR k (abs_store K w)) (set_element_failer K k w)"
  unfolding set_toot_ready_def set_toot_sent_def set_toot_failer_def set_element_sent_def
    set_element_failer_def
  by (intro conjI set_device_ready_refines detach_device_class_refines set_toot_state_refines
      set_element_state_refines assms)

theorem store_updates_refine_witness:
  "\<exists>w. set_toot_sent sample_kernel 5 sample_world = Ret w \<and>
       a_toot (abs_store sample_kernel w) 5 = Some (sample_toot\<lparr>t_state := DESTROYED\<rparr>)"
proof -
  have "toot_state_spec DESTROYED 5 (abs_store sample_kernel sample_world) =
      put_toot 5 (Some (sample_toot\<lparr>t_state := DESTROYED\<rparr>)) (abs_store sample_kernel sample_world)"
    by (simp add: toot_state_spec_def usable_toot_def ready_dev_def sample_toot_def sample_dev_def)
  then show ?thesis
    using store_updates_refine [OF sample_inv(2), of 5] unfolding proc_refines_def reaches_def
    by (auto simp: put_toot_def)
qed

text \<open>
  C7. Removing an element, a toot or a device returns, whatever is in the store: the loops over the
  tables end. A toot goes with its elements and a device with its toots and their elements;
  everything else stays.
\<close>

theorem removals_cascade:
  assumes "store_inv K w"
  shows "proc_refines K w (put_elem k None (abs_store K w)) (remove_element K k w) \<and>
    proc_refines K w (remove_toot_spec k (abs_store K w)) (remove_toot K k w) \<and>
    proc_refines K w (remove_device_spec k (abs_store K w)) (remove_device K k w)"
  by (intro conjI remove_element_refines remove_toot_refines remove_device_refines assms)

theorem removals_cascade_witness:
  "\<exists>w. remove_device sample_kernel 1 sample_world = Ret w \<and>
       abs_store sample_kernel w = \<lparr>a_dev = Map.empty, a_toot = Map.empty, a_elem = Map.empty\<rparr>"
proof -
  have "remove_device_spec 1 (abs_store sample_kernel sample_world) =
      \<lparr>a_dev = Map.empty, a_toot = Map.empty, a_elem = Map.empty\<rparr>"
    by (auto simp: remove_device_spec_def drop_toots_def put_dev_def fun_eq_iff sample_toot_def
        sample_element_def)
  then show ?thesis
    using removals_cascade [OF sample_inv(2), of 1] unfolding proc_refines_def reaches_def by auto
qed

text \<open>
  C21. Adding a toot or an element. For a device that is not ready, for a toot that is not open, and when
  Linux has no id or no memory, nothing is added and everything is as it was: objects, blocks, allocated
  ids and held memory. Otherwise the new object is at the block Linux gave, under the id Linux gave, which
  was free, with its first state; an element also counts up its toot. Nothing else changes.
\<close>

theorem additions_atomic:
  assumes "store_inv K w"
  shows "(case if ready_dev (abs_store K w) d
           then object_given K (toots w) 0 INT_MAX (live w) (kenv w) else None of
        None \<Rightarrow> \<exists>w'. add_toot K d w = Ret (None, w') \<and> unchanged K w w'
      | Some (k, p, e) \<Rightarrow>
          let t = \<lparr>t_toot_id = k, t_device_id = d, t_state = OPEN_RESULT_WAIT,
                   t_element_count = k_word K e\<rparr> in
          a_toot (abs_store K w) k = None \<and>
          (\<exists>w'. add_toot K d w = Ret (Some k, w') \<and> reaches K w (put_toot k (Some t) (abs_store K w)) w' \<and>
             toot_heap w' = (toot_heap w)(p \<mapsto> t) \<and> name_heap w' = name_heap w \<and> cdevs w' = cdevs w)) \<and>
    (case if open_toot (abs_store K w) toot_id
           then object_given K (elements w) 0 INT_MAX (live w) (kenv w) else None of
        None \<Rightarrow> \<exists>w'. add_element K toot_id w = Ret (None, w') \<and> unchanged K w w'
      | Some (k, p, e) \<Rightarrow>
          a_elem (abs_store K w) k = None \<and>
          (\<exists>t. a_toot (abs_store K w) toot_id = Some t \<and>
             (let n = t_element_count t + 1;
                  el = \<lparr>e_element_id = k, e_toot_id = toot_id, e_state = ELEMENT_READY, e_index = n\<rparr> in
              \<exists>w'. add_element K toot_id w = Ret (Some (k, n), w') \<and>
                reaches K w (put_elem k (Some el)
                  (put_toot toot_id (Some (t\<lparr>t_element_count := n\<rparr>)) (abs_store K w))) w' \<and>
                element_heap w' = (element_heap w)(p \<mapsto> el) \<and>
                name_heap w' = name_heap w \<and> cdevs w' = cdevs w)))"
  using add_toot_refines [OF assms, of d] add_element_refines [OF assms, of toot_id]
  unfolding added_toot_def added_element_def by (rule conjI)

theorem additions_atomic_witness:
  "(\<exists>w. add_toot sample_kernel 1 sample_world = Ret (Some 0, w) \<and>
      toot_heap w 4 = Some \<lparr>t_toot_id = 0, t_device_id = 1, t_state = OPEN_RESULT_WAIT, t_element_count = 0\<rparr>) \<and>
   (\<exists>w. add_element sample_kernel 5 sample_world = Ret (Some (0, 3), w) \<and>
      element_heap w 4 = Some \<lparr>e_element_id = 0, e_toot_id = 5, e_state = ELEMENT_READY, e_index = 3\<rparr>) \<and>
   (\<exists>w. add_toot starved_kernel 1 sample_world = Ret (None, w) \<and> unchanged starved_kernel sample_world w) \<and>
   (\<exists>w. add_toot sample_kernel 2 sample_world = Ret (None, w) \<and> unchanged sample_kernel sample_world w)"
proof -
  have "ready_dev (abs_store sample_kernel sample_world) 1" "\<not> ready_dev (abs_store sample_kernel sample_world) 2"
    "open_toot (abs_store sample_kernel sample_world) 5" "k_word sample_kernel 0 = 0"
    by (simp_all add: ready_dev_def open_toot_def sample_dev_def sample_toot_def) (simp add: sample_kernel_def)
  then show ?thesis
    using additions_atomic [OF sample_inv(2), of 1 5] additions_atomic [OF sample_inv(5), of 1 5]
      additions_atomic [OF sample_inv(2), of 2 5]
    by (auto simp: sample_toot_def Let_def)
qed

text \<open>
  C38. A device name is copied with its terminator into a block that was asked for without it. With
  no slack behind the block the copy writes outside it. Otherwise, when Linux has no minor number or no
  memory, everything is as it was, the block of the name and the number given back; or the device is
  the object at the block Linux gave, under a free minor number between the bounds, with its name, not
  ready yet, and nothing else changes.
\<close>

theorem add_device_name_room:
  assumes "store_inv K w" "mpack_strlen name = Ret len"
  shows "case k_kmalloc K (live w) len (kenv w) of
       (None, e) \<Rightarrow> \<exists>w'. add_device K pid uid name w = Ret (None, w') \<and> unchanged K w w'
     | (Some (a, room), e) \<Rightarrow>
         if room \<le> len then add_device K pid uid name w = Fault Oob_write
         else
           (case object_given K (devices w) (miner_min w) (miner_max w) (\<lambda>p. p = a \<or> live w p) e of
              None \<Rightarrow> \<exists>w'. add_device K pid uid name w = Ret (None, w') \<and> unchanged K w w'
            | Some (k, p, _) \<Rightarrow>
                let d = \<lparr>d_device_id = k, d_pid = pid, d_uid = uid, d_name = a,
                         d_dev = MKDEV (device_major w) k, d_sem = 0, d_is_ready = False,
                         d_is_attached = False\<rparr> in
                a_dev (abs_store K w) k = None \<and> miner_min w \<le> k \<and> k \<le> miner_max w \<and>
                (\<exists>w'. add_device K pid uid name w = Ret (Some k, w') \<and>
                   reaches K w (put_dev k (Some d) (abs_store K w)) w' \<and>
                   dev_heap w' = (dev_heap w)(p \<mapsto> d) \<and> name_heap w a = None \<and>
                   name_heap w' = (name_heap w)(a \<mapsto> take (len + 1) name) \<and> cdevs w' = cdevs w))"
  using add_device_refines [OF assms, of pid uid] unfolding added_device_def .

theorem add_device_name_room_witness:
  "add_device tight_kernel 100 0 [0x61, 0] start_world = Fault Oob_write \<and>
   (\<exists>w. add_device sample_kernel 100 0 [0x61, 0] start_world = Ret (Some 0, w) \<and>
      name_heap w = [0 \<mapsto> [0x61, 0]] \<and> dev_heap w \<noteq> Map.empty) \<and>
   (\<exists>w. add_device starved_kernel 100 0 [0x61, 0] start_world = Ret (None, w) \<and>
      unchanged starved_kernel start_world w)"
proof -
  have names: "name_heap start_world = Map.empty" by (simp add: start_world_def)
  have len: "mpack_strlen [0x61, 0] = Ret 1" by simp
  show ?thesis
    using add_device_name_room [OF sample_inv(3) len, of 100 0]
      add_device_name_room [OF sample_inv(1) len, of 100 0]
      add_device_name_room [OF sample_inv(4) len, of 100 0]
    unfolding sample_given names by (auto simp: Let_def)
qed



text \<open>
  C40. Waiting for the answer to a toot that was sent. An answer that came before the wait is lost:
  the wait reports failure. Otherwise the wait sleeps, and looks at the toot through the pointer it
  took before: when the toot is gone, that is a use of freed memory; when it is there, the result is
  whether it was sent.
\<close>

theorem wait_sent_outcomes:
  assumes "store_inv K w" "usable_toot (abs_store K w) k"
  shows "(\<exists>w'. set_toot_sent K k w = Ret w' \<and> reads w' False (wait_toot_sent_or_failer K k w')) \<and>
    (\<exists>p err. find_toot K k w = Some p \<and>
       (let w' = k_sleep K (w\<lparr>werr := err\<rparr>) in
        case toot_heap w' p of
          None \<Rightarrow> wait_toot_sent_or_failer K k w = Fault Use_after_free
        | Some t \<Rightarrow> \<exists>err'. wait_toot_sent_or_failer K k w =
            Ret (t_state t = DESTROYED, w'\<lparr>werr := err'\<rparr>)))"
proof -
  obtain t where t: "a_toot (abs_store K w) k = Some t" using usable_toot_exists [OF assms(2)] by blast
  then have "t_state t \<notin> {DESTROYED, TOOT_ERROR}"
    using assms(2) by (auto simp: usable_toot_def)
  then have wait: "\<exists>p err. find_toot K k w = Some p \<and>
       (let w' = k_sleep K (w\<lparr>werr := err\<rparr>) in
        case toot_heap w' p of
          None \<Rightarrow> wait_toot_sent_or_failer K k w = Fault Use_after_free
        | Some t \<Rightarrow> \<exists>err'. wait_toot_sent_or_failer K k w =
            Ret (t_state t = DESTROYED, w'\<lparr>werr := err'\<rparr>))"
    unfolding wait_toot_sent_or_failer_def
    using wait_toot_run [OF assms t, of "{DESTROYED, TOOT_ERROR}" "''wait_toot_sent_or_failer''" DESTROYED] by (simp add: Let_def)
  obtain w' where w': "set_toot_sent K k w = Ret w'"
      "reaches K w (toot_state_spec DESTROYED k (abs_store K w)) w'"
    using set_toot_state_refines [OF assms(1), of DESTROYED k "Some ''set_toot_sent''"]
    unfolding set_toot_sent_def proc_refines_def by blast
  then have "store_inv K w'" "\<not> usable_toot (abs_store K w') k"
    using assms(2) t
    by (auto simp: reaches_def toot_state_spec_def put_toot_def usable_toot_def)
  then have "reads w' False (wait_toot_sent_or_failer K k w')"
    unfolding wait_toot_sent_or_failer_def by (rule wait_toot_unusable)
  with w'(1) wait show ?thesis by blast
qed

theorem wait_sent_outcomes_witness:
  "\<exists>w'. set_toot_sent sample_kernel 5 sample_world = Ret w' \<and>
     reads w' False (wait_toot_sent_or_failer sample_kernel 5 w')"
proof -
  have "usable_toot (abs_store sample_kernel sample_world) 5"
    by (simp add: usable_toot_def ready_dev_def sample_toot_def sample_dev_def)
  from wait_sent_outcomes [OF sample_inv(2) this] show ?thesis by blast
qed

end
