(* ===== verification/Driver_Life.thy ===== *)
theory Driver_Life
  imports Driver_Props Driver_Store_Props
begin

text \<open>
  The life of the module: its start and its end, which frees the store, and the files of its
  devices.
\<close>

subsection \<open>Teardown\<close>

text \<open>The devices that are registered with Linux, going by their objects.\<close>

definition registered :: "('i, 'e) world \<Rightarrow> nat set" where
  "registered w = {p. \<exists>d. dev_heap w p = Some d \<and> d_is_attached d}"

text \<open>A device of the table goes, and its registration with it.\<close>

lemma destroy_device_entry_removes:
  assumes "store_inv K w" "find_device K k w = Some p"
  shows "\<exists>w'. destroy_device_entry K k p w = Ret w' \<and> store_inv K w' \<and>
    a_dev (abs_store K w') = (a_dev (abs_store K w))(k := None) \<and> name_heap w' = name_heap w \<and>
    cdevs w' - registered w' = cdevs w - registered w \<and> outside w' = outside w"
proof -
  obtain d where d: "dev_heap w p = Some d" "d_sem d = 0"
    using assms(2) by (cases rule: device_cases [OF assms(1), where k = k]) auto
  let ?w1 = "detached K p d w"
  have run: "detach_device_class K k w = Ret ?w1" by (rule detach_device_class_run [OF assms(2) d])
  then have w1: "reaches K w (attach_spec False k (abs_store K w)) ?w1"
    using detach_device_class_refines [OF assms(1), of k] by (auto simp: proc_refines_def)
  then have inv1: "store_inv K ?w1" by (simp add: reaches_def)
  have "find_device K k ?w1 = Some p" using assms(2) by (simp add: find_device_def detached_def)
  then obtain w2 where w2: "remove_device K k ?w1 = Ret w2"
      "reaches K ?w1 (remove_device_spec k (abs_store K ?w1)) w2" "name_heap w2 = name_heap w"
      "cdevs w2 = cdevs ?w1" "dev_heap w2 = (dev_heap w)(p := None)"
    using remove_device_refines_names [OF inv1, of k] by (auto simp: detached_def)
  have "a_dev (abs_store K w2) = (a_dev (abs_store K w))(k := None)"
    using w1 w2(2) by (simp add: reaches_def remove_device_spec_def attach_spec_def put_dev_def)
  moreover have "cdevs w2 - registered w2 = cdevs w - registered w"
    using w2(4,5) d by (auto simp: registered_def detached_def split: if_splits)
  ultimately show ?thesis
    using run w1 w2(1-3) by (auto simp: destroy_device_entry_def reaches_def)
qed

lemma destroy_loop:
  assumes "store_inv K w"
  shows "\<exists>w'. for_each_entry IDS (\<lambda>w. k_idr_get_next K (devices w)) (destroy_device_entry K) 0 w = Ret w' \<and>
    store_inv K w' \<and> a_dev (abs_store K w') = Map.empty \<and> name_heap w' = name_heap w \<and>
    cdevs w' - registered w' = cdevs w - registered w \<and> outside w' = outside w"
proof -
  let ?I = "\<lambda>lo w'. store_inv K w' \<and> (\<forall>k. a_dev (abs_store K w') k \<noteq> None \<longrightarrow> lo \<le> k \<and> k \<le> INT_MAX) \<and>
     name_heap w' = name_heap w \<and> cdevs w' - registered w' = cdevs w - registered w \<and> outside w' = outside w"
  have K: "kernel_ok K" using assms by (rule inv_parts)
  have "\<exists>w' last. for_each_entry IDS (\<lambda>w. k_idr_get_next K (devices w)) (destroy_device_entry K) 0 w =
      Ret w' \<and> ?I last w' \<and> k_idr_get_next K (devices w') last = None"
  proof (rule for_each_rule)
    show "?I 0 w" using assms astore_okD(6) [OF inv_parts(3) [OF assms]] by auto
    show "IDS \<le> unat (0 :: u32) + IDS" by simp
  next
    fix lo :: u32 and w1 :: "('a, 'b) world" and k p
    assume I: "?I lo w1" and nxt: "k_idr_get_next K (devices w1) lo = Some (k, p)"
    note nx = idr_next_facts(1,2) [OF K nxt]
    have inv1: "store_inv K w1" using I by simp
    have found: "find_device K k w1 = Some p" using nx(1) by (simp add: find_device_def)
    have k: "k \<le> INT_MAX"
      using I nx(1) by (cases rule: device_cases [OF inv1, where k = k]) (auto simp: find_device_def)
    obtain w2 where w2: "destroy_device_entry K k p w1 = Ret w2" "store_inv K w2"
        "a_dev (abs_store K w2) = (a_dev (abs_store K w1))(k := None)" "name_heap w2 = name_heap w1"
        "cdevs w2 - registered w2 = cdevs w1 - registered w1" "outside w2 = outside w1"
      using destroy_device_entry_removes [OF inv1 found] by blast
    have "k + 1 \<le> j" if "a_dev (abs_store K w2) j \<noteq> None" for j
    proof -
      have "j \<noteq> k" "a_dev (abs_store K w1) j \<noteq> None" using that w2(3) by (auto split: if_splits)
      then have "k < j"
        using nx(2) [of j] I by (force simp: abs_store_def at_def not_less le_less split: option.splits)
      then show ?thesis using unat_add_1 [OF k] by (simp add: word_le_nat_alt word_less_nat_alt)
    qed
    moreover have "j \<le> INT_MAX" if "a_dev (abs_store K w2) j \<noteq> None" for j
      using that w2(3) I by (auto split: if_splits)
    ultimately show "lo \<le> k \<and> k \<le> INT_MAX \<and> (\<exists>w'. destroy_device_entry K k p w1 = Ret w' \<and> ?I (k + 1) w')"
      using nx(1) k w2 I by auto
  qed
  then obtain w' last where w': "for_each_entry IDS (\<lambda>w. k_idr_get_next K (devices w))
      (destroy_device_entry K) 0 w = Ret w'" "?I last w'" "k_idr_get_next K (devices w') last = None"
    by blast
  have "a_dev (abs_store K w') k = None" for k
  proof (rule ccontr)
    assume k: "a_dev (abs_store K w') k \<noteq> None"
    then have "last \<le> k" using w'(2) by blast
    then have "k_idr_find K (devices w') k = None" by (rule idr_next_facts(3) [OF K w'(3)])
    then show False using k by (simp add: abs_store_def at_None)
  qed
  with w' show ?thesis by (auto simp: fun_eq_iff)
qed

lemma linked_empty: "linked f h key \<Longrightarrow> (\<And>k. at f h k = None) \<Longrightarrow> h p = None"
proof (rule ccontr)
  assume l: "linked f h key" and none: "\<And>k. at f h k = None" and "h p \<noteq> None"
  then obtain x where x: "h p = Some x" by blast
  show False using linked_id [OF l x] none [of "key x"] x by (simp add: at_Some)
qed

text \<open>A store without devices has nothing in its heaps.\<close>

lemma no_devices_no_objects:
  assumes "store_inv K w" "a_dev (abs_store K w) = Map.empty"
  shows "dev_heap w = Map.empty" "toot_heap w = Map.empty" "element_heap w = Map.empty"
proof -
  note i = inv_parts [OF assms(1)]
  have none: "a_toot (abs_store K w) k = None" "a_elem (abs_store K w) k = None" for k
    using astore_okD(3,5) [OF i(3)] assms(2) by (metis not_None_eq)+
  from linked_empty [OF i(4)] linked_empty [OF i(5)] linked_empty [OF i(6)] assms(2) none
  show "dev_heap w = Map.empty" "toot_heap w = Map.empty" "element_heap w = Map.empty"
    by (simp_all add: abs_store_def fun_eq_iff)
qed

lemma idr_init_empty: "kernel_ok K \<Longrightarrow> k_idr_find K (k_idr_init K) k = None"
  unfolding kernel_ok_def idr_ok_def by (metis not_None_eq)

lemma empty_store_inv:
  assumes "kernel_ok K" "devices w = k_idr_init K" "toots w = k_idr_init K" "elements w = k_idr_init K"
    "dev_heap w = Map.empty" "toot_heap w = Map.empty" "element_heap w = Map.empty"
    "miner_max w \<le> INT_MAX"
  shows "store_inv K w"
  using assms by (simp add: store_inv_def heaps_ok_def linked_def idr_init_empty astore_ok_def
      abs_store_def at_def no_spare_init)

text \<open>What the store has taken from Linux, in the order in which it is given back.\<close>

definition store_resources :: "nat \<Rightarrow> ('i, 'e) world \<Rightarrow> resource list" where
  "store_resources store w = [Class (device_class w), Region (chrdev w) (miner_max w), Block store]"

text \<open>The world without the objects of the store and without what it held.\<close>

definition torn_down :: "nat \<Rightarrow> ('i, 'e) world \<Rightarrow> ('i, 'e) world \<Rightarrow> bool" where
  "torn_down store w w' \<longleftrightarrow>
     dev_heap w' = Map.empty \<and> toot_heap w' = Map.empty \<and> element_heap w' = Map.empty \<and>
     cdevs w' = cdevs w - registered w \<and> held w' = fold remove1 (store_resources store w) (held w) \<and>
     name_heap w' = name_heap w \<and> outside (w'\<lparr>held := held w\<rparr>) = outside w"

lemma destroy_store_run:
  assumes "store_inv K w"
  shows "if set (store_resources store w) \<subseteq> set (held w)
    then \<exists>w'. destroy_store K store w = Ret w' \<and> store_inv K w' \<and> torn_down store w w'
    else destroy_store K store w = Fault Use_after_free"
proof -
  obtain w1 where w1: "for_each_entry IDS (\<lambda>w. k_idr_get_next K (devices w)) (destroy_device_entry K) 0 w =
      Ret w1" "store_inv K w1" "a_dev (abs_store K w1) = Map.empty" "name_heap w1 = name_heap w"
      "cdevs w1 - registered w1 = cdevs w - registered w" "outside w1 = outside w"
    using destroy_loop [OF assms] by blast
  let ?w = "w1\<lparr>devices := k_idr_init K, toots := k_idr_init K, elements := k_idr_init K\<rparr>"
  note empty = no_devices_no_objects [OF w1(2,3)]
  have same: "held w1 = held w" "device_class w1 = device_class w" "chrdev w1 = chrdev w" "miner_max w1 = miner_max w"
    using w1(6) by (simp_all add: outside_def)
  have run: "destroy_store K store w =
      and_then (give_back (Class (device_class w)) ?w) (\<lambda>w.
      and_then (give_back (Region (chrdev w) (miner_max w)) w) (give_back (Block store)))"
    using w1(1) same by (simp add: destroy_store_def)
  show ?thesis
  proof (cases "set (store_resources store w) \<subseteq> set (held w)")
    case False
    then have "destroy_store K store w = Fault Use_after_free"
      unfolding run by (auto simp: give_back_def store_resources_def same)
    then show ?thesis using False by simp
  next
    case True
    let ?w' = "?w\<lparr>held := fold remove1 (store_resources store w) (held w)\<rparr>"
    have "store_inv K ?w'"
      using inv_parts(1,7) [OF w1(2)] empty by (intro empty_store_inv) simp_all
    moreover have "registered w1 = {}" using empty(1) by (simp add: registered_def)
    then have "torn_down store w ?w'"
      using w1(4-6) empty by (simp add: torn_down_def outside_def)
    moreover have "destroy_store K store w = Ret ?w'"
      unfolding run using True by (simp add: give_back_def store_resources_def same)
    ultimately show ?thesis using True by auto
  qed
qed

text \<open>
  C37. Destroying the store returns and leaves no device, toot or element in memory and no device
  registered, whatever was in it; the device class, the device numbers and the block of the store are
  given back; only the blocks with the names of the devices are not. When the store does not hold these
  resources any more, it is a use of freed memory.
\<close>

theorem destroy_store_frees:
  assumes "store_inv K w"
  shows "if set (store_resources store w) \<subseteq> set (held w)
    then \<exists>w'. destroy_store K store w = Ret w' \<and> store_inv K w' \<and> dev_heap w' = Map.empty \<and>
      toot_heap w' = Map.empty \<and> element_heap w' = Map.empty \<and> name_heap w' = name_heap w \<and>
      cdevs w' = cdevs w - registered w \<and>
      held w' = fold remove1 (store_resources store w) (held w) \<and>
      outside (w'\<lparr>held := held w\<rparr>) = outside w
    else destroy_store K store w = Fault Use_after_free"
  using destroy_store_run [OF assms, of store] unfolding torn_down_def by (auto split: if_splits)

theorem destroy_store_frees_witness:
  "\<exists>w. destroy_store sample_kernel 31 sample_world = Ret w \<and> dev_heap w = Map.empty \<and>
       toot_heap w = Map.empty \<and> element_heap w = Map.empty \<and> name_heap w = [1 \<mapsto> [0x61, 0]] \<and>
       held w = [Socket 7] \<and> cdevs w = {}"
proof -
  have "name_heap sample_world = [1 \<mapsto> [0x61, 0]]" "set (store_resources 31 sample_world) \<subseteq> set (held sample_world)"
    "fold remove1 (store_resources 31 sample_world) (held sample_world) = [Socket 7]"
    "cdevs sample_world - registered sample_world = {}"
    by (simp_all add: sample_defs store_resources_def registered_def)
  then show ?thesis using destroy_store_frees [OF sample_inv(2), of 31] by auto
qed

text \<open>
  The end of the module, with its communicator, returns, frees what destroying the store frees, the
  socket and the block of the communicator, and leaves the other communicators alone.
\<close>

theorem cremona_exit_frees:
  assumes "store_inv K w" "c_interface com = Some Netlink_interface" "c_obj com = Some obj"
    "com_heap w obj = Some sock" "set (Socket sock # store_resources store w) \<subseteq> set (held w)"
  shows "\<exists>w'. cremona_exit K store com w = Ret w' \<and> dev_heap w' = Map.empty \<and> toot_heap w' = Map.empty \<and>
    element_heap w' = Map.empty \<and> com_heap w' = (com_heap w)(obj := None) \<and>
    cdevs w' = cdevs w - registered w \<and> name_heap w' = name_heap w \<and>
    data_heap w' = data_heap w \<and> private_data w' = private_data w \<and>
    held w' = remove1 (Socket sock) (fold remove1 (store_resources store w) (held w))"
proof -
  obtain w1 where w1: "destroy_store K store w = Ret w1" "torn_down store w w1"
    using destroy_store_run [OF assms(1), of store] assms(5) by auto
  then have "com_heap w1 obj = Some sock" "Socket sock \<in> set (held w1)" "com_heap w1 = com_heap w"
      "data_heap w1 = data_heap w" "private_data w1 = private_data w"
    using assms(4,5) by (simp_all add: torn_down_def outside_def store_resources_def)
  then show ?thesis
    using w1 assms(2,3)
    by (simp add: cremona_exit_def communicator_free_def deref_com_def netlink_interface_def
        netlink_free_def heap_step_defs give_back_def torn_down_def)
qed

theorem cremona_exit_frees_witness:
  "\<exists>w. cremona_exit sample_kernel 31 \<lparr>c_interface = Some Netlink_interface, c_obj = Some 30\<rparr> sample_world = Ret w \<and>
       dev_heap w = Map.empty \<and> com_heap w = Map.empty \<and> held w = []"
proof -
  have "com_heap sample_world = [30 \<mapsto> 7]" "set (Socket 7 # store_resources 31 sample_world) \<subseteq> set (held sample_world)"
    "remove1 (Socket 7) (fold remove1 (store_resources 31 sample_world) (held sample_world)) = []"
    by (simp_all add: sample_defs store_resources_def)
  then show ?thesis
    using cremona_exit_frees [OF sample_inv(2), of "\<lparr>c_interface = Some Netlink_interface, c_obj = Some 30\<rparr>" 30 7 31]
    by auto
qed

subsection \<open>Start\<close>

text \<open>
  What Linux gives to the start once the block of the store is there: a region of device numbers, a
  device class, a block for the communicator and a socket; \<open>None\<close> when one of them is refused.
\<close>

definition start_given ::
    "('i, 'e) kernel \<Rightarrow> (nat \<Rightarrow> bool) \<Rightarrow> 'e \<Rightarrow> (u32 \<times> nat \<times> nat \<times> nat \<times> 'e) option" where
  "start_given K used e =
     (let ((r, dev), e) = k_alloc_chrdev_region K MINOR_BASE MINOR_NUM e in
      if r \<noteq> 0 then None
      else case k_class_create K e of
        (None, e) \<Rightarrow> None
      | (Some cls, e) \<Rightarrow>
          (case k_kmalloc_object K used e of
             (None, e) \<Rightarrow> None
           | (Some com, e) \<Rightarrow>
               (case k_netlink_kernel_create K 17 e of
                  (None, e) \<Rightarrow> None
                | (Some sock, e) \<Rightarrow> Some (dev, cls, com, sock, e))))"

text \<open>Everything taken is given back: the memory and what is held are as before.\<close>

definition given_back :: "('i, 'e) world \<Rightarrow> ('i, 'e) world \<Rightarrow> bool" where
  "given_back w w' \<longleftrightarrow>
     held w' = held w \<and> dev_heap w' = dev_heap w \<and> toot_heap w' = toot_heap w \<and>
     element_heap w' = element_heap w \<and> name_heap w' = name_heap w \<and> data_heap w' = data_heap w \<and>
     com_heap w' = com_heap w \<and> private_data w' = private_data w \<and> cdevs w' = cdevs w \<and> wsent w' = wsent w"

text \<open>The module started, with a communicator \<open>com\<close>.\<close>

definition started_with ::
    "('i, 'e) kernel \<Rightarrow> nat \<Rightarrow> u32 \<times> nat \<times> nat \<times> nat \<times> 'e \<Rightarrow> ('i, 'e) world \<Rightarrow> ('i, 'e) world \<Rightarrow> bool" where
  "started_with K store given w w' \<longleftrightarrow>
     (case given of (dev, cls, com, sock, e) \<Rightarrow>
        store_inv K w' \<and> com_live w' \<and>
        communicator w' = \<lparr>c_interface = Some Netlink_interface, c_obj = Some com\<rparr> \<and>
        dev_heap w' = Map.empty \<and> toot_heap w' = Map.empty \<and> element_heap w' = Map.empty \<and>
        name_heap w' = name_heap w \<and> data_heap w' = data_heap w \<and> private_data w' = private_data w \<and>
        com_heap w' = (com_heap w)(com \<mapsto> sock) \<and> com_heap w com = None \<and>
        cdevs w' = cdevs w \<and> wsent w' = wsent w \<and>
        miner_min w' = 0 \<and> miner_max w' = 33 \<and> device_major w' = MAJOR dev \<and>
        chrdev w' = dev \<and> device_class w' = cls \<and>
        held w' = Socket sock # Class cls # Region dev 33 # Block store # held w)"

lemma live_held: "live (w\<lparr>held := r # held w\<rparr>) a \<longleftrightarrow> r = Block a \<or> live w a"
  by (auto simp: live_def)

lemma destroy_empty_store:
  assumes "kernel_ok K" "devices w = k_idr_init K" "held w = Class (device_class w) # Region (chrdev w) (miner_max w) # Block store # h"
  shows "destroy_store K store w =
    Ret (w\<lparr>devices := k_idr_init K, toots := k_idr_init K, elements := k_idr_init K, held := h\<rparr>)"
proof -
  have "k_idr_get_next K (devices w) 0 = None"
  proof (cases "k_idr_get_next K (devices w) 0")
    case (Some np)
    then show ?thesis
      using idr_next_facts(1) [OF assms(1), of "devices w" 0 "fst np" "snd np"] assms(2)
        idr_init_empty [OF assms(1)] by simp
  qed simp
  then show ?thesis
    using assms(3) by (subst destroy_store_def, subst for_each_entry.simps) (simp add: give_back_def)
qed

lemma cremona_init_run:
  assumes "kernel_ok K" "dev_heap w = Map.empty" "toot_heap w = Map.empty" "element_heap w = Map.empty"
  shows "case k_kmalloc_object K (live w) (kenv w) of
      (None, e) \<Rightarrow> cremona_init K w = Fault Null_deref
    | (Some store, e) \<Rightarrow>
        (case start_given K (\<lambda>a. a = store \<or> live w a) e of
           None \<Rightarrow> \<exists>s com w'. cremona_init K w = Ret ((- EFAULT, s, com), w') \<and> given_back w w'
         | Some given \<Rightarrow> \<exists>w'. cremona_init K w = Ret ((0, Some store, communicator w'), w') \<and>
             started_with K store given w w')"
proof -
  obtain q e where q: "k_kmalloc_object K (live w) (kenv w) = (q, e)" by fastforce
  show ?thesis
  proof (cases q)
    case None
    then show ?thesis using q kmalloc_object_run [OF q]
      by (simp add: cremona_init_def create_store_def)
  next
    case (Some store)
    obtain ret dev e1 where al: "k_alloc_chrdev_region K MINOR_BASE MINOR_NUM e = ((ret, dev), e1)"
      by (metis prod.collapse)
    obtain made e2 where cl: "k_class_create K e1 = (made, e2)" by fastforce
    have block: "kmalloc_object K w = Ret (Some store, w\<lparr>kenv := e, held := Block store # held w\<rparr>)"
      using kmalloc_object_run [OF q] Some by simp
    have failed: ?thesis
      if "create_store K MINOR_BASE MINOR_NUM w = Ret (None, w')" "given_back w w'"
        "start_given K (\<lambda>a. a = store \<or> live w a) e = None" for w'
      using q Some that by (auto simp: cremona_init_def)
    show ?thesis
    proof (cases "ret = 0 \<and> made \<noteq> None")
      case False
      let ?w' = "if ret \<noteq> 0 then w\<lparr>kenv := e1, held := held w\<rparr>
        else w\<lparr>kenv := e2, chrdev := dev, device_major := MAJOR dev, held := held w\<rparr>"
      have "create_store K MINOR_BASE MINOR_NUM w = Ret (None, ?w')"
        using False al cl by (auto simp: create_store_def block give_back_def Let_def)
      moreover have "start_given K (\<lambda>a. a = store \<or> live w a) e = None"
        using False al cl by (auto simp: start_given_def)
      moreover have "given_back w ?w'" by (simp add: given_back_def)
      ultimately show ?thesis by (intro failed [of ?w'])
    next
      case True
      then obtain cls where cls: "made = Some cls" by blast
      let ?com = "\<lparr>c_interface = None, c_obj = None\<rparr> :: com_ref"
      let ?w1 = "w\<lparr>kenv := e2, held := Class cls # Region dev 33 # Block store # held w, chrdev := dev,
        device_major := MAJOR dev, device_class := cls, devices := k_idr_init K, toots := k_idr_init K,
        elements := k_idr_init K, miner_max := 33, miner_min := 0, communicator := ?com\<rparr>"
      have cs: "create_store K MINOR_BASE MINOR_NUM w = Ret (Some store, ?w1)"
        using True al cl cls by (simp add: create_store_def block Let_def MINOR_BASE_def MINOR_NUM_def)
      have inv1: "store_inv K ?w1" using assms by (intro empty_store_inv) (simp_all add: INT_MAX_def)
      have used: "live ?w1 = (\<lambda>a. a = store \<or> live w a)" by (auto simp: live_def fun_eq_iff)
      obtain c e3 where c: "k_kmalloc_object K (\<lambda>a. a = store \<or> live w a) e2 = (c, e3)" by fastforce
      obtain s e4 where s: "k_netlink_kernel_create K 17 e3 = (s, e4)" by fastforce
      have given: "start_given K (\<lambda>a. a = store \<or> live w a) e =
          (case c of None \<Rightarrow> None | Some com \<Rightarrow> map_option (\<lambda>sock. (dev, cls, com, sock, e4)) s)"
        using True al cl cls c s by (simp add: start_given_def split: option.splits)
      have com: "kmalloc_object K ?w1 = Ret (c, ?w1\<lparr>kenv := e3,
          held := (case c of None \<Rightarrow> held ?w1 | Some p \<Rightarrow> Block p # held ?w1)\<rparr>)"
        using kmalloc_object_run [of K ?w1 c e3] c used by simp
      have undone: "\<exists>w'. destroy_store K store v = Ret w' \<and> given_back w w'"
        if "v = ?w1\<lparr>kenv := x, held := held ?w1\<rparr>" for v x
        using destroy_empty_store [OF assms(1), of v store "held w"] that
        by (auto simp: given_back_def)
      show ?thesis
      proof (cases "c = None \<or> s = None")
        case True
        let ?v = "?w1\<lparr>kenv := (if c = None then e3 else e4), held := held ?w1\<rparr>"
        have "create_communicator_and_register_store K 17 ?com ?w1 = Ret ((False, ?com), ?v)"
          using True com s by (auto simp: create_communicator_and_register_store_def give_back_def)
        moreover obtain w' where "destroy_store K store ?v = Ret w'" "given_back w w'"
          using undone [of ?v] by blast
        ultimately have "cremona_init K w = Ret ((- EFAULT, Some store, ?com), w')" "given_back w w'"
          using cs by (simp_all add: cremona_init_def Let_def)
        then show ?thesis using q Some True given by (auto split: option.splits)
      next
        case False
        then obtain p sock where ps: "c = Some p" "s = Some sock" by auto
        let ?ref = "\<lparr>c_interface = Some Netlink_interface, c_obj = Some p\<rparr>"
        let ?w2 = "?w1\<lparr>kenv := e4, com_heap := (com_heap w)(p \<mapsto> sock),
          held := Socket sock # held ?w1, communicator := ?ref\<rparr>"
        have run: "create_communicator_and_register_store K 17 ?com ?w1 = Ret ((True, ?ref), ?w2)"
          using com s ps by (simp add: create_communicator_and_register_store_def settle_def
              set_communicator_def Let_def)
        have "cremona_init K w = Ret ((0, Some store, ?ref), ?w2)"
          using cs run by (simp add: cremona_init_def Let_def)
        moreover have "store_inv K ?w2"
          using inv1 by (simp add: store_inv_def heaps_ok_def abs_store_def)
        moreover have "com_heap w p = None"
          using kmalloc_object_fresh [OF assms(1) c [unfolded ps(1)]] by (auto simp: live_def)
        ultimately show ?thesis
          using q Some given ps assms(2-4) by (simp add: started_with_def com_live_def)
      qed
    qed
  qed
qed

text \<open>
  C36. The start of the module on a heap without objects. A block for the store that is refused stops it.
  When Linux gives the device numbers, the class, the communicator's block and the socket, the result is 0:
  the store is intact and empty, with the minor numbers up to 33 and a live netlink communicator, and what
  was given is held. When any of these is refused, the result is an error and everything that was taken
  is given back: held memory and heaps are as before.
\<close>

theorem cremona_init_starts:
  assumes "kernel_ok K" "dev_heap w = Map.empty" "toot_heap w = Map.empty" "element_heap w = Map.empty"
  shows "case k_kmalloc_object K (live w) (kenv w) of
      (None, e) \<Rightarrow> cremona_init K w = Fault Null_deref
    | (Some store, e) \<Rightarrow>
        (case start_given K (\<lambda>a. a = store \<or> live w a) e of
           None \<Rightarrow> \<exists>s com w'. cremona_init K w = Ret ((- EFAULT, s, com), w') \<and> given_back w w'
         | Some given \<Rightarrow> \<exists>w'. cremona_init K w = Ret ((0, Some store, communicator w'), w') \<and>
             started_with K store given w w')"
  using assms by (rule cremona_init_run)

text \<open>A world before the start, and a Linux that has no socket to give.\<close>

definition empty_world :: "(list_idr, nat) world" where
  "empty_world = start_world\<lparr>com_heap := Map.empty, held := [], communicator := \<lparr>c_interface = None, c_obj = None\<rparr>\<rparr>"

definition deaf_kernel :: "(list_idr, nat) kernel" where
  "deaf_kernel = sample_kernel\<lparr>k_netlink_kernel_create := (\<lambda>port e. (None, e))\<rparr>"

lemma socket_cong: "kernel_ok (K\<lparr>k_netlink_kernel_create := f\<rparr>) = kernel_ok K"
  by (cases K) (simp only: kernel_ok_def idr_ok_def malloc_ok_def kernel.simps)

lemma deaf_kernel_ok: "kernel_ok deaf_kernel"
  using sample_kernel_ok by (simp add: deaf_kernel_def socket_cong)

lemma empty_world_heaps: "dev_heap empty_world = Map.empty" "toot_heap empty_world = Map.empty"
  "element_heap empty_world = Map.empty" "held empty_world = []" "com_heap empty_world = Map.empty"
  "private_data empty_world = Map.empty" "cdevs empty_world = {}" "\<not> live empty_world a"
  by (simp_all add: empty_world_def start_world_def live_def)

lemma empty_world_given:
  "k_kmalloc_object sample_kernel (live empty_world) e = (Some 0, e)"
  "k_kmalloc_object deaf_kernel (live empty_world) e = (Some 0, e)"
  "start_given sample_kernel (\<lambda>a. a = 0 \<or> live empty_world a) e = Some (MKDEV 240 0, 1, 1, 7, e)"
  "start_given deaf_kernel used e = None"
proof -
  have "k_kmalloc_object sample_kernel used e = (find (\<lambda>a. \<not> used a) [0..<32], e)" for used e
    by (simp add: sample_kernel_def)
  moreover have "find (\<lambda>a. \<not> (a = 0 \<or> live empty_world a)) [0..<32] = Some 1"
      "find (\<lambda>a. \<not> live empty_world a) [0..<32] = Some 0"
    by (simp_all add: upt_conv_Cons empty_world_heaps)
  moreover have "k_kmalloc_object deaf_kernel = k_kmalloc_object sample_kernel" by (simp add: deaf_kernel_def)
  moreover have "k_alloc_chrdev_region sample_kernel first n e = ((0, MKDEV 240 first), e)"
      "k_class_create sample_kernel e = (Some 1, e)" "k_netlink_kernel_create sample_kernel port e = (Some 7, e)"
      for first n e port
    by (simp_all add: sample_kernel_def)
  ultimately show
    "k_kmalloc_object sample_kernel (live empty_world) e = (Some 0, e)"
    "k_kmalloc_object deaf_kernel (live empty_world) e = (Some 0, e)"
    "start_given sample_kernel (\<lambda>a. a = 0 \<or> live empty_world a) e = Some (MKDEV 240 0, 1, 1, 7, e)"
    by (simp_all add: start_given_def MINOR_BASE_def)
  show "start_given deaf_kernel used e = None"
    by (auto simp: start_given_def deaf_kernel_def split: prod.splits option.splits)
qed

theorem cremona_init_starts_witness:
  "(\<exists>w. cremona_init sample_kernel empty_world =
        Ret ((0, Some 0, \<lparr>c_interface = Some Netlink_interface, c_obj = Some 1\<rparr>), w) \<and>
      held w = [Socket 7, Class 1, Region (MKDEV 240 0) 33, Block 0] \<and> com_heap w = [1 \<mapsto> 7]) \<and>
   (\<exists>s com w. cremona_init deaf_kernel empty_world = Ret ((- EFAULT, s, com), w) \<and>
      held w = [] \<and> com_heap w = Map.empty)"
  using cremona_init_starts [OF sample_kernel_ok empty_world_heaps(1-3)]
    cremona_init_starts [OF deaf_kernel_ok empty_world_heaps(1-3)]
  unfolding empty_world_given prod.case option.case
  by (auto simp: empty_world_given started_with_def given_back_def empty_world_heaps)

subsection \<open>Files\<close>

lemma with_err_keeps:
  "keeps (module_with K P) F (f (w\<lparr>werr := []\<rparr>)) \<Longrightarrow> keeps (module_with K P) F (with_err f w)"
  unfolding with_err_def by (rule keeps_then) (simp_all add: module_err)

text \<open>What is relied on must survive that a file gets a new block.\<close>

definition opens :: "(blocks \<Rightarrow> bool) \<Rightarrow> nat \<Rightarrow> bool" where
  "opens P file \<longleftrightarrow>
     (\<forall>c d p r data k. P (c, d, p, r) \<longrightarrow> d data = None \<longrightarrow> P (c, d(data \<mapsto> k), p(file \<mapsto> data), r))"

lemma opens_True [simp]: "opens (\<lambda>_. True) file"
  by (simp add: opens_def)

lemma set_toot_id_keeps:
  assumes "module_with K P w" "opens P file"
  shows "keeps (module_with K P) F (set_toot_id K k file w)"
proof -
  obtain r e where r: "k_kmalloc_object K (live w) (kenv w) = (r, e)" by fastforce
  have "data_heap w data = None" if "r = Some data" for data
  proof -
    have "malloc_ok K" using module_store [OF assms(1)] by (simp add: store_inv_def kernel_ok_def)
    with r that have "\<not> live w data" unfolding malloc_ok_def by blast
    then show ?thesis by (auto simp: live_def)
  qed
  then have "module_with K P (w\<lparr>kenv := e, held := held w, data_heap := (data_heap w)(data \<mapsto> k),
      private_data := (private_data w)(file \<mapsto> data)\<rparr>)" if "r = Some data" for data
    using assms that
    by (auto simp: module_with_alt blocks_def com_live_def store_inv_def heaps_ok_def abs_store_def opens_def)
  then show ?thesis
    using assms(1) r
    by (cases r) (simp_all add: set_toot_id_def kmalloc_object_def settle_def module_error module_env)
qed

lemma written_action_ok:
  "length copied \<le> 99 \<Longrightarrow> action_ok I F (create_action_add_toot_element k
     (DEFINE_CRMNA_BUF (copied @ replicate (100 - length copied) 0) 100))"
  by (simp add: action_ok_def create_action_add_toot_element_def DEFINE_CRMNA_BUF_def)

lemma toot_open_keeps:
  assumes "module_with K P w" "dev_heap w device = Some d" "opens P file"
  shows "keeps (module_with K P) (hazards K) (toot_open K device file w)"
proof -
  have inv: "module_with K P (w\<lparr>werr := []\<rparr>)" using assms(1) by (simp add: module_err)
  have "action_ok (module_with K P) (hazards K)
      (create_action_create_toot (d_device_id d) (set_toot_id K) file)"
    using assms(3) by (simp add: action_ok_def create_action_create_toot_def set_toot_id_keeps)
  from keeps_then [OF safe.dispatch_keeps [OF inv this], of "\<lambda>ok w.
      if \<not> ok then Ret (- EFAULT, add_error ''toot_open: toot open fail'' [] w) else Ret (0, w)"]
  show ?thesis
    unfolding toot_open_def using assms(2)
    by (intro with_err_keeps) (simp add: heap_step_defs module_error)
qed

lemma toot_write_keeps:
  assumes "module_with K P w" "dev_heap w device \<noteq> None"
    "private_data w file = Some data" "data_heap w data = Some k"
  shows "keeps (module_with K P) (hazards K) (toot_write K device file count w)"
proof -
  obtain d where d: "dev_heap w device = Some d" using assms(2) by blast
  obtain left copied e where c: "k_copy_from_user K (if count < 99 then count else 99) (kenv w) =
      ((left, copied), e)"
    by (metis prod.collapse)
  let ?w = "w\<lparr>werr := [], kenv := e\<rparr>"
  let ?c = "take (if count < 99 then count else 99) copied"
  have inv: "module_with K P ?w" using assms(1) by (simp add: module_err module_env)
  have "action_ok (module_with K P) (hazards K) (create_action_add_toot_element k
      (DEFINE_CRMNA_BUF (?c @ replicate (100 - length ?c) 0) 100))"
    by (rule written_action_ok) auto
  from keeps_then [OF safe.dispatch_keeps [OF inv this], of "\<lambda>ok w.
      if \<not> ok then Ret (- EFAULT, add_error ''toot_write: toot close fail. toot id: %d'' [k] w)
      else Ret (int (if count < 99 then count else 99), w)"]
  show ?thesis
    unfolding toot_write_def using assms(3,4) d c inv
    by (intro with_err_keeps) (simp add: heap_step_defs module_error Let_def)
qed

text \<open>
  Closing frees the file's block. What is relied on holds until then; when it includes that the other
  threads leave the file alone, the block is still there.
\<close>

lemma toot_close_cases:
  assumes "module_with K P w" "dev_heap w device \<noteq> None"
    "private_data w file = Some data" "data_heap w data = Some k"
  shows "(\<exists>f \<in> hazards K. toot_close K device file w = Fault f) \<or>
    (\<exists>w'. module_with K P w' \<and>
      (if data_heap w' data = None then toot_close K device file w = Fault Use_after_free
       else \<exists>r err. toot_close K device file w =
         Ret (r, w'\<lparr>data_heap := (data_heap w')(data := None), werr := err\<rparr>)))"
proof -
  obtain d where d: "dev_heap w device = Some d" using assms(2) by blast
  let ?m = "dispatch (module_ops K) (create_action_send_toot k (k_word K (kenv w))) (w\<lparr>werr := []\<rparr>)"
  have inv: "module_with K P (w\<lparr>werr := []\<rparr>)" using assms(1) by (simp add: module_err)
  have kept: "keeps (module_with K P) (hazards K) ?m"
    by (rule safe.dispatch_keeps [OF inv]) (simp add: action_ok_def create_action_send_toot_def)
  have run: "toot_close K device file w = and_then ?m (\<lambda>(ok, w1).
      and_then (free_at (data_heap w1) data) (\<lambda>h. let w1 = w1\<lparr>data_heap := h\<rparr> in
        if \<not> ok then Ret (- EFAULT, (add_error ''toot_close: toot close fail. toot id: %d'' [k] w1)\<lparr>werr := werr w\<rparr>)
        else Ret (0, w1\<lparr>werr := werr w\<rparr>)))"
    using assms(3,4) d
    by (cases ?m) (simp_all add: toot_close_def with_err_def heap_step_defs Let_def
        split: prod.splits option.splits)
  show ?thesis
  proof (cases ?m)
    case (Fault f)
    then show ?thesis using kept run by (auto simp: keeps_def)
  next
    case (Ret s)
    obtain ok w1 where s: "s = (ok, w1)" by fastforce
    have inv1: "module_with K P w1" using kept Ret s by (simp add: keeps_def)
    show ?thesis
    proof (cases "data_heap w1 data")
      case None
      then have "toot_close K device file w = Fault Use_after_free" using run Ret s by (simp add: free_at_def)
      with inv1 None show ?thesis by auto
    next
      case (Some k')
      then have "toot_close K device file w = Ret (if ok then 0 else - EFAULT,
          w1\<lparr>data_heap := (data_heap w1)(data := None), werr := werr w\<rparr>)"
        using run Ret s by (simp add: free_at_def add_error_def)
      with inv1 Some show ?thesis by auto
    qed
  qed
qed

lemma toot_close_keeps:
  assumes "module_inv K w" "dev_heap w device \<noteq> None"
    "private_data w file = Some data" "data_heap w data = Some k"
  shows "keeps (module_inv K) (insert Use_after_free (hazards K)) (toot_close K device file w)"
proof -
  have freed: "module_inv K (w\<lparr>data_heap := h, werr := err\<rparr>)" if "module_inv K w" for w h err
    using that by (simp add: module_with_alt com_live_def store_inv_def heaps_ok_def abs_store_def)
  show ?thesis
    using toot_close_cases [OF assms] by (auto simp: keeps_def freed split: if_splits)
qed

lemma create_toot_success:
  "create_toot p D s = Ret (True, s') \<Longrightarrow>
     \<exists>k s1. tp_set_toot_id p k (tp_set_toot_id_context p) s1 = Ret (True, s')"
  by (auto simp: create_toot_def Let_def outcome_simps split: prod.splits option.splits if_splits)

lemma toot_open_success:
  assumes "toot_open K device file w = Ret (r, w')"
  shows "r = - EFAULT \<or> r = 0 \<and> (\<exists>data k. private_data w' file = Some data \<and> data_heap w' data = Some k)"
proof -
  have "\<exists>data. private_data w' file = Some data \<and> data_heap w' data = Some k"
    if "set_toot_id K k file v = Ret (True, v')" "w' = v'\<lparr>werr := err\<rparr>" for k v v' err
    using that by (auto simp: set_toot_id_def settle_def outcome_simps split: prod.splits option.splits)
  then show ?thesis
    using assms
    by (fastforce simp: toot_open_def with_err_def outcome_simps create_action_create_toot_def
        dest!: create_toot_success split: prod.splits if_splits)
qed

lemma toot_write_result:
  assumes "toot_write K device file count w = Ret (r, w')"
  shows "r = - EFAULT \<or> r = int (min count 99)"
proof -
  let ?n = "if count < 99 then count else 99"
  obtain left copied e where c: "k_copy_from_user K ?n (kenv w) = ((left, copied), e)"
    by (metis prod.collapse)
  have n: "int ?n = int (min count 99)" by simp
  show ?thesis
    using assms unfolding toot_write_def with_err_def n [symmetric]
    by (cases "left = 0")
      (auto simp: c outcome_simps Let_def split: option.splits prod.splits if_splits)
qed

text \<open>
  The files. Opening, writing to and closing a toot keep the store intact, for a device that is
  there, or stop by a hazard; closing also when the file's own block is freed meanwhile. A file that
  was opened has the id of a toot in its block, and a write reports the number of bytes it took, at
  most 99, or an error.
\<close>

theorem file_operations:
  assumes "module_inv K w" "dev_heap w device \<noteq> None"
    "private_data w file = Some data" "data_heap w data = Some k"
  shows "keeps (module_inv K) (hazards K) (toot_open K device file w) \<and>
    keeps (module_inv K) (hazards K) (toot_write K device file count w) \<and>
    keeps (module_inv K) (insert Use_after_free (hazards K)) (toot_close K device file w) \<and>
    (case toot_open K device file w of
       Ret (r, w') \<Rightarrow> r = - EFAULT \<or>
         r = 0 \<and> (\<exists>data k. private_data w' file = Some data \<and> data_heap w' data = Some k)
     | Fault f \<Rightarrow> True) \<and>
    (case toot_write K device file count w of
       Ret (r, w') \<Rightarrow> r = - EFAULT \<or> r = int (min count 99) | Fault f \<Rightarrow> True)"
proof (intro conjI)
  show "keeps (module_inv K) (hazards K) (toot_open K device file w)"
    using assms(1,2) toot_open_keeps opens_True by blast
  show "keeps (module_inv K) (hazards K) (toot_write K device file count w)"
    by (rule toot_write_keeps [OF assms])
  show "keeps (module_inv K) (insert Use_after_free (hazards K)) (toot_close K device file w)"
    by (rule toot_close_keeps [OF assms])
  show "case toot_open K device file w of
       Ret (r, w') \<Rightarrow> r = - EFAULT \<or>
         r = 0 \<and> (\<exists>data k. private_data w' file = Some data \<and> data_heap w' data = Some k)
     | Fault f \<Rightarrow> True"
    by (auto dest: toot_open_success split: outcome.splits)
  show "case toot_write K device file count w of
       Ret (r, w') \<Rightarrow> r = - EFAULT \<or> r = int (min count 99) | Fault f \<Rightarrow> True"
    by (auto dest: toot_write_result split: outcome.splits)
qed

theorem file_operations_witness:
  "keeps (module_inv sample_kernel) {}
     (toot_write sample_kernel 0 4 200 (sample_world\<lparr>private_data := [4 \<mapsto> 8], data_heap := [8 \<mapsto> 5]\<rparr>))"
proof -
  let ?w = "sample_world\<lparr>private_data := [4 \<mapsto> 8], data_heap := [8 \<mapsto> 5]\<rparr>"
  have "module_inv sample_kernel ?w"
    using sample_module(2)
    by (simp add: module_with_alt blocks_def com_live_def store_inv_def heaps_ok_def abs_store_def)
  moreover have "dev_heap ?w 0 \<noteq> None" by (simp add: sample_defs)
  ultimately show ?thesis
    using file_operations [of sample_kernel ?w 0 4 8 5 200] by (simp add: sample_hazards)
qed

end
