(* ===== verification/Driver_Runs.thy ===== *)
theory Driver_Runs
  imports Driver_Life
begin

text \<open>
  The module at work, from its start to its end: Linux calls it with packets of the daemon and for
  the files of its devices, in any order. The states it gets into are an inductive relation; the
  invariant holds in all of them, and what each call may assume is established by the calls before.
\<close>

subsection \<open>Packets\<close>

text \<open>
  What \<open>netlink_rcv_skb\<close> is documented to do: call the function on each message of the packet, one
  after the other, and acknowledge it, which is an affair of Linux. Which messages these are
  (whole ones that are requests and no control messages) is the parameter \<open>messages\<close>.
\<close>

primrec each_message ::
    "(nlmsg \<Rightarrow> ('i, 'e, int) step) \<Rightarrow> (int \<Rightarrow> 'e \<Rightarrow> 'e) \<Rightarrow> nlmsg list \<Rightarrow> ('i, 'e) proc" where
  "each_message cb ack [] w = Ret w"
| "each_message cb ack (m # ms) w =
     and_then (cb m w) (\<lambda>(r, w). each_message cb ack ms (w\<lparr>kenv := ack r (kenv w)\<rparr>))"

definition delivers ::
    "('skb \<Rightarrow> (nlmsg \<Rightarrow> ('i, 'e, int) step) \<Rightarrow> ('i, 'e) proc) \<Rightarrow> ('skb \<Rightarrow> nlmsg list) \<Rightarrow>
      (int \<Rightarrow> 'e \<Rightarrow> 'e) \<Rightarrow> bool" where
  "delivers rcv messages ack \<longleftrightarrow> (\<forall>skb cb w. rcv skb cb w = each_message cb ack (messages skb) w)"

lemma each_message_keeps:
  assumes "\<And>m w. m \<in> set ms \<Longrightarrow> module_with K P w \<Longrightarrow> keeps (module_with K P) F (cb m w)"
    and "module_with K P w"
  shows "case each_message cb ack ms w of Ret w' \<Rightarrow> module_with K P w' | Fault f \<Rightarrow> f \<in> F"
  using assms
proof (induction ms arbitrary: w)
  case (Cons m ms)
  have "keeps (module_with K P) F (cb m w)" using Cons.prems by simp
  then show ?case
    using Cons.IH [of "_ \<lparr>kenv := _\<rparr>"] Cons.prems(1)
    by (cases "cb m w") (auto simp: keeps_def module_env split: prod.splits)
qed simp

subsection \<open>The memory behind the files\<close>

text \<open>
  Each open file has a block of its own. A thread that closes a file also relies on the file: no other
  thread gives it another block. What the module stands on since its start is there: the communicator with its
  socket, and held from Linux the socket, the device class, the device numbers and the block of the store,
  besides what was held before.
\<close>

record footing =
  f_store :: nat
  f_com :: nat
  f_sock :: nat
  f_dev :: u32
  f_class :: nat
  f_before :: "resource list"

definition held_since :: "footing \<Rightarrow> resource list" where
  "held_since ft = Socket (f_sock ft) # Class (f_class ft) # Region (f_dev ft) 33 # Block (f_store ft) # f_before ft"

definition files_ok :: "(nat \<rightharpoonup> u32) \<Rightarrow> (nat \<rightharpoonup> nat) \<Rightarrow> bool" where
  "files_ok d p \<longleftrightarrow>
     (\<forall>f data. p f = Some data \<longrightarrow> d data \<noteq> None) \<and>
     (\<forall>f g data. p f = Some data \<longrightarrow> p g = Some data \<longrightarrow> f = g)"

definition relies :: "footing \<Rightarrow> (nat \<times> nat) option \<Rightarrow> blocks \<Rightarrow> bool" where
  "relies ft own = (\<lambda>(c, d, p, h, dev, cls, top).
     c (f_com ft) = Some (f_sock ft) \<and> h = held_since ft \<and> dev = f_dev ft \<and> cls = f_class ft \<and> top = 33 \<and>
     files_ok d p \<and> (case own of None \<Rightarrow> True | Some (f, data) \<Rightarrow> p f = Some data))"

lemma files_ok_new: "files_ok d p \<Longrightarrow> d data = None \<Longrightarrow> files_ok (d(data \<mapsto> k)) (p(f \<mapsto> data))"
  unfolding files_ok_def by (auto split: if_splits) fastforce+

lemma files_ok_drop: "files_ok d p \<Longrightarrow> files_ok d (p(f := None))"
  unfolding files_ok_def by (auto split: if_splits)

lemma files_ok_free: "files_ok d p \<Longrightarrow> p f = Some data \<Longrightarrow> files_ok (d(data := None)) (p(f := None))"
  unfolding files_ok_def by (auto split: if_splits)

lemma relies_opens: "opens (relies ft None) file"
  by (auto simp: opens_def relies_def files_ok_new)

subsection \<open>Calls of Linux\<close>

datatype 'skb entry =
    Packet 'skb
  | Open nat nat           \<comment> \<open>device, file\<close>
  | Write nat nat nat      \<comment> \<open>device, file, number of bytes\<close>
  | Close nat nat

text \<open>
  A file is a fresh one when it is opened, and gone when opening failed or after it was closed.
\<close>

definition drop_file :: "nat \<Rightarrow> ('i, 'e) world \<Rightarrow> ('i, 'e) world" where
  "drop_file file w = w\<lparr>private_data := (private_data w)(file := None)\<rparr>"

fun enter ::
    "('skb \<Rightarrow> (nlmsg \<Rightarrow> ('i, 'e, int) step) \<Rightarrow> ('i, 'e) proc) \<Rightarrow> ('i, 'e) kernel \<Rightarrow> nat \<Rightarrow> 'skb entry \<Rightarrow>
      ('i, 'e) proc" where
  "enter rcv K obj (Packet skb) w = recive_data rcv K obj skb w"
| "enter rcv K obj (Open device file) w =
     and_then (toot_open K device file w) (\<lambda>(r, w). Ret (if r = 0 then w else drop_file file w))"
| "enter rcv K obj (Write device file count) w =
     and_then (toot_write K device file count w) (\<lambda>(r, w). Ret w)"
| "enter rcv K obj (Close device file) w =
     and_then (toot_close K device file w) (\<lambda>(r, w). Ret (drop_file file w))"

text \<open>
  What Linux sees to: the memory of a packet is as long as its messages claim, a file belongs to a
  device that is there, and only open files are written to and closed.
\<close>

fun admissible :: "('skb \<Rightarrow> nlmsg list) \<Rightarrow> 'skb entry \<Rightarrow> ('i, 'e) world \<Rightarrow> bool" where
  "admissible messages (Packet skb) w \<longleftrightarrow>
     (\<forall>(ty, pid, len, mem) \<in> set (messages skb). len \<le> length mem \<and> len < SIZE_MAX)"
| "admissible messages (Open device file) w \<longleftrightarrow> dev_heap w device \<noteq> None \<and> private_data w file = None"
| "admissible messages (Write device file count) w \<longleftrightarrow>
     dev_heap w device \<noteq> None \<and> private_data w file \<noteq> None"
| "admissible messages (Close device file) w \<longleftrightarrow>
     dev_heap w device \<noteq> None \<and> private_data w file \<noteq> None"

text \<open>
  The other threads, in each call some function \<open>s\<close> of its own, keep the store, the communicator and
  the files, and leave the file alone that this call closes.
\<close>

fun own_file :: "'skb entry \<Rightarrow> ('i, 'e) world \<Rightarrow> (nat \<times> nat) option" where
  "own_file (Close device file) w = map_option (Pair file) (private_data w file)"
| "own_file _ w = None"

definition others_ok ::
    "('i, 'e) kernel \<Rightarrow> footing \<Rightarrow> 'skb entry \<Rightarrow> ('i, 'e) world \<Rightarrow> (('i, 'e) world \<Rightarrow> ('i, 'e) world) \<Rightarrow> bool" where
  "others_ok K ft c w s \<longleftrightarrow> sleep_ok (K\<lparr>k_sleep := s\<rparr>) (relies ft (own_file c w))"

fun stops :: "('i, 'e) kernel \<Rightarrow> ('skb \<Rightarrow> nlmsg list) \<Rightarrow> 'skb entry \<Rightarrow> fault set" where
  "stops K messages (Packet skb) = hazards K \<union>
     (if \<exists>(ty, pid, len, mem) \<in> set (messages skb). 0xCA \<in> set (take len mem) \<or> 0xCB \<in> set (take len mem)
      then {Assert_failed} else {})"
| "stops K messages _ = hazards K"

subsection \<open>The states the module gets into\<close>

inductive reached ::
    "('skb \<Rightarrow> (nlmsg \<Rightarrow> ('i, 'e, int) step) \<Rightarrow> ('i, 'e) proc) \<Rightarrow> ('skb \<Rightarrow> nlmsg list) \<Rightarrow> ('i, 'e) kernel \<Rightarrow>
      footing \<Rightarrow> ('i, 'e) world \<Rightarrow> bool" for rcv messages K where
  started: "reached rcv messages K \<lparr>f_store = store, f_com = obj, f_sock = sock, f_dev = chrdev w',
      f_class = device_class w', f_before = held w\<rparr> w'"
    if "dev_heap w = Map.empty" "toot_heap w = Map.empty" "element_heap w = Map.empty"
      "private_data w = Map.empty" "cremona_init K w = Ret ((0, Some store, com), w')"
      "c_obj com = Some obj" "com_heap w' obj = Some sock"
| entered: "reached rcv messages K ft w'"
    if "reached rcv messages K ft w" "admissible messages c w" "others_ok K ft c w s"
      "enter rcv (K\<lparr>k_sleep := s\<rparr>) (f_com ft) c w = Ret w'"

inductive_cases reachedE: "reached rcv messages K ft w"

lemma intact_sleep: "intact (K\<lparr>k_sleep := s\<rparr>) P w = intact K P w"
proof -
  have "abs_store (K\<lparr>k_sleep := s\<rparr>) w = abs_store K w" by (simp add: abs_store_def)
  moreover have "heaps_ok (K\<lparr>k_sleep := s\<rparr>) w = heaps_ok K w" by (simp add: heaps_ok_def no_spare_def)
  ultimately show ?thesis by (simp add: intact_def store_inv_def kernel_ok_cong(2))
qed

lemma intact_relies:
  "intact K (relies ft own) w \<Longrightarrow> intact K (relies ft None) w"
  "intact K (relies ft None) w \<Longrightarrow> private_data w f = Some data \<Longrightarrow> data_heap w data \<noteq> None"
  "intact K (relies ft None) w \<Longrightarrow> com_heap w (f_com ft) \<noteq> None"
  by (auto simp: intact_def relies_def blocks_def files_ok_def)

lemma intact_drop_file: "intact K (relies ft None) w \<Longrightarrow> intact K (relies ft None) (drop_file f w)"
  by (auto simp: intact_def relies_def blocks_def drop_file_def files_ok_drop com_live_def store_inv_def
      heaps_ok_def abs_store_def)

lemma intact_free_file:
  "intact K (relies ft (Some (f, data))) w \<Longrightarrow>
     intact K (relies ft None) (drop_file f (w\<lparr>data_heap := (data_heap w)(data := None), werr := err\<rparr>))"
  by (auto simp: intact_def relies_def blocks_def drop_file_def files_ok_free com_live_def store_inv_def
      heaps_ok_def abs_store_def)

lemma recive_data_keeps:
  assumes "delivers rcv messages ack" "module_with K P w" "admissible messages (Packet skb) w"
    "\<And>w. module_with K P w \<Longrightarrow> com_heap w obj \<noteq> None"
  shows "case recive_data rcv K obj skb w of
    Ret w' \<Rightarrow> module_with K P w' | Fault f \<Rightarrow> f \<in> stops K messages (Packet skb)"
proof -
  let ?cb = "\<lambda>(ty, pid, len, mem). process_recive_data K obj ty pid len mem"
  have "keeps (module_with K P) (stops K messages (Packet skb)) (?cb m w)"
    if "m \<in> set (messages skb)" "module_with K P w" for m w
  proof -
    obtain ty pid len mem where m: "m = (ty, pid, len, mem)" by (cases m) auto
    with assms(3) that(1) have "len \<le> length mem" "len < SIZE_MAX" by auto
    note process_recive_data_keeps [OF that(2) assms(4) [OF that(2)] this, of ty pid]
    then have "keeps (module_with K P) (stops K messages (Packet skb))
        (process_recive_data K obj ty pid len mem w)"
      by (rule keeps_mono) (use m that(1) in \<open>auto split: if_splits\<close>)
    then show ?thesis using m by simp
  qed
  from each_message_keeps [OF this assms(2)] show ?thesis
    using assms(1) by (simp add: recive_data_def delivers_def)
qed

lemma keeps_enter:
  assumes "keeps (module_with K (relies ft None)) F m"
    "\<And>r w. module_with K (relies ft None) w \<Longrightarrow> intact K (relies ft None) (g r w)"
  shows "case and_then m (\<lambda>(r, w). Ret (g r w)) of Ret w' \<Rightarrow> intact K (relies ft None) w' | Fault f \<Rightarrow> f \<in> F"
  using assms by (cases m) (auto simp: keeps_def)

lemma module_intact: "module_with K P w \<Longrightarrow> intact K P w"
  by (simp add: module_with_def)

lemma enter_keeps:
  assumes "delivers rcv messages ack" "intact K (relies ft None) w" "admissible messages c w"
    "sleep_ok K (relies ft (own_file c w))"
  shows "case enter rcv K (f_com ft) c w of
    Ret w' \<Rightarrow> intact K (relies ft None) w' | Fault f \<Rightarrow> f \<in> stops K messages c"
proof (cases c)
  case (Packet skb)
  have inv: "module_with K (relies ft None) w" using assms(2,4) Packet by (simp add: module_with_def)
  have "admissible messages (Packet skb) w" using assms(3) Packet by simp
  then have "case recive_data rcv K (f_com ft) skb w of
      Ret w' \<Rightarrow> module_with K (relies ft None) w' | Fault f \<Rightarrow> f \<in> stops K messages (Packet skb)"
    by (rule recive_data_keeps [OF assms(1) inv _ intact_relies(3) [OF module_intact]])
  then show ?thesis
    using Packet by (cases "recive_data rcv K (f_com ft) skb w") (simp_all add: module_intact del: stops.simps)
next
  case (Open device fl)
  have inv: "module_with K (relies ft None) w" using assms(2,4) Open by (simp add: module_with_def)
  obtain d where "dev_heap w device = Some d" using assms(3) Open by auto
  from toot_open_keeps [OF inv this relies_opens] Open show ?thesis
    by (simp add: keeps_enter module_intact intact_drop_file)
next
  case (Write device fl count)
  have inv: "module_with K (relies ft None) w" using assms(2,4) Write by (simp add: module_with_def)
  obtain data k where "dev_heap w device \<noteq> None" "private_data w fl = Some data" "data_heap w data = Some k"
    using assms(3) Write intact_relies(2) [OF assms(2)] by fastforce
  from toot_write_keeps [OF inv this] Write show ?thesis by (simp add: keeps_enter module_intact)
next
  case (Close device fl)
  obtain data k where f: "dev_heap w device \<noteq> None" "private_data w fl = Some data" "data_heap w data = Some k"
    using assms(3) Close intact_relies(2) [OF assms(2)] by fastforce
  let ?P = "relies ft (Some (fl, data))"
  have inv: "module_with K ?P w"
    using assms(2,4) Close f(2) by (simp add: module_with_def intact_def relies_def blocks_def)
  from toot_close_cases [OF inv f] show ?thesis
  proof (elim disjE bexE exE conjE)
    fix w' assume w': "module_with K ?P w'" and run: "if data_heap w' data = None
        then toot_close K device fl w = Fault Use_after_free
        else \<exists>r err. toot_close K device fl w =
          Ret (r, w'\<lparr>data_heap := (data_heap w')(data := None), werr := err\<rparr>)"
    have inv': "intact K ?P w'" using w' by (rule module_intact)
    then have "data_heap w' data \<noteq> None" by (auto simp: intact_def relies_def blocks_def files_ok_def)
    then show ?thesis using run Close intact_free_file [OF inv'] by auto
  qed (simp add: Close)
qed

lemma enter_others:
  assumes "delivers rcv messages ack" "intact K (relies ft None) w" "admissible messages c w"
    "others_ok K ft c w s"
  shows "case enter rcv (K\<lparr>k_sleep := s\<rparr>) (f_com ft) c w of
    Ret w' \<Rightarrow> intact K (relies ft None) w' | Fault f \<Rightarrow> f \<in> stops (K\<lparr>k_sleep := s\<rparr>) messages c"
  using enter_keeps [OF assms(1) _ assms(3), of "K\<lparr>k_sleep := s\<rparr>" ft] assms(2,4)
  by (simp only: intact_sleep others_ok_def)

text \<open>A start that returns 0 is one that Linux gave everything to.\<close>

lemma init_started:
  assumes "kernel_ok K" "dev_heap w = Map.empty" "toot_heap w = Map.empty" "element_heap w = Map.empty"
    "cremona_init K w = Ret ((0, Some store, com), w')"
  shows "\<exists>given. started_with K store given w w' \<and> communicator w' = com"
  using cremona_init_run [OF assms(1-4)] assms(5)
  by (auto simp: EFAULT_def split: prod.splits option.splits) blast

lemma reached_intact:
  assumes "kernel_ok K" "delivers rcv messages ack" "reached rcv messages K ft w"
  shows "intact K (relies ft None) w"
  using assms(3)
proof induction
  case (started w store com w' obj sock)
  from init_started [OF assms(1) started(1-3,5)] started(4,6,7) show ?case
    by (auto simp: started_with_def intact_def relies_def blocks_def files_ok_def held_since_def
        split: prod.splits)
next
  case (entered ft w c s w')
  from enter_others [OF assms(2) entered(5,2,3)] entered(4) show ?case by simp
qed


text \<open>A Linux that hands over every message and acknowledges none.\<close>

definition sample_rcv :: "nlmsg list \<Rightarrow> (nlmsg \<Rightarrow> (list_idr, nat, int) step) \<Rightarrow> (list_idr, nat) proc" where
  "sample_rcv skb cb w = each_message cb (\<lambda>r e. e) skb w"

lemma sample_delivers: "delivers sample_rcv id (\<lambda>r e. e)"
  by (simp add: delivers_def sample_rcv_def)

definition sample_footing :: footing where
  "sample_footing = \<lparr>f_store = 0, f_com = 1, f_sock = 7, f_dev = MKDEV 240 0, f_class = 1, f_before = []\<rparr>"

lemma sample_started:
  "\<exists>w. cremona_init sample_kernel empty_world =
     Ret ((0, Some 0, \<lparr>c_interface = Some Netlink_interface, c_obj = Some 1\<rparr>), w) \<and>
   reached sample_rcv id sample_kernel sample_footing w"
proof -
  obtain w where w: "cremona_init sample_kernel empty_world =
      Ret ((0, Some 0, \<lparr>c_interface = Some Netlink_interface, c_obj = Some 1\<rparr>), w)"
      "chrdev w = MKDEV 240 0" "device_class w = 1" "com_heap w 1 = Some 7"
    using cremona_init_run [OF sample_kernel_ok empty_world_heaps(1-3)]
    unfolding empty_world_given prod.case option.case by (auto simp: started_with_def)
  from reached.started [OF empty_world_heaps(1-3,6) w(1), of 1 7 sample_rcv id] w(2-4)
  have "reached sample_rcv id sample_kernel sample_footing w"
    by (simp add: sample_footing_def empty_world_heaps)
  with w(1) show ?thesis by blast
qed


end
