(* ===== verification/Driver_Handshake.thy ===== *)
theory Driver_Handshake
  imports Driver_Sending Driver_Runs
begin

text \<open>
  A request of a program and the daemon's answer to it together: the thread that has sent the request
  sleeps, and in the meantime another thread receives the answer.
\<close>

text \<open>What the receiving thread does to the store: it writes to the one toot, in its place.\<close>

definition with_state :: "nat \<Rightarrow> toot_store_t \<Rightarrow> toot_state \<Rightarrow> ('i, 'e) world \<Rightarrow> ('i, 'e) world" where
  "with_state p t st w = w\<lparr>toot_heap := (toot_heap w)(p \<mapsto> t\<lparr>t_state := st\<rparr>)\<rparr>"

lemma with_state_err: "with_state p t st (w\<lparr>werr := err\<rparr>) = (with_state p t st w)\<lparr>werr := err\<rparr>"
  by (simp add: with_state_def)

lemma set_toot_state_run:
  assumes "store_inv K w" "usable_toot (abs_store K w) k" "find_toot K k w = Some p" "toot_heap w p = Some t"
  shows "set_toot_state K report st k w = Ret (with_state p t st w)"
proof -
  obtain err where "get_toot_when_ready K k (w\<lparr>werr := []\<rparr>) = Ret (Some p, w\<lparr>werr := err\<rparr>)"
    using get_toot_when_ready_reads [of K "w\<lparr>werr := []\<rparr>" k] assms(1-3) by (auto simp: reads_def)
  then show ?thesis
    using assms(4) by (simp add: set_toot_state_def with_local_err_def heap_step_defs with_state_def)
qed

text \<open>The look-ups of an answer's handler, and the change of the state after them.\<close>

lemma owner_run:
  assumes "store_inv K w" "toot_owner (abs_store K w) k = Some (pid, dev)"
    "find_toot K k w = Some p" "toot_heap w p = Some t"
  obtains err1 err2 where
    "get_device_id_from_toot K k w = Ret (Some dev, w\<lparr>werr := err1\<rparr>)"
    "get_device_pid_from_toot K k (w\<lparr>werr := err1\<rparr>) = Ret (Some pid, w\<lparr>werr := err2\<rparr>)"
    "\<And>report st. set_toot_state K report st k (w\<lparr>werr := err2\<rparr>) = Ret ((with_state p t st w)\<lparr>werr := err2\<rparr>)"
proof -
  let ?a = "abs_store K w"
  obtain t' where usable: "usable_toot ?a k" and t': "a_toot ?a k = Some t'" "t_device_id t' = dev"
      "d_pid (the (a_dev ?a (t_device_id t'))) = pid"
    using assms(2) by (auto simp: toot_owner_def split: if_splits)
  obtain err1 where 1: "get_device_id_from_toot K k w = Ret (Some dev, w\<lparr>werr := err1\<rparr>)"
    using get_device_id_from_toot_reads [OF assms(1), of k] usable t' by (auto simp: reads_def)
  obtain err2 where 2: "get_device_pid_from_toot K k (w\<lparr>werr := err1\<rparr>) = Ret (Some pid, w\<lparr>werr := err2\<rparr>)"
    using get_device_pid_from_toot_reads [of K "w\<lparr>werr := err1\<rparr>" k] assms(1) usable t' by (auto simp: reads_def)
  have "set_toot_state K report st k (w\<lparr>werr := err2\<rparr>) = Ret ((with_state p t st w)\<lparr>werr := err2\<rparr>)" for report st
    using set_toot_state_run [of K "w\<lparr>werr := err2\<rparr>" k p t] assms(1,3,4) usable by (simp add: with_state_err)
  with 1 2 show ?thesis by (rule that)
qed

text \<open>The two answers to requests for toots, and the state that a good one gives.\<close>

definition answers :: "nat \<Rightarrow> toot_state \<Rightarrow> bool" where
  "answers ty st \<longleftrightarrow> ty = CRMNA_NEW_TOOT_RESULT \<and> st = OPEND \<or> ty = CRMNA_SEND_TOOT_RESULT \<and> st = DESTROYED"

definition good_answer :: "u32 \<Rightarrow> u32 \<Rightarrow> msgpack" where
  "good_answer k device_id = Msg_array [Msg_int (uint k), Msg_int (uint device_id), Msg_int 0]"

lemma answer_run:
  assumes "module_inv K w" "answers ty st" "carries (good_answer k dev) (DEFINE_CRMNA_BUF_FROM_MEMORY mem len)"
    "toot_owner (abs_store K w) k = Some (pid, dev)" "find_toot K k w = Some p" "toot_heap w p = Some t"
  shows "process_recive_data K com ty pid len mem w =
    (if com_heap w com = None then Fault Use_after_free else Ret (0, with_state p t st w))"
proof -
  let ?w = "w\<lparr>werr := []\<rparr>" and ?buf = "DEFINE_CRMNA_BUF_FROM_MEMORY mem len"
  let ?r = "\<lparr>rp_pid = pid, rp_device_id = dev, rp_toot_id = k, rp_result = 0\<rparr>"
  let ?q = "\<lparr>qp_pid = pid, qp_device_id = dev, qp_toot_id = k, qp_result = 0\<rparr>"
  have inv: "module_inv K ?w" using assms(1) by (simp add: module_err)
  have fields: "msg_u32 0 (good_answer k dev) = Some k" "msg_u32 1 (good_answer k dev) = Some dev"
      "msg_i32 2 (good_answer k dev) = Some 0"
    using uint_less(3) [of k] uint_less(3) [of dev]
    by (simp_all add: good_answer_def msg_u32_def msg_i32_def msg_field_def)
  note made = actions_of_messages [OF inv assms(3), of pid, unfolded fields option.case prod.case]
  have "store_inv K ?w" by (rule module_store [OF inv])
  then obtain err1 err2 where run:
    "get_device_id_from_toot K k ?w = Ret (Some dev, w\<lparr>werr := err1\<rparr>)"
    "get_device_pid_from_toot K k (w\<lparr>werr := err1\<rparr>) = Ret (Some pid, w\<lparr>werr := err2\<rparr>)"
    "\<And>report st. set_toot_state K report st k (w\<lparr>werr := err2\<rparr>) = Ret ((with_state p t st w)\<lparr>werr := err2\<rparr>)"
    using owner_run [of K ?w k pid dev p t] assms(4-6) by (auto simp: with_state_err)
  obtain act where "create_action_from_message (module_ops K) ty pid ?buf ?w = Ret (Some act, ?w)"
      "dispatch (module_ops K) act ?w = Ret (True, (with_state p t st w)\<lparr>werr := err2\<rparr>)"
  proof (cases "ty = CRMNA_NEW_TOOT_RESULT")
    case True
    then have "st = OPEND" using assms(2) by (auto simp: answers_def message_type_defs)
    moreover have "dispatch (module_ops K) (CREATE_TOOT_RESULT ?r) ?w = Ret (True, (with_state p t OPEND w)\<lparr>werr := err2\<rparr>)"
      by (simp add: create_toot_result_def module_ops_def set_toot_ready_def run)
    ultimately show ?thesis using that made True by blast
  next
    case False
    then have "ty = CRMNA_SEND_TOOT_RESULT" "st = DESTROYED" using assms(2) by (auto simp: answers_def)
    moreover have "dispatch (module_ops K) (SEND_TOOT_RESULT ?q) ?w = Ret (True, (with_state p t DESTROYED w)\<lparr>werr := err2\<rparr>)"
      by (simp add: send_toot_result_def module_ops_def set_toot_sent_def run)
    ultimately show ?thesis using that made by blast
  qed
  then show ?thesis
    by (auto simp: process_recive_data_def with_err_def read_at_def with_state_def split: option.split)
qed

text \<open>A sleep in which the answer is received.\<close>

definition answered :: "('i, 'e) kernel \<Rightarrow> nat \<Rightarrow> u32 \<Rightarrow> nat \<Rightarrow> bytes \<Rightarrow> ('i, 'e) world \<Rightarrow> bool" where
  "answered K ty pid len mem w \<longleftrightarrow>
     (\<exists>com r. process_recive_data K com ty pid len mem w = Ret (r, k_sleep K w))"

lemma answered_wait:
  assumes "working K s" "a_toot (abs_store K s) j = Some t" "toot_owner (abs_store K s) j = Some (pid, dev)"
    "t_state t \<notin> A" "answers ty st" "carries (good_answer j dev) (DEFINE_CRMNA_BUF_FROM_MEMORY mem len)"
    "\<And>err. answered K ty pid len mem (s\<lparr>werr := err\<rparr>)"
  shows "\<exists>v. wait_toot K func A st j s = Ret (True, v) \<and> working K v \<and>
    abs_store K v = put_toot j (Some (t\<lparr>t_state := st\<rparr>)) (abs_store K s) \<and> wsent v = wsent s \<and>
    data_heap v = data_heap s"
proof -
  have inv: "store_inv K s" by (rule working_store [OF assms(1)])
  have usable: "usable_toot (abs_store K s) j" using assms(3) by (simp add: toot_owner_def split: if_splits)
  obtain p err where p: "find_toot K j s = Some p"
      "let w1 = s\<lparr>werr := err\<rparr>; w2 = (if t_state t \<in> A then w1 else k_sleep K w1) in
       case toot_heap w2 p of
         None \<Rightarrow> wait_toot K func A st j s = Fault Use_after_free
       | Some t' \<Rightarrow> \<exists>err'. wait_toot K func A st j s = Ret (t_state t' = st, w2\<lparr>werr := err'\<rparr>)"
    using wait_toot_run [OF inv usable assms(2), of A func st] by blast
  define w1 where "w1 = s\<lparr>werr := err\<rparr>"
  have w1: "working K w1" "store_inv K w1" "abs_store K w1 = abs_store K s" "wsent w1 = wsent s"
      "find_toot K j w1 = Some p" "module_inv K w1"
    using assms(1) inv p(1) by (simp_all add: w1_def working_err) (simp add: working_def module_err)
  have heap: "toot_heap w1 p = Some t"
    using assms(2) p(1) by (cases rule: toot_cases [OF inv, where k = j]) (auto simp: w1_def)
  have sleep: "k_sleep K w1 = with_state p t st w1"
  proof -
    obtain com r where r: "process_recive_data K com ty pid len mem w1 = Ret (r, k_sleep K w1)"
      using assms(7) [of err] unfolding w1_def answered_def by blast
    show ?thesis
      using answer_run [OF w1(6) assms(5,6) _ w1(5) heap, of pid com] r assms(3) w1(3)
      by (auto split: if_splits)
  qed
  have "toot_heap (with_state p t st w1) p = Some (t\<lparr>t_state := st\<rparr>)" by (simp add: with_state_def)
  then obtain err' where run: "wait_toot K func A st j s = Ret (True, (with_state p t st w1)\<lparr>werr := err'\<rparr>)"
    using p(2) assms(4) unfolding w1_def [symmetric] Let_def by (auto simp: sleep)
  have "reaches K w1 (put_toot j (Some (t\<lparr>t_state := st\<rparr>)) (abs_store K w1)) (with_state p t st w1)"
    unfolding with_state_def by (rule toot_update_reaches [OF w1(2,5) heap]) simp_all
  from reaches_working [OF this w1(1)] show ?thesis
    using w1(3,4) by (simp add: run working_err) (simp add: with_state_def w1_def)
qed

definition opened_toot :: "u32 \<Rightarrow> u32 \<Rightarrow> u32 \<Rightarrow> toot_store_t" where
  "opened_toot k device_id n = (new_toot k device_id n)\<lparr>t_state := OPEND\<rparr>"

lemma put_toot_twice [simp]: "put_toot j x (put_toot j y a) = put_toot j x a"
  by (simp add: put_toot_def)

text \<open>The rest of opening, when the toot is there.\<close>

lemma await_open_rest:
  assumes "wait_toot_ready_or_failer K j s = Ret (True, v)" "working K v"
    "finished 0 (await_open \<lparr>tp_device_id = dev, tp_set_toot_id = set_toot_id K, tp_set_toot_id_context = file\<rparr>
       (module_ops K) j s) m"
  shows "case k_kmalloc_object K (live v) (kenv v) of
      (Some data, e) \<Rightarrow> \<exists>err. m = Ret (0, v\<lparr>kenv := e, data_heap := (data_heap v)(data \<mapsto> j),
        private_data := (private_data v)(file \<mapsto> data), werr := err\<rparr>)
    | (None, e) \<Rightarrow> \<exists>w'. m = Ret (- EFAULT, w') \<and>
        abs_store K w' = remove_toot_spec j (abs_store K v) \<and> wsent w' = wsent v"
proof -
  obtain r e where block: "k_kmalloc_object K (live v) (kenv v) = (r, e)" by fastforce
  show ?thesis
  proof (cases r)
    case None
    let ?v = "add_error ''set_toot_id: cannot allocate data'' [] (v\<lparr>kenv := e\<rparr>)"
    have "working K ?v" "abs_store K ?v = abs_store K v" "wsent ?v = wsent v"
      using assms(2) by (simp_all add: working_error working_env) (simp_all add: add_error_def)
    then obtain v' where "remove_toot K j ?v = Ret v'" "abs_store K v' = remove_toot_spec j (abs_store K v)"
        "wsent v' = wsent v"
      using proc_gives [OF remove_toot_refines [OF working_store]] by (fastforce simp: gives_proc_def)
    then show ?thesis
      using assms(3)
      by (auto simp: await_open_def module_ops_def assms(1) set_toot_id_def kmalloc_object_def settle_def block None finished_def)
  next
    case (Some data)
    then show ?thesis
      using assms(3)
      by (simp add: await_open_def module_ops_def assms(1) set_toot_id_def kmalloc_object_def settle_def block finished_def)
  qed
qed

text \<open>
  C9. Opening a device, with the daemon's part in it: when the program sleeps after its request, and what
  happens in the meantime is that the daemon's answer to it is received, the program wakes up to an open toot.
  The file gets a block with the id of the toot and opening returns 0, unless Linux has no memory for the
  block; then the toot is removed again. The request is the only message.
\<close>

theorem opening_completes:
  assumes "working K w" "dev_heap w device = Some d" "uint (d_device_id d) \<le> 65535"
    "made (add_toot K (d_device_id d) (w\<lparr>werr := []\<rparr>)) = Some j"
    "carries (good_answer j (d_device_id d)) (DEFINE_CRMNA_BUF_FROM_MEMORY mem len)"
    "\<forall>v n. working K v \<longrightarrow>
       abs_store K v = put_toot j (Some (new_toot j (d_device_id d) n)) (abs_store K w) \<longrightarrow>
       wsent v = wsent w @ [(d_pid d, CRMNA_NEW_TOOT, msgpack_encode (toot_value j (d_device_id d)))] \<longrightarrow>
       answered K CRMNA_NEW_TOOT_RESULT (d_pid d) len mem v"
  shows "\<exists>n v. working K v \<and>
    abs_store K v = put_toot j (Some (opened_toot j (d_device_id d) n)) (abs_store K w) \<and>
    wsent v = wsent w @ [(d_pid d, CRMNA_NEW_TOOT, msgpack_encode (toot_value j (d_device_id d)))] \<and>
    (case k_kmalloc_object K (live v) (kenv v) of
       (Some data, e) \<Rightarrow> \<exists>err. toot_open K device file w = Ret (0, v\<lparr>kenv := e,
         data_heap := (data_heap v)(data \<mapsto> j), private_data := (private_data v)(file \<mapsto> data), werr := err\<rparr>)
     | (None, e) \<Rightarrow> \<exists>w'. toot_open K device file w = Ret (- EFAULT, w') \<and>
         abs_store K w' = remove_toot_spec j (abs_store K v) \<and> wsent w' = wsent v)"
proof -
  let ?dev = "d_device_id d"
  let ?sent = "wsent w @ [(d_pid d, CRMNA_NEW_TOOT, msgpack_encode (toot_value j ?dev))]"
  obtain n s where ready: "d_is_ready d" and s: "working K s"
      "abs_store K s = put_toot j (Some (new_toot j ?dev n)) (abs_store K w)" "wsent s = ?sent"
    and run: "finished 0 (await_open \<lparr>tp_device_id = ?dev, tp_set_toot_id = set_toot_id K,
        tp_set_toot_id_context = file\<rparr> (module_ops K) j s) (toot_open K device file w)"
    using toot_open_sends [OF assms(1-3), of "file"] assms(4) by auto
  have here: "a_dev (abs_store K w) ?dev = Some d"
    by (rule device_in_store [OF working_store [OF assms(1)] assms(2)])
  have t: "a_toot (abs_store K s) j = Some (new_toot j ?dev n)"
      "toot_owner (abs_store K s) j = Some (d_pid d, ?dev)"
      "t_state (new_toot j ?dev n) \<notin> {OPEND, DESTROYED, TOOT_ERROR}"
    using here ready by (simp_all add: s(2) put_toot_def usable_toot_def new_toot_def ready_dev_def toot_owner_def)
  have now: "answered K CRMNA_NEW_TOOT_RESULT (d_pid d) len mem (s\<lparr>werr := err\<rparr>)" for err
    using assms(6) [rule_format, of "s\<lparr>werr := err\<rparr>" n] s(1-3) by (simp add: working_err)
  have "answers CRMNA_NEW_TOOT_RESULT OPEND" by (simp add: answers_def)
  from answered_wait [OF s(1) t this assms(5) now] obtain v where
    v: "wait_toot_ready_or_failer K j s = Ret (True, v)" "working K v"
      "abs_store K v = put_toot j (Some (opened_toot j ?dev n)) (abs_store K w)" "wsent v = ?sent"
    using s(2,3) by (auto simp: wait_toot_ready_or_failer_def opened_toot_def)
  show ?thesis
    using v(2-4) await_open_rest [OF v(1,2) run] by (intro exI [of _ n] exI [of _ v]) simp
qed

text \<open>
  C10. Closing a file, with the daemon's part in it: the program sleeps after its request to send the toot,
  the answer is received in the meantime, and the program wakes up to a toot that is sent. The toot is removed
  with its elements, the one block behind the file is freed, the other blocks stay, and closing returns 0. The
  request is the only message. This rests on the uninitialised word that lies in the frame of the close being
  the id of a toot in use, whose device has an id of at most 16 bits; otherwise the request is not sent.
\<close>

theorem closing_completes:
  assumes "working K w" "dev_heap w device = Some d" "private_data w file = Some data" "data_heap w data = Some k"
    "toot_owner (abs_store K w) k = Some (pid, dev)"
    "toot_owner (abs_store K w) (k_word K (kenv w)) = Some (pid', dev')" "uint dev' \<le> 65535"
    "carries (good_answer k dev) (DEFINE_CRMNA_BUF_FROM_MEMORY mem len)"
    "\<forall>v. working K v \<longrightarrow> abs_store K v = abs_store K w \<longrightarrow>
       wsent v = wsent w @ [(pid, CRMNA_SEND_TOOT, msgpack_encode (toot_value k dev'))] \<longrightarrow>
       answered K CRMNA_SEND_TOOT_RESULT pid len mem v"
  shows "\<exists>v err. working K v \<and> abs_store K v = remove_toot_spec k (abs_store K w) \<and>
    wsent v = wsent w @ [(pid, CRMNA_SEND_TOOT, msgpack_encode (toot_value k dev'))] \<and>
    data_heap v = data_heap w \<and>
    toot_close K device file w = Ret (0, v\<lparr>data_heap := (data_heap w)(data := None), werr := err\<rparr>)"
proof -
  let ?sent = "wsent w @ [(pid, CRMNA_SEND_TOOT, msgpack_encode (toot_value k dev'))]"
  have err: "working K (w\<lparr>werr := []\<rparr>)" "abs_store K (w\<lparr>werr := []\<rparr>) = abs_store K w"
    using assms(1) by (simp_all add: working_err)
  obtain x e where run: "send_toot \<lparr>sp_toot_id = k, sp_word_8 = k_word K (kenv w)\<rparr> (module_ops K) (w\<lparr>werr := []\<rparr>) =
      await_sent (module_ops K) k (w\<lparr>werr := x, kenv := e, wsent := ?sent\<rparr>)"
    using send_toot_run [OF err(1), unfolded err(2), OF assms(5-7)] by auto
  define s where "s = w\<lparr>werr := x, kenv := e, wsent := ?sent\<rparr>"
  have s: "working K s" "abs_store K s = abs_store K w" "wsent s = ?sent" "data_heap s = data_heap w"
    using assms(1) by (simp_all add: s_def working_sent working_err working_env) (simp add: abs_store_def)
  have close: "closed data (await_sent (module_ops K) k s) (toot_close K device file w)"
    using toot_close_run [OF assms(3,4), of device K] assms(2) run by (simp add: s_def)
  obtain t where t: "a_toot (abs_store K s) k = Some t" "t_state t \<notin> {DESTROYED, TOOT_ERROR}"
    using assms(5) s(2) by (auto simp: toot_owner_def usable_toot_def split: if_splits option.splits)
  have owner: "toot_owner (abs_store K s) k = Some (pid, dev)" using assms(5) s(2) by simp
  have now: "answered K CRMNA_SEND_TOOT_RESULT pid len mem (s\<lparr>werr := err\<rparr>)" for err
    using assms(9) [rule_format, of "s\<lparr>werr := err\<rparr>"] s(1-3) by (simp add: working_err)
  have "answers CRMNA_SEND_TOOT_RESULT DESTROYED" by (simp add: answers_def)
  from answered_wait [OF s(1) t(1) owner t(2) this assms(8) now] obtain v where
    v: "wait_toot_sent_or_failer K k s = Ret (True, v)" "working K v"
      "abs_store K v = put_toot k (Some (t\<lparr>t_state := DESTROYED\<rparr>)) (abs_store K w)" "wsent v = ?sent"
      "data_heap v = data_heap w"
    using s(2-4) by (auto simp: wait_toot_sent_or_failer_def)
  obtain v' where v': "remove_toot K k v = Ret v'" "reaches K v (remove_toot_spec k (abs_store K v)) v'"
    using remove_toot_refines [OF working_store [OF v(2)], of k] by (auto simp: proc_refines_def)
  then have w': "working K v'" "abs_store K v' = remove_toot_spec k (abs_store K v)" "wsent v' = wsent v"
      "data_heap v' = data_heap v"
    using reaches_working [OF v'(2) v(2)] by (simp_all add: reaches_def outside_def)
  have "remove_toot_spec k (abs_store K v) = remove_toot_spec k (abs_store K w)"
    by (simp add: v(3) remove_toot_spec_def)
  moreover have "await_sent (module_ops K) k s = Ret (True, v')"
    by (simp add: await_sent_def module_ops_def v(1) v'(1))
  then obtain err where "toot_close K device file w =
      Ret (0, v'\<lparr>data_heap := (data_heap w)(data := None), werr := err\<rparr>)"
    using close assms(4) w'(4) v(5) by (auto simp: closed_def)
  ultimately show ?thesis using w' v(4,5) by (intro exI [of _ v'] exI [of _ err]) simp
qed

text \<open>A daemon that answers at once.\<close>

definition answer_now :: "nat \<Rightarrow> bytes \<Rightarrow> (list_idr, nat) world \<Rightarrow> (list_idr, nat) world" where
  "answer_now ty mem w =
     (if c_interface (communicator w) = None then w else case c_obj (communicator w) of None \<Rightarrow> w | Some com \<Rightarrow>
        (case process_recive_data sample_kernel com ty 100 4 mem w of Ret (r, w') \<Rightarrow> w' | Fault f \<Rightarrow> w))"

definition answering_kernel :: "nat \<Rightarrow> bytes \<Rightarrow> (list_idr, nat) kernel" where
  "answering_kernel ty mem = sample_kernel\<lparr>k_sleep := answer_now ty mem\<rparr>"

lemma answering_simps:
  "abs_store (answering_kernel ty mem) w = abs_store sample_kernel w"
  "intact (answering_kernel ty mem) P w = intact sample_kernel P w" "k_sleep (answering_kernel ty mem) = answer_now ty mem"
  "store_inv (answering_kernel ty mem) w = store_inv sample_kernel w"
  "find_toot (answering_kernel ty mem) k w = find_toot sample_kernel k w"
  by (simp_all add: answering_kernel_def intact_sleep abs_store_def find_toot_def)
    (simp_all add: store_inv_def heaps_ok_def no_spare_def abs_store_def kernel_ok_cong)

lemma answering_inv:
  "length mem = 4 \<Longrightarrow> module_inv (answering_kernel ty mem) w = module_inv sample_kernel w"
proof -
  assume len: "length mem = 4"
  have "intact sample_kernel (\<lambda>_. True) (answer_now ty mem w)" if w: "intact sample_kernel (\<lambda>_. True) w" for w
  proof (cases "c_interface (communicator w) = None \<or> c_obj (communicator w) = None")
    case True
    then show ?thesis using w by (auto simp: answer_now_def)
  next
    case False
    then obtain com where com: "c_interface (communicator w) \<noteq> None" "c_obj (communicator w) = Some com" by blast
    have inv: "module_inv sample_kernel w" using w by (simp add: module_with_def sample_sleep)
    then have "com_heap w com \<noteq> None" using com by (simp add: module_with_alt com_live_def)
    from process_recive_data_keeps [OF inv this, of 4 mem ty 100]
    show ?thesis
      using w com len by (auto simp: answer_now_def keeps_def module_with_def SIZE_MAX_def split: outcome.split)
  qed
  then show ?thesis
    by (simp add: module_with_def sleep_ok_def answering_simps sample_sleep) (simp add: sample_kernel_def)
qed

lemma answering_working:
  "length mem = 4 \<Longrightarrow> working (answering_kernel ty mem) w = working sample_kernel w"
  by (simp add: working_def answering_inv) (simp add: link_up_def answering_kernel_def)

lemma sample_new_toot:
  "made (add_toot (answering_kernel ty mem) 1 (sample_world\<lparr>werr := []\<rparr>)) = Some 0"
proof -
  let ?w = "sample_world\<lparr>werr := []\<rparr>"
  have "store_inv (answering_kernel ty mem) ?w" by (simp add: answering_simps)
  moreover have "ready_dev (abs_store (answering_kernel ty mem) ?w) 1"
    by (simp add: answering_simps ready_dev_def) (simp add: sample_defs)
  ultimately obtain err where ready: "check_device_ready (answering_kernel ty mem) 1 ?w = Ret (True, ?w\<lparr>werr := err\<rparr>)"
    using check_device_ready_reads [of "answering_kernel ty mem" ?w 1] by (auto simp: reads_def)
  have alloc: "k_idr_alloc (answering_kernel ty mem) [(5, Some 2)] 0 INT_MAX 0 = ((0, 0, [(0, None), (5, Some 2)]), 0)"
    by (simp add: answering_kernel_def sample_kernel_def li_alloc_def li_has_def INT_MAX_def)
  have object: "k_kmalloc_object (answering_kernel ty mem) used 0 = (find (\<lambda>a. \<not> used a) [0..<32], 0)" for used
    by (simp add: answering_kernel_def sample_kernel_def)
  let ?live = "live (?w\<lparr>werr := err, toots := [(0, None), (5, Some 2)]\<rparr>)"
  have "\<not> ?live 20" by (simp add: live_def sample_defs)
  from sample_allocates [of ?live, OF this] obtain p where p: "find (\<lambda>a. \<not> ?live a) [0..<32] = Some p" by blast
  show ?thesis
    unfolding add_toot_def ready
    using p by (simp add: sample_defs alloc object kmalloc_object_def settle_def)
qed

lemma answer_sample:
  "carries (good_answer 0 1) (DEFINE_CRMNA_BUF_FROM_MEMORY [0x93, 0, 1, 0] 4)"
  "carries (good_answer 5 1) (DEFINE_CRMNA_BUF_FROM_MEMORY [0x93, 5, 1, 0] 4)"
  by (simp_all add: carries_def DEFINE_CRMNA_BUF_FROM_MEMORY_def msgpack_array_header_def good_answer_def
      msgpack_int_def be_bytes_def fix_tag_def SIZE_MAX_def)

lemma answering:
  assumes "working sample_kernel v" "toot_owner (abs_store sample_kernel v) k = Some (100, 1)" "answers ty st"
    "carries (good_answer k 1) (DEFINE_CRMNA_BUF_FROM_MEMORY mem 4)" "length mem = 4"
  shows "answered (answering_kernel ty mem) ty 100 4 mem v"
proof -
  have inv: "module_inv sample_kernel v" "module_inv (answering_kernel ty mem) v"
    using assms(1,5) by (simp_all add: working_def answering_inv)
  obtain com where com: "c_interface (communicator v) \<noteq> None" "c_obj (communicator v) = Some com"
    using assms(1) by (auto simp: working_def link_up_def)
  then have live: "com_heap v com \<noteq> None" using inv(1) by (simp add: module_with_alt com_live_def)
  obtain p t where p: "find_toot sample_kernel k v = Some p" "toot_heap v p = Some t"
    using assms(2) by (cases rule: toot_cases [OF working_store [OF assms(1)], where k = k])
      (auto simp: toot_owner_def split: if_splits)
  note run = answer_run [OF _ assms(3,4), where com = com and w = v and pid = 100]
  let ?v = "with_state p t st v"
  have sample: "process_recive_data sample_kernel com ty 100 4 mem v = Ret (0, ?v)"
    using run [OF inv(1) assms(2) p] live by simp
  have "process_recive_data (answering_kernel ty mem) com ty 100 4 mem v = Ret (0, ?v)"
    using run [OF inv(2) _ _ p(2)] assms(2) p(1) live by (simp add: answering_simps)
  moreover have "answer_now ty mem v = ?v" using com by (auto simp: answer_now_def sample)
  ultimately show ?thesis by (auto simp: answered_def answering_simps)
qed

theorem opening_completes_witness:
  "let K = answering_kernel CRMNA_NEW_TOOT_RESULT [0x93, 0, 1, 0] in \<exists>n v. working sample_kernel v \<and>
    a_toot (abs_store sample_kernel v) 0 = Some (opened_toot 0 1 n) \<and>
    wsent v = [(100, CRMNA_NEW_TOOT, msgpack_encode (toot_value 0 1))] \<and>
    (case k_kmalloc_object K (live v) (kenv v) of
       (Some data, e) \<Rightarrow> \<exists>w'. toot_open K 0 6 sample_world = Ret (0, w') \<and> private_data w' 6 = Some data
     | (None, e) \<Rightarrow> \<exists>w'. toot_open K 0 6 sample_world = Ret (- EFAULT, w'))"
proof -
  let ?mem = "[0x93, 0, 1, 0]" and ?K = "answering_kernel CRMNA_NEW_TOOT_RESULT [0x93, 0, 1, 0]"
  have d: "dev_heap sample_world 0 = Some sample_dev" "d_device_id sample_dev = 1" "d_pid sample_dev = 100"
      "wsent sample_world = []"
    by (simp_all add: sample_defs)
  have now: "\<forall>v n. working ?K v \<longrightarrow> abs_store ?K v = put_toot 0 (Some (new_toot 0 1 n)) (abs_store ?K sample_world) \<longrightarrow>
      wsent v = wsent sample_world @ [(100, CRMNA_NEW_TOOT, msgpack_encode (toot_value 0 1))] \<longrightarrow>
      answered ?K CRMNA_NEW_TOOT_RESULT 100 4 ?mem v"
  proof (intro allI impI)
    fix v n
    assume v: "working ?K v" and a: "abs_store ?K v = put_toot 0 (Some (new_toot 0 1 n)) (abs_store ?K sample_world)"
    have "toot_owner (abs_store sample_kernel v) 0 = Some (100, 1)"
      using a by (simp add: answering_simps toot_owner_def usable_toot_def ready_dev_def put_toot_def new_toot_def)
        (simp add: sample_defs)
    then show "answered ?K CRMNA_NEW_TOOT_RESULT 100 4 ?mem v"
      using answering [OF _ _ _ answer_sample(1), of v CRMNA_NEW_TOOT_RESULT OPEND] v
      by (simp add: answering_working answers_def)
  qed
  have "working ?K sample_world" using sample_working(2) by (simp add: answering_working)
  from opening_completes [OF this d(1), unfolded d(2,3), OF _ sample_new_toot answer_sample(1) now, of 6]
  obtain n v where v: "working ?K v"
      "abs_store ?K v = put_toot 0 (Some (opened_toot 0 1 n)) (abs_store ?K sample_world)"
      "wsent v = wsent sample_world @ [(100, CRMNA_NEW_TOOT, msgpack_encode (toot_value 0 1))]"
      "case k_kmalloc_object ?K (live v) (kenv v) of
        (Some data, e) \<Rightarrow> \<exists>err. toot_open ?K 0 6 sample_world = Ret (0, v\<lparr>kenv := e,
          data_heap := (data_heap v)(data \<mapsto> 0), private_data := (private_data v)(6 \<mapsto> data), werr := err\<rparr>)
      | (None, e) \<Rightarrow> \<exists>w'. toot_open ?K 0 6 sample_world = Ret (- EFAULT, w') \<and>
          abs_store ?K w' = remove_toot_spec 0 (abs_store ?K v) \<and> wsent w' = wsent v"
    by auto
  have "case k_kmalloc_object ?K (live v) (kenv v) of
       (Some data, e) \<Rightarrow> \<exists>w'. toot_open ?K 0 6 sample_world = Ret (0, w') \<and> private_data w' 6 = Some data
     | (None, e) \<Rightarrow> \<exists>w'. toot_open ?K 0 6 sample_world = Ret (- EFAULT, w')"
    using v(4) by (auto split: prod.splits option.splits)
  with v(1-3) show ?thesis
    unfolding Let_def by (intro exI [of _ n] exI [of _ v]) (simp add: answering_working answering_simps put_toot_def d)
qed

theorem closing_completes_witness:
  "let K = answering_kernel CRMNA_SEND_TOOT_RESULT [0x93, 5, 1, 0] in \<exists>v. working sample_kernel v \<and>
    a_toot (abs_store sample_kernel v) 5 = None \<and>
    wsent v = [(100, CRMNA_SEND_TOOT, msgpack_encode (toot_value 5 1))] \<and>
    (\<exists>w'. toot_close K 0 4 (opened_world\<lparr>kenv := 5\<rparr>) = Ret (0, w') \<and> data_heap w' = Map.empty)"
proof -
  let ?mem = "[0x93, 5, 1, 0]" and ?K = "answering_kernel CRMNA_SEND_TOOT_RESULT [0x93, 5, 1, 0]"
  let ?w = "opened_world\<lparr>kenv := 5\<rparr>"
  have w: "abs_store sample_kernel ?w = abs_store sample_kernel sample_world" "wsent ?w = []"
    by (simp_all only: env_abs opened_defs) (simp add: opened_world_def sample_defs)
  have owner: "toot_owner (abs_store sample_kernel ?w) 5 = Some (100, 1)"
    unfolding w(1) by (simp add: toot_owner_def usable_toot_def ready_dev_def) (simp add: sample_defs)
  have heaps: "private_data ?w 4 = Some 8" "data_heap ?w 8 = Some 5" "dev_heap ?w 0 = Some sample_dev"
    "(data_heap ?w)(8 := None) = Map.empty"
    by (simp_all add: opened_defs) (simp add: opened_world_def)
  have id: "k_word ?K (kenv ?w) = 5" by (simp add: answering_kernel_def sample_kernel_def)
  have working: "working ?K ?w" by (simp add: answering_working working_env opened_working)
  have owners: "toot_owner (abs_store ?K ?w) 5 = Some (100, 1)"
      "toot_owner (abs_store ?K ?w) (k_word ?K (kenv ?w)) = Some (100, 1)"
    unfolding id answering_simps(1) by (rule owner)+
  have "\<forall>v. working ?K v \<longrightarrow> abs_store ?K v = abs_store ?K ?w \<longrightarrow>
      wsent v = wsent ?w @ [(100, CRMNA_SEND_TOOT, msgpack_encode (toot_value 5 1))] \<longrightarrow>
      answered ?K CRMNA_SEND_TOOT_RESULT 100 4 ?mem v"
    using answering [OF _ _ _ answer_sample(2), of _ CRMNA_SEND_TOOT_RESULT DESTROYED] owner
    by (simp add: answering_working answering_simps answers_def)
  from closing_completes [OF working heaps(3,1,2) owners _ answer_sample(2) this] show ?thesis
    unfolding Let_def answering_simps(1) w heaps(4) by (auto simp: answering_working remove_toot_spec_def put_toot_def)
qed

end
