(* ===== verification/Mpack_Reader.thy ===== *)
theory Mpack_Reader
  imports Mpack_Writer
begin

text \<open>
  The MPack reader (\<open>mpack.c\<close>, \<open>mpack.h\<close>) in the kernel configuration (no allocator, no
  \<open>stdio\<close>, no tracking). A reader walks over the bytes between \<open>data\<close> and \<open>end\<close>, which lie in
  one object: the caller's data, or the buffer that a fill callback refills. The callbacks are
  parameters: they work on the reader's context, and what a fill callback does to the reader is the
  bytes it stores, the count it returns and the error it flags.
\<close>

subsection \<open>State\<close>

text \<open>
  The answer of the fill callback: the bytes it stored, whose number it returns, or \<open>None\<close> when it
  returns \<open>(size_t)-1\<close>; the error it flagged, if any; the context afterwards.
\<close>

type_synonym 's mpack_reader_fill = "'s \<Rightarrow> nat \<Rightarrow> bytes option \<times> mpack_error_t \<times> 's"
type_synonym 's mpack_reader_skip = "'s \<Rightarrow> nat \<Rightarrow> mpack_error_t \<times> 's"

record 's mpack_reader =
  rcontext :: 's
  rfill :: "'s mpack_reader_fill option"
  rerror_fn :: "('s \<Rightarrow> mpack_error_t \<Rightarrow> 's) option"
  rteardown :: "('s \<Rightarrow> 's) option"
  rskip :: "'s mpack_reader_skip option"
  robj :: bytes               \<comment> \<open>the object that \<open>buffer\<close>, \<open>data\<close> and \<open>end\<close> point into\<close>
  rhas_buffer :: bool         \<comment> \<open>\<open>buffer\<close> is not NULL; it is the start of the object\<close>
  rsize :: nat
  rdata :: nat                \<comment> \<open>the offset of \<open>data\<close>\<close>
  rend :: nat                 \<comment> \<open>the offset of \<open>end\<close>\<close>
  rerror :: mpack_error_t

definition MPACK_READER_MINIMUM_BUFFER_SIZE :: nat where
  "MPACK_READER_MINIMUM_BUFFER_SIZE = 32"

definition MPACK_READER_SMALL_FRACTION_DENOMINATOR :: nat where
  "MPACK_READER_SMALL_FRACTION_DENOMINATOR = 32"

text \<open>\<open>null\<close> is the context a zeroed reader has.\<close>

definition zeroed_reader :: "'s \<Rightarrow> 's mpack_reader" where
  "zeroed_reader null =
     \<lparr>rcontext = null, rfill = None, rerror_fn = None, rteardown = None, rskip = None, robj = [],
      rhas_buffer = False, rsize = 0, rdata = 0, rend = 0, rerror = mpack_ok\<rparr>"

definition mpack_reader_init :: "'s \<Rightarrow> bytes option \<Rightarrow> nat \<Rightarrow> nat \<Rightarrow> 's mpack_reader outcome" where
  "mpack_reader_init null buffer size' count =
     (case buffer of
        None \<Rightarrow> Fault Assert_failed
      | Some m \<Rightarrow> Ret (zeroed_reader null
          \<lparr>robj := m, rhas_buffer := True, rsize := size', rdata := 0, rend := count\<rparr>))"

definition mpack_reader_init_error :: "'s \<Rightarrow> mpack_error_t \<Rightarrow> 's mpack_reader" where
  "mpack_reader_init_error null error = zeroed_reader null\<lparr>rerror := error\<rparr>"

definition mpack_reader_init_data :: "'s \<Rightarrow> bytes option \<Rightarrow> nat \<Rightarrow> 's mpack_reader outcome" where
  "mpack_reader_init_data null data count =
     (case data of
        None \<Rightarrow> Fault Assert_failed
      | Some m \<Rightarrow> Ret (zeroed_reader null\<lparr>robj := m, rdata := 0, rend := count\<rparr>))"

definition mpack_reader_flag_error :: "mpack_error_t \<Rightarrow> 's mpack_reader \<Rightarrow> 's mpack_reader" where
  "mpack_reader_flag_error error r =
     (if rerror r = mpack_ok then
        let r = r\<lparr>rerror := error, rend := rdata r\<rparr>
        in case rerror_fn r of
             None \<Rightarrow> r
           | Some error_fn \<Rightarrow> r\<lparr>rcontext := error_fn (rcontext r) error\<rparr>
      else r)"

definition mpack_reader_flag_if_error ::
    "mpack_error_t \<Rightarrow> 's mpack_reader \<Rightarrow> mpack_error_t \<times> 's mpack_reader" where
  "mpack_reader_flag_if_error error r =
     (let r = (if error \<noteq> mpack_ok then mpack_reader_flag_error error r else r) in (rerror r, r))"

definition mpack_reader_set_context :: "'s \<Rightarrow> 's mpack_reader \<Rightarrow> 's mpack_reader" where
  "mpack_reader_set_context ctx r = r\<lparr>rcontext := ctx\<rparr>"

definition mpack_reader_set_error_handler ::
    "('s \<Rightarrow> mpack_error_t \<Rightarrow> 's) option \<Rightarrow> 's mpack_reader \<Rightarrow> 's mpack_reader" where
  "mpack_reader_set_error_handler error_fn r = r\<lparr>rerror_fn := error_fn\<rparr>"

definition mpack_reader_set_teardown :: "('s \<Rightarrow> 's) option \<Rightarrow> 's mpack_reader \<Rightarrow> 's mpack_reader" where
  "mpack_reader_set_teardown teardown r = r\<lparr>rteardown := teardown\<rparr>"

definition mpack_reader_set_fill ::
    "'s mpack_reader_fill option \<Rightarrow> 's mpack_reader \<Rightarrow> 's mpack_reader" where
  "mpack_reader_set_fill fill r =
     (if rsize r = 0 then mpack_reader_flag_error mpack_error_bug r
      else if rsize r < MPACK_READER_MINIMUM_BUFFER_SIZE then mpack_reader_flag_error mpack_error_bug r
      else r\<lparr>rfill := fill\<rparr>)"

definition mpack_reader_set_skip ::
    "'s mpack_reader_skip option \<Rightarrow> 's mpack_reader \<Rightarrow> 's mpack_reader outcome" where
  "mpack_reader_set_skip skip r = mpack_assert (rsize r \<noteq> 0) (Ret (r\<lparr>rskip := skip\<rparr>))"

definition mpack_reader_destroy :: "'s mpack_reader \<Rightarrow> mpack_error_t \<times> 's mpack_reader" where
  "mpack_reader_destroy r =
     (let r = (case rteardown r of None \<Rightarrow> r | Some teardown \<Rightarrow> r\<lparr>rcontext := teardown (rcontext r)\<rparr>);
          r = r\<lparr>rteardown := None\<rparr>
      in (rerror r, r))"

text \<open>\<open>end - data\<close>, the bytes that are left in the buffer.\<close>

definition bytes_left :: "'s mpack_reader \<Rightarrow> nat" where
  "bytes_left r = size_sub (rend r) (rdata r)"

text \<open>The second component is what \<open>*data\<close> is set to, when it is set.\<close>

definition mpack_reader_remaining :: "'s mpack_reader \<Rightarrow> nat \<times> nat option" where
  "mpack_reader_remaining r =
     (if rerror r \<noteq> mpack_ok then (0, None) else (bytes_left r, Some (rdata r)))"

definition mpack_should_read_bytes_inplace :: "'s mpack_reader \<Rightarrow> nat \<Rightarrow> bool" where
  "mpack_should_read_bytes_inplace r count \<longleftrightarrow>
     rsize r = 0 \<or> count \<le> rsize r div MPACK_READER_SMALL_FRACTION_DENOMINATOR"

subsection \<open>Filling\<close>

text \<open>
  The loop of \<open>mpack_fill_range\<close>: \<open>mem\<close> is the object behind \<open>p\<close> and \<open>p\<close> an offset in it. The
  result is the count, the object and the reader.
\<close>

function fill_loop ::
    "nat \<Rightarrow> nat \<Rightarrow> nat \<Rightarrow> nat \<Rightarrow> bytes \<Rightarrow> 's mpack_reader \<Rightarrow> (nat \<times> bytes \<times> 's mpack_reader) outcome" where
  "fill_loop p min_bytes max_bytes count mem r =
     (if count < min_bytes then
        case rfill r of
          None \<Rightarrow> Fault Null_deref
        | Some fill \<Rightarrow>
            (case fill (rcontext r) (max_bytes - count) of (stored, error, ctx) \<Rightarrow>
             and_then (store_at mem (p + count) (case stored of None \<Rightarrow> [] | Some bs \<Rightarrow> bs)) (\<lambda>mem.
               let r = snd (mpack_reader_flag_if_error error (r\<lparr>rcontext := ctx\<rparr>)) in
               if rerror r \<noteq> mpack_ok then Ret (0, mem, r)
               else case stored of
                   Some (b # bs) \<Rightarrow> fill_loop p min_bytes max_bytes (count + length (b # bs)) mem r
                 | _ \<Rightarrow> Ret (0, mem, mpack_reader_flag_error mpack_error_io r)))
      else Ret (count, mem, r))"
  by pat_completeness auto
termination
  by (relation "measure (\<lambda>(p, min_bytes, max_bytes, count, mem, r). min_bytes - count)") auto

declare fill_loop.simps [simp del]

definition mpack_fill_range ::
    "bytes \<Rightarrow> nat \<Rightarrow> nat \<Rightarrow> nat \<Rightarrow> 's mpack_reader \<Rightarrow> (nat \<times> bytes \<times> 's mpack_reader) outcome" where
  "mpack_fill_range mem p min_bytes max_bytes r =
     mpack_assert (rfill r \<noteq> None) (mpack_assert (min_bytes > 0) (mpack_assert (max_bytes \<ge> min_bytes)
       (fill_loop p min_bytes max_bytes 0 mem r)))"

text \<open>\<open>mpack_fill_range\<close> into the reader's own buffer, at an offset of it.\<close>

definition fill_buffer :: "nat \<Rightarrow> nat \<Rightarrow> nat \<Rightarrow> 's mpack_reader \<Rightarrow> (nat \<times> 's mpack_reader) outcome" where
  "fill_buffer p min_bytes max_bytes r =
     (if rhas_buffer r then
        and_then (mpack_fill_range (robj r) p min_bytes max_bytes r) (\<lambda>(count, mem, r).
          Ret (count, r\<lparr>robj := mem\<rparr>))
      else Fault Null_deref)"

definition mpack_reader_ensure_straddle ::
    "nat \<Rightarrow> 's mpack_reader \<Rightarrow> (bool \<times> 's mpack_reader) outcome" where
  "mpack_reader_ensure_straddle count r =
     mpack_assert (count \<noteq> 0) (mpack_assert (rerror r = mpack_ok) (mpack_assert (count > bytes_left r)
       (if rfill r = None then Ret (False, mpack_reader_flag_error mpack_error_invalid r)
        else if count > rsize r then Ret (False, mpack_reader_flag_error mpack_error_too_big r)
        else if \<not> rhas_buffer r then Fault Null_deref
        else
          let left = bytes_left r in
          and_then (mpack_memmove (robj r) 0 (rdata r) left) (\<lambda>mem.
            let r = r\<lparr>robj := mem, rend := rend r - rdata r, rdata := 0\<rparr> in
            and_then (fill_buffer left (count - left) (rsize r - left) r) (\<lambda>(got, r).
              if rerror r \<noteq> mpack_ok then Ret (False, r)
              else Ret (True, r\<lparr>rend := rend r + got\<rparr>))))))"

definition mpack_reader_ensure :: "nat \<Rightarrow> 's mpack_reader \<Rightarrow> (bool \<times> 's mpack_reader) outcome" where
  "mpack_reader_ensure count r =
     mpack_assert (count \<noteq> 0) (mpack_assert (rerror r = mpack_ok)
       (if count \<le> bytes_left r then Ret (True, r) else mpack_reader_ensure_straddle count r))"

subsection \<open>Reading raw bytes\<close>

text \<open>
  The destination of a read is an object \<open>p\<close> of the caller, written from its start; the result holds
  the object afterwards. \<open>mpack_memset(p, 0, count)\<close> and \<open>mpack_memcpy(p, data, n)\<close> store into it.
\<close>

definition zero_bytes :: "bytes \<Rightarrow> nat \<Rightarrow> bytes outcome" where
  "zero_bytes p count = store_at p 0 (replicate count 0)"

definition copy_out :: "bytes \<Rightarrow> nat \<Rightarrow> nat \<Rightarrow> nat \<Rightarrow> 's mpack_reader \<Rightarrow> bytes outcome" where
  "copy_out p off src n r = and_then (load_at n id (robj r) src) (store_at p off)"

type_synonym 's read_bytes = "'s mpack_reader \<Rightarrow> (bytes \<times> 's mpack_reader) outcome"

definition mpack_read_native_straddle :: "bytes \<Rightarrow> nat \<Rightarrow> 's read_bytes" where
  "mpack_read_native_straddle p count r =
     (if rerror r \<noteq> mpack_ok then and_then (zero_bytes p count) (\<lambda>p. Ret (p, r))
      else
        let left = bytes_left r in
        if count \<le> left then Fault Assert_failed
        else if rfill r = None then
          and_then (zero_bytes p count) (\<lambda>p. Ret (p, mpack_reader_flag_error mpack_error_invalid r))
        else if rsize r = 0 then
          and_then (zero_bytes p count) (\<lambda>p. Ret (p, mpack_reader_flag_error mpack_error_io r))
        else
          and_then (if left > 0 then copy_out p 0 (rdata r) left r else Ret p) (\<lambda>p.
            let count = count - left; r = r\<lparr>rdata := rdata r + left\<rparr> in
            if count \<le> rsize r div MPACK_READER_SMALL_FRACTION_DENOMINATOR then
              and_then (fill_buffer 0 count (rsize r) r) (\<lambda>(got, r).
                if rerror r \<noteq> mpack_ok then Ret (p, r)
                else and_then (copy_out p left 0 count r) (\<lambda>p.
                  Ret (p, r\<lparr>rdata := count, rend := got\<rparr>)))
            else
              and_then (mpack_fill_range p left count count r) (\<lambda>(got, p, r). Ret (p, r))))"

definition mpack_read_native :: "bytes \<Rightarrow> nat \<Rightarrow> 's read_bytes" where
  "mpack_read_native p count r =
     (if count > bytes_left r then mpack_read_native_straddle p count r
      else and_then (copy_out p 0 (rdata r) count r) (\<lambda>p. Ret (p, r\<lparr>rdata := rdata r + count\<rparr>)))"

text \<open>A destination pointer that may be NULL.\<close>

definition with_dest :: "bytes option \<Rightarrow> (bytes \<Rightarrow> 'a outcome) \<Rightarrow> 'a outcome" where
  "with_dest p f = (case p of None \<Rightarrow> Fault Assert_failed | Some m \<Rightarrow> f m)"

definition mpack_read_bytes :: "bytes option \<Rightarrow> nat \<Rightarrow> 's read_bytes" where
  "mpack_read_bytes p count r = with_dest p (\<lambda>p. mpack_read_native p count r)"

definition mpack_read_utf8 :: "bytes option \<Rightarrow> nat \<Rightarrow> 's read_bytes" where
  "mpack_read_utf8 p byte_count r =
     with_dest p (\<lambda>p.
       and_then (mpack_read_native p byte_count r) (\<lambda>(p, r).
         if rerror r = mpack_ok \<and> \<not> mpack_utf8_check (take byte_count p)
         then Ret (p, mpack_reader_flag_error mpack_error_type r) else Ret (p, r)))"

definition mpack_read_cstr_unchecked :: "bytes option \<Rightarrow> nat \<Rightarrow> nat \<Rightarrow> 's read_bytes" where
  "mpack_read_cstr_unchecked buf buffer_size byte_count r =
     with_dest buf (\<lambda>buf. mpack_assert (buffer_size \<ge> 1)
       (if rerror r \<noteq> mpack_ok then and_then (store_at buf 0 [0]) (\<lambda>buf. Ret (buf, r))
        else if byte_count > buffer_size - 1 then
          and_then (store_at buf 0 [0]) (\<lambda>buf.
            Ret (buf, mpack_reader_flag_error mpack_error_too_big r))
        else
          and_then (mpack_read_native buf byte_count r) (\<lambda>(buf, r).
          and_then (store_at buf byte_count [0]) (\<lambda>buf. Ret (buf, r)))))"

definition read_cstr_checked ::
    "(bytes \<Rightarrow> bool) \<Rightarrow> bytes option \<Rightarrow> nat \<Rightarrow> nat \<Rightarrow> 's read_bytes" where
  "read_cstr_checked check buf buffer_size byte_count r =
     and_then (mpack_read_cstr_unchecked buf buffer_size byte_count r) (\<lambda>(buf, r).
       if rerror r = mpack_ok \<and> \<not> check (take byte_count buf)
       then and_then (store_at buf 0 [0]) (\<lambda>buf. Ret (buf, mpack_reader_flag_error mpack_error_type r))
       else Ret (buf, r))"

definition mpack_read_cstr :: "bytes option \<Rightarrow> nat \<Rightarrow> nat \<Rightarrow> 's read_bytes" where
  "mpack_read_cstr = read_cstr_checked mpack_str_check_no_null"

definition mpack_read_utf8_cstr :: "bytes option \<Rightarrow> nat \<Rightarrow> nat \<Rightarrow> 's read_bytes" where
  "mpack_read_utf8_cstr = read_cstr_checked mpack_utf8_check_no_null"

text \<open>An in-place read returns a pointer into the reader's object.\<close>

definition mpack_read_bytes_inplace_notrack ::
    "nat \<Rightarrow> 's mpack_reader \<Rightarrow> (nat option \<times> 's mpack_reader) outcome" where
  "mpack_read_bytes_inplace_notrack count r =
     (if rerror r \<noteq> mpack_ok then Ret (None, r)
      else if bytes_left r \<ge> count then Ret (Some (rdata r), r\<lparr>rdata := rdata r + count\<rparr>)
      else
        and_then (mpack_reader_ensure count r) (\<lambda>(enough, r).
          if \<not> enough then Ret (None, r)
          else Ret (Some (rdata r), r\<lparr>rdata := rdata r + count\<rparr>)))"

definition mpack_read_bytes_inplace ::
    "nat \<Rightarrow> 's mpack_reader \<Rightarrow> (nat option \<times> 's mpack_reader) outcome" where
  "mpack_read_bytes_inplace count r = mpack_read_bytes_inplace_notrack count r"

definition mpack_read_utf8_inplace ::
    "nat \<Rightarrow> 's mpack_reader \<Rightarrow> (nat option \<times> 's mpack_reader) outcome" where
  "mpack_read_utf8_inplace count r =
     and_then (mpack_read_bytes_inplace_notrack count r) (\<lambda>(str, r).
       if rerror r \<noteq> mpack_ok then Ret (str, r)
       else case str of
           None \<Rightarrow> Fault Null_deref
         | Some p \<Rightarrow>
             and_then (load_at count id (robj r) p) (\<lambda>bs.
               if \<not> mpack_utf8_check bs
               then Ret (None, mpack_reader_flag_error mpack_error_type r) else Ret (Some p, r)))"

subsection \<open>Skipping\<close>

text \<open>The loop of \<open>mpack_reader_skip_using_fill\<close>, which returns early (\<open>None\<close>) or with the rest to skip.\<close>

function skip_loop :: "nat \<Rightarrow> 's mpack_reader \<Rightarrow> (nat option \<times> 's mpack_reader) outcome" where
  "skip_loop count r =
     (if count > rsize r then
        and_then (fill_buffer 0 (rsize r) (rsize r) r) (\<lambda>(got, r').
          if got < rsize r then Ret (None, mpack_reader_flag_error mpack_error_io r')
          else skip_loop (count - rsize r) r')
      else Ret (Some count, r))"
  by pat_completeness auto
termination
  by (relation "measure fst")
    (auto simp: fill_buffer_def mpack_fill_range_def outcome_simps split: if_splits)

declare skip_loop.simps [simp del]

definition mpack_reader_skip_using_fill :: "nat \<Rightarrow> 's mpack_reader \<Rightarrow> 's mpack_reader outcome" where
  "mpack_reader_skip_using_fill count r =
     mpack_assert (rfill r \<noteq> None) (mpack_assert (rdata r = rend r) (mpack_assert (rerror r = mpack_ok)
       (and_then (skip_loop count r) (\<lambda>(rest, r).
          case rest of
            None \<Rightarrow> Ret r
          | Some count \<Rightarrow>
              let r = r\<lparr>rdata := 0\<rparr> in
              and_then (fill_buffer 0 count (rsize r) r) (\<lambda>(got, r).
                if got < count then Ret (mpack_reader_flag_error mpack_error_io r)
                else Ret (r\<lparr>rend := rdata r + got, rdata := rdata r + count\<rparr>))))))"

definition mpack_skip_bytes_straddle :: "nat \<Rightarrow> 's mpack_reader \<Rightarrow> 's mpack_reader outcome" where
  "mpack_skip_bytes_straddle count r =
     (if rfill r = None then Ret (mpack_reader_flag_error mpack_error_invalid r)
      else
        let count = count - bytes_left r; r = r\<lparr>rdata := rend r\<rparr> in
        case rskip r of
          Some skip \<Rightarrow>
            if count > rsize r div 16 then
              case skip (rcontext r) count of (error, ctx) \<Rightarrow>
                Ret (snd (mpack_reader_flag_if_error error (r\<lparr>rcontext := ctx\<rparr>)))
            else mpack_reader_skip_using_fill count r
        | None \<Rightarrow> mpack_reader_skip_using_fill count r)"

definition mpack_skip_bytes :: "nat \<Rightarrow> 's mpack_reader \<Rightarrow> 's mpack_reader outcome" where
  "mpack_skip_bytes count r =
     (if rerror r \<noteq> mpack_ok then Ret r
      else if bytes_left r \<ge> count then Ret (r\<lparr>rdata := rdata r + count\<rparr>)
      else mpack_skip_bytes_straddle count r)"

end
