(* ===== verification/Mpack_Reader_Facts.thy ===== *)
theory Mpack_Reader_Facts
  imports Mpack_Reader
begin

subsection \<open>What a reader still has to deliver\<close>

definition buffered :: "'s mpack_reader \<Rightarrow> bytes" where
  "buffered r = take (rend r - rdata r) (drop (rdata r) (robj r))"

definition unread :: "('s \<Rightarrow> bytes) \<Rightarrow> 's mpack_reader \<Rightarrow> bytes" where
  "unread src r = buffered r @ (if rfill r = None then [] else src (rcontext r))"

definition fills :: "('s \<Rightarrow> bytes) \<Rightarrow> 's mpack_reader_fill \<Rightarrow> bool" where
  "fills src fill \<longleftrightarrow> (\<forall>s n. case fill s n of
     (None, e, s') \<Rightarrow> True
   | (Some bs, e, s') \<Rightarrow> length bs \<le> n \<and> (e = mpack_ok \<longrightarrow> src s = bs @ src s'))"

definition skips :: "('s \<Rightarrow> bytes) \<Rightarrow> 's mpack_reader_skip \<Rightarrow> bool" where
  "skips src skip \<longleftrightarrow> (\<forall>s n. case skip s n of
     (e, s') \<Rightarrow> e = mpack_ok \<longrightarrow> n \<le> length (src s) \<and> src s' = drop n (src s))"

definition reader_ok :: "('s \<Rightarrow> bytes) \<Rightarrow> 's mpack_reader \<Rightarrow> bool" where
  "reader_ok src r \<longleftrightarrow>
     rdata r \<le> rend r \<and> rend r \<le> length (robj r) \<and> length (robj r) \<le> SIZE_MAX \<and>
     (rerror r \<noteq> mpack_ok \<longrightarrow> rend r = rdata r) \<and>
     (\<forall>f. rfill r = Some f \<longrightarrow>
        rhas_buffer r \<and> MPACK_READER_MINIMUM_BUFFER_SIZE \<le> rsize r \<and> rsize r \<le> length (robj r) \<and>
        rend r \<le> rsize r \<and> fills src f) \<and>
     (\<forall>f. rskip r = Some f \<longrightarrow> skips src f)"

text \<open>A source that delivers as long as it has bytes, and skips what it has.\<close>

definition steady :: "('s \<Rightarrow> bytes) \<Rightarrow> 's mpack_reader \<Rightarrow> bool" where
  "steady src r \<longleftrightarrow>
     (\<forall>f s n. rfill r = Some f \<longrightarrow> 0 < n \<longrightarrow> src s \<noteq> [] \<longrightarrow>
        (\<exists>b bs s'. f s n = (Some (b # bs), mpack_ok, s'))) \<and>
     (\<forall>f s n. rskip r = Some f \<longrightarrow> n \<le> length (src s) \<longrightarrow> fst (f s n) = mpack_ok)"

definition same_source :: "'s mpack_reader \<Rightarrow> 's mpack_reader \<Rightarrow> bool" where
  "same_source r r' \<longleftrightarrow>
     rfill r' = rfill r \<and> rskip r' = rskip r \<and> rerror_fn r' = rerror_fn r \<and> rsize r' = rsize r \<and>
     rhas_buffer r' = rhas_buffer r \<and> rteardown r' = rteardown r \<and> length (robj r') = length (robj r)"

lemma same_source_refl [simp]: "same_source r r"
  by (simp add: same_source_def)

lemma same_source_trans: "same_source r s \<Longrightarrow> same_source s t \<Longrightarrow> same_source r t"
  by (simp add: same_source_def)

lemma same_source_steady: "same_source r s \<Longrightarrow> steady src s = steady src r"
  by (simp add: same_source_def steady_def)

lemma flag_error_fields [simp]:
  "rfill (mpack_reader_flag_error e r) = rfill r" "rskip (mpack_reader_flag_error e r) = rskip r"
  "rsize (mpack_reader_flag_error e r) = rsize r" "robj (mpack_reader_flag_error e r) = robj r"
  "rdata (mpack_reader_flag_error e r) = rdata r" "rhas_buffer (mpack_reader_flag_error e r) = rhas_buffer r"
  "rerror (mpack_reader_flag_error e r) = (if rerror r = mpack_ok then e else rerror r)"
  "rend (mpack_reader_flag_error e r) = (if rerror r = mpack_ok then rdata r else rend r)"
  by (simp_all add: mpack_reader_flag_error_def Let_def split: option.split)

lemma flag_error_source [simp]: "same_source r (mpack_reader_flag_error e r)"
  by (simp add: same_source_def) (simp add: mpack_reader_flag_error_def Let_def split: option.split)

lemma flag_error_ok: "reader_ok src r \<Longrightarrow> reader_ok src (mpack_reader_flag_error e r)"
  by (auto simp: reader_ok_def)

lemma flag_error_sticky [simp]: "rerror r \<noteq> mpack_ok \<Longrightarrow> mpack_reader_flag_error e r = r"
  by (simp add: mpack_reader_flag_error_def)

lemma bytes_left_eq: "reader_ok src r \<Longrightarrow> bytes_left r = rend r - rdata r"
  by (simp add: reader_ok_def bytes_left_def size_sub_eq)

lemma length_buffered: "reader_ok src r \<Longrightarrow> length (buffered r) = rend r - rdata r"
  by (auto simp: reader_ok_def buffered_def)

lemma bytes_left_buffered: "reader_ok src r \<Longrightarrow> bytes_left r = length (buffered r)"
  by (simp add: bytes_left_eq length_buffered)

lemma buffered_le: "length (buffered r) \<le> length (unread src r)"
  by (simp add: unread_def)

subsection \<open>The fill loop\<close>

text \<open>The state after some fills: only the context, the error and, in an error, the end differ.\<close>

definition filled :: "'s mpack_reader \<Rightarrow> 's mpack_reader \<Rightarrow> bool" where
  "filled r r' \<longleftrightarrow> same_source r r' \<and> robj r' = robj r \<and> rdata r' = rdata r \<and>
     rend r' = (if rerror r' = mpack_ok then rend r else rdata r)"

lemma steadyD:
  assumes "steady src r"
  shows "rfill r = Some f \<Longrightarrow> 0 < n \<Longrightarrow> src s \<noteq> [] \<Longrightarrow> \<exists>b bs s'. f s n = (Some (b # bs), mpack_ok, s')"
    and "rskip r = Some g \<Longrightarrow> n \<le> length (src s) \<Longrightarrow> fst (g s n) = mpack_ok"
  using assms unfolding steady_def by blast+

lemma fillsD:
  assumes "fills src f" "f s n = (stored, e, s')"
  shows "case stored of None \<Rightarrow> True | Some bs \<Rightarrow> length bs \<le> n \<and> (e = mpack_ok \<longrightarrow> src s = bs @ src s')"
proof -
  from assms(1) have "case f s n of
     (None, e, s') \<Rightarrow> True
   | (Some bs, e, s') \<Rightarrow> length bs \<le> n \<and> (e = mpack_ok \<longrightarrow> src s = bs @ src s')"
    unfolding fills_def by (drule_tac spec [of _ s]) (drule_tac spec [of _ n])
  then show ?thesis by (simp add: assms(2) split: option.splits)
qed

lemma store_at_eq:
  "off + length bs \<le> length mem \<Longrightarrow>
     store_at mem off bs = Ret (take off mem @ bs @ drop (off + length bs) mem)"
  by (simp add: store_at_def)

text \<open>A stretch of a list that two steps have written one after the other.\<close>

lemma two_stretches:
  assumes "take (a + length bs) m' = take a m @ bs" "a + length bs \<le> length m'" "a \<le> length m"
  shows "take (length bs + k) (drop a m') = bs @ take k (drop (a + length bs) m')"
    and "take a m' = take a m"
proof -
  have m': "m' = (take a m @ bs) @ drop (a + length bs) m'"
    using assms(1) by (metis append_take_drop_id)
  then show "take a m' = take a m" using assms(3)
    by (metis append.assoc append_eq_append_conv_if append_take_drop_id length_take min.absorb2 take_append_exact)
  have "drop a m' = bs @ drop (a + length bs) m'"
    by (subst m') (use assms(3) in simp)
  then show "take (length bs + k) (drop a m') = bs @ take k (drop (a + length bs) m')" by simp
qed

lemma fill_loop_spec:
  assumes "rfill r = Some f" "fills src f" "rerror r = mpack_ok" "p + max_bytes \<le> length mem"
    "count \<le> max_bytes" "min_bytes \<le> max_bytes"
  shows "\<exists>n mem' r'. fill_loop p min_bytes max_bytes count mem r = Ret (n, mem', r') \<and>
    length mem' = length mem \<and> take p mem' = take p mem \<and>
    drop (p + max_bytes) mem' = drop (p + max_bytes) mem \<and> filled r r' \<and>
    (if rerror r' = mpack_ok
     then min_bytes \<le> n \<and> count \<le> n \<and> n \<le> max_bytes \<and>
       take (p + count) mem' = take (p + count) mem \<and>
       src (rcontext r) = take (n - count) (drop (p + count) mem') @ src (rcontext r')
     else n = 0 \<and> (steady src r \<longrightarrow> length (src (rcontext r)) < min_bytes - count))"
  using assms
proof (induction "min_bytes - count" arbitrary: count mem r rule: less_induct)
  case less
  note simps = fill_loop.simps [of p min_bytes max_bytes count mem r]
  show ?case
  proof (cases "count < min_bytes")
    case False
    then show ?thesis
      using less.prems by (simp add: simps filled_def)
  next
    case True
    obtain stored e ctx where f: "f (rcontext r) (max_bytes - count) = (stored, e, ctx)"
      using prod_cases3 by blast
    define bs where "bs = (case stored of None \<Rightarrow> [] | Some bs \<Rightarrow> bs)"
    define mem1 where "mem1 = take (p + count) mem @ bs @ drop (p + count + length bs) mem"
    have len: "length bs \<le> max_bytes - count"
      and src: "e = mpack_ok \<Longrightarrow> stored \<noteq> None \<Longrightarrow> src (rcontext r) = bs @ src ctx"
      using fillsD [OF less.prems(2) f] by (auto simp: bs_def split: option.splits)
    have store: "store_at mem (p + count) (case stored of None \<Rightarrow> [] | Some bs \<Rightarrow> bs) = Ret mem1"
      unfolding bs_def [symmetric] mem1_def by (rule store_at_eq) (use len less.prems(4,5) in linarith)
    have steady: "steady src r \<Longrightarrow> src (rcontext r) = [] \<or> (\<exists>b bs'. stored = Some (b # bs') \<and> e = mpack_ok)"
      using steadyD(1) [of src r f "max_bytes - count" "rcontext r"] less.prems(1) f True less.prems(6) by auto
    have mem1: "length mem1 = length mem" "take p mem1 = take p mem"
      "drop (p + max_bytes) mem1 = drop (p + max_bytes) mem" "take (p + count) mem1 = take (p + count) mem"
      using len less.prems(4,5) by (auto simp: mem1_def add.commute)
    have failed: ?thesis
      if "fill_loop p min_bytes max_bytes count mem r = Ret (0, mem1, r')" "filled r r'"
        "rerror r' \<noteq> mpack_ok" "\<not> (\<exists>b bs'. stored = Some (b # bs') \<and> e = mpack_ok)" for r'
      using that True mem1 steady
      by (intro exI [of _ 0] exI [of _ mem1] exI [of _ r']) auto
    show ?thesis
    proof (cases "e = mpack_ok \<and> (\<exists>b bs'. stored = Some (b # bs'))")
      case False
      then show ?thesis
        using True less.prems(1,3) f store
        by (intro failed [of "mpack_reader_flag_error (if e = mpack_ok then mpack_error_io else e) (r\<lparr>rcontext := ctx\<rparr>)"])
          (auto simp: simps mpack_reader_flag_if_error_def Let_def filled_def same_source_def
            split: option.splits list.splits, simp_all add: mpack_reader_flag_error_def Let_def split: option.splits)
    next
      case ok: True
      then have bs: "stored = Some bs" "bs \<noteq> []" "e = mpack_ok" by (auto simp: bs_def)
      let ?r = "r\<lparr>rcontext := ctx\<rparr>" and ?count = "count + length bs"
      have loop: "fill_loop p min_bytes max_bytes count mem r = fill_loop p min_bytes max_bytes ?count mem1 ?r"
        using True less.prems(1,3) f store ok bs
        by (auto simp: simps mpack_reader_flag_if_error_def Let_def)
      have ctx: "rcontext ?r = ctx" by simp
      have shorter: "min_bytes - ?count < min_bytes - count"
        using True bs(2) by (cases bs) auto
      have "\<exists>n mem' r'. fill_loop p min_bytes max_bytes ?count mem1 ?r = Ret (n, mem', r') \<and>
        length mem' = length mem1 \<and> take p mem' = take p mem1 \<and>
        drop (p + max_bytes) mem' = drop (p + max_bytes) mem1 \<and> filled ?r r' \<and>
        (if rerror r' = mpack_ok
         then min_bytes \<le> n \<and> ?count \<le> n \<and> n \<le> max_bytes \<and>
           take (p + ?count) mem' = take (p + ?count) mem1 \<and>
           src (rcontext ?r) = take (n - ?count) (drop (p + ?count) mem') @ src (rcontext r')
         else n = 0 \<and> (steady src ?r \<longrightarrow> length (src (rcontext ?r)) < min_bytes - ?count))"
        by (rule less.hyps [OF shorter]) (use less.prems len mem1 True in auto)
      then obtain n mem' r' where ih: "fill_loop p min_bytes max_bytes ?count mem1 ?r = Ret (n, mem', r')"
        "length mem' = length mem" "take p mem' = take p mem"
        "drop (p + max_bytes) mem' = drop (p + max_bytes) mem" "filled ?r r'"
        "if rerror r' = mpack_ok
         then min_bytes \<le> n \<and> ?count \<le> n \<and> n \<le> max_bytes \<and>
           take (p + ?count) mem' = take (p + ?count) mem1 \<and>
           src ctx = take (n - ?count) (drop (p + ?count) mem') @ src (rcontext r')
         else n = 0 \<and> (steady src ?r \<longrightarrow> length (src ctx) < min_bytes - ?count)"
        unfolding mem1 ctx by blast
      have st: "steady src ?r = steady src r" by (simp add: steady_def)
      have take1: "take (p + ?count) mem1 = take (p + count) mem @ bs"
        using less.prems(4,5) by (simp add: mem1_def add.assoc [symmetric])
      have "take (p + count) mem' = take (p + count) mem \<and>
          src (rcontext r) = take (n - count) (drop (p + count) mem') @ src (rcontext r')"
        if "rerror r' = mpack_ok"
      proof -
        have eqs: "take (p + count + length bs) mem' = take (p + count) mem @ bs" "?count \<le> n" "n \<le> max_bytes"
          "src ctx = take (n - ?count) (drop (p + count + length bs) mem') @ src (rcontext r')"
          using ih(6) that take1 by (simp_all add: add.assoc)
        have "length bs + (n - ?count) = n - count" using eqs(2) by simp
        moreover note two_stretches(1) [OF eqs(1), of "n - ?count"] two_stretches(2) [OF eqs(1)]
        ultimately show ?thesis
          using eqs ih(2) less.prems(4,5) src bs(1,3) by simp
      qed
      then show ?thesis
        using loop ih st src bs(1,3) mem1
        by (intro exI [of _ n] exI [of _ mem'] exI [of _ r']) (auto simp: filled_def same_source_def)
    qed
  qed
qed

lemma fill_range_spec:
  assumes "rfill r = Some f" "fills src f" "rerror r = mpack_ok" "p + max_bytes \<le> length mem"
    "0 < min_bytes" "min_bytes \<le> max_bytes"
  shows "\<exists>n mem' r'. mpack_fill_range mem p min_bytes max_bytes r = Ret (n, mem', r') \<and>
    length mem' = length mem \<and> take p mem' = take p mem \<and>
    drop (p + max_bytes) mem' = drop (p + max_bytes) mem \<and> filled r r' \<and>
    (if rerror r' = mpack_ok
     then min_bytes \<le> n \<and> n \<le> max_bytes \<and>
       src (rcontext r) = take n (drop p mem') @ src (rcontext r')
     else n = 0 \<and> (steady src r \<longrightarrow> length (src (rcontext r)) < min_bytes))"
proof -
  have "mpack_fill_range mem p min_bytes max_bytes r = fill_loop p min_bytes max_bytes 0 mem r"
    using assms(1,5,6) by (simp add: mpack_fill_range_def)
  moreover have "(if b then A \<and> 0 \<le> n \<and> B \<and> C \<and> D else E) \<Longrightarrow> (if b then A \<and> B \<and> D else E)"
    for b A B C D E and n :: nat by simp
  ultimately show ?thesis
    using fill_loop_spec [OF assms(1-4) le0 assms(6)] unfolding add_0_right diff_zero by fastforce
qed

text \<open>Filling the reader's own buffer.\<close>

lemma fill_buffer_spec:
  assumes "reader_ok src r" "rfill r \<noteq> None" "rerror r = mpack_ok" "p + max_bytes \<le> length (robj r)"
    "0 < min_bytes" "min_bytes \<le> max_bytes"
  shows "\<exists>n r'. fill_buffer p min_bytes max_bytes r = Ret (n, r') \<and> same_source r r' \<and>
    rdata r' = rdata r \<and> rend r' = (if rerror r' = mpack_ok then rend r else rdata r) \<and>
    take p (robj r') = take p (robj r) \<and>
    (if rerror r' = mpack_ok
     then min_bytes \<le> n \<and> n \<le> max_bytes \<and>
       src (rcontext r) = take n (drop p (robj r')) @ src (rcontext r')
     else n = 0 \<and> (steady src r \<longrightarrow> length (src (rcontext r)) < min_bytes))"
proof -
  obtain f where f: "rfill r = Some f" "fills src f" "rhas_buffer r"
    using assms(1,2) by (auto simp: reader_ok_def)
  obtain n mem' r' where "mpack_fill_range (robj r) p min_bytes max_bytes r = Ret (n, mem', r')"
    "length mem' = length (robj r)" "take p mem' = take p (robj r)" "filled r r'"
    "if rerror r' = mpack_ok
     then min_bytes \<le> n \<and> n \<le> max_bytes \<and>
       src (rcontext r) = take n (drop p mem') @ src (rcontext r')
     else n = 0 \<and> (steady src r \<longrightarrow> length (src (rcontext r)) < min_bytes)"
    using fill_range_spec [OF f(1,2) assms(3,4,5,6)] by blast
  then show ?thesis
    using f by (auto simp: fill_buffer_def filled_def same_source_def)
qed

lemma reader_ok_same:
  assumes "same_source r r'" "reader_ok src r" "rdata r' \<le> rend r'" "rend r' \<le> length (robj r')"
    "rerror r' \<noteq> mpack_ok \<Longrightarrow> rend r' = rdata r'" "rfill r' \<noteq> None \<Longrightarrow> rend r' \<le> rsize r'"
  shows "reader_ok src r'"
  using assms by (auto simp: reader_ok_def same_source_def)

text \<open>Bytes in front of the reader, and the reader moved over them.\<close>

lemma buffered_take:
  "reader_ok src r \<Longrightarrow> n \<le> length (buffered r) \<Longrightarrow> take n (buffered r) = take n (drop (rdata r) (robj r))"
  by (simp add: length_buffered) (simp add: buffered_def min_absorb1)

lemma advance_ok:
  assumes "reader_ok src r" "n \<le> length (buffered r)" "rerror r = mpack_ok"
  shows "reader_ok src (r\<lparr>rdata := rdata r + n\<rparr>)"
    and "unread src (r\<lparr>rdata := rdata r + n\<rparr>) = drop n (unread src r)"
    and "same_source r (r\<lparr>rdata := rdata r + n\<rparr>)"
  using assms length_buffered [OF assms(1)]
  by (auto simp: reader_ok_def same_source_def unread_def buffered_def drop_take add.commute)

lemma load_buffered:
  assumes "reader_ok src r" "k + n \<le> length (buffered r)"
  shows "load_at n f (robj r) (rdata r + k) = Ret (f (take n (drop k (unread src r))))"
proof -
  have bounds: "k + n \<le> rend r - rdata r" "rdata r \<le> rend r" "rend r \<le> length (robj r)"
    using assms length_buffered [OF assms(1)] by (simp_all add: reader_ok_def)
  have "take n (drop k (unread src r)) = take n (drop k (buffered r))"
    using assms(2) by (simp add: unread_def)
  also have "\<dots> = take n (drop (rdata r + k) (robj r))"
    using bounds(1) by (simp add: buffered_def drop_take min_def add.commute)
  finally have "rdata r + k + n \<le> length (robj r)" "take n (drop k (unread src r)) = take n (drop (rdata r + k) (robj r))"
    using bounds by simp_all
  then show ?thesis by (simp add: load_at_def)
qed

lemma ensure_spec:
  assumes "reader_ok src r" "rerror r = mpack_ok" "count > 0"
  shows "\<exists>b r'. mpack_reader_ensure count r = Ret (b, r') \<and> reader_ok src r' \<and> same_source r r' \<and>
    b = (rerror r' = mpack_ok) \<and>
    (b \<longrightarrow> unread src r' = unread src r \<and> count \<le> length (buffered r')) \<and>
    (\<not> b \<longrightarrow> steady src r \<longrightarrow> length (unread src r) < count \<or> rfill r \<noteq> None \<and> rsize r < count)"
proof (cases "count \<le> bytes_left r \<or> rfill r = None \<or> count > rsize r")
  case True
  then show ?thesis
    using assms flag_error_ok [OF assms(1)]
    by (cases "count \<le> bytes_left r")
      (auto simp: mpack_reader_ensure_def mpack_reader_ensure_straddle_def bytes_left_buffered unread_def not_le)
next
  case False
  then obtain f where f: "rfill r = Some f" "rhas_buffer r" "rsize r \<le> length (robj r)" "rend r \<le> rsize r"
    using assms(1) by (auto simp: reader_ok_def)
  let ?left = "rend r - rdata r"
  note left = bytes_left_eq [OF assms(1)]
  have bounds: "rdata r + ?left = rend r" "rend r \<le> length (robj r)"
    using assms(1) by (simp_all add: reader_ok_def)
  define mem where "mem = take ?left (drop (rdata r) (robj r)) @ drop ?left (robj r)"
  have move: "mpack_memmove (robj r) 0 (rdata r) ?left = Ret mem"
    using memmove_copies [of "rdata r" ?left "robj r" 0] bounds by (simp add: mem_def)
  define r1 where "r1 = r\<lparr>robj := mem, rend := ?left, rdata := 0\<rparr>"
  have len: "length mem = length (robj r)" using bounds by (simp add: mem_def)
  have r1: "same_source r r1" "reader_ok src r1" "rerror r1 = mpack_ok" "rcontext r1 = rcontext r"
    "rend r1 = ?left" "rdata r1 = 0" "robj r1 = mem"
    using assms(1,2) f len
    by (auto simp: r1_def same_source_def reader_ok_def)
  have pre: "rfill r1 \<noteq> None" "?left + (rsize r - ?left) \<le> length (robj r1)" "0 < count - ?left"
    "count - ?left \<le> rsize r - ?left"
    using f False left len by (auto simp: r1_def)
  obtain n r' where fill: "fill_buffer ?left (count - ?left) (rsize r - ?left) r1 = Ret (n, r')"
    "same_source r1 r'" "rdata r' = 0" "rend r' = (if rerror r' = mpack_ok then ?left else 0)"
    "take ?left (robj r') = take ?left mem"
    "if rerror r' = mpack_ok
     then count - ?left \<le> n \<and> n \<le> rsize r - ?left \<and>
       src (rcontext r) = take n (drop ?left (robj r')) @ src (rcontext r')
     else n = 0 \<and> (steady src r1 \<longrightarrow> length (src (rcontext r)) < count - ?left)"
    using fill_buffer_spec [OF r1(2) pre(1) r1(3) pre(2,3,4)] unfolding r1(4-7) by blast
  have run: "mpack_reader_ensure count r =
      (if rerror r' \<noteq> mpack_ok then Ret (False, r') else Ret (True, r'\<lparr>rend := ?left + n\<rparr>))"
    using assms(2,3) False f left move fill(1,4)
    by (simp add: mpack_reader_ensure_def mpack_reader_ensure_straddle_def Let_def r1_def)
  have src: "same_source r r'" using same_source_trans [OF r1(1) fill(2)] .
  show ?thesis
  proof (cases "rerror r' = mpack_ok")
    case True
    let ?r = "r'\<lparr>rend := ?left + n\<rparr>"
    have n: "count - ?left \<le> n" "n \<le> rsize r - ?left" and
      more: "src (rcontext r) = take n (drop ?left (robj r')) @ src (rcontext r')"
      using fill(6) True by simp_all
    have "buffered ?r = take (?left + n) (robj r')" using fill(3) by (simp add: buffered_def)
    also have "\<dots> = take ?left (robj r') @ take n (drop ?left (robj r'))" by (rule take_add)
    finally have buf: "buffered ?r = buffered r @ take n (drop ?left (robj r'))"
      using fill(5) bounds by (simp add: mem_def buffered_def)
    have size: "?left + n \<le> rsize r" "rsize r \<le> length (robj r')"
      using n(2) f bounds src by (auto simp: same_source_def)
    have "reader_ok src ?r"
      using size fill(3) True src
      by (intro reader_ok_same [OF _ assms(1)]) (auto simp: same_source_def)
    moreover have "unread src ?r = unread src r"
      using f buf more src by (simp add: unread_def same_source_def)
    moreover have "count \<le> length (buffered ?r)"
      using n fill(3) size by (simp add: buffered_def)
    ultimately show ?thesis
      using run True src by (auto simp: same_source_def)
  next
    case err: False
    have "reader_ok src r'"
      using fill(3,4) err src by (intro reader_ok_same [OF src assms(1)]) auto
    moreover have "steady src r \<longrightarrow> length (unread src r) < count"
      using fill(6) err f length_buffered [OF assms(1)] same_source_steady [OF r1(1)]
      by (auto simp: unread_def)
    ultimately show ?thesis using run err src by auto
  qed
qed

lemma ensureE:
  assumes "reader_ok src r" "rerror r = mpack_ok" "0 < count"
  obtains (enough) r' where "mpack_reader_ensure count r = Ret (True, r')" "reader_ok src r'"
      "same_source r r'" "rerror r' = mpack_ok" "unread src r' = unread src r"
      "count \<le> length (buffered r')"
  | (short) r' where "mpack_reader_ensure count r = Ret (False, r')" "reader_ok src r'"
      "same_source r r'" "rerror r' \<noteq> mpack_ok"
      "steady src r \<Longrightarrow> length (unread src r) < count \<or> rfill r \<noteq> None \<and> rsize r < count"
proof -
  obtain b r' where ensure: "mpack_reader_ensure count r = Ret (b, r')" "reader_ok src r'"
    "same_source r r'" "b = (rerror r' = mpack_ok)"
    "b \<longrightarrow> unread src r' = unread src r \<and> count \<le> length (buffered r')"
    "\<not> b \<longrightarrow> steady src r \<longrightarrow> length (unread src r) < count \<or> rfill r \<noteq> None \<and> rsize r < count"
    using ensure_spec [OF assms] by (elim exE conjE)
  show thesis
  proof (cases b)
    case True
    then show ?thesis using enough [of r'] ensure by simp
  next
    case False
    then show ?thesis using short [of r'] ensure by simp
  qed
qed

subsection \<open>Reading raw bytes\<close>

lemma copy_out_buffered:
  assumes "reader_ok src r" "k + n \<le> length (buffered r)" "off + n \<le> length p"
  shows "copy_out p off (rdata r + k) n r =
    Ret (take off p @ take n (drop k (unread src r)) @ drop (off + n) p)"
proof -
  have len: "length (take n (drop k (unread src r))) = n"
    using assms(2) by (simp add: unread_def)
  then show ?thesis
    using assms(3) by (simp add: copy_out_def load_buffered [OF assms(1,2)] store_at_def)
qed

text \<open>The answer of a read of \<open>count\<close> bytes into \<open>p\<close>.\<close>

definition read_into ::
    "('s \<Rightarrow> bytes) \<Rightarrow> bytes \<Rightarrow> nat \<Rightarrow> 's mpack_reader \<Rightarrow> (bytes \<times> 's mpack_reader) outcome \<Rightarrow> bool" where
  "read_into src p count r m \<longleftrightarrow>
     (\<exists>p' r'. m = Ret (p', r') \<and> reader_ok src r' \<and> same_source r r' \<and> length p' = length p \<and>
        drop count p' = drop count p \<and>
        (if rerror r \<noteq> mpack_ok then r' = r \<and> take count p' = replicate count 0
         else if rerror r' = mpack_ok then take count p' @ unread src r' = unread src r
         else steady src r \<longrightarrow> length (unread src r) < count))"

lemma read_native_straddle_spec:
  assumes "reader_ok src r" "count \<le> length p" "rerror r = mpack_ok" "bytes_left r < count"
    "rfill r = Some f"
  shows "read_into src p count r (mpack_read_native_straddle p count r)"
proof -
  let ?left = "rend r - rdata r" and ?r = "r\<lparr>rdata := rdata r + (rend r - rdata r)\<rparr>"
  let ?p = "buffered r @ drop (rend r - rdata r) p"
  have buf: "rhas_buffer r" "32 \<le> rsize r" "rsize r \<le> length (robj r)" "rend r \<le> rsize r" "rdata r \<le> rend r"
    "fills src f"
    using assms(1,5) by (auto simp: reader_ok_def MPACK_READER_MINIMUM_BUFFER_SIZE_def)
  note left = bytes_left_eq [OF assms(1)] and blen = length_buffered [OF assms(1)]
  have "?left \<le> length (buffered r)" by (simp add: blen)
  note moved = advance_ok [OF assms(1) this assms(3)]
  have flush: "(if ?left > 0 then copy_out p 0 (rdata r) ?left r else Ret p) = Ret ?p"
    using copy_out_buffered [OF assms(1), of 0 ?left 0 p] assms(2,4) left blen
    by (simp add: buffered_def unread_def)
  have plen: "length ?p = length p" using assms(2,4) left blen by simp
  have more: "unread src r = buffered r @ src (rcontext r)"
    using assms(5) by (simp add: unread_def)
  have rest: "0 < count - ?left" "rerror ?r = mpack_ok" "rfill ?r \<noteq> None" "rcontext ?r = rcontext r"
    "rfill ?r = Some f"
    using assms left by simp_all
  show ?thesis
  proof (cases "count - ?left \<le> rsize r div 32")
    case True
    have size: "0 + rsize r \<le> length (robj ?r)" "count - ?left \<le> rsize r"
      using buf(3) order_trans [OF True div_le_dividend] by simp_all
    obtain n r' where fill: "fill_buffer 0 (count - ?left) (rsize r) ?r = Ret (n, r')" "same_source ?r r'"
      "rend r' = (if rerror r' = mpack_ok then rend ?r else rdata ?r)" "rdata r' = rdata ?r"
      "if rerror r' = mpack_ok
       then count - ?left \<le> n \<and> n \<le> rsize r \<and>
         src (rcontext r) = take n (drop 0 (robj r')) @ src (rcontext r')
       else n = 0 \<and> (steady src ?r \<longrightarrow> length (src (rcontext r)) < count - ?left)"
      using fill_buffer_spec [OF moved(1) rest(3,2) size(1) rest(1) size(2)]
      unfolding rest(4) by blast
    have src: "same_source r r'"
      using fill(2) moved(3) same_source_trans by blast
    show ?thesis
    proof (cases "rerror r' = mpack_ok")
      case ok: True
      let ?r' = "r'\<lparr>rdata := count - ?left, rend := n\<rparr>" and ?r0 = "r'\<lparr>rdata := 0, rend := n\<rparr>"
      have n: "count - ?left \<le> n" "n \<le> rsize r" "n \<le> length (robj r')"
        using fill(5) ok src buf(3) by (auto simp: same_source_def)
      have got: "src (rcontext r) = take n (robj r') @ src (rcontext r')"
        using fill(5) ok by simp
      have r0: "reader_ok src ?r0"
        using n ok src by (intro reader_ok_same [OF _ assms(1)]) (auto simp: same_source_def)
      have un0: "unread src ?r0 = src (rcontext r)"
        using got src assms(5) by (simp add: unread_def buffered_def same_source_def)
      have copy: "copy_out ?p ?left 0 (count - ?left) r' =
          Ret (buffered r @ take (count - ?left) (src (rcontext r)) @ drop count p)"
        using copy_out_buffered [OF r0, of 0 "count - ?left" ?left ?p] n plen assms(2,4) left blen
        by (simp add: un0 buffered_def copy_out_def)
      have run: "mpack_read_native_straddle p count r =
          Ret (buffered r @ take (count - ?left) (src (rcontext r)) @ drop count p, ?r')"
        using assms(3,4,5) buf(2) True left flush fill(1) ok copy
        by (simp add: mpack_read_native_straddle_def Let_def MPACK_READER_SMALL_FRACTION_DENOMINATOR_def)
      have len: "count - ?left \<le> length (buffered ?r0)" "length (take (count - ?left) (src (rcontext r))) = count - ?left"
        using n got by (simp_all add: buffered_def)
      have ok0: "rerror ?r0 = mpack_ok" using ok by simp
      have eq: "?r' = ?r0\<lparr>rdata := rdata ?r0 + (count - ?left)\<rparr>"
        by (rule mpack_reader.equality) simp_all
      have "reader_ok src ?r'" "unread src ?r' = drop (count - ?left) (src (rcontext r))"
        unfolding eq advance_ok(2) [OF r0 len(1) ok0] un0
        by (rule advance_ok(1) [OF r0 len(1) ok0] refl)+
      then show ?thesis
        unfolding run read_into_def
        using assms(2,3,4) left blen len more src ok
        by (auto simp: same_source_def)
    next
      case err: False
      then have run: "mpack_read_native_straddle p count r = Ret (?p, r')"
        using assms(3,4,5) buf(2) True left flush fill(1)
        by (simp add: mpack_read_native_straddle_def Let_def MPACK_READER_SMALL_FRACTION_DENOMINATOR_def)
      have "reader_ok src r'"
        using fill(3,4) err src buf by (intro reader_ok_same [OF src assms(1)]) (auto simp: same_source_def)
      moreover have "steady src r \<longrightarrow> length (unread src r) < count"
        using fill(5) err same_source_steady [OF moved(3)] blen more by auto
      ultimately show ?thesis
        unfolding run read_into_def using assms(2,3,4) left blen src err plen
        by auto
    qed
  next
    case False
    have size: "?left + (count - ?left) \<le> length ?p" using plen assms(2,4) left by simp
    obtain n p' r' where fill: "mpack_fill_range ?p ?left (count - ?left) (count - ?left) ?r = Ret (n, p', r')"
      "length p' = length ?p" "take ?left p' = take ?left ?p"
      "drop (?left + (count - ?left)) p' = drop (?left + (count - ?left)) ?p" "filled ?r r'"
      "if rerror r' = mpack_ok
       then count - ?left \<le> n \<and> n \<le> count - ?left \<and>
         src (rcontext r) = take n (drop ?left p') @ src (rcontext r')
       else n = 0 \<and> (steady src ?r \<longrightarrow> length (src (rcontext r)) < count - ?left)"
      using fill_range_spec [OF rest(5) buf(6) rest(2) size rest(1) order_refl] unfolding rest(4) by blast
    have run: "mpack_read_native_straddle p count r = Ret (p', r')"
      using assms(3,4,5) buf(2) False left flush fill(1) rest(1)
      by (simp add: mpack_read_native_straddle_def Let_def
          MPACK_READER_SMALL_FRACTION_DENOMINATOR_def)
    have src: "same_source r r'" "robj r' = robj r" "rdata r' = rend r" "rend r' = rend r"
      using fill(5) buf(5) by (auto simp: filled_def same_source_def)
    have ok: "reader_ok src r'"
      using src buf assms(1) by (intro reader_ok_same [OF src(1) assms(1)])
        (auto simp: same_source_def reader_ok_def)
    have tail: "drop count p' = drop count p"
      using fill(4) assms(4) left blen by simp
    show ?thesis
    proof (cases "rerror r' = mpack_ok")
      case True
      then have "n = count - ?left" "src (rcontext r) = take (count - ?left) (drop ?left p') @ src (rcontext r')"
        using fill(6) by auto
      moreover have "take count p' = buffered r @ take (count - ?left) (drop ?left p')"
        using take_add [of ?left "count - ?left" p'] fill(3) assms(4) left blen by simp
      moreover have "unread src r' = src (rcontext r')"
        using src assms(5) by (simp add: unread_def buffered_def same_source_def)
      ultimately show ?thesis
        unfolding run read_into_def using ok src(1) fill(2) plen tail True assms(3) more by auto
    next
      case err: False
      then have "steady src r \<longrightarrow> length (unread src r) < count"
        using fill(6) same_source_steady [OF moved(3)] blen more by auto
      then show ?thesis
        unfolding run read_into_def using ok src(1) fill(2) plen tail err assms(3) by auto
    qed
  qed
qed

lemma read_native_spec:
  assumes "reader_ok src r" "count \<le> length p"
  shows "read_into src p count r (mpack_read_native p count r)"
proof -
  have zero: "zero_bytes p count = Ret (replicate count 0 @ drop count p)"
    using assms(2) by (simp add: zero_bytes_def store_at_def)
  have dead: "unread src r = [] \<or> rfill r \<noteq> None" if "rerror r \<noteq> mpack_ok"
    using that assms(1) by (auto simp: unread_def buffered_def reader_ok_def)
  consider "rerror r \<noteq> mpack_ok" | "rerror r = mpack_ok" "count \<le> bytes_left r"
    | "rerror r = mpack_ok" "bytes_left r < count" "rfill r = None"
    | f where "rerror r = mpack_ok" "bytes_left r < count" "rfill r = Some f"
    by force
  then show ?thesis
  proof cases
    case 1
    then have "mpack_read_native p count r = Ret (replicate count 0 @ drop count p, r)"
      using assms zero bytes_left_eq [OF assms(1)]
      by (auto simp: mpack_read_native_def mpack_read_native_straddle_def copy_out_def load_at_def
          store_at_def reader_ok_def)
    then show ?thesis using 1 assms by (simp add: read_into_def)
  next
    case 2
    have len: "count \<le> length (buffered r)" using 2 bytes_left_buffered [OF assms(1)] by simp
    have "copy_out p 0 (rdata r) count r = Ret (take count (unread src r) @ drop count p)"
      using copy_out_buffered [OF assms(1), of 0 count 0 p] len assms(2) by simp
    then have "mpack_read_native p count r =
        Ret (take count (unread src r) @ drop count p, r\<lparr>rdata := rdata r + count\<rparr>)"
      using 2 by (simp add: mpack_read_native_def)
    moreover have "length (take count (unread src r)) = count" using len by (simp add: unread_def)
    ultimately show ?thesis
      using 2 assms(2) advance_ok [OF assms(1) len 2(1)] by (simp add: read_into_def)
  next
    case 3
    then have "mpack_read_native p count r =
        Ret (replicate count 0 @ drop count p, mpack_reader_flag_error mpack_error_invalid r)"
      using zero by (simp add: mpack_read_native_def mpack_read_native_straddle_def Let_def)
    then show ?thesis
      using 3 assms flag_error_ok [OF assms(1)] bytes_left_buffered [OF assms(1)]
      by (simp add: read_into_def unread_def)
  next
    case 4
    then show ?thesis
      using read_native_straddle_spec [OF assms 4] by (simp add: mpack_read_native_def)
  qed
qed

subsection \<open>Skipping and reading in place\<close>

text \<open>The answer of an operation that moves the reader over \<open>count\<close> bytes.\<close>

definition moved_over :: "('s \<Rightarrow> bytes) \<Rightarrow> nat \<Rightarrow> 's mpack_reader \<Rightarrow> 's mpack_reader \<Rightarrow> bool" where
  "moved_over src count r r' \<longleftrightarrow>
     reader_ok src r' \<and> same_source r r' \<and>
     (if rerror r' = mpack_ok
      then count \<le> length (unread src r) \<and> unread src r' = drop count (unread src r)
      else steady src r \<longrightarrow> length (unread src r) < count)"

lemma empty_buffer: "rdata r = rend r \<Longrightarrow> buffered r = []"
  by (simp add: buffered_def)

lemma skip_loop_spec:
  assumes "reader_ok src r" "rfill r = Some f" "rerror r = mpack_ok" "rdata r = rend r" "0 < count"
  shows "\<exists>rest r'. skip_loop count r = Ret (rest, r') \<and> reader_ok src r' \<and> same_source r r' \<and>
    (case rest of
       None \<Rightarrow> rerror r' \<noteq> mpack_ok \<and> (steady src r \<longrightarrow> length (src (rcontext r)) < count)
     | Some k \<Rightarrow> rerror r' = mpack_ok \<and> rdata r' = rend r' \<and> 0 < k \<and> k \<le> rsize r \<and> k \<le> count \<and>
         (\<exists>bs. src (rcontext r) = bs @ src (rcontext r') \<and> length bs + k = count))"
  using assms
proof (induction count arbitrary: r rule: less_induct)
  case (less count r)
  note simps = skip_loop.simps [of count r]
  show ?case
  proof (cases "count > rsize r")
    case False
    then show ?thesis
      using less.prems by (intro exI [of _ "Some count"] exI [of _ r]) (simp add: simps)
  next
    case True
    have size: "0 + rsize r \<le> length (robj r)" "0 < rsize r" "rend r \<le> rsize r"
      using less.prems(1,2) by (auto simp: reader_ok_def MPACK_READER_MINIMUM_BUFFER_SIZE_def)
    obtain n r1 where fill: "fill_buffer 0 (rsize r) (rsize r) r = Ret (n, r1)" "same_source r r1"
      "rdata r1 = rdata r" "rend r1 = (if rerror r1 = mpack_ok then rend r else rdata r)"
      "if rerror r1 = mpack_ok
       then rsize r \<le> n \<and> n \<le> rsize r \<and> src (rcontext r) = take n (drop 0 (robj r1)) @ src (rcontext r1)
       else n = 0 \<and> (steady src r \<longrightarrow> length (src (rcontext r)) < rsize r)"
      using fill_buffer_spec [OF less.prems(1) _ less.prems(3) size(1,2) order_refl] less.prems(2) by blast
    have r1: "reader_ok src r1"
      using fill(2,3,4) less.prems(1) by (intro reader_ok_same [OF fill(2) less.prems(1)])
        (auto simp: same_source_def reader_ok_def)
    show ?thesis
    proof (cases "rerror r1 = mpack_ok")
      case err: False
      then have "skip_loop count r = Ret (None, r1)"
        using True fill(1,5) size(2) by (simp add: simps)
      then show ?thesis using r1 fill(2,5) err True by auto
    next
      case ok: True
      have n: "n = rsize r" "src (rcontext r) = take (rsize r) (robj r1) @ src (rcontext r1)"
        using fill(5) ok by auto
      have "rfill r1 = Some f" "rsize r1 = rsize r" "length (robj r1) = length (robj r)"
        using fill(2) less.prems(2) by (simp_all add: same_source_def)
      note r1f = this
      have "\<exists>rest r'. skip_loop (count - rsize r) r1 = Ret (rest, r') \<and> reader_ok src r' \<and> same_source r1 r' \<and>
        (case rest of
           None \<Rightarrow> rerror r' \<noteq> mpack_ok \<and> (steady src r1 \<longrightarrow> length (src (rcontext r1)) < count - rsize r)
         | Some k \<Rightarrow> rerror r' = mpack_ok \<and> rdata r' = rend r' \<and> 0 < k \<and> k \<le> rsize r1 \<and> k \<le> count - rsize r \<and>
             (\<exists>bs. src (rcontext r1) = bs @ src (rcontext r') \<and> length bs + k = count - rsize r))"
        by (rule less.IH) (use True size less.prems(4) fill(3,4) ok r1 r1f in auto)
      then obtain rest r' where ih: "skip_loop (count - rsize r) r1 = Ret (rest, r')" "reader_ok src r'"
        "same_source r1 r'"
        "case rest of
           None \<Rightarrow> rerror r' \<noteq> mpack_ok \<and> (steady src r1 \<longrightarrow> length (src (rcontext r1)) < count - rsize r)
         | Some k \<Rightarrow> rerror r' = mpack_ok \<and> rdata r' = rend r' \<and> 0 < k \<and> k \<le> rsize r1 \<and> k \<le> count - rsize r \<and>
             (\<exists>bs. src (rcontext r1) = bs @ src (rcontext r') \<and> length bs + k = count - rsize r)"
        by blast
      have run: "skip_loop count r = Ret (rest, r')"
        using True fill(1) n(1) ih(1) by (simp add: simps)
      have len: "length (take (rsize r) (robj r1)) = rsize r" using r1f(3) size(1) by simp
      show ?thesis
      proof (cases rest)
        case None
        then show ?thesis
          using run ih same_source_trans [OF fill(2) ih(3)] same_source_steady [OF fill(2)] n(2) len True
          by auto
      next
        case (Some k)
        then obtain bs where bs: "src (rcontext r1) = bs @ src (rcontext r')" "length bs + k = count - rsize r"
          using ih(4) by auto
        have "src (rcontext r) = (take (rsize r) (robj r1) @ bs) @ src (rcontext r')"
          "length (take (rsize r) (robj r1) @ bs) + k = count"
          using n(2) bs len True by simp_all
        then show ?thesis
          using run ih Some same_source_trans [OF fill(2) ih(3)] r1f(2)
          by (intro exI [of _ rest] exI [of _ r']) auto
      qed
    qed
  qed
qed

lemma skip_using_fill_spec:
  assumes "reader_ok src r" "rfill r = Some f" "rerror r = mpack_ok" "rdata r = rend r" "0 < count"
  shows "\<exists>r'. mpack_reader_skip_using_fill count r = Ret r' \<and> moved_over src count r r'"
proof -
  have un: "unread src r = src (rcontext r)" using assms(2,4) by (simp add: unread_def empty_buffer)
  obtain rest r1 where loop: "skip_loop count r = Ret (rest, r1)" "reader_ok src r1" "same_source r r1"
    "case rest of
       None \<Rightarrow> rerror r1 \<noteq> mpack_ok \<and> (steady src r \<longrightarrow> length (src (rcontext r)) < count)
     | Some k \<Rightarrow> rerror r1 = mpack_ok \<and> rdata r1 = rend r1 \<and> 0 < k \<and> k \<le> rsize r \<and> k \<le> count \<and>
         (\<exists>bs. src (rcontext r) = bs @ src (rcontext r1) \<and> length bs + k = count)"
    using skip_loop_spec [OF assms] by blast
  show ?thesis
  proof (cases rest)
    case None
    then have "mpack_reader_skip_using_fill count r = Ret r1"
      using assms(2,3,4) loop(1) by (simp add: mpack_reader_skip_using_fill_def)
    then show ?thesis using None loop un by (simp add: moved_over_def)
  next
    case (Some k)
    then obtain bs where k: "rerror r1 = mpack_ok" "rdata r1 = rend r1" "0 < k" "k \<le> rsize r"
      "src (rcontext r) = bs @ src (rcontext r1)" "length bs + k = count"
      using loop(4) by auto
    define r2 where "r2 = r1\<lparr>rdata := 0\<rparr>"
    have size: "rsize r1 \<le> length (robj r1)" "rsize r1 = rsize r" "rend r1 \<le> rsize r1" "rfill r1 = Some f"
      using loop(2,3) assms(2) by (auto simp: reader_ok_def same_source_def)
    have nofill: "rfill r2 \<noteq> None" by (simp add: r2_def size(4))
    have r2: "reader_ok src r2" "same_source r r2" "rerror r2 = mpack_ok" "rfill r2 \<noteq> None"
      "0 + rsize r \<le> length (robj r2)" "rcontext r2 = rcontext r1"
      using loop(2,3) k(1) size nofill by (auto simp: r2_def reader_ok_def same_source_def)
    obtain n r' where fill: "fill_buffer 0 k (rsize r) r2 = Ret (n, r')" "same_source r2 r'"
      "rdata r' = rdata r2" "rend r' = (if rerror r' = mpack_ok then rend r2 else rdata r2)"
      "if rerror r' = mpack_ok
       then k \<le> n \<and> n \<le> rsize r \<and> src (rcontext r1) = take n (drop 0 (robj r')) @ src (rcontext r')
       else n = 0 \<and> (steady src r2 \<longrightarrow> length (src (rcontext r1)) < k)"
      using fill_buffer_spec [OF r2(1,4,3,5) k(3,4)] unfolding r2(6) by blast
    have zero: "rdata r' = 0" using fill(3) by (simp add: r2_def)
    have src: "same_source r r'" by (rule same_source_trans [OF r2(2) fill(2)])
    show ?thesis
    proof (cases "rerror r' = mpack_ok")
      case err: False
      then have "mpack_reader_skip_using_fill count r = Ret r'"
        using assms(2,3,4) loop(1) Some fill(1,5) k(3) size(2)
        by (simp add: mpack_reader_skip_using_fill_def r2_def [symmetric])
      moreover have "reader_ok src r'"
        using fill(4) zero err by (intro reader_ok_same [OF src assms(1)]) (simp_all add: r2_def)
      moreover have "steady src r \<longrightarrow> length (unread src r) < count"
        using fill(5) err k(5,6) un same_source_steady [OF r2(2)] by auto
      ultimately show ?thesis using src err by (auto simp: moved_over_def)
    next
      case ok: True
      let ?r' = "r'\<lparr>rend := n, rdata := k\<rparr>" and ?r0 = "r'\<lparr>rend := n\<rparr>"
      have n: "k \<le> n" "n \<le> rsize r" "src (rcontext r1) = take n (robj r') @ src (rcontext r')"
        using fill(5) ok by simp_all
      have len: "n \<le> length (robj r')" "rsize r' = rsize r"
        using n(2) size r2(5) fill(2) src by (simp_all add: same_source_def)
      have run: "mpack_reader_skip_using_fill count r = Ret ?r'"
        using assms(2,3,4) loop(1) Some fill(1) ok n(1) size(2) zero
        by (simp add: mpack_reader_skip_using_fill_def r2_def [symmetric])
      have r0: "reader_ok src ?r0" "unread src ?r0 = src (rcontext r1)" "k \<le> length (buffered ?r0)" "rerror ?r0 = mpack_ok"
        using n len zero ok src assms(2)
        by (auto intro!: reader_ok_same [OF _ assms(1)] simp: same_source_def unread_def buffered_def)
      have eq: "?r' = ?r0\<lparr>rdata := rdata ?r0 + k\<rparr>" by (rule mpack_reader.equality) (simp_all add: zero)
      have "unread src ?r' = drop count (unread src r)"
        unfolding eq advance_ok(2) [OF r0(1,3,4)] r0(2) un k(5) using k(6) by auto
      moreover have "reader_ok src ?r'" unfolding eq by (rule advance_ok(1) [OF r0(1,3,4)])
      moreover have "count \<le> length (unread src r)"
        using k(5,6) n(1,3) len(1) un by simp
      ultimately show ?thesis
        unfolding run using src ok by (auto simp: moved_over_def same_source_def)
    qed
  qed
qed

lemma skip_bytes_spec:
  assumes "reader_ok src r" "rerror r = mpack_ok"
  shows "\<exists>r'. mpack_skip_bytes count r = Ret r' \<and> moved_over src count r r'"
proof (cases "count \<le> bytes_left r \<or> rfill r = None")
  case True
  then show ?thesis
    using assms advance_ok [OF assms(1), of count] flag_error_ok [OF assms(1)] bytes_left_buffered [OF assms(1)]
    by (cases "count \<le> bytes_left r")
      (auto simp: mpack_skip_bytes_def mpack_skip_bytes_straddle_def moved_over_def unread_def)
next
  case False
  then obtain f where f: "rfill r = Some f" by auto
  note left = bytes_left_buffered [OF assms(1)]
  let ?k = "count - bytes_left r" and ?r = "r\<lparr>rdata := rend r\<rparr>"
  have r: "reader_ok src ?r" "rfill ?r = Some f" "rerror ?r = mpack_ok" "rdata ?r = rend ?r" "0 < ?k"
    "same_source r ?r" "steady src ?r = steady src r"
    using assms False f by (auto simp: reader_ok_def same_source_def steady_def)
  have un: "unread src r = buffered r @ src (rcontext r)" "unread src ?r = src (rcontext r)"
    using f by (simp_all add: unread_def empty_buffer)
  show ?thesis
  proof (cases "\<exists>skip. rskip r = Some skip \<and> ?k > rsize r div 16")
    case True
    then obtain skip e ctx where skip: "rskip r = Some skip" "?k > rsize r div 16"
      "skip (rcontext r) ?k = (e, ctx)" by fastforce
    let ?r' = "snd (mpack_reader_flag_if_error e (?r\<lparr>rcontext := ctx\<rparr>))"
    have run: "mpack_skip_bytes count r = Ret ?r'"
      using assms(2) False f skip by (simp add: mpack_skip_bytes_def mpack_skip_bytes_straddle_def Let_def)
    have "skips src skip" using assms(1) skip(1) by (simp add: reader_ok_def)
    then have took: "e = mpack_ok \<longrightarrow> ?k \<le> length (src (rcontext r)) \<and> src ctx = drop ?k (src (rcontext r))"
      using skip(3) unfolding skips_def by (drule_tac spec [of _ "rcontext r"]) (drule_tac spec [of _ ?k], simp)
    have st: "steady src r \<Longrightarrow> e \<noteq> mpack_ok \<Longrightarrow> length (src (rcontext r)) < ?k"
      using steadyD(2) [of src r skip ?k "rcontext r"] skip by force
    have ok: "reader_ok src (?r\<lparr>rcontext := ctx\<rparr>)" using r(1) by (simp add: reader_ok_def)
    have "reader_ok src ?r'" "same_source r ?r'" "rerror ?r' = e"
      using flag_error_ok [OF ok] flag_error_source [of "?r\<lparr>rcontext := ctx\<rparr>" e] r(3,6) ok
      by (auto simp: mpack_reader_flag_if_error_def same_source_def Let_def)
    moreover have "unread src ?r' = src ctx" if "e = mpack_ok"
      using that f by (simp add: mpack_reader_flag_if_error_def Let_def unread_def empty_buffer)
    ultimately show ?thesis
      unfolding run using took st un left r(5) by (auto simp: moved_over_def)
  next
    case fill: False
    then have run: "mpack_skip_bytes count r = mpack_reader_skip_using_fill ?k ?r"
      using assms(2) False f
      by (auto simp: mpack_skip_bytes_def mpack_skip_bytes_straddle_def Let_def split: option.splits)
    obtain r' where "mpack_reader_skip_using_fill ?k ?r = Ret r'" "moved_over src ?k ?r r'"
      using skip_using_fill_spec [OF r(1-5)] by blast
    then show ?thesis
      unfolding run using same_source_trans [OF r(6)] un left r(5,7) by (auto simp: moved_over_def)
  qed
qed

lemma skip_bytes_sticky [simp]: "rerror r \<noteq> mpack_ok \<Longrightarrow> mpack_skip_bytes count r = Ret r"
  by (simp add: mpack_skip_bytes_def)

text \<open>A read in place returns the bytes in the object, or gives up when the buffer cannot hold them.\<close>

lemma read_bytes_inplace_spec:
  assumes "reader_ok src r" "rerror r = mpack_ok"
  shows "\<exists>str r'. mpack_read_bytes_inplace count r = Ret (str, r') \<and> reader_ok src r' \<and> same_source r r' \<and>
    (if rerror r' = mpack_ok
     then count \<le> length (unread src r) \<and> unread src r' = drop count (unread src r) \<and>
       (\<exists>p. str = Some p \<and> load_at count id (robj r') p = Ret (take count (unread src r)))
     else str = None \<and>
       (steady src r \<longrightarrow> length (unread src r) < count \<or> rfill r \<noteq> None \<and> rsize r < count))"
proof -
  have take: "\<exists>str r'. Ret (Some (rdata s), s\<lparr>rdata := rdata s + count\<rparr>) = Ret (str, r') \<and>
      reader_ok src r' \<and> same_source r r' \<and>
      (if rerror r' = mpack_ok
       then count \<le> length (unread src r) \<and> unread src r' = drop count (unread src r) \<and>
         (\<exists>p. str = Some p \<and> load_at count id (robj r') p = Ret (take count (unread src r)))
       else str = None \<and>
         (steady src r \<longrightarrow> length (unread src r) < count \<or> rfill r \<noteq> None \<and> rsize r < count))"
    if "reader_ok src s" "rerror s = mpack_ok" "same_source r s" "unread src s = unread src r"
      "count \<le> length (buffered s)" for s
  proof -
    have "count \<le> length (unread src s)" using that(5) by (simp add: unread_def)
    then show ?thesis
      using advance_ok [OF that(1,5,2)] load_buffered [OF that(1), of 0 count id] that(2,4,5)
        same_source_trans [OF that(3)]
      by auto
  qed
  show ?thesis
  proof (cases "count \<le> bytes_left r")
    case True
    then show ?thesis
      using take [OF assms] assms bytes_left_buffered [OF assms(1)]
      by (simp add: mpack_read_bytes_inplace_def mpack_read_bytes_inplace_notrack_def)
  next
    case False
    then have "count > 0" by simp
    with assms show ?thesis
    proof (cases rule: ensureE)
      case (enough r')
      then show ?thesis
        using False assms(2) take [of r'] by (simp add: mpack_read_bytes_inplace_def mpack_read_bytes_inplace_notrack_def)
    next
      case (short r')
      then show ?thesis
        using False assms(2) by (auto simp: mpack_read_bytes_inplace_def mpack_read_bytes_inplace_notrack_def)
    qed
  qed
qed

end
