(* ===== verification/Mpack_Read_Tag.thy ===== *)
theory Mpack_Read_Tag
  imports Mpack_Reader_Facts Msgpack_Values
begin

text \<open>
  Reading tags: \<open>mpack_parse_tag\<close> with its callers \<open>mpack_read_tag\<close>, \<open>mpack_peek_tag\<close> and
  \<open>mpack_discard\<close>. Their specification is a parser of byte lists, which knows nothing of buffers
  and fill callbacks; \<open>yields\<close> states that an operation of the reader does what such a parser does
  on the bytes the reader has still to deliver. It is the contract of the locale \<open>reader_op\<close>.
\<close>

subsection \<open>The code\<close>

text \<open>\<open>if (!mpack_reader_ensure(reader, n)) return 0;\<close> and the tag made from the bytes behind the type byte.\<close>

type_synonym 's parse_tag = "'s mpack_reader \<Rightarrow> ((nat \<times> mpack_tag) \<times> 's mpack_reader) outcome"

definition tag_field :: "nat \<Rightarrow> (bytes \<Rightarrow> mpack_tag) \<Rightarrow> 's parse_tag" where
  "tag_field n f r =
     and_then (mpack_reader_ensure n r) (\<lambda>(enough, r).
       if \<not> enough then Ret ((0, Tag_missing), r)
       else and_then (load_at (n - 1) f (robj r) (rdata r + 1)) (\<lambda>tag. Ret ((n, tag), r)))"

definition parse_tag_infix :: "u8 \<Rightarrow> 's parse_tag" where
  "parse_tag_infix ty r =
     (if ty \<le> 0x7F then Ret ((1, mpack_tag_make_uint (ucast ty)), r)
      else if 0xE0 \<le> ty then Ret ((1, mpack_tag_make_int (scast ty)), r)
      else if ty \<le> 0x8F then Ret ((1, mpack_tag_make_map (ucast ty AND NOT 0xF0)), r)
      else if ty \<le> 0x9F then Ret ((1, mpack_tag_make_array (ucast ty AND NOT 0xF0)), r)
      else Ret ((1, mpack_tag_make_str (ucast ty AND NOT 0xE0)), r))"

definition parse_tag_nil_bool_bin :: "u8 \<Rightarrow> 's parse_tag" where
  "parse_tag_nil_bool_bin ty r =
     (if ty = 0xC0 then Ret ((1, mpack_tag_make_nil), r)
      else if ty = 0xC2 \<or> ty = 0xC3 then Ret ((1, mpack_tag_make_bool (ty AND 1 \<noteq> 0)), r)
      else if ty = 0xC4 then tag_field MPACK_TAG_SIZE_BIN8 (mpack_tag_make_bin \<circ> ucast \<circ> mpack_load_u8) r
      else if ty = 0xC5 then tag_field MPACK_TAG_SIZE_BIN16 (mpack_tag_make_bin \<circ> ucast \<circ> mpack_load_u16) r
      else tag_field MPACK_TAG_SIZE_BIN32 (mpack_tag_make_bin \<circ> mpack_load_u32) r)"

definition parse_tag_number :: "u8 \<Rightarrow> 's parse_tag" where
  "parse_tag_number ty r =
     (if ty = 0xCC then tag_field MPACK_TAG_SIZE_U8 (mpack_tag_make_uint \<circ> ucast \<circ> mpack_load_u8) r
      else if ty = 0xCD then tag_field MPACK_TAG_SIZE_U16 (mpack_tag_make_uint \<circ> ucast \<circ> mpack_load_u16) r
      else if ty = 0xCE then tag_field MPACK_TAG_SIZE_U32 (mpack_tag_make_uint \<circ> ucast \<circ> mpack_load_u32) r
      else if ty = 0xCF then tag_field MPACK_TAG_SIZE_U64 (mpack_tag_make_uint \<circ> mpack_load_u64) r
      else if ty = 0xD0 then tag_field MPACK_TAG_SIZE_I8 (mpack_tag_make_int \<circ> scast \<circ> mpack_load_i8) r
      else if ty = 0xD1 then tag_field MPACK_TAG_SIZE_I16 (mpack_tag_make_int \<circ> scast \<circ> mpack_load_i16) r
      else if ty = 0xD2 then tag_field MPACK_TAG_SIZE_I32 (mpack_tag_make_int \<circ> scast \<circ> mpack_load_i32) r
      else tag_field MPACK_TAG_SIZE_I64 (mpack_tag_make_int \<circ> mpack_load_i64) r)"

definition parse_tag_str :: "u8 \<Rightarrow> 's parse_tag" where
  "parse_tag_str ty r =
     (if ty = 0xD9 then tag_field MPACK_TAG_SIZE_STR8 (mpack_tag_make_str \<circ> ucast \<circ> mpack_load_u8) r
      else if ty = 0xDA then tag_field MPACK_TAG_SIZE_STR16 (mpack_tag_make_str \<circ> ucast \<circ> mpack_load_u16) r
      else tag_field MPACK_TAG_SIZE_STR32 (mpack_tag_make_str \<circ> mpack_load_u32) r)"

definition parse_tag_container :: "u8 \<Rightarrow> 's parse_tag" where
  "parse_tag_container ty r =
     (if ty = 0xDC then tag_field MPACK_TAG_SIZE_ARRAY16 (mpack_tag_make_array \<circ> ucast \<circ> mpack_load_u16) r
      else if ty = 0xDD then tag_field MPACK_TAG_SIZE_ARRAY32 (mpack_tag_make_array \<circ> mpack_load_u32) r
      else if ty = 0xDE then tag_field MPACK_TAG_SIZE_MAP16 (mpack_tag_make_map \<circ> ucast \<circ> mpack_load_u16) r
      else tag_field MPACK_TAG_SIZE_MAP32 (mpack_tag_make_map \<circ> mpack_load_u32) r)"

text \<open>
  The reserved byte, the extension types, and what leaves the \<open>switch\<close>: the float types, whose
  cases are compiled out.
\<close>

definition parse_tag_rest :: "u8 \<Rightarrow> 's parse_tag" where
  "parse_tag_rest ty r =
     (if ty = 0xC1 then Ret ((0, Tag_missing), mpack_reader_flag_error mpack_error_invalid r)
      else if 0xC7 \<le> ty \<and> ty \<le> 0xC9 \<or> 0xD4 \<le> ty \<and> ty \<le> 0xD8
      then Ret ((0, Tag_missing), mpack_reader_flag_error mpack_error_unsupported r)
      else mpack_assert False (Ret ((0, Tag_missing), r)))"

definition mpack_parse_tag :: "'s parse_tag" where
  "mpack_parse_tag r =
     mpack_assert (rerror r = mpack_ok)
       (and_then (mpack_reader_ensure 1 r) (\<lambda>(enough, r).
          if \<not> enough then Ret ((0, Tag_missing), r)
          else and_then (load_at 1 mpack_load_u8 (robj r) (rdata r)) (\<lambda>ty.
            if ty \<le> 0xBF \<or> 0xE0 \<le> ty then parse_tag_infix ty r
            else if ty = 0xC0 \<or> 0xC2 \<le> ty \<and> ty \<le> 0xC6 then parse_tag_nil_bool_bin ty r
            else if 0xCC \<le> ty \<and> ty \<le> 0xD3 then parse_tag_number ty r
            else if 0xD9 \<le> ty \<and> ty \<le> 0xDB then parse_tag_str ty r
            else if 0xDC \<le> ty then parse_tag_container ty r
            else parse_tag_rest ty r)))"

type_synonym ('s, 'a) read_op = "'s mpack_reader \<Rightarrow> ('a \<times> 's mpack_reader) outcome"

definition mpack_read_tag :: "('s, mpack_tag) read_op" where
  "mpack_read_tag r =
     (if rerror r \<noteq> mpack_ok then Ret (mpack_tag_make_nil, r)
      else and_then (mpack_parse_tag r) (\<lambda>((count, tag), r).
        if count = 0 then Ret (mpack_tag_make_nil, r)
        else Ret (tag, r\<lparr>rdata := rdata r + count\<rparr>)))"

definition mpack_peek_tag :: "('s, mpack_tag) read_op" where
  "mpack_peek_tag r =
     (if rerror r \<noteq> mpack_ok then Ret (mpack_tag_make_nil, r)
      else and_then (mpack_parse_tag r) (\<lambda>((count, tag), r).
        if count = 0 then Ret (mpack_tag_make_nil, r) else Ret (tag, r)))"

text \<open>
  The recursion of \<open>mpack_discard\<close> goes as deep as the data nests; \<open>fuel\<close> bounds that depth. The
  loop over the elements stops at the first error.
\<close>

primrec discard_items ::
    "('s mpack_reader \<Rightarrow> 's mpack_reader outcome) \<Rightarrow> nat \<Rightarrow> 's mpack_reader \<Rightarrow> 's mpack_reader outcome" where
  "discard_items f 0 r = Ret r"
| "discard_items f (Suc k) r =
     and_then (f r) (\<lambda>r. if rerror r \<noteq> mpack_ok then Ret r else discard_items f k r)"

primrec mpack_discard :: "nat \<Rightarrow> 's mpack_reader \<Rightarrow> 's mpack_reader outcome" where
  "mpack_discard 0 r = Fault Diverged"
| "mpack_discard (Suc fuel) r =
     and_then (mpack_read_tag r) (\<lambda>(var, r).
       if rerror r \<noteq> mpack_ok then Ret r
       else case var of
           Tag_str l \<Rightarrow> mpack_skip_bytes (unat l) r
         | Tag_bin l \<Rightarrow> mpack_skip_bytes (unat l) r
         | Tag_array n \<Rightarrow> discard_items (mpack_discard fuel) (unat n) r
         | Tag_map n \<Rightarrow>
             discard_items (\<lambda>r. and_then (mpack_discard fuel r) (mpack_discard fuel)) (unat n) r
         | _ \<Rightarrow> Ret r)"

subsection \<open>The specification on byte lists\<close>

text \<open>What a type byte says: a whole tag, or how many bytes follow and the tag they make.\<close>

datatype tag_layout = Whole mpack_tag | Field nat "bytes \<Rightarrow> mpack_tag" | Refused mpack_error_t | Float_tag

definition tag_layout :: "u8 \<Rightarrow> tag_layout" where
  "tag_layout b =
     (if b \<le> 0x7F then Whole (Tag_uint (ucast b))
      else if b \<le> 0x8F then Whole (Tag_map (ucast b AND NOT 0xF0))
      else if b \<le> 0x9F then Whole (Tag_array (ucast b AND NOT 0xF0))
      else if b \<le> 0xBF then Whole (Tag_str (ucast b AND NOT 0xE0))
      else if b = 0xC0 then Whole Tag_nil
      else if b = 0xC1 then Refused mpack_error_invalid
      else if b \<le> 0xC3 then Whole (Tag_bool (b = 0xC3))
      else if b = 0xC4 then Field 1 (Tag_bin \<circ> ucast \<circ> mpack_load_u8)
      else if b = 0xC5 then Field 2 (Tag_bin \<circ> ucast \<circ> mpack_load_u16)
      else if b = 0xC6 then Field 4 (Tag_bin \<circ> mpack_load_u32)
      else if b \<le> 0xC9 then Refused mpack_error_unsupported
      else if b \<le> 0xCB then Float_tag
      else if b = 0xCC then Field 1 (Tag_uint \<circ> ucast \<circ> mpack_load_u8)
      else if b = 0xCD then Field 2 (Tag_uint \<circ> ucast \<circ> mpack_load_u16)
      else if b = 0xCE then Field 4 (Tag_uint \<circ> ucast \<circ> mpack_load_u32)
      else if b = 0xCF then Field 8 (Tag_uint \<circ> mpack_load_u64)
      else if b = 0xD0 then Field 1 (Tag_int \<circ> scast \<circ> mpack_load_u8)
      else if b = 0xD1 then Field 2 (Tag_int \<circ> scast \<circ> mpack_load_u16)
      else if b = 0xD2 then Field 4 (Tag_int \<circ> scast \<circ> mpack_load_u32)
      else if b = 0xD3 then Field 8 (Tag_int \<circ> mpack_load_u64)
      else if b \<le> 0xD8 then Refused mpack_error_unsupported
      else if b = 0xD9 then Field 1 (Tag_str \<circ> ucast \<circ> mpack_load_u8)
      else if b = 0xDA then Field 2 (Tag_str \<circ> ucast \<circ> mpack_load_u16)
      else if b = 0xDB then Field 4 (Tag_str \<circ> mpack_load_u32)
      else if b = 0xDC then Field 2 (Tag_array \<circ> ucast \<circ> mpack_load_u16)
      else if b = 0xDD then Field 4 (Tag_array \<circ> mpack_load_u32)
      else if b = 0xDE then Field 2 (Tag_map \<circ> ucast \<circ> mpack_load_u16)
      else if b = 0xDF then Field 4 (Tag_map \<circ> mpack_load_u32)
      else Whole (Tag_int (scast b)))"

type_synonym 'a list_parser = "bytes \<Rightarrow> ('a \<times> bytes) option"

fun list_tag :: "mpack_tag list_parser" where
  "list_tag [] = None"
| "list_tag (b # s) =
     (case tag_layout b of
        Whole t \<Rightarrow> Some (t, s)
      | Field n f \<Rightarrow> if n \<le> length s then Some (f (take n s), drop n s) else None
      | _ \<Rightarrow> None)"

definition list_peek :: "mpack_tag list_parser" where
  "list_peek s = map_option (\<lambda>(t, _). (t, s)) (list_tag s)"

definition list_skip :: "nat \<Rightarrow> unit list_parser" where
  "list_skip n s = (if n \<le> length s then Some ((), drop n s) else None)"

definition then_parse :: "'a list_parser \<Rightarrow> ('a \<Rightarrow> 'b list_parser) \<Rightarrow> 'b list_parser" where
  "then_parse p q s = (case p s of None \<Rightarrow> None | Some (x, s') \<Rightarrow> q x s')"

primrec list_items :: "unit list_parser \<Rightarrow> nat \<Rightarrow> unit list_parser" where
  "list_items p 0 s = Some ((), s)"
| "list_items p (Suc k) s = then_parse p (\<lambda>_. list_items p k) s"

primrec list_discard :: "nat \<Rightarrow> unit list_parser" where
  "list_discard 0 s = None"
| "list_discard (Suc fuel) s =
     then_parse list_tag (\<lambda>t s. case t of
         Tag_str l \<Rightarrow> list_skip (unat l) s
       | Tag_bin l \<Rightarrow> list_skip (unat l) s
       | Tag_array n \<Rightarrow> list_items (list_discard fuel) (unat n) s
       | Tag_map n \<Rightarrow> list_items (then_parse (list_discard fuel) (\<lambda>_. list_discard fuel)) (unat n) s
       | _ \<Rightarrow> Some ((), s)) s"

end
