(* ===== verification/Mpack_Read_Facts.thy ===== *)
theory Mpack_Read_Facts
  imports Mpack_Read_Tag
begin

text \<open>
  The tag functions of the reader do what the parsers of byte lists do, however the fill callback
  cuts the bytes into pieces.
\<close>

subsection \<open>The dispatch on the type byte\<close>

definition parse_layout :: "tag_layout \<Rightarrow> 's parse_tag" where
  "parse_layout l r =
     (case l of
        Whole t \<Rightarrow> Ret ((1, t), r)
      | Field n f \<Rightarrow> tag_field (Suc n) f r
      | Refused e \<Rightarrow> Ret ((0, Tag_missing), mpack_reader_flag_error e r)
      | Float_tag \<Rightarrow> Fault Assert_failed)"

lemmas parse_tag_defs = parse_tag_infix_def parse_tag_nil_bool_bin_def parse_tag_number_def parse_tag_str_def
  parse_tag_container_def parse_tag_rest_def tag_make_defs signed_access_defs

definition dispatch_tag :: "u8 \<Rightarrow> 's parse_tag" where
  "dispatch_tag ty r =
     (if ty \<le> 0xBF \<or> 0xE0 \<le> ty then parse_tag_infix ty r
      else if ty = 0xC0 \<or> 0xC2 \<le> ty \<and> ty \<le> 0xC6 then parse_tag_nil_bool_bin ty r
      else if 0xCC \<le> ty \<and> ty \<le> 0xD3 then parse_tag_number ty r
      else if 0xD9 \<le> ty \<and> ty \<le> 0xDB then parse_tag_str ty r
      else if 0xDC \<le> ty then parse_tag_container ty r
      else parse_tag_rest ty r)"

lemma loads_eta: "mpack_load_i8 = mpack_load_u8" "mpack_load_i16 = mpack_load_u16"
  "mpack_load_i32 = mpack_load_u32" "mpack_load_i64 = mpack_load_u64"
  by (simp_all add: fun_eq_iff signed_access_defs)

text \<open>The comparisons of a byte with numerals, as comparisons of natural numbers.\<close>

lemmas byte_nat = word_le_nat_alt word_unat_eq_iff

lemma tag_field_2: "tag_field (Suc (Suc 0)) = tag_field 2"
  by (simp add: numeral_2_eq_2)

lemma dispatch_layout_middle:
  assumes "0xC0 \<le> unat ty" "unat ty < 0xE0"
  shows "dispatch_tag ty r = parse_layout (tag_layout ty) r"
proof (cases "unat ty = 0xC2 \<or> unat ty = 0xC3")
  case True
  then have "ty = 0xC2 \<or> ty = 0xC3" by (simp add: byte_nat)
  then show ?thesis
    by (elim disjE) (simp_all add: dispatch_tag_def parse_layout_def tag_layout_def
        parse_tag_nil_bool_bin_def tag_make_defs)
next
  case False
  have "unat ty \<in> set [0xC0..<0xE0]" using assms unfolding atLeastLessThan_upt [symmetric] by simp
  then have "\<exists>k \<in> set [0xC0..<0xE0]. unat ty = k" by blast
  then show ?thesis using False
    by (simp add: upt_rec) (elim disjE; simp add: dispatch_tag_def parse_layout_def tag_layout_def
        byte_nat parse_tag_defs loads_eta mpack_assert_def tag_field_2)
qed

lemma dispatch_layout: "dispatch_tag ty r = parse_layout (tag_layout ty) r"
proof -
  let ?n = "unat ty"
  consider "?n \<le> 0xBF" | "0xE0 \<le> ?n" | "0xC0 \<le> ?n" "?n < 0xE0" by linarith
  then show ?thesis
  proof cases
    case 3
    then show ?thesis by (rule dispatch_layout_middle)
  qed (auto simp: dispatch_tag_def parse_layout_def tag_layout_def byte_nat parse_tag_infix_def tag_make_defs)
qed

lemma layout_field: "tag_layout b = Field n f \<Longrightarrow> 0 < n \<and> n \<le> 8"
  by (auto simp: tag_layout_def split: if_splits)

lemma layout_float: "tag_layout b = Float_tag \<Longrightarrow> b = 0xCA \<or> b = 0xCB"
  by (auto simp: tag_layout_def word_le_nat_alt word_unat_eq_iff split: if_splits)

lemma layout_refused: "tag_layout b = Refused e \<Longrightarrow> e \<noteq> mpack_ok"
  by (auto simp: tag_layout_def split: if_splits)

subsection \<open>Operations that follow a parser of byte lists\<close>

definition float_byte :: "bytes \<Rightarrow> bool" where
  "float_byte s \<longleftrightarrow> 0xCA \<in> set s \<or> 0xCB \<in> set s"

text \<open>
  The operation returns with an intact reader. Without an error it has parsed what the parser \<open>p\<close>
  parses from the bytes still to be delivered; with an error, from a steady source, \<open>p\<close> fails. It
  may run into the assertion behind the float types when there is a byte of such a type.
\<close>

definition yields ::
    "('s \<Rightarrow> bytes) \<Rightarrow> 's mpack_reader \<Rightarrow> 'a list_parser \<Rightarrow> ('a \<times> 's mpack_reader) outcome \<Rightarrow> bool" where
  "yields src r p m \<longleftrightarrow>
     (\<exists>x r'. m = Ret (x, r') \<and> reader_ok src r' \<and> same_source r r' \<and>
        (if rerror r' = mpack_ok
         then p (unread src r) = Some (x, unread src r') \<and> (\<exists>c. unread src r = c @ unread src r')
         else steady src r \<longrightarrow> p (unread src r) = None)) \<or>
     m = Fault Assert_failed \<and> p (unread src r) = None \<and> float_byte (unread src r)"

lemma yieldsE:
  assumes "yields src r p m"
  obtains (ok) x r' c where "m = Ret (x, r')" "reader_ok src r'" "same_source r r'" "rerror r' = mpack_ok"
      "p (unread src r) = Some (x, unread src r')" "unread src r = c @ unread src r'"
  | (err) x r' where "m = Ret (x, r')" "reader_ok src r'" "same_source r r'" "rerror r' \<noteq> mpack_ok"
      "steady src r \<Longrightarrow> p (unread src r) = None"
  | (float) "m = Fault Assert_failed" "p (unread src r) = None" "float_byte (unread src r)"
proof -
  from assms show thesis
    unfolding yields_def
  proof (elim disjE exE conjE)
    fix x r'
    assume r': "m = Ret (x, r')" "reader_ok src r'" "same_source r r'"
      "if rerror r' = mpack_ok
       then p (unread src r) = Some (x, unread src r') \<and> (\<exists>c. unread src r = c @ unread src r')
       else steady src r \<longrightarrow> p (unread src r) = None"
    show ?thesis
    proof (cases "rerror r' = mpack_ok")
      case True
      then obtain c where "p (unread src r) = Some (x, unread src r')" "unread src r = c @ unread src r'"
        using r'(4) by auto
      then show ?thesis using ok [OF r'(1-3) True] by blast
    next
      case False
      then show ?thesis using err [OF r'(1-3) False] r'(4) by simp
    qed
  qed (rule float)
qed

lemma yields_ok:
  "reader_ok src r' \<Longrightarrow> same_source r r' \<Longrightarrow> rerror r' = mpack_ok \<Longrightarrow>
     p (unread src r) = Some (x, unread src r') \<Longrightarrow> unread src r = c @ unread src r' \<Longrightarrow>
     yields src r p (Ret (x, r'))"
  by (auto simp: yields_def)

lemma yields_err:
  "reader_ok src r' \<Longrightarrow> same_source r r' \<Longrightarrow> rerror r' \<noteq> mpack_ok \<Longrightarrow>
     (steady src r \<Longrightarrow> p (unread src r) = None) \<Longrightarrow> yields src r p (Ret (x, r'))"
  by (auto simp: yields_def)

text \<open>A failure with an intact reader, which is what an operation makes of a reader in error.\<close>

definition gives_up :: "('s \<Rightarrow> bytes) \<Rightarrow> 's mpack_reader \<Rightarrow> ('a \<times> 's mpack_reader) outcome \<Rightarrow> bool" where
  "gives_up src r m \<longleftrightarrow>
     (\<exists>x r'. m = Ret (x, r') \<and> reader_ok src r' \<and> same_source r r' \<and> rerror r' \<noteq> mpack_ok)"

lemma gives_upI:
  "reader_ok src r' \<Longrightarrow> same_source r r' \<Longrightarrow> rerror r' \<noteq> mpack_ok \<Longrightarrow> gives_up src r (Ret (x, r'))"
  by (auto simp: gives_up_def)

lemma yields_gives_up:
  "gives_up src r' m \<Longrightarrow> same_source r r' \<Longrightarrow> (steady src r \<Longrightarrow> p (unread src r) = None) \<Longrightarrow>
     yields src r p m"
  by (auto simp: gives_up_def intro!: yields_err elim: same_source_trans)

lemma yields_then:
  assumes "yields src r p m"
    "\<And>x r'. reader_ok src r' \<Longrightarrow> same_source r r' \<Longrightarrow> rerror r' = mpack_ok \<Longrightarrow>
       p (unread src r) = Some (x, unread src r') \<Longrightarrow>
       length (unread src r') \<le> length (unread src r) \<Longrightarrow> yields src r' (q x) (f (x, r'))"
    "\<And>x r'. reader_ok src r' \<Longrightarrow> same_source r r' \<Longrightarrow> rerror r' \<noteq> mpack_ok \<Longrightarrow> gives_up src r' (f (x, r'))"
  shows "yields src r (then_parse p q) (and_then m f)"
  using assms(1)
proof (cases rule: yieldsE)
  case (ok x r' c)
  have "length (unread src r') \<le> length (unread src r)" using ok(6) by simp
  from assms(2) [OF ok(2-5) this] show ?thesis
  proof (cases rule: yieldsE)
    case out: (ok y r'' c')
    then have "unread src r = (c @ c') @ unread src r''" using ok(6) by simp
    then show ?thesis
      using ok out same_source_trans [OF ok(3) out(3)] by (auto simp: then_parse_def intro!: yields_ok)
  next
    case out: (err y r'')
    then show ?thesis
      using ok out same_source_trans [OF ok(3) out(3)] same_source_steady [OF ok(3)]
      by (auto simp: then_parse_def intro!: yields_err)
  next
    case float
    then show ?thesis
      using ok by (auto simp: yields_def then_parse_def float_byte_def)
  qed
next
  case (err x r')
  then show ?thesis
    using yields_gives_up [OF assms(3) [OF err(2-4)] err(3)] by (simp add: then_parse_def)
next
  case float
  then show ?thesis by (auto simp: yields_def then_parse_def)
qed

subsection \<open>Tags\<close>

definition parsed_tag :: "('s \<Rightarrow> bytes) \<Rightarrow> 's mpack_reader \<Rightarrow> ((nat \<times> mpack_tag) \<times> 's mpack_reader) outcome \<Rightarrow> bool" where
  "parsed_tag src r m \<longleftrightarrow>
     (\<exists>count tag r'. m = Ret ((count, tag), r') \<and> reader_ok src r' \<and> same_source r r' \<and>
        (if rerror r' = mpack_ok
         then 0 < count \<and> count \<le> length (buffered r') \<and> unread src r' = unread src r \<and>
           list_tag (unread src r) = Some (tag, drop count (unread src r))
         else count = 0 \<and> (steady src r \<longrightarrow> list_tag (unread src r) = None))) \<or>
     m = Fault Assert_failed \<and> list_tag (unread src r) = None \<and> float_byte (unread src r)"

lemma reader_size: "reader_ok src r \<Longrightarrow> rfill r \<noteq> None \<Longrightarrow> 32 \<le> rsize r"
  by (auto simp: reader_ok_def MPACK_READER_MINIMUM_BUFFER_SIZE_def)

lemma tag_field_parsed:
  assumes "reader_ok src r" "rerror r = mpack_ok" "unread src r = b # s" "tag_layout b = Field n f"
  shows "parsed_tag src r (tag_field (Suc n) f r)"
proof -
  have "0 < Suc n" by simp
  with assms(1,2) show ?thesis
  proof (cases rule: ensureE)
    case (enough r')
    have len: "n \<le> length s" using enough(5,6) assms(3) buffered_le [of r' src] by simp
    have "tag_field (Suc n) f r = Ret ((Suc n, f (take n s)), r')"
      using enough(1) load_buffered [OF enough(2), of 1 n f] enough(5,6) assms(3)
      by (simp add: tag_field_def)
    then show ?thesis
      using enough len assms(3,4) by (simp add: parsed_tag_def)
  next
    case (short r')
    then have "steady src r \<longrightarrow> \<not> n \<le> length s"
      using reader_size [OF assms(1)] layout_field [OF assms(4)] assms(3) by fastforce
    then show ?thesis
      using short assms(3,4) by (simp add: parsed_tag_def tag_field_def)
  qed
qed

lemma parse_tag_parsed:
  assumes "reader_ok src r" "rerror r = mpack_ok"
  shows "parsed_tag src r (mpack_parse_tag r)"
proof -
  have "0 < (1 :: nat)" by simp
  with assms show ?thesis
  proof (cases rule: ensureE)
    case (short r1)
    then have "steady src r \<longrightarrow> unread src r = []"
      using reader_size [OF assms(1)] by fastforce
    then show ?thesis
      using short assms(2) by (auto simp: parsed_tag_def mpack_parse_tag_def)
  next
    case (enough r1)
    then obtain b s where bs: "unread src r1 = b # s" by (cases "unread src r1") (auto simp: unread_def)
    have "load_at 1 mpack_load_u8 (robj r1) (rdata r1) = Ret b"
      using load_buffered [OF enough(2), of 0 1 mpack_load_u8] enough(6) bs
      by (simp add: mpack_load_u8_def)
    then have run: "mpack_parse_tag r = parse_layout (tag_layout b) r1"
      using assms(2) enough(1)
      by (simp add: mpack_parse_tag_def dispatch_layout [unfolded dispatch_tag_def])
    have un: "unread src r = b # s" using enough(5) bs by simp
    show ?thesis
    proof (cases "tag_layout b")
      case (Whole t)
      then show ?thesis
        using run enough un bs by (simp add: parse_layout_def parsed_tag_def)
    next
      case (Field n f)
      have "parsed_tag src r1 (mpack_parse_tag r)"
        using tag_field_parsed [OF enough(2,4) bs Field] by (simp add: run Field parse_layout_def)
      then show ?thesis
        using same_source_trans [OF enough(3)] same_source_steady [OF enough(3)] un bs
        unfolding parsed_tag_def by (elim disjE exE conjE) (auto split: if_splits)
    next
      case (Refused e)
      then show ?thesis
        using run flag_error_ok [OF enough(2), of e] same_source_trans [OF enough(3)] enough(4) un
          layout_refused [OF Refused]
        by (simp add: parse_layout_def parsed_tag_def)
    next
      case Float_tag
      then show ?thesis
        using run un layout_float [OF Float_tag] by (auto simp: parse_layout_def parsed_tag_def float_byte_def)
    qed
  qed
qed

lemma parsed_tagE:
  assumes "parsed_tag src r m"
  obtains (ok) count tag r' where "m = Ret ((count, tag), r')" "reader_ok src r'" "same_source r r'"
      "rerror r' = mpack_ok" "0 < count" "count \<le> length (buffered r')" "unread src r' = unread src r"
      "list_tag (unread src r) = Some (tag, drop count (unread src r))"
  | (err) tag r' where "m = Ret ((0, tag), r')" "reader_ok src r'" "same_source r r'" "rerror r' \<noteq> mpack_ok"
      "steady src r \<Longrightarrow> list_tag (unread src r) = None"
  | (float) "m = Fault Assert_failed" "list_tag (unread src r) = None" "float_byte (unread src r)"
  using assms unfolding parsed_tag_def
proof (elim disjE exE conjE)
  fix count tag r'
  assume r': "m = Ret ((count, tag), r')" "reader_ok src r'" "same_source r r'"
    "if rerror r' = mpack_ok
         then 0 < count \<and> count \<le> length (buffered r') \<and> unread src r' = unread src r \<and>
           list_tag (unread src r) = Some (tag, drop count (unread src r))
         else count = 0 \<and> (steady src r \<longrightarrow> list_tag (unread src r) = None)"
  show ?thesis
  proof (cases "rerror r' = mpack_ok")
    case True
    then show ?thesis using ok [OF r'(1-3) True] r'(4) by simp
  next
    case False
    then show ?thesis using err [of tag r'] r' by simp
  qed
qed (rule float)

text \<open>The contract of an operation that reads: the parser \<open>p\<close> on a reader without error, and \<open>d\<close> on one with.\<close>

locale reader_op =
  fixes op :: "('s, 'a) read_op" and d :: 'a and p :: "'a list_parser"
  assumes live: "reader_ok src r \<Longrightarrow> rerror r = mpack_ok \<Longrightarrow> yields src r p (op r)"
    and dead: "rerror r \<noteq> mpack_ok \<Longrightarrow> op r = Ret (d, r)"
begin

lemma gives_up_dead: "reader_ok src r \<Longrightarrow> rerror r \<noteq> mpack_ok \<Longrightarrow> gives_up src r (op r)"
  by (simp add: dead gives_upI)

text \<open>What the parser accepts, the operation reads from a steady source.\<close>

lemma reads:
  assumes "reader_ok src r" "rerror r = mpack_ok" "steady src r" "p (unread src r) = Some (x, s)"
  obtains r' where "op r = Ret (x, r')" "reader_ok src r'" "same_source r r'" "rerror r' = mpack_ok"
    "unread src r' = s" "steady src r'"
  using live [OF assms(1,2)]
proof (cases rule: yieldsE)
  case (ok x' r' c)
  then show ?thesis using that [of r'] assms(3,4) same_source_steady [OF ok(3)] by simp
qed (use assms in auto)

text \<open>What it reads without an error, the parser accepts, whatever the source does.\<close>

lemma read_only_if:
  assumes "reader_ok src r" "rerror r = mpack_ok" "op r = Ret (x, r')" "rerror r' = mpack_ok"
  shows "p (unread src r) = Some (x, unread src r')"
  using live [OF assms(1,2)] assms(3,4) by (auto simp: yields_def)

text \<open>It stops only at the assertion behind the float types, and leaves an intact reader.\<close>

lemma total:
  assumes "reader_ok src r"
  shows "(\<exists>x r'. op r = Ret (x, r') \<and> reader_ok src r' \<and> same_source r r' \<and>
      (rerror r \<noteq> mpack_ok \<longrightarrow> rerror r' = rerror r)) \<or>
    op r = Fault Assert_failed \<and> float_byte (unread src r)"
proof (cases "rerror r = mpack_ok")
  case True
  from live [OF assms True] show ?thesis by (cases rule: yieldsE) (auto simp: True)
next
  case False
  then show ?thesis using dead assms by auto
qed

end

text \<open>One operation after another.\<close>

locale reader_seq = first: reader_op op d p for op :: "('s, 'a) read_op" and d p +
  fixes op2 :: "'a \<Rightarrow> ('s, 'b) read_op" and d2 :: 'b and q :: "'a \<Rightarrow> 'b list_parser"
  assumes live2: "reader_ok src r \<Longrightarrow> rerror r = mpack_ok \<Longrightarrow> yields src r (q x) (op2 x r)"
    and dead2: "reader_ok src r \<Longrightarrow> rerror r \<noteq> mpack_ok \<Longrightarrow> gives_up src r (op2 x r)"
    and dead_first: "rerror r \<noteq> mpack_ok \<Longrightarrow> op2 d r = Ret (d2, r)"

sublocale reader_seq \<subseteq> seq: reader_op "\<lambda>r. and_then (op r) (\<lambda>(x, r). op2 x r)" d2 "then_parse p q"
proof
  show "yields src r (then_parse p q) (and_then (op r) (\<lambda>(x, r). op2 x r))"
    if "reader_ok src r" "rerror r = mpack_ok" for src r
    by (rule yields_then [OF first.live [OF that]]) (simp_all add: live2 dead2)
  show "and_then (op r) (\<lambda>(x, r). op2 x r) = Ret (d2, r)" if "rerror r \<noteq> mpack_ok" for r
    using that by (simp add: first.dead dead_first)
qed

interpretation read_tag: reader_op mpack_read_tag Tag_nil list_tag
proof
  fix src and r :: "'s mpack_reader"
  assume r: "reader_ok src r" "rerror r = mpack_ok"
  from parse_tag_parsed [OF r] show "yields src r list_tag (mpack_read_tag r)"
  proof (cases rule: parsed_tagE)
    case (ok count tag r')
    note moved = advance_ok [OF ok(2,6,4)]
    have "mpack_read_tag r = Ret (tag, r'\<lparr>rdata := rdata r' + count\<rparr>)"
      using r(2) ok(1,5) by (simp add: mpack_read_tag_def)
    moreover have "unread src r = take count (unread src r) @ drop count (unread src r)" by simp
    ultimately show ?thesis
      using moved ok(4,7,8) same_source_trans [OF ok(3) moved(3)]
      by (auto intro!: yields_ok [where c = "take count (unread src r)"])
  next
    case (err tag r')
    then show ?thesis using r(2) by (simp add: mpack_read_tag_def yields_err)
  next
    case float
    then show ?thesis using r(2) by (simp add: mpack_read_tag_def yields_def)
  qed
qed (simp add: mpack_read_tag_def tag_make_defs)

interpretation peek_tag: reader_op mpack_peek_tag Tag_nil list_peek
proof
  fix src and r :: "'s mpack_reader"
  assume r: "reader_ok src r" "rerror r = mpack_ok"
  from parse_tag_parsed [OF r] show "yields src r list_peek (mpack_peek_tag r)"
  proof (cases rule: parsed_tagE)
    case (ok count tag r')
    then show ?thesis
      using r(2) by (auto simp: mpack_peek_tag_def list_peek_def intro!: yields_ok [where c = "[]"])
  next
    case (err tag r')
    then show ?thesis using r(2) by (simp add: mpack_peek_tag_def list_peek_def yields_err)
  next
    case float
    then show ?thesis using r(2) by (simp add: mpack_peek_tag_def list_peek_def yields_def)
  qed
qed (simp add: mpack_peek_tag_def tag_make_defs)

subsection \<open>Skipping and discarding\<close>

definition unit_result :: "'s mpack_reader outcome \<Rightarrow> (unit \<times> 's mpack_reader) outcome" where
  "unit_result m = and_then m (\<lambda>r. Ret ((), r))"

lemma unit_result_Ret [simp]: "unit_result (Ret r) = Ret ((), r)"
  by (simp add: unit_result_def)

lemma unit_result_then: "unit_result (and_then m f) = and_then m (\<lambda>x. unit_result (f x))"
  by (simp add: unit_result_def and_then_assoc)

lemma and_then_unit: "and_then m f = and_then (unit_result m) (\<lambda>(_, r). f r)"
  by (cases m) (simp_all add: unit_result_def)

interpretation skip_bytes: reader_op "\<lambda>r. unit_result (mpack_skip_bytes n r)" "()" "list_skip n" for n
proof
  fix src and r :: "'s mpack_reader"
  assume r: "reader_ok src r" "rerror r = mpack_ok"
  obtain r' where r': "mpack_skip_bytes n r = Ret r'" "moved_over src n r r'"
    using skip_bytes_spec [OF r] by blast
  show "yields src r (list_skip n) (unit_result (mpack_skip_bytes n r))"
  proof (cases "rerror r' = mpack_ok")
    case True
    then show ?thesis
      using r' by (auto simp: moved_over_def list_skip_def intro!: yields_ok [where c = "take n (unread src r)"])
  next
    case False
    then show ?thesis using r' by (auto simp: moved_over_def list_skip_def intro!: yields_err)
  qed
qed simp

lemma discard_sticky: "rerror r \<noteq> mpack_ok \<Longrightarrow> mpack_discard (Suc fuel) r = Ret r"
  by (simp add: read_tag.dead)

lemma items_yield:
  assumes "reader_ok src r" "rerror r = mpack_ok" "length (unread src r) \<le> bound"
    "\<And>r. reader_ok src r \<Longrightarrow> rerror r = mpack_ok \<Longrightarrow> length (unread src r) \<le> bound \<Longrightarrow>
       yields src r p (unit_result (f r))"
  shows "yields src r (list_items p k) (unit_result (discard_items f k r))"
  using assms(1-3)
proof (induction k arbitrary: r)
  case 0
  then show ?case by (auto intro!: yields_ok [where c = "[]"])
next
  case (Suc k)
  note step = assms(4) [OF Suc.prems]
  have "yields src r (then_parse p (\<lambda>_. list_items p k))
      (and_then (unit_result (f r)) (\<lambda>(_, r). unit_result (if rerror r \<noteq> mpack_ok then Ret r else discard_items f k r)))"
  proof (rule yields_then [OF step], goal_cases)
    case (1 x r')
    then show ?case using Suc.IH [OF 1(1,3)] Suc.prems(3) by simp
  next
    case (2 x r')
    then show ?case by (simp add: gives_upI)
  qed
  then show ?case by (simp add: unit_result_then and_then_unit [of "f r"] case_prod_beta')
qed

lemma list_tag_shorter: "list_tag s = Some (t, s') \<Longrightarrow> length s' < length s"
  by (cases s) (auto split: tag_layout.splits if_splits)

lemma discard_yields:
  assumes "reader_ok src r" "rerror r = mpack_ok" "length (unread src r) < fuel"
  shows "yields src r (list_discard fuel) (unit_result (mpack_discard fuel r))"
  using assms
proof (induction fuel arbitrary: r)
  case (Suc fuel)
  have pair: "yields src r (then_parse (list_discard fuel) (\<lambda>_. list_discard fuel))
      (unit_result (and_then (mpack_discard fuel r) (mpack_discard fuel)))"
    if "reader_ok src r" "rerror r = mpack_ok" "length (unread src r) < fuel" for r
  proof -
    note step = Suc.IH [OF that]
    have "yields src r (then_parse (list_discard fuel) (\<lambda>_. list_discard fuel))
      (and_then (unit_result (mpack_discard fuel r)) (\<lambda>(_, r). unit_result (mpack_discard fuel r)))"
    proof (rule yields_then [OF step], goal_cases)
      case (1 x r')
      then show ?case using Suc.IH [OF 1(1,3)] that(3) by simp
    next
      case (2 x r')
      then show ?case using that(3) discard_sticky [OF 2(3)] by (cases fuel) (simp_all add: gives_upI)
    qed
    then show ?thesis by (simp add: unit_result_then and_then_unit [of "mpack_discard fuel r"] case_prod_beta')
  qed
  show ?case
    unfolding mpack_discard.simps list_discard.simps unit_result_then case_prod_beta'
    unfolding case_prod_beta' [symmetric] 
  proof (rule yields_then [OF read_tag.live [OF Suc.prems(1,2)]], goal_cases)
    case (1 var r')
    have "length (unread src r') < length (unread src r)" using list_tag_shorter [OF 1(4)] .
    then have short: "length (unread src r') \<le> fuel - 1" "0 < fuel" using Suc.prems(3) by simp_all
    have items: "yields src r' (list_items (list_discard fuel) k) (unit_result (discard_items (mpack_discard fuel) k r'))"
      "yields src r' (list_items (then_parse (list_discard fuel) (\<lambda>_. list_discard fuel)) k)
        (unit_result (discard_items (\<lambda>r. and_then (mpack_discard fuel r) (mpack_discard fuel)) k r'))" for k
      using items_yield [OF 1(1,3) short(1)] Suc.IH pair short(2) by fastforce+
    show ?case
      using 1(1,3) items skip_bytes.live [OF 1(1,3)]
      by (cases var) (auto intro!: yields_ok [where c = "[]"])
  next
    case (2 var r')
    then show ?case by (simp add: gives_upI)
  qed
qed simp

end
