(* ===== verification/Mpack_Read_Encodings.thy ===== *)
theory Mpack_Read_Encodings
  imports Mpack_Read_Facts
begin

text \<open>
  Reading what a writer has written: the tag of an encoded value, and the discarding of one. The
  properties of the raw reader follow.
\<close>

subsection \<open>Encodings read back\<close>

fun value_tag :: "msgpack \<Rightarrow> mpack_tag" where
  "value_tag Msg_nil = Tag_nil"
| "value_tag (Msg_bool b) = Tag_bool b"
| "value_tag (Msg_int i) = (if 0 \<le> i then Tag_uint (word_of_int i) else Tag_int (word_of_int i))"
| "value_tag (Msg_str s) = Tag_str (word_of_nat (length s))"
| "value_tag (Msg_bin s) = Tag_bin (word_of_nat (length s))"
| "value_tag (Msg_array vs) = Tag_array (word_of_nat (length vs))"
| "value_tag (Msg_map kvs) = Tag_map (word_of_nat (length kvs))"

fun value_body :: "msgpack \<Rightarrow> bytes" where
  "value_body (Msg_str s) = s"
| "value_body (Msg_bin s) = s"
| "value_body (Msg_array vs) = concat (map msgpack_encode vs)"
| "value_body (Msg_map kvs) = concat (map (\<lambda>(k, v). msgpack_encode k @ msgpack_encode v) kvs)"
| "value_body _ = []"

lemma list_tag_field:
  "tag_layout b = Field n f \<Longrightarrow> f (be_bytes n i) = t \<Longrightarrow> list_tag (b # be_bytes n i @ rest) = Some (t, rest)"
  by simp

lemma word_reads:
  "ucast (word_of_int i :: u8) = (word_of_int (i mod 2 ^ 8) :: 'a::len word)"
  "ucast (word_of_int j :: u16) = (word_of_int (j mod 2 ^ 16) :: 'a::len word)"
  "ucast (word_of_int k :: u32) = (word_of_int (k mod 2 ^ 32) :: 'a::len word)"
  by (simp_all add: ucast_eq unsigned_of_int take_bit_eq_mod)

lemma nat_reads:
  "ucast (word_of_nat n :: u8) = (word_of_nat (n mod 2 ^ 8) :: 'a::len word)"
  "ucast (word_of_nat n :: u16) = (word_of_nat (n mod 2 ^ 16) :: 'a::len word)"
proof -
  have "int n mod 2 ^ k = int (n mod 2 ^ k)" for k by (simp add: zmod_int)
  then show "ucast (word_of_nat n :: u8) = (word_of_nat (n mod 2 ^ 8) :: 'a::len word)"
    "ucast (word_of_nat n :: u16) = (word_of_nat (n mod 2 ^ 16) :: 'a::len word)"
    using word_reads(1,2) [of "int n", where 'a = 'a] by (simp_all only: of_int_of_nat_eq)
qed

lemma unat_len: "n < 2 ^ 32 \<Longrightarrow> unat (word_of_nat n :: u32) = n"
  by (simp add: unsigned_of_nat take_bit_nat_eq_self)

lemma scast_reads:
  "- 128 \<le> i \<Longrightarrow> i < 128 \<Longrightarrow> scast (word_of_int i :: u8) = (word_of_int i :: 'a::len word)"
  "- 32768 \<le> i \<Longrightarrow> i < 32768 \<Longrightarrow> scast (word_of_int i :: u16) = (word_of_int i :: 'a::len word)"
  "- 2147483648 \<le> i \<Longrightarrow> i < 2147483648 \<Longrightarrow> scast (word_of_int i :: u32) = (word_of_int i :: 'a::len word)"
  by (simp_all only: scast_eq) (simp_all add: sint_of_int_range)

lemma list_tag_int:
  assumes "representable (Msg_int i)"
  shows "list_tag (msgpack_int i @ rest) = Some (value_tag (Msg_int i), rest)"
proof -
  consider "- 32 \<le> i" "i < 0" | "0 \<le> i" "i \<le> 127" | "127 < i" "i \<le> 255" | "255 < i" "i \<le> 65535"
    | "65535 < i" "i \<le> 4294967295" | "4294967295 < i"
    | "i < - 32" "- 128 \<le> i" | "i < - 128" "- 32768 \<le> i"
    | "i < - 32768" "- 2147483648 \<le> i" | "i < - 2147483648"
    by linarith
  then show ?thesis
  proof cases
    case 1
    let ?b = "word_of_int i :: u8"
    have s: "sint ?b = i" using 1 by (simp add: sint_of_int_range)
    have "uint ?b = i mod 256" by (simp add: unsigned_of_int take_bit_eq_mod)
    then have "224 \<le> uint ?b" using 1 by presburger
    then have "224 \<le> unat ?b" unfolding unat_eq_nat_uint by linarith
    then have "tag_layout ?b = Whole (Tag_int (scast ?b))" by (simp add: tag_layout_def byte_nat)
    moreover have "scast ?b = (word_of_int i :: u64)"
      by (simp only: scast_eq s)
    ultimately show ?thesis using 1 by (simp add: msgpack_int_def hd_be_bytes)
  next
    case 2
    let ?b = "word_of_int i :: u8"
    have u: "uint ?b = i" using 2 by (simp add: word_of_int_range)
    then have "unat ?b \<le> 127" using 2 unfolding unat_eq_nat_uint by linarith
    then have "tag_layout ?b = Whole (Tag_uint (ucast ?b))" by (simp add: tag_layout_def byte_nat)
    moreover have "ucast ?b = (word_of_int i :: u64)" by (simp only: ucast_eq u)
    ultimately show ?thesis using 2 by (simp add: msgpack_int_def hd_be_bytes)
  qed (use assms in \<open>simp_all add: msgpack_int_def tag_layout_def read_back word_reads scast_reads\<close>)
qed

lemma fix_headers:
  assumes "unat b = base + n"
  shows "n \<le> 31 \<Longrightarrow> base = 160 \<Longrightarrow> tag_layout b = Whole (Tag_str (word_of_nat n))"
    and "n \<le> 15 \<Longrightarrow> base = 144 \<Longrightarrow> tag_layout b = Whole (Tag_array (word_of_nat n))"
    and "n \<le> 15 \<Longrightarrow> base = 128 \<Longrightarrow> tag_layout b = Whole (Tag_map (word_of_nat n))"
proof -
  have eq: "(w :: u32) = word_of_nat n" if "unat w = n" for w using that by auto
  show "tag_layout b = Whole (Tag_str (word_of_nat n))" if "n \<le> 31" "base = 160"
  proof -
    have "(ucast b AND NOT 0xE0 :: u32) = word_of_nat n"
      by (rule eq) (unfold payload_bits(1) assms that(2), rule fix_mods(1) [OF that(1)])
    then show ?thesis using that assms by (simp add: tag_layout_def byte_nat)
  qed
  show "tag_layout b = Whole (Tag_array (word_of_nat n))" if "n \<le> 15" "base = 144"
  proof -
    have "(ucast b AND NOT 0xF0 :: u32) = word_of_nat n"
      by (rule eq) (unfold payload_bits(2) assms that(2), rule fix_mods(2) [OF that(1)])
    then show ?thesis using that assms by (simp add: tag_layout_def byte_nat)
  qed
  show "tag_layout b = Whole (Tag_map (word_of_nat n))" if "n \<le> 15" "base = 128"
  proof -
    have "(ucast b AND NOT 0xF0 :: u32) = word_of_nat n"
      by (rule eq) (unfold payload_bits(2) assms that(2), rule fix_mods(3) [OF that(1)])
    then show ?thesis using that assms by (simp add: tag_layout_def byte_nat)
  qed
qed

lemma list_tag_headers:
  assumes "n < 2 ^ 32"
  shows "list_tag (msgpack_str_header (int n) @ rest) = Some (Tag_str (word_of_nat n), rest)"
    and "list_tag (msgpack_bin_header (int n) @ rest) = Some (Tag_bin (word_of_nat n), rest)"
    and "list_tag (msgpack_array_header (int n) @ rest) = Some (Tag_array (word_of_nat n), rest)"
    and "list_tag (msgpack_map_header (int n) @ rest) = Some (Tag_map (word_of_nat n), rest)"
proof -
  have n: "n < 4294967296" using assms by simp
  have small: "list_tag (fix_tag base (int n) @ rest) = Some (t, rest)"
    if "0 \<le> base" "base + int n < 256" "\<And>b. unat b = nat base + n \<Longrightarrow> tag_layout b = Whole t" for base t
    using fix_tag_byte [of base "int n"] that by (auto simp: nat_add_distrib)
  show "list_tag (msgpack_str_header (int n) @ rest) = Some (Tag_str (word_of_nat n), rest)"
  proof (cases "n \<le> 31")
    case True
    then show ?thesis
      by (simp add: msgpack_str_header_def) (rule small, use fix_headers(1) [of _ 160 n] in auto)
  qed (use n in \<open>simp add: msgpack_str_header_def tag_layout_def read_back nat_reads\<close>)
  show "list_tag (msgpack_bin_header (int n) @ rest) = Some (Tag_bin (word_of_nat n), rest)"
    using n by (simp add: msgpack_bin_header_def tag_layout_def read_back nat_reads)
  show "list_tag (msgpack_array_header (int n) @ rest) = Some (Tag_array (word_of_nat n), rest)"
  proof (cases "n \<le> 15")
    case True
    then show ?thesis
      by (simp add: msgpack_array_header_def) (rule small, use fix_headers(2) [of _ 144 n] in auto)
  qed (use n in \<open>simp add: msgpack_array_header_def tag_layout_def read_back nat_reads\<close>)
  show "list_tag (msgpack_map_header (int n) @ rest) = Some (Tag_map (word_of_nat n), rest)"
  proof (cases "n \<le> 15")
    case True
    then show ?thesis
      by (simp add: msgpack_map_header_def) (rule small, use fix_headers(3) [of _ 128 n] in auto)
  qed (use n in \<open>simp add: msgpack_map_header_def tag_layout_def read_back nat_reads\<close>)
qed

lemma list_tag_encode:
  assumes "representable v"
  shows "list_tag (msgpack_encode v @ rest) = Some (value_tag v, value_body v @ rest)"
proof (cases v)
  case (Msg_int i)
  then show ?thesis using list_tag_int [of i rest] assms by simp
qed (use assms list_tag_headers in \<open>auto simp: msgpack_bool_def tag_layout_def\<close>)

lemma list_items_encode:
  "(\<And>v s. v \<in> set vs \<Longrightarrow> p (e v @ s) = Some ((), s)) \<Longrightarrow>
     list_items p (length vs) (concat (map e vs) @ rest) = Some ((), rest)"
  by (induction vs) (simp_all add: then_parse_def)

text \<open>Discarding an encoded value moves over exactly its encoding.\<close>

lemma list_discard_encode:
  "representable v \<Longrightarrow> depth v < fuel \<Longrightarrow> list_discard fuel (msgpack_encode v @ rest) = Some ((), rest)"
proof (induction fuel arbitrary: v rest)
  case (Suc fuel)
  have child: "list_discard fuel (msgpack_encode x @ s) = Some ((), s)" if "x \<in> set (children v)" for x s
  proof -
    have "children v \<noteq> []" using that by auto
    then have "depth x < fuel"
      using Suc.prems(2) list_max_le [of "depth x" "map depth (children v)"] that depth_children [of v] by auto
    moreover have "representable x"
      using representable_children [OF Suc.prems(1)] that by (auto simp: list_all_iff)
    ultimately show ?thesis by (blast intro: Suc.IH)
  qed
  show ?case
  proof (cases v)
    case (Msg_array vs)
    then show ?thesis
      using Suc.prems(1) list_tag_encode [OF Suc.prems(1), of rest]
        list_items_encode [of vs "list_discard fuel" msgpack_encode rest] child
      by (simp add: then_parse_def unat_len)
  next
    case (Msg_map kvs)
    have "then_parse (list_discard fuel) (\<lambda>_. list_discard fuel) ((\<lambda>(k, v). msgpack_encode k @ msgpack_encode v) x @ s)
        = Some ((), s)" if "x \<in> set kvs" for x s
      using that child [of "fst x"] child [of "snd x"] Msg_map by (force simp: then_parse_def split_def)
    then show ?thesis
      using Suc.prems(1) list_tag_encode [OF Suc.prems(1), of rest] Msg_map
        list_items_encode [of kvs "then_parse (list_discard fuel) (\<lambda>_. list_discard fuel)"
          "\<lambda>(k, v). msgpack_encode k @ msgpack_encode v" rest]
      by (simp add: then_parse_def unat_len)
  qed (use Suc.prems(1) list_tag_encode [OF Suc.prems(1), of rest] in
      \<open>simp_all add: then_parse_def list_skip_def unat_len\<close>)
qed simp

subsection \<open>Readers in front of a value\<close>

definition at_value :: "('s \<Rightarrow> bytes) \<Rightarrow> msgpack \<Rightarrow> bytes \<Rightarrow> 's mpack_reader \<Rightarrow> bool" where
  "at_value src v rest r \<longleftrightarrow> reader_ok src r \<and> rerror r = mpack_ok \<and> steady src r \<and> representable v \<and>
     unread src r = msgpack_encode v @ rest"

lemma at_valueD:
  assumes "at_value src v rest r"
  shows "reader_ok src r" "rerror r = mpack_ok" "steady src r" "representable v"
    "unread src r = msgpack_encode v @ rest" "list_tag (unread src r) = Some (value_tag v, value_body v @ rest)"
  using assms list_tag_encode [of v rest] by (simp_all add: at_value_def)

lemma discard_at_value:
  assumes "at_value src v rest r" "length (unread src r) < fuel"
  obtains r' where "mpack_discard fuel r = Ret r'" "reader_ok src r'" "same_source r r'" "rerror r' = mpack_ok"
    "unread src r' = rest"
proof -
  note v = at_valueD [OF assms(1)]
  have fuel: "depth v < fuel" using depth_less_length [of v] assms(2) v(5) by simp
  show ?thesis
    using discard_yields [OF v(1,2) assms(2)]
  proof (cases rule: yieldsE)
    case (ok x r' c)
    have "mpack_discard fuel r = Ret r'" using ok(1) by (cases "mpack_discard fuel r") (simp_all add: unit_result_def)
    then show ?thesis using that ok(2-5) list_discard_encode [OF v(4) fuel, of rest] v(5) by simp
  qed (use v(3,5) list_discard_encode [OF v(4) fuel, of rest] in simp_all)
qed

lemma peek_at_value:
  assumes "at_value src v rest r"
  obtains r' where "mpack_peek_tag r = Ret (value_tag v, r')" "same_source r r'" "at_value src v rest r'"
proof -
  note v = at_valueD [OF assms]
  have "list_peek (unread src r) = Some (value_tag v, unread src r)" using v(6) by (simp add: list_peek_def)
  from peek_tag.reads [OF v(1-3) this] show ?thesis
    using that v(4,5) by (auto simp: at_value_def)
qed

text \<open>A source that delivers its bytes in pieces, read through a buffer of 32 bytes.\<close>

definition piecewise :: "nat \<Rightarrow> bytes mpack_reader_fill" where
  "piecewise k s n = (Some (take (min k n) s), mpack_ok, drop (min k n) s)"

definition piecewise_reader :: "nat \<Rightarrow> bytes \<Rightarrow> bytes mpack_reader" where
  "piecewise_reader k s =
     zeroed_reader s\<lparr>robj := replicate 32 0, rhas_buffer := True, rsize := 32, rfill := Some (piecewise k)\<rparr>"

lemma piecewise_reader_ok:
  assumes "0 < k"
  shows "reader_ok id (piecewise_reader k s)" "rerror (piecewise_reader k s) = mpack_ok"
    "steady id (piecewise_reader k s)" "unread id (piecewise_reader k s) = s"
proof -
  have "fills id (piecewise k)" by (auto simp: fills_def piecewise_def)
  then show "reader_ok id (piecewise_reader k s)"
    by (simp add: reader_ok_def piecewise_reader_def zeroed_reader_def MPACK_READER_MINIMUM_BUFFER_SIZE_def SIZE_MAX_def)
  have "\<exists>b bs. take (min k n) s = b # bs" if "0 < n" "s \<noteq> []" for n and s :: bytes
    using that assms by (cases "take (min k n) s") auto
  then show "steady id (piecewise_reader k s)"
    by (auto simp: steady_def piecewise_reader_def zeroed_reader_def piecewise_def)
qed (simp_all add: piecewise_reader_def zeroed_reader_def unread_def buffered_def)

lemma at_value_piecewise:
  "0 < k \<Longrightarrow> representable v \<Longrightarrow> at_value id v rest (piecewise_reader k (msgpack_encode v @ rest))"
  by (simp add: at_value_def piecewise_reader_ok)

text \<open>
  C30. The raw reads follow the bytes that a reader has still to deliver, whatever pieces the fill
  callback delivers them in: a read into the caller's memory copies the next bytes and moves over
  them, a skip moves over them, a read in place points to them. An operation that fails flags an error,
  and a steady source lets it fail only when there are too few bytes, or, in place, when the buffer is
  too small.
\<close>

theorem raw_reads_follow_stream:
  assumes "reader_ok src r" "count \<le> length p"
  shows "read_into src p count r (mpack_read_bytes (Some p) count r) \<and>
    (rerror r = mpack_ok \<longrightarrow>
      (\<exists>r'. mpack_skip_bytes count r = Ret r' \<and> moved_over src count r r') \<and>
      (\<exists>str r'. mpack_read_bytes_inplace count r = Ret (str, r') \<and> reader_ok src r' \<and> same_source r r' \<and>
        (if rerror r' = mpack_ok
         then count \<le> length (unread src r) \<and> unread src r' = drop count (unread src r) \<and>
           (\<exists>q. str = Some q \<and> load_at count id (robj r') q = Ret (take count (unread src r)))
         else str = None \<and>
           (steady src r \<longrightarrow> length (unread src r) < count \<or> rfill r \<noteq> None \<and> rsize r < count))))"
  using read_native_spec [OF assms] skip_bytes_spec [OF assms(1), of count]
    read_bytes_inplace_spec [OF assms(1), of count]
  by (auto simp: mpack_read_bytes_def with_dest_def)

theorem raw_reads_follow_stream_witness:
  "\<exists>r'. mpack_read_bytes (Some [0, 0, 0, 9]) 3 (piecewise_reader 2 [1, 2, 3, 4, 5]) = Ret ([1, 2, 3, 9], r') \<and>
     unread id r' = [4, 5]"
proof -
  note r = piecewise_reader_ok [of 2 "[1, 2, 3, 4, 5]"]
  have "read_into id [0, 0, 0, 9] 3 (piecewise_reader 2 [1, 2, 3, 4, 5])
    (mpack_read_bytes (Some [0, 0, 0, 9]) 3 (piecewise_reader 2 [1, 2, 3, 4, 5]))"
    using raw_reads_follow_stream [of id "piecewise_reader 2 [1, 2, 3, 4, 5]" 3 "[0, 0, 0, 9]"] r by simp
  then obtain p' r' where r': "mpack_read_bytes (Some [0, 0, 0, 9]) 3 (piecewise_reader 2 [1, 2, 3, 4, 5]) = Ret (p', r')"
    "length p' = 4" "drop 3 p' = [9]" "take 3 p' @ unread id r' = [1, 2, 3, 4, 5]"
    using r by (auto simp: read_into_def split: if_splits)
  moreover have "take 3 p' = [1, 2, 3]" "unread id r' = [4, 5]"
    using r'(2,4) append_eq_append_conv [of "take 3 p'" "[1, 2, 3]" "unread id r'" "[4, 5]"] by simp_all
  moreover have "p' = take 3 p' @ drop 3 p'" by simp
  ultimately show ?thesis by (metis append_Cons append_Nil)
qed

text \<open>
  C16. On a well-formed reader without an error, \<open>mpack_discard\<close> with more fuel than there are bytes to
  come either returns, with the reader well-formed and its source intact, or stops at the assertion behind
  the float types, the latter only when one of these bytes can be the tag of a float; in front of the
  encoding of a value it returns without an error and has moved over exactly this encoding, whatever the
  value contains.
\<close>

theorem discard_moves_over_value:
  assumes "reader_ok src r" "rerror r = mpack_ok" "length (unread src r) < fuel"
  shows "((\<exists>r'. mpack_discard fuel r = Ret r' \<and> reader_ok src r' \<and> same_source r r') \<or>
      mpack_discard fuel r = Fault Assert_failed \<and> float_byte (unread src r)) \<and>
    (\<forall>v rest. at_value src v rest r \<longrightarrow>
      (\<exists>r'. mpack_discard fuel r = Ret r' \<and> rerror r' = mpack_ok \<and> unread src r' = rest))"
proof (intro conjI allI impI)
  show "(\<exists>r'. mpack_discard fuel r = Ret r' \<and> reader_ok src r' \<and> same_source r r') \<or>
      mpack_discard fuel r = Fault Assert_failed \<and> float_byte (unread src r)"
    using discard_yields [OF assms]
    by (cases "mpack_discard fuel r"; cases rule: yieldsE) (auto simp: unit_result_def)
  show "\<exists>r'. mpack_discard fuel r = Ret r' \<and> rerror r' = mpack_ok \<and> unread src r' = rest"
    if "at_value src v rest r" for v rest
    by (rule discard_at_value [OF that assms(3)]) blast
qed

theorem discard_moves_over_value_witness:
  "\<exists>r'. mpack_discard 10 (piecewise_reader 2 [0x92, 5, 0xA1, 65, 7, 8]) = Ret r' \<and> unread id r' = [7, 8]"
proof -
  let ?v = "Msg_array [Msg_int 5, Msg_str [65]]"
  have "representable ?v" by simp
  from at_value_piecewise [OF _ this, of 2 "[7, 8]"]
  have "at_value id ?v [7, 8] (piecewise_reader 2 [0x92, 5, 0xA1, 65, 7, 8])"
    by (simp add: msgpack_array_header_def msgpack_int_def msgpack_str_header_def be_bytes_def fix_tag_def)
  then show ?thesis
    using discard_moves_over_value [OF piecewise_reader_ok(1,2), of 2 "[0x92, 5, 0xA1, 65, 7, 8]" 10]
    by (auto simp: piecewise_reader_ok(4))
qed

end
