(* ===== verification/Mpack_Expect.thy ===== *)
theory Mpack_Expect
  imports Mpack_Read_Encodings
begin

text \<open>
  The expect API (\<open>mpack.c\<close>, \<open>mpack.h\<close>): reads of one element that must have a given type, range,
  length or value. The functions \<open>mpack_done_*\<close> are empty without tracking and have no definition
  here. Functions on floats and extension types are compiled out.
\<close>

subsection \<open>Bytes behind the position\<close>

definition expect_native :: "nat \<Rightarrow> (bytes \<Rightarrow> 'a::len word) \<Rightarrow> ('s, 'a word) read_op" where
  "expect_native n f r =
     (if rerror r \<noteq> mpack_ok then Ret (0, r)
      else and_then (mpack_reader_ensure n r) (\<lambda>(enough, r).
        if \<not> enough then Ret (0, r)
        else and_then (load_at n f (robj r) (rdata r)) (\<lambda>v. Ret (v, r\<lparr>rdata := rdata r + n\<rparr>))))"

definition mpack_expect_native_u8 :: "('s, u8) read_op" where
  "mpack_expect_native_u8 = expect_native 1 mpack_load_u8"

definition mpack_expect_native_u16 :: "('s, u16) read_op" where
  "mpack_expect_native_u16 = expect_native 2 mpack_load_u16"

definition mpack_expect_native_u32 :: "('s, u32) read_op" where
  "mpack_expect_native_u32 = expect_native 4 mpack_load_u32"

definition mpack_expect_type_byte :: "('s, u8) read_op" where
  "mpack_expect_type_byte = mpack_expect_native_u8"

text \<open>\<open>mpack_reader_flag_error(reader, e); return d;\<close>\<close>

definition fail_with :: "mpack_error_t \<Rightarrow> 'a \<Rightarrow> ('s, 'a) read_op" where
  "fail_with e d r = Ret (d, mpack_reader_flag_error e r)"

subsection \<open>Numbers\<close>

text \<open>The common shape of the functions on integers of at most 32 bits, and of the signed 64-bit one.\<close>

definition expect_number :: "int \<Rightarrow> int \<Rightarrow> int \<Rightarrow> ('s, 'a::len word) read_op" where
  "expect_number umax imin imax r =
     and_then (mpack_read_tag r) (\<lambda>(var, r).
       case var of
         Tag_uint u \<Rightarrow> if uint u \<le> umax then Ret (ucast u, r) else fail_with mpack_error_type 0 r
       | Tag_int i \<Rightarrow> if sint i \<ge> imin \<and> sint i \<le> imax then Ret (ucast i, r)
                      else fail_with mpack_error_type 0 r
       | _ \<Rightarrow> fail_with mpack_error_type 0 r)"

definition mpack_expect_u8 :: "('s, u8) read_op" where
  "mpack_expect_u8 = expect_number 255 0 255"

definition mpack_expect_u16 :: "('s, u16) read_op" where
  "mpack_expect_u16 = expect_number 65535 0 65535"

definition mpack_expect_u32 :: "('s, u32) read_op" where
  "mpack_expect_u32 = expect_number 4294967295 0 4294967295"

definition mpack_expect_u64 :: "('s, u64) read_op" where
  "mpack_expect_u64 r =
     and_then (mpack_read_tag r) (\<lambda>(var, r).
       case var of
         Tag_uint u \<Rightarrow> Ret (u, r)
       | Tag_int i \<Rightarrow> if sint i \<ge> 0 then Ret (i, r) else fail_with mpack_error_type 0 r
       | _ \<Rightarrow> fail_with mpack_error_type 0 r)"

definition mpack_expect_i8 :: "('s, u8) read_op" where
  "mpack_expect_i8 = expect_number 127 (- 128) 127"

definition mpack_expect_i16 :: "('s, u16) read_op" where
  "mpack_expect_i16 = expect_number 32767 (- 32768) 32767"

definition mpack_expect_i32 :: "('s, u32) read_op" where
  "mpack_expect_i32 = expect_number 2147483647 (- 2147483648) 2147483647"

definition mpack_expect_i64 :: "('s, u64) read_op" where
  "mpack_expect_i64 r =
     and_then (mpack_read_tag r) (\<lambda>(var, r).
       case var of
         Tag_uint u \<Rightarrow> if uint u \<le> 9223372036854775807 then Ret (u, r) else fail_with mpack_error_type 0 r
       | Tag_int i \<Rightarrow> Ret (i, r)
       | _ \<Rightarrow> fail_with mpack_error_type 0 r)"

definition mpack_expect_uint :: "('s, u32) read_op" where
  "mpack_expect_uint = mpack_expect_u32"

definition mpack_expect_int :: "('s, u32) read_op" where
  "mpack_expect_int = mpack_expect_i32"

text \<open>\<open>MPACK_EXPECT_RANGE_IMPL\<close>; \<open>num\<close> reads a word as the type of the function does.\<close>

definition expect_range :: "('s, 'a word) read_op \<Rightarrow> ('a::len word \<Rightarrow> int) \<Rightarrow> 'a word \<Rightarrow> 'a word \<Rightarrow>
    ('s, 'a word) read_op" where
  "expect_range f num min_value max_value r =
     mpack_assert (num min_value \<le> num max_value)
       (and_then (f r) (\<lambda>(val, r).
          if rerror r \<noteq> mpack_ok then Ret (min_value, r)
          else if num val < num min_value \<or> num val > num max_value
          then fail_with mpack_error_type min_value r
          else Ret (val, r)))"

definition mpack_expect_u8_range :: "u8 \<Rightarrow> u8 \<Rightarrow> ('s, u8) read_op" where
  "mpack_expect_u8_range = expect_range mpack_expect_u8 uint"
definition mpack_expect_u16_range :: "u16 \<Rightarrow> u16 \<Rightarrow> ('s, u16) read_op" where
  "mpack_expect_u16_range = expect_range mpack_expect_u16 uint"
definition mpack_expect_u32_range :: "u32 \<Rightarrow> u32 \<Rightarrow> ('s, u32) read_op" where
  "mpack_expect_u32_range = expect_range mpack_expect_u32 uint"
definition mpack_expect_u64_range :: "u64 \<Rightarrow> u64 \<Rightarrow> ('s, u64) read_op" where
  "mpack_expect_u64_range = expect_range mpack_expect_u64 uint"
definition mpack_expect_i8_range :: "u8 \<Rightarrow> u8 \<Rightarrow> ('s, u8) read_op" where
  "mpack_expect_i8_range = expect_range mpack_expect_i8 sint"
definition mpack_expect_i16_range :: "u16 \<Rightarrow> u16 \<Rightarrow> ('s, u16) read_op" where
  "mpack_expect_i16_range = expect_range mpack_expect_i16 sint"
definition mpack_expect_i32_range :: "u32 \<Rightarrow> u32 \<Rightarrow> ('s, u32) read_op" where
  "mpack_expect_i32_range = expect_range mpack_expect_i32 sint"
definition mpack_expect_i64_range :: "u64 \<Rightarrow> u64 \<Rightarrow> ('s, u64) read_op" where
  "mpack_expect_i64_range = expect_range mpack_expect_i64 sint"

definition mpack_expect_uint_range :: "u32 \<Rightarrow> u32 \<Rightarrow> ('s, u32) read_op" where
  "mpack_expect_uint_range = mpack_expect_u32_range"
definition mpack_expect_int_range :: "u32 \<Rightarrow> u32 \<Rightarrow> ('s, u32) read_op" where
  "mpack_expect_int_range = mpack_expect_i32_range"

definition mpack_expect_u8_max :: "u8 \<Rightarrow> ('s, u8) read_op" where
  "mpack_expect_u8_max max_value = mpack_expect_u8_range 0 max_value"
definition mpack_expect_u16_max :: "u16 \<Rightarrow> ('s, u16) read_op" where
  "mpack_expect_u16_max max_value = mpack_expect_u16_range 0 max_value"
definition mpack_expect_u32_max :: "u32 \<Rightarrow> ('s, u32) read_op" where
  "mpack_expect_u32_max max_value = mpack_expect_u32_range 0 max_value"
definition mpack_expect_u64_max :: "u64 \<Rightarrow> ('s, u64) read_op" where
  "mpack_expect_u64_max max_value = mpack_expect_u64_range 0 max_value"
definition mpack_expect_uint_max :: "u32 \<Rightarrow> ('s, u32) read_op" where
  "mpack_expect_uint_max max_value = mpack_expect_uint_range 0 max_value"
definition mpack_expect_i8_max :: "u8 \<Rightarrow> ('s, u8) read_op" where
  "mpack_expect_i8_max max_value = mpack_expect_i8_range 0 max_value"
definition mpack_expect_i16_max :: "u16 \<Rightarrow> ('s, u16) read_op" where
  "mpack_expect_i16_max max_value = mpack_expect_i16_range 0 max_value"
definition mpack_expect_i32_max :: "u32 \<Rightarrow> ('s, u32) read_op" where
  "mpack_expect_i32_max max_value = mpack_expect_i32_range 0 max_value"
definition mpack_expect_i64_max :: "u64 \<Rightarrow> ('s, u64) read_op" where
  "mpack_expect_i64_max max_value = mpack_expect_i64_range 0 max_value"
definition mpack_expect_int_max :: "u32 \<Rightarrow> ('s, u32) read_op" where
  "mpack_expect_int_max max_value = mpack_expect_int_range 0 max_value"

text \<open>\<open>if (f(reader) != value) mpack_reader_flag_error(reader, e);\<close>\<close>

definition expect_equal :: "mpack_error_t \<Rightarrow> ('s, 'a) read_op \<Rightarrow> 'a \<Rightarrow> 's mpack_reader \<Rightarrow> 's mpack_reader outcome" where
  "expect_equal e f value r =
     and_then (f r) (\<lambda>(x, r). Ret (if x \<noteq> value then mpack_reader_flag_error e r else r))"

definition mpack_expect_uint_match :: "u64 \<Rightarrow> 's mpack_reader \<Rightarrow> 's mpack_reader outcome" where
  "mpack_expect_uint_match value = expect_equal mpack_error_type mpack_expect_u64 value"

definition mpack_expect_int_match :: "u64 \<Rightarrow> 's mpack_reader \<Rightarrow> 's mpack_reader outcome" where
  "mpack_expect_int_match value = expect_equal mpack_error_type mpack_expect_i64 value"

subsection \<open>Other basic types\<close>

definition mpack_expect_nil :: "'s mpack_reader \<Rightarrow> 's mpack_reader outcome" where
  "mpack_expect_nil = expect_equal mpack_error_type mpack_expect_type_byte 0xC0"

definition mpack_expect_bool :: "('s, bool) read_op" where
  "mpack_expect_bool r =
     and_then (mpack_expect_type_byte r) (\<lambda>(ty, r).
       Ret (ty AND 1 \<noteq> 0,
            if ty AND NOT 1 \<noteq> 0xC2 then mpack_reader_flag_error mpack_error_type r else r))"

definition mpack_expect_true :: "'s mpack_reader \<Rightarrow> 's mpack_reader outcome" where
  "mpack_expect_true = expect_equal mpack_error_type mpack_expect_bool True"

definition mpack_expect_false :: "'s mpack_reader \<Rightarrow> 's mpack_reader outcome" where
  "mpack_expect_false = expect_equal mpack_error_type mpack_expect_bool False"

definition mpack_expect_tag :: "mpack_tag \<Rightarrow> 's mpack_reader \<Rightarrow> 's mpack_reader outcome" where
  "mpack_expect_tag expected r =
     and_then (mpack_read_tag r) (\<lambda>(actual, r).
       Ret (if \<not> mpack_tag_equal actual expected then mpack_reader_flag_error mpack_error_type r else r))"

subsection \<open>Compound types\<close>

definition mpack_expect_map :: "('s, u32) read_op" where
  "mpack_expect_map r =
     and_then (mpack_read_tag r) (\<lambda>(var, r).
       case var of Tag_map n \<Rightarrow> Ret (n, r) | _ \<Rightarrow> fail_with mpack_error_type 0 r)"

definition mpack_expect_map_range :: "u32 \<Rightarrow> u32 \<Rightarrow> ('s, u32) read_op" where
  "mpack_expect_map_range = expect_range mpack_expect_map uint"

definition mpack_expect_map_max :: "u32 \<Rightarrow> ('s, u32) read_op" where
  "mpack_expect_map_max max_count = mpack_expect_map_range 0 max_count"

definition mpack_expect_map_match :: "u32 \<Rightarrow> 's mpack_reader \<Rightarrow> 's mpack_reader outcome" where
  "mpack_expect_map_match count = expect_equal mpack_error_type mpack_expect_map count"

text \<open>The result holds what is stored to \<open>*count\<close>.\<close>

definition mpack_expect_map_or_nil :: "('s, bool \<times> u32) read_op" where
  "mpack_expect_map_or_nil r =
     and_then (mpack_read_tag r) (\<lambda>(var, r).
       case var of
         Tag_nil \<Rightarrow> Ret ((False, 0), r)
       | Tag_map n \<Rightarrow> Ret ((True, n), r)
       | _ \<Rightarrow> fail_with mpack_error_type (False, 0) r)"

definition max_or_nil :: "('s, bool \<times> u32) read_op \<Rightarrow> u32 \<Rightarrow> ('s, bool \<times> u32) read_op" where
  "max_or_nil f max_count r =
     and_then (f r) (\<lambda>((has, count), r).
       if has \<and> count > max_count then fail_with mpack_error_type (False, 0) r
       else Ret ((has, count), r))"

definition mpack_expect_map_max_or_nil :: "u32 \<Rightarrow> ('s, bool \<times> u32) read_op" where
  "mpack_expect_map_max_or_nil = max_or_nil mpack_expect_map_or_nil"

definition mpack_expect_array :: "('s, u32) read_op" where
  "mpack_expect_array r =
     and_then (mpack_read_tag r) (\<lambda>(var, r).
       case var of Tag_array n \<Rightarrow> Ret (n, r) | _ \<Rightarrow> fail_with mpack_error_type 0 r)"

definition mpack_expect_array_range :: "u32 \<Rightarrow> u32 \<Rightarrow> ('s, u32) read_op" where
  "mpack_expect_array_range = expect_range mpack_expect_array uint"

definition mpack_expect_array_max :: "u32 \<Rightarrow> ('s, u32) read_op" where
  "mpack_expect_array_max max_count = mpack_expect_array_range 0 max_count"

definition mpack_expect_array_match :: "u32 \<Rightarrow> 's mpack_reader \<Rightarrow> 's mpack_reader outcome" where
  "mpack_expect_array_match count = expect_equal mpack_error_type mpack_expect_array count"

definition mpack_expect_array_or_nil :: "('s, bool \<times> u32) read_op" where
  "mpack_expect_array_or_nil r =
     and_then (mpack_read_tag r) (\<lambda>(var, r).
       case var of
         Tag_nil \<Rightarrow> Ret ((False, 0), r)
       | Tag_array n \<Rightarrow> Ret ((True, n), r)
       | _ \<Rightarrow> fail_with mpack_error_type (False, 0) r)"

definition mpack_expect_array_max_or_nil :: "u32 \<Rightarrow> ('s, bool \<times> u32) read_op" where
  "mpack_expect_array_max_or_nil = max_or_nil mpack_expect_array_or_nil"

subsection \<open>Strings and binary data\<close>

definition mpack_expect_str :: "('s, u32) read_op" where
  "mpack_expect_str r =
     and_then (mpack_expect_type_byte r) (\<lambda>(ty, r).
       if drop_bit 5 ty = 5 then Ret (ucast (ty AND NOT 0xE0), r)
       else if ty = 0xD9 then and_then (mpack_expect_native_u8 r) (\<lambda>(n, r). Ret (ucast n, r))
       else if ty = 0xDA then and_then (mpack_expect_native_u16 r) (\<lambda>(n, r). Ret (ucast n, r))
       else if ty = 0xDB then mpack_expect_native_u32 r
       else fail_with mpack_error_type 0 r)"

definition mpack_expect_bin :: "('s, u32) read_op" where
  "mpack_expect_bin r =
     and_then (mpack_read_tag r) (\<lambda>(var, r).
       case var of Tag_bin l \<Rightarrow> Ret (l, r) | _ \<Rightarrow> fail_with mpack_error_type 0 r)"

definition expect_len_max :: "mpack_error_t \<Rightarrow> ('s, u32) read_op \<Rightarrow> u32 \<Rightarrow> ('s, u32) read_op" where
  "expect_len_max e f maxsize r =
     and_then (f r) (\<lambda>(len, r). if len > maxsize then fail_with e 0 r else Ret (len, r))"

definition mpack_expect_str_max :: "u32 \<Rightarrow> ('s, u32) read_op" where
  "mpack_expect_str_max = expect_len_max mpack_error_too_big mpack_expect_str"

definition mpack_expect_bin_max :: "u32 \<Rightarrow> ('s, u32) read_op" where
  "mpack_expect_bin_max = expect_len_max mpack_error_type mpack_expect_bin"

definition mpack_expect_str_length :: "u32 \<Rightarrow> 's mpack_reader \<Rightarrow> 's mpack_reader outcome" where
  "mpack_expect_str_length count = expect_equal mpack_error_type mpack_expect_str count"

definition mpack_expect_bin_size :: "u32 \<Rightarrow> 's mpack_reader \<Rightarrow> 's mpack_reader outcome" where
  "mpack_expect_bin_size count = expect_equal mpack_error_type mpack_expect_bin count"

text \<open>A string or binary into the caller's buffer: the result is the length and the buffer.\<close>

definition expect_buf :: "('s, u32) read_op \<Rightarrow> bytes option \<Rightarrow> nat \<Rightarrow> ('s, nat \<times> bytes) read_op" where
  "expect_buf f buf bufsize r =
     with_dest buf (\<lambda>buf.
       and_then (f r) (\<lambda>(len, r).
         if rerror r \<noteq> mpack_ok then Ret ((0, buf), r)
         else if unat len > bufsize then fail_with mpack_error_too_big (0, buf) r
         else and_then (mpack_read_bytes (Some buf) (unat len) r) (\<lambda>(buf, r).
           if rerror r \<noteq> mpack_ok then Ret ((0, buf), r) else Ret ((unat len, buf), r))))"

definition mpack_expect_str_buf :: "bytes option \<Rightarrow> nat \<Rightarrow> ('s, nat \<times> bytes) read_op" where
  "mpack_expect_str_buf = expect_buf mpack_expect_str"

definition mpack_expect_bin_buf :: "bytes option \<Rightarrow> nat \<Rightarrow> ('s, nat \<times> bytes) read_op" where
  "mpack_expect_bin_buf = expect_buf mpack_expect_bin"

definition mpack_expect_utf8 :: "bytes option \<Rightarrow> nat \<Rightarrow> ('s, nat \<times> bytes) read_op" where
  "mpack_expect_utf8 buf size' r =
     and_then (mpack_expect_str_buf buf size' r) (\<lambda>((len, buf), r).
       if \<not> mpack_utf8_check (take len buf) then fail_with mpack_error_type (0, buf) r
       else Ret ((len, buf), r))"

definition mpack_expect_cstr :: "bytes option \<Rightarrow> nat \<Rightarrow> 's read_bytes" where
  "mpack_expect_cstr buf bufsize r =
     and_then (mpack_expect_str r) (\<lambda>(len, r). mpack_read_cstr buf bufsize (unat len) r)"

definition mpack_expect_utf8_cstr :: "bytes option \<Rightarrow> nat \<Rightarrow> 's read_bytes" where
  "mpack_expect_utf8_cstr buf bufsize r =
     and_then (mpack_expect_str r) (\<lambda>(len, r). mpack_read_utf8_cstr buf bufsize (unat len) r)"

text \<open>
  \<open>mpack_expect_str_match\<close> compares a \<open>uint8_t\<close> with a plain \<open>char\<close>; \<open>signed_char\<close> tells whether plain
  \<open>char\<close> is signed on the target, as it is for gcc on x86 without \<open>-funsigned-char\<close>.
\<close>

definition char_value :: "bool \<Rightarrow> u8 \<Rightarrow> int" where
  "char_value signed_char c = (if signed_char then sint c else uint c)"

fun match_bytes :: "bool \<Rightarrow> bytes \<Rightarrow> nat \<Rightarrow> 's mpack_reader \<Rightarrow> 's mpack_reader outcome" where
  "match_bytes signed_char str 0 r = Ret r"
| "match_bytes signed_char str (Suc len) r =
     and_then (mpack_expect_native_u8 r) (\<lambda>(b, r).
       case str of
         [] \<Rightarrow> Fault Oob_read
       | c # str' \<Rightarrow>
           if uint b \<noteq> char_value signed_char c then Ret (mpack_reader_flag_error mpack_error_type r)
           else match_bytes signed_char str' len r)"

definition mpack_expect_str_match ::
    "bool \<Rightarrow> bytes option \<Rightarrow> nat \<Rightarrow> 's mpack_reader \<Rightarrow> 's mpack_reader outcome" where
  "mpack_expect_str_match signed_char str len r =
     with_dest str (\<lambda>str.
       let r = (if len > 4294967295 then mpack_reader_flag_error mpack_error_type r else r) in
       and_then (mpack_expect_str_length (word_of_nat len) r) (\<lambda>r.
         if rerror r \<noteq> mpack_ok then Ret r else match_bytes signed_char str len r))"

definition mpack_expect_cstr_match ::
    "bool \<Rightarrow> bytes option \<Rightarrow> 's mpack_reader \<Rightarrow> 's mpack_reader outcome" where
  "mpack_expect_cstr_match signed_char cstr r =
     with_dest cstr (\<lambda>s.
       and_then (mpack_strlen s) (\<lambda>len. mpack_expect_str_match signed_char cstr len r))"

subsection \<open>Enumerations and keys\<close>

text \<open>The read of the key in place, its search, and what follows: \<open>finish i r\<close> at the end.\<close>

definition expect_enum_key ::
    "bytes list \<Rightarrow> (nat \<Rightarrow> ('s, nat) read_op) \<Rightarrow> ('s, nat) read_op" where
  "expect_enum_key strings finish r =
     and_then (mpack_expect_str r) (\<lambda>(keylen, r).
     and_then (mpack_read_bytes_inplace (unat keylen) r) (\<lambda>(key, r).
       if rerror r \<noteq> mpack_ok then Ret (length strings, r)
       else case key of
           None \<Rightarrow> Fault Null_deref
         | Some p \<Rightarrow>
             and_then (enum_scan (drop p (robj r)) (unat keylen) strings 0) (\<lambda>i. finish i r)))"

definition mpack_expect_enum :: "bytes list \<Rightarrow> ('s, nat) read_op" where
  "mpack_expect_enum strings =
     expect_enum_key strings (\<lambda>i r.
       if i < length strings then Ret (i, r) else fail_with mpack_error_type (length strings) r)"

definition mpack_expect_enum_optional :: "nat \<Rightarrow> bytes list option \<Rightarrow> nat \<Rightarrow> ('s, nat) read_op" where
  "mpack_expect_enum_optional fuel strings count r =
     (if rerror r \<noteq> mpack_ok then Ret (count, r)
      else mpack_assert (count \<noteq> 0)
        (case strings of
           None \<Rightarrow> Fault Assert_failed
         | Some strings \<Rightarrow>
             and_then (mpack_peek_tag r) (\<lambda>(tag, r).
               if mpack_tag_type tag \<noteq> mpack_type_str
               then and_then (mpack_discard fuel r) (\<lambda>r. Ret (count, r))
               else expect_enum_key (take count strings) (\<lambda>i r. Ret (i, r)) r)))"

definition mpack_expect_key_uint ::
    "nat \<Rightarrow> bool list option \<Rightarrow> nat \<Rightarrow> 's mpack_reader \<Rightarrow> ((nat \<times> bool list option) \<times> 's mpack_reader) outcome" where
  "mpack_expect_key_uint fuel found count r =
     (if rerror r \<noteq> mpack_ok then Ret ((count, found), r)
      else if count = 0 then fail_with mpack_error_bug (count, found) r
      else case found of
          None \<Rightarrow> Fault Assert_failed
        | Some flags \<Rightarrow>
            and_then (mpack_peek_tag r) (\<lambda>(tag, r).
              if mpack_tag_type tag \<noteq> mpack_type_uint
              then and_then (mpack_discard fuel r) (\<lambda>r. Ret ((count, found), r))
              else and_then (mpack_expect_u64 r) (\<lambda>(value', r).
                if rerror r \<noteq> mpack_ok then Ret ((count, found), r)
                else if unat value' \<ge> count then Ret ((count, found), r)
                else if unat value' \<ge> length flags then Fault Oob_read
                else if flags ! unat value' then fail_with mpack_error_invalid (count, found) r
                else Ret ((unat value', Some (flags[unat value' := True])), r))))"

definition mpack_expect_key_cstr ::
    "nat \<Rightarrow> bytes list option \<Rightarrow> bool list option \<Rightarrow> nat \<Rightarrow>
     's mpack_reader \<Rightarrow> ((nat \<times> bool list option) \<times> 's mpack_reader) outcome" where
  "mpack_expect_key_cstr fuel keys found count r =
     and_then (mpack_expect_enum_optional fuel keys count r) (\<lambda>(i, r).
       if i = count then Ret ((count, found), r)
       else case found of
           None \<Rightarrow> Fault Assert_failed
         | Some flags \<Rightarrow>
             if i \<ge> length flags then Fault Oob_read
             else if flags ! i then fail_with mpack_error_invalid (count, found) r
             else Ret ((i, Some (flags[i := True])), r))"

end
