(* ===== verification/Mpack_Expect_Facts.thy ===== *)
theory Mpack_Expect_Facts
  imports Mpack_Expect
begin

text \<open>
  The functions of the expect API as operations that follow parsers of byte lists, and what they
  answer to an encoded value.
\<close>

subsection \<open>Checked results\<close>

definition accept :: "'a list_parser \<Rightarrow> ('a \<Rightarrow> 'b option) \<Rightarrow> 'b list_parser" where
  "accept p g = then_parse p (\<lambda>x s. map_option (\<lambda>y. (y, s)) (g x))"

text \<open>Return what \<open>g\<close> makes of the value, or flag the error \<open>e\<close> and return \<open>d\<close>.\<close>

definition settle :: "mpack_error_t \<Rightarrow> 'b \<Rightarrow> 'b option \<Rightarrow> ('s, 'b) read_op" where
  "settle e d y r = (case y of None \<Rightarrow> fail_with e d r | Some x \<Rightarrow> Ret (x, r))"

lemma settle_simps [simp]:
  "settle e d None r = Ret (d, mpack_reader_flag_error e r)" "settle e d (Some x) r = Ret (x, r)"
  by (simp_all add: settle_def fail_with_def)

text \<open>The replies to an encoded value: accepted with the rest unread, or refused with an error.\<close>

definition replies ::
    "('s \<Rightarrow> bytes) \<Rightarrow> 's mpack_reader \<Rightarrow> mpack_error_t \<Rightarrow> 'a \<Rightarrow> ('a \<times> bytes) option \<Rightarrow>
     ('a \<times> 's mpack_reader) outcome \<Rightarrow> bool" where
  "replies src r e d y m \<longleftrightarrow> (\<exists>r'. reader_ok src r' \<and> same_source r r' \<and>
     (case y of
        None \<Rightarrow> m = Ret (d, r') \<and> rerror r' = e
      | Some (x, s) \<Rightarrow> m = Ret (x, r') \<and> rerror r' = mpack_ok \<and> unread src r' = s))"


locale reader_check = first: reader_op op d p for op :: "('s, 'a) read_op" and d p +
  fixes g :: "'a \<Rightarrow> 'b option" and e and d2 :: 'b
  assumes error: "e \<noteq> mpack_ok" and default: "g d = None \<or> g d = Some d2"
begin

lemma settled:
  assumes "reader_ok src r" "rerror r = mpack_ok"
  shows "yields src r (\<lambda>s. map_option (\<lambda>y. (y, s)) (g x)) (settle e d2 (g x) r)"
proof (cases "g x")
  case None
  then show ?thesis using assms error by (auto intro!: yields_err flag_error_ok)
next
  case (Some y)
  then show ?thesis using assms by (auto intro!: yields_ok [where c = "[]"])
qed

text \<open>The answer to an input of the first operation, with the error.\<close>

lemma answer:
  assumes "reader_ok src r" "rerror r = mpack_ok" "steady src r" "p (unread src r) = Some (x, s)"
  shows "replies src r e d2 (map_option (\<lambda>y. (y, s)) (g x)) (and_then (op r) (\<lambda>(x, r). settle e d2 (g x) r))"
proof -
  obtain r' where "op r = Ret (x, r')" "reader_ok src r'" "same_source r r'" "rerror r' = mpack_ok"
    "unread src r' = s"
    by (rule first.reads [OF assms])
  then show ?thesis
    using flag_error_ok [of src r' e] same_source_trans [OF _ flag_error_source, of r r' e]
    by (cases "g x") (auto simp: replies_def)
qed

end

sublocale reader_check \<subseteq> checked: reader_op "\<lambda>r. and_then (op r) (\<lambda>(x, r). settle e d2 (g x) r)" d2 "accept p g"
proof
  show "yields src r (accept p g) (and_then (op r) (\<lambda>(x, r). settle e d2 (g x) r))"
    if "reader_ok src r" "rerror r = mpack_ok" for src r
    unfolding accept_def
    by (rule yields_then [OF first.live [OF that]])
      (simp_all add: settled, auto simp: settle_def fail_with_def intro: gives_upI split: option.split)
  show "and_then (op r) (\<lambda>(x, r). settle e d2 (g x) r) = Ret (d2, r)" if "rerror r \<noteq> mpack_ok" for r
    using that default by (auto simp: first.dead)
qed

subsection \<open>Numbers\<close>

fun number_value :: "int \<Rightarrow> int \<Rightarrow> int \<Rightarrow> mpack_tag \<Rightarrow> 'a::len word option" where
  "number_value umax imin imax (Tag_uint u) = (if uint u \<le> umax then Some (ucast u) else None)"
| "number_value umax imin imax (Tag_int i) = (if imin \<le> sint i \<and> sint i \<le> imax then Some (ucast i) else None)"
| "number_value umax imin imax _ = None"

lemma expect_number_eq:
  "expect_number umax imin imax =
     (\<lambda>r. and_then (mpack_read_tag r) (\<lambda>(t, r). settle mpack_error_type 0 (number_value umax imin imax t) r))"
  by (auto simp: fun_eq_iff expect_number_def fail_with_def intro!: and_then_cong split: mpack_tag.split)

interpretation number: reader_check mpack_read_tag Tag_nil list_tag "number_value umax imin imax"
    mpack_error_type "0 :: 'a::len word" for umax imin imax
  by unfold_locales simp_all

interpretation expect_number: reader_op "expect_number umax imin imax" 0
    "accept list_tag (number_value umax imin imax)" for umax imin imax
  unfolding expect_number_eq by (rule number.checked.reader_op_axioms)

lemma uint_64: "uint (w :: u64) \<le> 18446744073709551615"
  using uint_lt2p [of w] by simp

lemma sint_64: "- 9223372036854775808 \<le> sint (w :: u64)" "sint (w :: u64) \<le> 9223372036854775807"
  using sint_range_size [of w] by (simp_all add: word_size)

lemma expect_64_eq:
  "mpack_expect_u64 = expect_number 18446744073709551615 0 9223372036854775807"
  "mpack_expect_i64 = expect_number 9223372036854775807 (- 9223372036854775808) 9223372036854775807"
  by (auto simp: fun_eq_iff mpack_expect_u64_def mpack_expect_i64_def expect_number_def uint_64 sint_64
      split: mpack_tag.split intro!: and_then_cong)

text \<open>The integer a value is, when it lies between two bounds.\<close>

definition int_within :: "int \<Rightarrow> int \<Rightarrow> msgpack \<Rightarrow> 'a::len word option" where
  "int_within lo hi v =
     (case v of Msg_int i \<Rightarrow> if lo \<le> i \<and> i \<le> hi then Some (word_of_int i) else None | _ \<Rightarrow> None)"

lemma ucast_word_of_int:
  "LENGTH('a::len) \<le> 64 \<Longrightarrow> ucast (word_of_int i :: u64) = (word_of_int i :: 'a word)"
  by (rule bit_word_eqI) (simp add: bit_unsigned_iff bit_word_of_int_iff)

lemma number_of_value:
  assumes "representable v" "LENGTH('a::len) \<le> 64" "imax < 18446744073709551616" "imin \<le> 0" "0 \<le> imax"
  shows "number_value imax imin (min imax 9223372036854775807) (value_tag v) =
    (int_within imin imax v :: 'a word option)"
proof (cases v)
  case (Msg_int i)
  have r: "- 9223372036854775808 \<le> i" "i < 18446744073709551616" using assms(1) Msg_int by simp_all
  show ?thesis
  proof (cases "0 \<le> i")
    case True
    have "uint (word_of_int i :: u64) = i" using True r by (simp add: word_of_int_range)
    then show ?thesis using True Msg_int assms by (simp add: int_within_def ucast_word_of_int)
  next
    case False
    have "sint (word_of_int i :: u64) = i" using False r by (simp add: sint_of_int_range)
    then show ?thesis using False Msg_int assms by (simp add: int_within_def ucast_word_of_int)
  qed
qed (simp_all add: int_within_def)

definition expects_integer ::
    "('s \<Rightarrow> bytes) \<Rightarrow> msgpack \<Rightarrow> bytes \<Rightarrow> 's mpack_reader \<Rightarrow> int \<Rightarrow> int \<Rightarrow> ('s, 'a::len word) read_op \<Rightarrow> bool" where
  "expects_integer src v rest r lo hi f \<longleftrightarrow>
     replies src r mpack_error_type 0 (map_option (\<lambda>n. (n, rest)) (int_within lo hi v)) (f r)"

lemma expect_number_answer:
  assumes "at_value src v rest r" "LENGTH('a::len) \<le> 64" "hi < 18446744073709551616" "lo \<le> 0" "0 \<le> hi"
    "m = min hi 9223372036854775807"
  shows "expects_integer src v rest r lo hi (expect_number hi lo m :: ('s, 'a word) read_op)"
proof -
  note v = at_valueD [OF assms(1)]
  have "map_option (\<lambda>n. (n, value_body v @ rest)) (int_within lo hi v) =
      map_option (\<lambda>n. (n, rest)) (int_within lo hi v :: 'a word option)"
    by (cases v) (simp_all add: int_within_def)
  then show ?thesis
    using number.answer [OF v(1-3,6), where umax = hi and imin = lo and imax = "min hi 9223372036854775807" and 'a = 'a]
      number_of_value [OF v(4) assms(2-5)]
    by (simp add: expects_integer_def expect_number_eq assms(6))
qed

lemma expect_range_answer:
  assumes "replies src r mpack_error_type d (map_option (\<lambda>x. (x, s)) y) (f r)" "num lo \<le> num hi"
  shows "replies src r mpack_error_type lo
    (map_option (\<lambda>x. (x, s)) (Option.bind y (\<lambda>x. if num lo \<le> num x \<and> num x \<le> num hi then Some x else None)))
    (expect_range f num lo hi r)"
proof (cases y)
  case None
  then show ?thesis using assms by (auto simp: replies_def expect_range_def mpack_assert_def)
next
  case (Some x)
  then obtain r' where r': "reader_ok src r'" "same_source r r'" "f r = Ret (x, r')" "rerror r' = mpack_ok"
    "unread src r' = s"
    using assms(1) by (auto simp: replies_def)
  then show ?thesis
    using assms(2) Some flag_error_ok [OF r'(1)] same_source_trans [OF r'(2) flag_error_source]
    by (auto simp: replies_def expect_range_def fail_with_def mpack_assert_def)
qed

subsection \<open>Single bytes and words\<close>

definition list_word :: "nat \<Rightarrow> (bytes \<Rightarrow> 'a) \<Rightarrow> 'a list_parser" where
  "list_word n f s = (if n \<le> length s then Some (f (take n s), drop n s) else None)"

lemma expect_native_op:
  assumes "0 < n" "n \<le> 32"
  shows "reader_op (expect_native n f) 0 (list_word n f)"
proof
  fix src and r :: "'s mpack_reader"
  assume r: "reader_ok src r" "rerror r = mpack_ok"
  from r assms(1) show "yields src r (list_word n f) (expect_native n f r)"
  proof (cases rule: ensureE)
    case (enough r')
    have "load_at n f (robj r') (rdata r') = Ret (f (take n (unread src r)))"
      using load_buffered [OF enough(2), of 0 n f] enough(5,6) by simp
    then have "expect_native n f r = Ret (f (take n (unread src r)), r'\<lparr>rdata := rdata r' + n\<rparr>)"
      using r(2) enough(1) by (simp add: expect_native_def)
    moreover have "n \<le> length (unread src r)" using enough(5,6) buffered_le [of r' src] by simp
    moreover have "unread src r = take n (unread src r) @ drop n (unread src r)" by simp
    ultimately show ?thesis
      using advance_ok [OF enough(2,6,4)] same_source_trans [OF enough(3)] enough(4,5)
      by (auto simp: list_word_def intro!: yields_ok [where c = "take n (unread src r)"])
  next
    case (short r')
    then show ?thesis
      using r(2) assms(2) reader_size [OF r(1)]
      by (fastforce simp: expect_native_def list_word_def intro!: yields_err)
  qed
qed (simp add: expect_native_def)

interpretation native_u8: reader_op mpack_expect_native_u8 0 "list_word 1 mpack_load_u8"
  unfolding mpack_expect_native_u8_def by (rule expect_native_op) simp_all

interpretation native_u16: reader_op mpack_expect_native_u16 0 "list_word 2 mpack_load_u16"
  unfolding mpack_expect_native_u16_def by (rule expect_native_op) simp_all

interpretation native_u32: reader_op mpack_expect_native_u32 0 "list_word 4 mpack_load_u32"
  unfolding mpack_expect_native_u32_def by (rule expect_native_op) simp_all

interpretation type_byte: reader_op mpack_expect_type_byte 0 "list_word 1 mpack_load_u8"
  unfolding mpack_expect_type_byte_def by (rule native_u8.reader_op_axioms)

lemma load_u8_hd: "mpack_load_u8 [b] = b"
  by (simp add: mpack_load_u8_def)

lemma list_byte: "list_word (Suc 0) mpack_load_u8 (b # s) = Some (b, s)" "list_word (Suc 0) mpack_load_u8 [] = None"
  by (simp_all add: list_word_def load_u8_hd)

subsection \<open>Equality with a given value\<close>

lemma expect_equal_eq:
  "unit_result (expect_equal e f value' r) =
     and_then (f r) (\<lambda>(x, r). settle e () (if x = value' then Some () else None) r)"
  by (simp add: expect_equal_def unit_result_then)
    (auto intro!: and_then_cong)

locale reader_equal = first: reader_op op d p for op :: "('s, 'a) read_op" and d p +
  fixes value' :: 'a and e
  assumes flags: "e \<noteq> mpack_ok"

sublocale reader_equal \<subseteq> reader_check op d p "\<lambda>x. if x = value' then Some () else None" e "()"
  by unfold_locales (simp_all add: flags)

sublocale reader_equal \<subseteq> equal: reader_op "\<lambda>r. unit_result (expect_equal e op value' r)" "()"
    "accept p (\<lambda>x. if x = value' then Some () else None)"
  unfolding expect_equal_eq by (rule checked.reader_op_axioms)

interpretation expect_nil: reader_equal mpack_expect_type_byte 0 "list_word 1 mpack_load_u8" "0xC0" mpack_error_type
  by unfold_locales simp

lemma clear_low_bit: "b AND NOT 1 = (0xC2 :: u8) \<longleftrightarrow> b = 0xC2 \<or> b = 0xC3"
proof
  assume "b AND NOT 1 = 0xC2"
  moreover have "b = (b AND NOT 1) OR (b AND 1)" by (rule bit_word_eqI) (auto simp: bit_simps)
  ultimately have "b = 0xC2 OR (b AND 1)" by simp
  then show "b = 0xC2 \<or> b = 0xC3" by (cases "odd b") (simp_all add: and_one_eq mod_2_eq_odd)
qed auto

definition bool_byte :: "u8 \<Rightarrow> bool option" where
  "bool_byte b = (if b = 0xC2 then Some False else if b = 0xC3 then Some True else None)"

interpretation expect_bool: reader_op mpack_expect_bool False "accept (list_word 1 mpack_load_u8) bool_byte"
proof
  fix src and r :: "'s mpack_reader"
  assume r: "reader_ok src r" "rerror r = mpack_ok"
  have live: "yields src r' (\<lambda>s. map_option (\<lambda>y. (y, s)) (bool_byte b))
      (Ret (b AND 1 \<noteq> 0, if b AND NOT 1 \<noteq> 0xC2 then mpack_reader_flag_error mpack_error_type r' else r'))"
    if "reader_ok src r'" "rerror r' = mpack_ok" for b r'
  proof (cases "b = 0xC2 \<or> b = 0xC3")
    case True
    then show ?thesis using that by (auto simp: bool_byte_def intro!: yields_ok [where c = "[]"])
  next
    case False
    then have "b AND NOT 1 \<noteq> 0xC2" using clear_low_bit [of b] by simp
    then show ?thesis using that False by (auto simp: bool_byte_def intro!: yields_err flag_error_ok)
  qed
  show "yields src r (accept (list_word 1 mpack_load_u8) bool_byte) (mpack_expect_bool r)"
    unfolding accept_def mpack_expect_bool_def
  proof (rule yields_then [OF type_byte.live [OF r]], goal_cases)
    case (1 b r')
    then show ?case using live [of r' b] by simp
  next
    case (2 b r')
    then show ?case by (simp add: gives_upI)
  qed
qed (simp add: mpack_expect_bool_def type_byte.dead)

interpretation expect_true: reader_equal mpack_expect_bool False "accept (list_word 1 mpack_load_u8) bool_byte"
    True mpack_error_type
  by unfold_locales simp

interpretation expect_false: reader_equal mpack_expect_bool False "accept (list_word 1 mpack_load_u8) bool_byte"
    False mpack_error_type
  by unfold_locales simp

interpretation uint_match: reader_equal mpack_expect_u64 0 "accept list_tag (number_value 18446744073709551615 0 9223372036854775807)"
    value' mpack_error_type for value'
  unfolding expect_64_eq by unfold_locales simp

interpretation int_match: reader_equal mpack_expect_i64 0
    "accept list_tag (number_value 9223372036854775807 (- 9223372036854775808) 9223372036854775807)"
    value' mpack_error_type for value'
  unfolding expect_64_eq by unfold_locales simp

text \<open>A tag that must be equal to a given one.\<close>

interpretation expect_tag: reader_check mpack_read_tag Tag_nil list_tag
    "\<lambda>t. if mpack_tag_equal t expected then Some () else None" mpack_error_type "()" for expected
  by unfold_locales simp_all

lemma expect_tag_eq:
  "unit_result (mpack_expect_tag expected r) =
     and_then (mpack_read_tag r) (\<lambda>(t, r). settle mpack_error_type () (if mpack_tag_equal t expected then Some () else None) r)"
  by (simp add: mpack_expect_tag_def unit_result_then) (auto intro!: and_then_cong)

subsection \<open>Compound types\<close>

fun map_of_tag :: "mpack_tag \<Rightarrow> u32 option" where
  "map_of_tag (Tag_map n) = Some n" | "map_of_tag _ = None"

fun array_of_tag :: "mpack_tag \<Rightarrow> u32 option" where
  "array_of_tag (Tag_array n) = Some n" | "array_of_tag _ = None"

fun bin_of_tag :: "mpack_tag \<Rightarrow> u32 option" where
  "bin_of_tag (Tag_bin n) = Some n" | "bin_of_tag _ = None"

fun str_of_tag :: "mpack_tag \<Rightarrow> u32 option" where
  "str_of_tag (Tag_str n) = Some n" | "str_of_tag _ = None"

definition or_nil :: "(mpack_tag \<Rightarrow> u32 option) \<Rightarrow> mpack_tag \<Rightarrow> (bool \<times> u32) option" where
  "or_nil g t = (if t = Tag_nil then Some (False, 0) else map_option (Pair True) (g t))"

interpretation tag_map: reader_check mpack_read_tag Tag_nil list_tag map_of_tag mpack_error_type 0
  by unfold_locales simp_all
interpretation tag_array: reader_check mpack_read_tag Tag_nil list_tag array_of_tag mpack_error_type 0
  by unfold_locales simp_all
interpretation tag_bin: reader_check mpack_read_tag Tag_nil list_tag bin_of_tag mpack_error_type 0
  by unfold_locales simp_all
interpretation tag_map_or_nil: reader_check mpack_read_tag Tag_nil list_tag "or_nil map_of_tag" mpack_error_type "(False, 0)"
  by unfold_locales (simp_all add: or_nil_def)
interpretation tag_array_or_nil: reader_check mpack_read_tag Tag_nil list_tag "or_nil array_of_tag" mpack_error_type "(False, 0)"
  by unfold_locales (simp_all add: or_nil_def)

lemma expect_compound_eq:
  "mpack_expect_map = (\<lambda>r. and_then (mpack_read_tag r) (\<lambda>(t, r). settle mpack_error_type 0 (map_of_tag t) r))"
  "mpack_expect_array = (\<lambda>r. and_then (mpack_read_tag r) (\<lambda>(t, r). settle mpack_error_type 0 (array_of_tag t) r))"
  "mpack_expect_bin = (\<lambda>r. and_then (mpack_read_tag r) (\<lambda>(t, r). settle mpack_error_type 0 (bin_of_tag t) r))"
  "mpack_expect_map_or_nil =
     (\<lambda>r. and_then (mpack_read_tag r) (\<lambda>(t, r). settle mpack_error_type (False, 0) (or_nil map_of_tag t) r))"
  "mpack_expect_array_or_nil =
     (\<lambda>r. and_then (mpack_read_tag r) (\<lambda>(t, r). settle mpack_error_type (False, 0) (or_nil array_of_tag t) r))"
  by (auto simp: fun_eq_iff mpack_expect_map_def mpack_expect_array_def mpack_expect_bin_def or_nil_def
      mpack_expect_map_or_nil_def mpack_expect_array_or_nil_def fail_with_def
      intro!: and_then_cong split: mpack_tag.split)

interpretation expect_map: reader_op mpack_expect_map 0 "accept list_tag map_of_tag"
  unfolding expect_compound_eq by (rule tag_map.checked.reader_op_axioms)
interpretation expect_array: reader_op mpack_expect_array 0 "accept list_tag array_of_tag"
  unfolding expect_compound_eq by (rule tag_array.checked.reader_op_axioms)
interpretation expect_bin: reader_op mpack_expect_bin 0 "accept list_tag bin_of_tag"
  unfolding expect_compound_eq by (rule tag_bin.checked.reader_op_axioms)
interpretation expect_map_or_nil: reader_op mpack_expect_map_or_nil "(False, 0)" "accept list_tag (or_nil map_of_tag)"
  unfolding expect_compound_eq by (rule tag_map_or_nil.checked.reader_op_axioms)
interpretation expect_array_or_nil: reader_op mpack_expect_array_or_nil "(False, 0)" "accept list_tag (or_nil array_of_tag)"
  unfolding expect_compound_eq by (rule tag_array_or_nil.checked.reader_op_axioms)


subsection \<open>Strings\<close>

definition str_rest :: "u8 \<Rightarrow> u32 list_parser" where
  "str_rest ty =
     (if drop_bit 5 ty = 5 then (\<lambda>s. Some (ucast (ty AND NOT 0xE0), s))
      else if ty = 0xD9 then list_word 1 (ucast \<circ> mpack_load_u8)
      else if ty = 0xDA then list_word 2 (ucast \<circ> mpack_load_u16)
      else if ty = 0xDB then list_word 4 mpack_load_u32
      else (\<lambda>s. None))"

lemma fixstr_byte: "drop_bit 5 (b :: u8) = 5 \<longleftrightarrow> 0xA0 \<le> unat b \<and> unat b \<le> 0xBF"
proof -
  have "unat (drop_bit 5 b) = unat b div 32" by (simp add: drop_bit_eq_div unat_div)
  then have "drop_bit 5 b = 5 \<longleftrightarrow> unat b div 32 = 5" by (simp add: word_unat_eq_iff)
  then show ?thesis by auto
qed

lemma fixstr_payload: "(ucast (b AND NOT 0xE0 :: u8) :: u32) = ucast b AND NOT 0xE0"
  by (rule bit_word_eqI) (auto simp: bit_simps dest: bit_imp_le_length)

lemma layout_str:
  "tag_layout b = Whole t \<Longrightarrow> \<not> (0xA0 \<le> unat b \<and> unat b \<le> 0xBF) \<Longrightarrow> str_of_tag t = None"
  "tag_layout b = Field n f \<Longrightarrow> b \<notin> {0xD9, 0xDA, 0xDB} \<Longrightarrow> str_of_tag (f s) = None"
  by (auto simp: tag_layout_def byte_nat split: if_splits)

lemma list_str: "then_parse (list_word 1 mpack_load_u8) str_rest s = accept list_tag str_of_tag s"
proof (cases s)
  case (Cons b s')
  consider "0xA0 \<le> unat b" "unat b \<le> 0xBF" | "b \<in> {0xD9, 0xDA, 0xDB}"
    | "\<not> (0xA0 \<le> unat b \<and> unat b \<le> 0xBF)" "b \<notin> {0xD9, 0xDA, 0xDB}" by blast
  then show ?thesis
  proof cases
    case 1
    then have "tag_layout b = Whole (Tag_str (ucast b AND NOT 0xE0))" by (simp add: tag_layout_def byte_nat)
    then show ?thesis
      using 1 Cons fixstr_payload [of b]
      by (simp add: then_parse_def list_byte str_rest_def fixstr_byte accept_def)
  next
    case 2
    then have "b = 0xD9 \<or> b = 0xDA \<or> b = 0xDB" by simp
    then show ?thesis
      using Cons by (elim disjE)
        (simp_all add: then_parse_def list_byte str_rest_def fixstr_byte accept_def tag_layout_def, simp_all add: list_word_def)
  next
    case 3
    have "\<forall>t s''. list_tag s = Some (t, s'') \<longrightarrow> str_of_tag t = None"
      using 3 Cons by (auto simp: layout_str split: tag_layout.splits if_splits)
    then have "accept list_tag str_of_tag s = None"
      by (auto simp: accept_def then_parse_def split: option.split)
    then show ?thesis using 3 Cons by (simp add: then_parse_def list_byte str_rest_def fixstr_byte)
  qed
qed (simp add: then_parse_def list_byte accept_def)

lemma yields_map:
  assumes "yields src r p m"
  shows "yields src r (\<lambda>s. map_option (\<lambda>(x, s). (h x, s)) (p s)) (and_then m (\<lambda>(x, r). Ret (h x, r)))"
  using assms by (cases rule: yieldsE) (auto intro: yields_ok yields_err simp: yields_def)

interpretation expect_str: reader_op mpack_expect_str 0 "accept list_tag str_of_tag"
proof
  fix src and r :: "'s mpack_reader"
  assume r: "reader_ok src r" "rerror r = mpack_ok"
  have map: "(\<lambda>s. map_option (\<lambda>(x, s). (ucast x :: u32, s)) (list_word n f s)) = list_word n (ucast \<circ> f)"
    for n and f :: "bytes \<Rightarrow> 'w::len word"
    by (auto simp: list_word_def fun_eq_iff)
  show "yields src r (accept list_tag str_of_tag) (mpack_expect_str r)"
    unfolding list_str [abs_def, symmetric] mpack_expect_str_def
  proof (rule yields_then [OF type_byte.live [OF r]], goal_cases)
    case (1 ty r')
    show ?case
      using yields_map [OF native_u8.live [OF 1(1,3)], of "ucast :: u8 \<Rightarrow> u32"]
        yields_map [OF native_u16.live [OF 1(1,3)], of "ucast :: u16 \<Rightarrow> u32"] native_u32.live [OF 1(1,3)] 1(1,3)
      yields_ok [OF 1(1) same_source_refl 1(3), of "\<lambda>s. Some (ucast (ty AND NOT 0xE0) :: u32, s)" "ucast (ty AND NOT 0xE0)" "[]"]
      yields_err [OF flag_error_ok [OF 1(1)] flag_error_source, of mpack_error_type "(\<lambda>s. None) :: u32 list_parser"]
      by (simp add: str_rest_def map fail_with_def)
  next
    case (2 ty r')
    then show ?case
      by (auto simp: fail_with_def native_u8.dead native_u16.dead native_u32.dead intro: gives_upI)
  qed
qed (simp add: mpack_expect_str_def type_byte.dead fail_with_def)

end
