(* ===== verification/Mpack_Expect_Values.thy ===== *)
theory Mpack_Expect_Values
  imports Mpack_Expect_Facts
begin

text \<open>
  What the functions of the expect API answer to an encoded value: headers, strings and binary data
  into buffers, comparisons, enumerations and keys.
\<close>

subsection \<open>Headers\<close>

lemma value_tag_of:
  "map_of_tag (value_tag v) = (case v of Msg_map kvs \<Rightarrow> Some (word_of_nat (length kvs)) | _ \<Rightarrow> None)"
  "array_of_tag (value_tag v) = (case v of Msg_array vs \<Rightarrow> Some (word_of_nat (length vs)) | _ \<Rightarrow> None)"
  "bin_of_tag (value_tag v) = (case v of Msg_bin s \<Rightarrow> Some (word_of_nat (length s)) | _ \<Rightarrow> None)"
  "str_of_tag (value_tag v) = (case v of Msg_str s \<Rightarrow> Some (word_of_nat (length s)) | _ \<Rightarrow> None)"
  "value_tag v = Tag_nil \<longleftrightarrow> v = Msg_nil"
  by (cases v; simp)+

text \<open>The count or length of a header, and the bytes behind it.\<close>

definition header :: "(mpack_tag \<Rightarrow> 'a option) \<Rightarrow> msgpack \<Rightarrow> bytes \<Rightarrow> ('a \<times> bytes) option" where
  "header g v rest = map_option (\<lambda>n. (n, value_body v @ rest)) (g (value_tag v))"

lemma tag_answers:
  fixes r :: "'s mpack_reader"
  assumes "at_value src v rest r"
    "reader_check (mpack_read_tag :: ('s, mpack_tag) read_op) Tag_nil list_tag g mpack_error_type d"
  shows "replies src r mpack_error_type d (header g v rest)
    (and_then (mpack_read_tag r) (\<lambda>(t, r). settle mpack_error_type d (g t) r))"
  unfolding header_def by (rule reader_check.answer [OF assms(2)]) (rule at_valueD [OF assms(1)])+

lemmas map_answers = tag_answers [OF _ tag_map.reader_check_axioms, folded fun_cong [OF expect_compound_eq(1)]]
lemmas array_answers = tag_answers [OF _ tag_array.reader_check_axioms, folded fun_cong [OF expect_compound_eq(2)]]
lemmas bin_answers = tag_answers [OF _ tag_bin.reader_check_axioms, folded fun_cong [OF expect_compound_eq(3)]]
lemmas map_or_nil_answers =
  tag_answers [OF _ tag_map_or_nil.reader_check_axioms, folded fun_cong [OF expect_compound_eq(4)]]
lemmas array_or_nil_answers =
  tag_answers [OF _ tag_array_or_nil.reader_check_axioms, folded fun_cong [OF expect_compound_eq(5)]]

text \<open>The first byte of an encoded value.\<close>

lemma first_byte:
  assumes "at_value src v rest r"
  obtains b s r' where "unread src r = b # s" "mpack_expect_type_byte r = Ret (b, r')" "reader_ok src r'"
    "same_source r r'" "rerror r' = mpack_ok" "unread src r' = s" "steady src r'"
proof -
  note v = at_valueD [OF assms]
  obtain b s where bs: "unread src r = b # s" using v(6) by (cases "unread src r") auto
  then have "list_word 1 mpack_load_u8 (unread src r) = Some (b, s)" by (simp add: list_byte)
  from type_byte.reads [OF v(1-3) this] show ?thesis
    using that [OF bs] by metis
qed

lemma str_answers:
  assumes "at_value src v rest r"
  shows "replies src r mpack_error_type 0 (header str_of_tag v rest) (mpack_expect_str r)"
proof (cases "str_of_tag (value_tag v)")
  case None
  obtain b s r' where b: "unread src r = b # s" "mpack_expect_type_byte r = Ret (b, r')" "reader_ok src r'"
    "same_source r r'" "rerror r' = mpack_ok"
    by (rule first_byte [OF assms])
  have tag: "list_tag (b # s) = Some (value_tag v, value_body v @ rest)"
    using at_valueD(6) [OF assms] b(1) by simp
  have no_str: "Tag_str l \<noteq> value_tag v" for l using None by (cases v) simp_all
  have "b \<noteq> 0xD9" "b \<noteq> 0xDA" "b \<noteq> 0xDB" using tag no_str by (auto simp: tag_layout_def split: if_splits)
  moreover have "drop_bit 5 b \<noteq> 5"
    using tag no_str unfolding fixstr_byte by (auto simp: tag_layout_def byte_nat)
  ultimately have "mpack_expect_str r = Ret (0, mpack_reader_flag_error mpack_error_type r')"
    using b(2) by (simp add: mpack_expect_str_def fail_with_def)
  then show ?thesis
    using b None flag_error_ok [OF b(3)] same_source_trans [OF b(4) flag_error_source]
    by (auto simp: replies_def header_def)
next
  case (Some n)
  note v = at_valueD [OF assms]
  have "accept list_tag str_of_tag (unread src r) = Some (n, value_body v @ rest)"
    using v(6) Some by (simp add: accept_def then_parse_def)
  from expect_str.reads [OF v(1-3) this] show ?thesis
    using Some by (auto simp: replies_def header_def)
qed

lemma nil_answers:
  assumes "at_value src v rest r"
  shows "replies src r mpack_error_type () (if v = Msg_nil then Some ((), rest) else None)
    (unit_result (mpack_expect_nil r))"
proof -
  obtain b s r' where b: "unread src r = b # s" "mpack_expect_type_byte r = Ret (b, r')" "reader_ok src r'"
    "same_source r r'" "rerror r' = mpack_ok" "unread src r' = s"
    by (rule first_byte [OF assms])
  have tag: "list_tag (b # s) = Some (value_tag v, value_body v @ rest)"
    using at_valueD(6) [OF assms] b(1) by simp
  have "b = 0xC0 \<longleftrightarrow> v = Msg_nil"
  proof
    assume "b = 0xC0"
    then show "v = Msg_nil" using tag value_tag_of(5) [of v] by (simp add: tag_layout_def)
  next
    assume "v = Msg_nil"
    then show "b = 0xC0" using at_valueD(5) [OF assms] b(1) by simp
  qed
  then show ?thesis
    using b flag_error_ok [OF b(3)] same_source_trans [OF b(4) flag_error_source] at_valueD(5) [OF assms]
    by (auto simp: replies_def mpack_expect_nil_def expect_equal_def)
qed

lemma bool_answers:
  assumes "at_value src v rest r"
  shows "replies src r mpack_error_type (hd (msgpack_encode v) AND 1 \<noteq> 0)
    (case v of Msg_bool b \<Rightarrow> Some (b, rest) | _ \<Rightarrow> None) (mpack_expect_bool r)"
proof -
  obtain b s r' where b: "unread src r = b # s" "mpack_expect_type_byte r = Ret (b, r')" "reader_ok src r'"
    "same_source r r'" "rerror r' = mpack_ok" "unread src r' = s"
    by (rule first_byte [OF assms])
  have tag: "list_tag (b # s) = Some (value_tag v, value_body v @ rest)"
    using at_valueD(6) [OF assms] b(1) by simp
  have enc: "msgpack_encode v @ rest = b # s" using at_valueD(5) [OF assms] b(1) by simp
  show ?thesis
  proof (cases "\<exists>x. v = Msg_bool x")
    case True
    then obtain x where x: "v = Msg_bool x" ..
    then have "b = (if x then 0xC3 else 0xC2)" "s = rest" using enc by (auto simp: msgpack_bool_def)
    then show ?thesis using b x by (auto simp: replies_def mpack_expect_bool_def)
  next
    case False
    have "msgpack_encode v \<noteq> []" using tag enc list_tag_encode [OF at_valueD(4) [OF assms], of "[]"] by auto
    then have hd: "hd (msgpack_encode v) = b" using enc by (cases "msgpack_encode v") simp_all
    have no_bool: "Tag_bool l \<noteq> value_tag v" for l using False by (cases v) simp_all
    then have "b AND NOT 1 \<noteq> 0xC2" using tag unfolding clear_low_bit by (auto simp: tag_layout_def)
    then have "mpack_expect_bool r = Ret (b AND 1 \<noteq> 0, mpack_reader_flag_error mpack_error_type r')"
      using b(2) by (simp add: mpack_expect_bool_def)
    moreover have "(case v of Msg_bool b \<Rightarrow> Some (b, rest) | _ \<Rightarrow> None) = None"
      using False by (cases v) simp_all
    ultimately show ?thesis
      using b hd flag_error_ok [OF b(3)] same_source_trans [OF b(4) flag_error_source]
      by (auto simp: replies_def)
  qed
qed

subsection \<open>Strings and binary data into a buffer\<close>

lemma read_native_exact:
  assumes "reader_ok src r" "rerror r = mpack_ok" "steady src r" "unread src r = s @ rest" "length s \<le> length p"
  obtains r' where "mpack_read_native p (length s) r = Ret (s @ drop (length s) p, r')" "reader_ok src r'"
    "same_source r r'" "rerror r' = mpack_ok" "unread src r' = rest"
proof -
  obtain p' r' where r': "mpack_read_native p (length s) r = Ret (p', r')" "reader_ok src r'" "same_source r r'"
    "length p' = length p" "drop (length s) p' = drop (length s) p"
    "if rerror r \<noteq> mpack_ok then r' = r \<and> take (length s) p' = replicate (length s) 0
     else if rerror r' = mpack_ok then take (length s) p' @ unread src r' = unread src r
     else steady src r \<longrightarrow> length (unread src r) < length s"
    using read_native_spec [OF assms(1,5)] unfolding read_into_def by blast
  have ok: "rerror r' = mpack_ok" using r'(6) assms(2-4) by (cases "rerror r' = mpack_ok") simp_all
  then have "take (length s) p' = s" "unread src r' = rest" using r'(4,6) assms(2,4,5) by simp_all
  moreover have "p' = take (length s) p' @ drop (length s) p'" by simp
  ultimately show ?thesis using that [of r'] r' ok by metis
qed

text \<open>What a length function has found, for a string or binary of at most a given size.\<close>

definition fits :: "nat \<Rightarrow> (mpack_tag \<Rightarrow> u32 option) \<Rightarrow> msgpack \<Rightarrow> bytes option" where
  "fits size' g v = (case g (value_tag v) of
     None \<Rightarrow> None | Some n \<Rightarrow> if unat n \<le> size' then Some (value_body v) else None)"

definition size_error :: "(mpack_tag \<Rightarrow> u32 option) \<Rightarrow> msgpack \<Rightarrow> mpack_error_t" where
  "size_error g v = (if g (value_tag v) = None then mpack_error_type else mpack_error_too_big)"

lemma body_length:
  "representable v \<Longrightarrow> str_of_tag (value_tag v) = Some n \<or> bin_of_tag (value_tag v) = Some n \<Longrightarrow>
     length (value_body v) = unat n"
  by (cases v) (auto simp: unat_len split: if_splits)

lemma expect_buf_answers:
  assumes "at_value src v rest r" "bufsize \<le> length p" "g = str_of_tag \<or> g = bin_of_tag"
    "replies src r mpack_error_type 0 (header g v rest) (f r)"
  shows "replies src r (size_error g v) (0, p)
    (map_option (\<lambda>s. ((length s, s @ drop (length s) p), rest)) (fits bufsize g v))
    (expect_buf f (Some p) bufsize r)"
proof (cases "g (value_tag v)")
  case None
  then show ?thesis
    using assms(4) by (auto simp: replies_def header_def fits_def size_error_def expect_buf_def with_dest_def)
next
  case (Some n)
  then obtain r' where r': "f r = Ret (n, r')" "reader_ok src r'" "same_source r r'" "rerror r' = mpack_ok"
    "unread src r' = value_body v @ rest"
    using assms(4) by (auto simp: replies_def header_def)
  have len: "length (value_body v) = unat n"
    using body_length [OF at_valueD(4) [OF assms(1)], of n] assms(3) Some by auto
  show ?thesis
  proof (cases "unat n \<le> bufsize")
    case True
    have "steady src r'" using at_valueD(3) [OF assms(1)] same_source_steady [OF r'(3)] by simp
    then obtain r'' where r'': "mpack_read_native p (unat n) r' = Ret (value_body v @ drop (unat n) p, r'')"
      "reader_ok src r''" "same_source r' r''" "rerror r'' = mpack_ok" "unread src r'' = rest"
      using read_native_exact [OF r'(2,4) _ r'(5), of p] assms(2) True len by auto
    then show ?thesis
      using r'(1,4) Some True len same_source_trans [OF r'(3) r''(3)]
      by (auto simp: replies_def fits_def expect_buf_def with_dest_def mpack_read_bytes_def)
  next
    case False
    then show ?thesis
      using r' Some flag_error_ok [OF r'(2)] same_source_trans [OF r'(3) flag_error_source]
      by (auto simp: replies_def fits_def size_error_def expect_buf_def with_dest_def fail_with_def)
  qed
qed

lemma buf_answers:
  assumes "at_value src v rest r" "bufsize \<le> length p"
  shows "replies src r (size_error str_of_tag v) (0, p)
      (map_option (\<lambda>s. ((length s, s @ drop (length s) p), rest)) (fits bufsize str_of_tag v))
      (mpack_expect_str_buf (Some p) bufsize r)"
    and "replies src r (size_error bin_of_tag v) (0, p)
      (map_option (\<lambda>s. ((length s, s @ drop (length s) p), rest)) (fits bufsize bin_of_tag v))
      (mpack_expect_bin_buf (Some p) bufsize r)"
  unfolding mpack_expect_str_buf_def mpack_expect_bin_buf_def
  by (rule expect_buf_answers [OF assms]; simp add: str_answers bin_answers assms)+

lemma utf8_answers:
  assumes "at_value src v rest r" "bufsize \<le> length p"
  shows "\<exists>d. fst d = 0 \<and> replies src r
      (if fits bufsize str_of_tag v = None then size_error str_of_tag v else mpack_error_type) d
      (case fits bufsize str_of_tag v of
         None \<Rightarrow> None
       | Some s \<Rightarrow> if mpack_utf8_check s then Some ((length s, s @ drop (length s) p), rest) else None)
      (mpack_expect_utf8 (Some p) bufsize r)"
proof (cases "fits bufsize str_of_tag v")
  case None
  note buf = buf_answers(1) [OF assms]
  obtain r' where "mpack_expect_str_buf (Some p) bufsize r = Ret ((0, p), r')" "reader_ok src r'"
    "same_source r r'" "rerror r' = size_error str_of_tag v"
    using buf None by (auto simp: replies_def)
  then show ?thesis
    using None by (intro exI [of _ "(0, p)"]) (auto simp: replies_def mpack_expect_utf8_def mpack_utf8_check_def)
next
  case (Some s)
  note buf = buf_answers(1) [OF assms]
  obtain r' where r': "mpack_expect_str_buf (Some p) bufsize r = Ret ((length s, s @ drop (length s) p), r')"
    "reader_ok src r'" "same_source r r'" "rerror r' = mpack_ok" "unread src r' = rest"
    using buf Some by (auto simp: replies_def)
  then show ?thesis
    using Some flag_error_ok [OF r'(2)] same_source_trans [OF r'(3) flag_error_source]
    by (intro exI [of _ "(0, s @ drop (length s) p)"]) (auto simp: replies_def mpack_expect_utf8_def fail_with_def)
qed

text \<open>A read into a C string: terminated in every case, and empty with an error.\<close>

definition cstr_read ::
    "('s \<Rightarrow> bytes) \<Rightarrow> 's mpack_reader \<Rightarrow> bytes \<Rightarrow> bytes option \<Rightarrow> bytes \<Rightarrow> (bytes \<times> 's mpack_reader) outcome \<Rightarrow> bool" where
  "cstr_read src r p s rest m \<longleftrightarrow>
     (\<exists>d r'. m = Ret (d, r') \<and> reader_ok src r' \<and> same_source r r' \<and> length d = length p \<and>
        (case s of
           None \<Rightarrow> hd d = 0 \<and> rerror r' \<noteq> mpack_ok
         | Some s \<Rightarrow> d = s @ 0 # drop (length s + 1) p \<and> rerror r' = mpack_ok \<and> unread src r' = rest))"

lemma store_zero: "off < length p \<Longrightarrow> store_at p off [0] = Ret (take off p @ 0 # drop (off + 1) p)"
  by (simp add: store_at_def)

lemma cstr_error:
  assumes "reader_ok src r'" "same_source r r'" "rerror r' \<noteq> mpack_ok" "p \<noteq> []" "bufsize \<ge> 1"
  shows "cstr_read src r p None rest (read_cstr_checked check (Some p) bufsize n r')"
  using assms
  by (auto simp: cstr_read_def read_cstr_checked_def mpack_read_cstr_unchecked_def with_dest_def
      mpack_assert_def store_zero neq_Nil_conv)

lemma cstr_reads:
  assumes "reader_ok src r'" "same_source r r'" "rerror r' = mpack_ok" "steady src r'" "unread src r' = s @ rest"
    "1 \<le> bufsize" "bufsize \<le> length p"
  shows "cstr_read src r p (if length s < bufsize \<and> check s then Some s else None) rest
    (read_cstr_checked check (Some p) bufsize (length s) r')"
proof (cases "length s < bufsize")
  case False
  have "p \<noteq> []" using assms(6,7) by auto
  then show ?thesis
    using False assms flag_error_ok [OF assms(1)] same_source_trans [OF assms(2) flag_error_source]
    by (auto simp: cstr_read_def read_cstr_checked_def mpack_read_cstr_unchecked_def with_dest_def
        mpack_assert_def store_zero neq_Nil_conv)
next
  case True
  obtain r'' where r'': "mpack_read_native p (length s) r' = Ret (s @ drop (length s) p, r'')" "reader_ok src r''"
    "same_source r' r''" "rerror r'' = mpack_ok" "unread src r'' = rest"
    using read_native_exact [OF assms(1,3,4,5), of p] True assms(7) by auto
  let ?d = "s @ 0 # drop (length s + 1) p"
  have store: "store_at (s @ drop (length s) p) (length s) [0] = Ret ?d"
    using True assms(7) by (simp add: store_zero)
  have len: "length ?d = length p" using True assms(7) by simp
  have src: "same_source r r''" using same_source_trans [OF assms(2) r''(3)] .
  have run: "mpack_read_cstr_unchecked (Some p) bufsize (length s) r' = Ret (?d, r'')"
    using True assms(3,6) r''(1) store
    by (auto simp: mpack_read_cstr_unchecked_def with_dest_def mpack_assert_def)
  show ?thesis
    using True r''(2,4,5) src len run flag_error_ok [OF r''(2)] same_source_trans [OF src flag_error_source]
    by (auto simp: cstr_read_def read_cstr_checked_def store_zero)
qed

lemma expect_cstr_read:
  assumes "at_value src v rest r" "1 \<le> bufsize" "bufsize \<le> length p"
  shows "cstr_read src r p (case v of Msg_str s \<Rightarrow> if length s < bufsize \<and> check s then Some s else None | _ \<Rightarrow> None) rest
    (and_then (mpack_expect_str r) (\<lambda>(len, r). read_cstr_checked check (Some p) bufsize (unat len) r))"
proof (cases "\<exists>s. v = Msg_str s")
  case True
  then obtain s where s: "v = Msg_str s" ..
  obtain r' where r': "mpack_expect_str r = Ret (word_of_nat (length s), r')" "reader_ok src r'" "same_source r r'"
    "rerror r' = mpack_ok" "unread src r' = s @ rest"
    using str_answers [OF assms(1)] s by (auto simp: replies_def header_def)
  have "steady src r'" using at_valueD(3) [OF assms(1)] same_source_steady [OF r'(3)] by simp
  then show ?thesis
    using cstr_reads [OF r'(2,3,4) _ r'(5) assms(2,3), of check] r'(1) s at_valueD(4) [OF assms(1)]
    by (simp add: unat_len)
next
  case False
  then have "str_of_tag (value_tag v) = None" by (cases v) simp_all
  then obtain r' where r': "mpack_expect_str r = Ret (0, r')" "reader_ok src r'" "same_source r r'"
    "rerror r' = mpack_error_type"
    using str_answers [OF assms(1)] by (auto simp: replies_def header_def)
  have "(case v of Msg_str s \<Rightarrow> if length s < bufsize \<and> check s then Some s else None | _ \<Rightarrow> None) = None"
    using False by (cases v) simp_all
  moreover have "p \<noteq> []" using assms by auto
  ultimately show ?thesis
    using cstr_error [OF r'(2,3)] r'(1,4) assms(2) by simp
qed

text \<open>
  C28. Reading a string into a buffer of the caller, in front of an encoded value: the functions for
  counted strings copy the bytes of a string that fits; the functions for C strings copy those of a
  shorter string without NUL, which is valid UTF-8 where that is asked, and end it with a NUL. Every
  other value is an error, and leaves a C string empty.
\<close>

theorem expect_strings_checked:
  assumes "at_value src v rest r" "1 \<le> bufsize" "bufsize \<le> length p"
  shows "replies src r (size_error str_of_tag v) (0, p)
      (map_option (\<lambda>s. ((length s, s @ drop (length s) p), rest)) (fits bufsize str_of_tag v))
      (mpack_expect_str_buf (Some p) bufsize r) \<and>
    replies src r (size_error bin_of_tag v) (0, p)
      (map_option (\<lambda>s. ((length s, s @ drop (length s) p), rest)) (fits bufsize bin_of_tag v))
      (mpack_expect_bin_buf (Some p) bufsize r) \<and>
    (\<exists>d. fst d = 0 \<and> replies src r
      (if fits bufsize str_of_tag v = None then size_error str_of_tag v else mpack_error_type) d
      (case fits bufsize str_of_tag v of
         None \<Rightarrow> None
       | Some s \<Rightarrow> if mpack_utf8_check s then Some ((length s, s @ drop (length s) p), rest) else None)
      (mpack_expect_utf8 (Some p) bufsize r)) \<and>
    cstr_read src r p
      (case v of Msg_str s \<Rightarrow> if length s < bufsize \<and> 0 \<notin> set s then Some s else None | _ \<Rightarrow> None) rest
      (mpack_expect_cstr (Some p) bufsize r) \<and>
    cstr_read src r p
      (case v of Msg_str s \<Rightarrow> if length s < bufsize \<and> mpack_utf8_check_no_null s then Some s else None | _ \<Rightarrow> None) rest
      (mpack_expect_utf8_cstr (Some p) bufsize r)"
proof (intro conjI)
  have no_null: "(\<lambda>s. 0 \<notin> set s) = mpack_str_check_no_null" by (simp add: fun_eq_iff)
  show "cstr_read src r p
      (case v of Msg_str s \<Rightarrow> if length s < bufsize \<and> 0 \<notin> set s then Some s else None | _ \<Rightarrow> None) rest
      (mpack_expect_cstr (Some p) bufsize r)"
    using expect_cstr_read [OF assms, where check = "\<lambda>s. 0 \<notin> set s"]
    by (simp only: mpack_expect_cstr_def mpack_read_cstr_def no_null)
  show "cstr_read src r p
      (case v of Msg_str s \<Rightarrow> if length s < bufsize \<and> mpack_utf8_check_no_null s then Some s else None | _ \<Rightarrow> None) rest
      (mpack_expect_utf8_cstr (Some p) bufsize r)"
    unfolding mpack_expect_utf8_cstr_def mpack_read_utf8_cstr_def by (rule expect_cstr_read [OF assms])
qed (rule buf_answers [OF assms(1,3)] utf8_answers [OF assms(1,3)])+

lemma at_str_piecewise:
  "0 < k \<Longrightarrow> length s \<le> 31 \<Longrightarrow>
     at_value id (Msg_str s) rest (piecewise_reader k (word_of_nat (160 + length s) # s @ rest))"
  using at_value_piecewise [of k "Msg_str s" rest]
  by (simp add: msgpack_str_header_def fix_tag_def be_bytes_def)

theorem expect_strings_checked_witness:
  "\<exists>r. mpack_expect_cstr (Some [9, 9, 9, 9]) 4 (piecewise_reader 1 [0xA2, 65, 66, 7]) = Ret ([65, 66, 0, 9], r) \<and>
     unread id r = [7]"
proof -
  have "at_value id (Msg_str [65, 66]) [7] (piecewise_reader 1 [0xA2, 65, 66, 7])"
    using at_str_piecewise [of 1 "[65, 66]" "[7]"] by simp
  from expect_strings_checked [OF this, of 4 "[9, 9, 9, 9]"] show ?thesis
    by (auto simp: cstr_read_def)
qed

subsection \<open>Comparison with a given string\<close>

lemma char_value_eq:
  "uint b = char_value signed_char c \<longleftrightarrow> b = c \<and> (signed_char \<longrightarrow> c < 0x80)"
proof (cases signed_char)
  case True
  have "sint c = (if uint c < 128 then uint c else uint c - 256)"
  proof -
    have "bit c 7 \<longleftrightarrow> bit (uint c) 7" by (simp add: bit_uint_iff)
    then have "bit c 7 \<longleftrightarrow> odd (uint c div 128)" by (simp add: bit_iff_odd [of "uint c"])
    moreover have "uint c < 256" "0 \<le> uint c" using uint_lt2p [of c] by simp_all
    ultimately have "bit c 7 \<longleftrightarrow> \<not> uint c < 128" by presburger
    moreover have "take_bit 8 (uint c) = uint c" using uint_lt2p [of c] by (simp add: take_bit_int_eq_self)
    ultimately show ?thesis by (simp add: sint_uint signed_take_bit_eq_take_bit_minus bit_simps)
  qed
  moreover have "uint b \<noteq> uint c - 256"
  proof -
    have "uint c < 256" using uint_lt2p [of c] by simp
    moreover have "0 \<le> uint b" by simp
    ultimately show ?thesis by linarith
  qed
  ultimately show ?thesis
    using True by (auto simp: char_value_def word_less_def word_uint_eq_iff)
qed (simp add: char_value_def word_uint_eq_iff)

definition matches :: "bool \<Rightarrow> bytes \<Rightarrow> bytes \<Rightarrow> bool" where
  "matches signed_char s str \<longleftrightarrow> s = str \<and> (signed_char \<longrightarrow> (\<forall>c \<in> set str. c < 0x80))"

lemma matches_Cons:
  "matches signed_char (b # s) (c # str) \<longleftrightarrow> uint b = char_value signed_char c \<and> matches signed_char s str"
  by (auto simp: matches_def char_value_eq)

lemma match_bytes_answers:
  assumes "reader_ok src r" "rerror r = mpack_ok" "steady src r" "unread src r = s @ rest"
    "length s \<le> length str"
  shows "replies src r mpack_error_type () (if matches signed_char s (take (length s) str) then Some ((), rest) else None)
    (unit_result (match_bytes signed_char str (length s) r))"
  using assms
proof (induction s arbitrary: str r)
  case (Cons b s)
  obtain c str' where str: "str = c # str'" using Cons.prems(5) by (cases str) simp_all
  have "list_word 1 mpack_load_u8 (unread src r) = Some (b, s @ rest)"
    using Cons.prems(4) by (simp add: list_byte)
  from native_u8.reads [OF Cons.prems(1-3) this] obtain r' where r': "mpack_expect_native_u8 r = Ret (b, r')"
    "reader_ok src r'" "same_source r r'" "rerror r' = mpack_ok" "unread src r' = s @ rest" "steady src r'"
    by blast
  show ?case
  proof (cases "uint b = char_value signed_char c")
    case True
    have len: "length s \<le> length str'" using Cons.prems(5) str by simp
    show ?thesis
      using Cons.IH [OF r'(2,4,6,5) len] True r'(1) str same_source_trans [OF r'(3)]
      by (auto simp: replies_def matches_Cons)
  next
    case False
    then show ?thesis
      using r' str flag_error_ok [OF r'(2)] same_source_trans [OF r'(3) flag_error_source]
      by (auto simp: replies_def matches_Cons)
  qed
qed (simp_all add: replies_def matches_def)

lemma unit_result_Ret_iff: "unit_result m = Ret (u, r) \<longleftrightarrow> m = Ret r"
  by (cases m) (simp_all add: unit_result_def)

lemma replies_same:
  "replies src r' e d y m \<Longrightarrow> same_source r r' \<Longrightarrow> replies src r e d y m"
  unfolding replies_def using same_source_trans by blast

text \<open>An equality test behind an operation that replies.\<close>

lemma expect_equal_answers:
  assumes "replies src r e d (map_option (\<lambda>x. (x, s)) y) (f r)" "e \<noteq> mpack_ok"
  shows "replies src r e () (if y = Some x then Some ((), s) else None) (unit_result (expect_equal e f x r))"
proof (cases y)
  case None
  then show ?thesis using assms by (auto simp: replies_def expect_equal_def)
next
  case (Some z)
  then obtain r' where "f r = Ret (z, r')" "reader_ok src r'" "same_source r r'" "rerror r' = mpack_ok"
    "unread src r' = s"
    using assms(1) by (auto simp: replies_def)
  then show ?thesis
    using Some assms(2) flag_error_ok [of src r' e] same_source_trans [of r r', OF _ flag_error_source]
    by (auto simp: replies_def expect_equal_def)
qed

lemma str_length_answers:
  assumes "at_value src v rest r"
  shows "replies src r mpack_error_type ()
    (if str_of_tag (value_tag v) = Some n then Some ((), value_body v @ rest) else None)
    (unit_result (mpack_expect_str_length n r))"
  unfolding mpack_expect_str_length_def
  by (rule expect_equal_answers) (use str_answers [OF assms] in \<open>simp_all add: header_def\<close>)

lemma str_match_answers:
  assumes "at_value src v rest r" "len \<le> length str"
  shows "replies src r mpack_error_type ()
    (case v of Msg_str s \<Rightarrow> if matches signed_char s (take len str) then Some ((), rest) else None | _ \<Rightarrow> None)
    (unit_result (mpack_expect_str_match signed_char (Some str) len r))"
proof -
  note v = at_valueD [OF assms(1)]
  consider (long) "len > 4294967295" | (other) "len \<le> 4294967295" "str_of_tag (value_tag v) \<noteq> Some (word_of_nat len)"
    | (same) "len \<le> 4294967295" "str_of_tag (value_tag v) = Some (word_of_nat len)" by linarith
  then show ?thesis
  proof cases
    case long
    let ?r = "mpack_reader_flag_error mpack_error_type r"
    have "mpack_expect_str_match signed_char (Some str) len r = Ret ?r"
      using long v(2)
      by (simp add: mpack_expect_str_match_def with_dest_def mpack_expect_str_length_def expect_equal_def
          expect_str.dead)
    moreover have "(case v of Msg_str s \<Rightarrow> if matches signed_char s (take len str) then Some ((), rest) else None
        | _ \<Rightarrow> None) = None"
      using long v(4) assms(2) by (cases v) (auto simp: matches_def)
    ultimately show ?thesis
      using v(2) flag_error_ok [OF v(1)] by (auto simp: replies_def)
  next
    case other
    have none: "(case v of Msg_str s \<Rightarrow> if matches signed_char s (take len str) then Some ((), rest) else None
        | _ \<Rightarrow> None) = None"
      using other assms(2) by (cases v) (auto simp: matches_def)
    obtain r' where "unit_result (mpack_expect_str_length (word_of_nat len) r) = Ret ((), r')" "reader_ok src r'"
      "same_source r r'" "rerror r' = mpack_error_type"
      using str_length_answers [OF assms(1), of "word_of_nat len"] other(2) by (auto simp: replies_def)
    then show ?thesis
      using other(1) none
      by (auto simp: replies_def mpack_expect_str_match_def with_dest_def unit_result_then
          and_then_unit [of "mpack_expect_str_length _ _"])
  next
    case same
    obtain s where s: "v = Msg_str s" using same(2) by (cases v) (auto split: if_splits)
    have "length s < 2 ^ 32" using v(4) s by simp
    then have len: "length s = len"
      using same s unat_len [of len] unat_len [of "length s"] by simp
    obtain r' where r': "unit_result (mpack_expect_str_length (word_of_nat len) r) = Ret ((), r')" "reader_ok src r'"
      "same_source r r'" "rerror r' = mpack_ok" "unread src r' = s @ rest"
      using str_length_answers [OF assms(1), of "word_of_nat len"] same(2) s by (auto simp: replies_def)
    have "steady src r'" using v(3) same_source_steady [OF r'(3)] by simp
    from match_bytes_answers [OF r'(2,4) this r'(5), of str signed_char] assms(2) len
    have "replies src r' mpack_error_type () (if matches signed_char s (take len str) then Some ((), rest) else None)
        (unit_result (match_bytes signed_char str len r'))" by simp
    from replies_same [OF this r'(3)] show ?thesis
      using same(1) s r'(1,4)
      by (simp add: mpack_expect_str_match_def with_dest_def unit_result_then
          and_then_unit [of "mpack_expect_str_length _ _"])
  qed
qed

lemma str_match_of:
  assumes "at_value src v rest r" "take (length str) mem = str"
  shows "replies src r mpack_error_type ()
    (if v = Msg_str str \<and> (signed_char \<longrightarrow> (\<forall>c \<in> set str. c < 0x80)) then Some ((), rest) else None)
    (unit_result (mpack_expect_str_match signed_char (Some mem) (length str) r))"
proof -
  have "(case v of Msg_str s \<Rightarrow> if matches signed_char s (take (length str) mem) then Some ((), rest) else None | _ \<Rightarrow> None) =
      (if v = Msg_str str \<and> (signed_char \<longrightarrow> (\<forall>c \<in> set str. c < 0x80)) then Some ((), rest) else None)"
    unfolding assms(2) by (cases v) (auto simp: matches_def)
  moreover have "length str \<le> length mem" using assms(2) by (metis length_take min.absorb_iff1 min.commute)
  ultimately show ?thesis using str_match_answers [OF assms(1), of "length str" mem signed_char] by simp
qed

text \<open>
  \<open>mpack_expect_str_match\<close> and \<open>mpack_expect_cstr_match\<close> accept the encoding of exactly the given
  string, with what follows it unread, and flag a type error on every other value. Where plain \<open>char\<close>
  is signed they refuse also the given string itself when it has a byte above 0x7F, so that no text
  outside ASCII is ever matched.
\<close>

theorem expect_match_checked:
  assumes "at_value src v rest r"
  shows "replies src r mpack_error_type ()
      (if v = Msg_str str \<and> (signed_char \<longrightarrow> (\<forall>c \<in> set str. c < 0x80)) then Some ((), rest) else None)
      (unit_result (mpack_expect_str_match signed_char (Some str) (length str) r)) \<and>
    (0 \<notin> set str \<longrightarrow> replies src r mpack_error_type ()
      (if v = Msg_str str \<and> (signed_char \<longrightarrow> (\<forall>c \<in> set str. c < 0x80)) then Some ((), rest) else None)
      (unit_result (mpack_expect_cstr_match signed_char (Some (str @ 0 # tail)) r)))"
proof (intro conjI impI)
  assume "0 \<notin> set str"
  then have "mpack_expect_cstr_match signed_char (Some (str @ 0 # tail)) r =
      mpack_expect_str_match signed_char (Some (str @ 0 # tail)) (length str) r"
    by (simp add: mpack_expect_cstr_match_def with_dest_def)
  moreover have "take (length str) (str @ 0 # tail) = str" by simp
  moreover note str_match_of [OF assms this, of signed_char]
  ultimately show "replies src r mpack_error_type ()
      (if v = Msg_str str \<and> (signed_char \<longrightarrow> (\<forall>c \<in> set str. c < 0x80)) then Some ((), rest) else None)
      (unit_result (mpack_expect_cstr_match signed_char (Some (str @ 0 # tail)) r))" by simp
qed (rule str_match_of [OF assms], simp)

theorem expect_match_checked_witness:
  "(\<exists>r. mpack_expect_str_match True (Some [65, 66]) 2 (piecewise_reader 1 [0xA2, 65, 66, 7]) = Ret r \<and> unread id r = [7]) \<and>
   (\<exists>r. mpack_expect_str_match True (Some [195, 164]) 2 (piecewise_reader 1 [0xA2, 195, 164, 7]) = Ret r \<and>
      rerror r = mpack_error_type)"
proof -
  have ascii: "at_value id (Msg_str [65, 66]) [7] (piecewise_reader 1 [0xA2, 65, 66, 7])"
    using at_str_piecewise [of 1 "[65, 66]" "[7]"] by simp
  have umlaut: "at_value id (Msg_str [195, 164]) [7] (piecewise_reader 1 [0xA2, 195, 164, 7])"
    using at_str_piecewise [of 1 "[195, 164]" "[7]"] by simp
  have len: "length [a, b] = 2" for a b :: u8 by simp
  show ?thesis
    using expect_match_checked [OF ascii, of "[65, 66]" True, THEN conjunct1, unfolded len]
      expect_match_checked [OF umlaut, of "[195, 164]" True, THEN conjunct1, unfolded len]
    by (auto simp: replies_def unit_result_Ret_iff)
qed

subsection \<open>Headers and limits\<close>

lemma header_equal_answers:
  assumes "replies src r mpack_error_type d (header g v rest) (f r)"
  shows "replies src r mpack_error_type () (if g (value_tag v) = Some x then Some ((), value_body v @ rest) else None)
    (unit_result (expect_equal mpack_error_type f x r))"
  by (rule expect_equal_answers) (use assms in \<open>simp_all add: header_def\<close>)

text \<open>The values that pass a test \<open>g\<close> and lie in a range.\<close>

definition limited :: "('a::len word \<Rightarrow> int) \<Rightarrow> 'a word \<Rightarrow> 'a word \<Rightarrow> 'a word option \<Rightarrow> 'a word option" where
  "limited num lo hi y = Option.bind y (\<lambda>x. if num lo \<le> num x \<and> num x \<le> num hi then Some x else None)"

lemma integer_range_answers:
  assumes "expects_integer src v rest r a b f" "num lo \<le> num hi"
  shows "replies src r mpack_error_type lo (map_option (\<lambda>n. (n, rest)) (limited num lo hi (int_within a b v)))
    (expect_range f num lo hi r)"
  unfolding limited_def
  by (rule expect_range_answer) (use assms in \<open>simp_all add: expects_integer_def\<close>)

lemma header_max_answers:
  assumes "replies src r mpack_error_type 0 (header g v rest) (f r)"
  shows "replies src r mpack_error_type 0 (header (\<lambda>t. limited uint 0 m (g t)) v rest) (expect_range f uint 0 m r)"
  unfolding header_def limited_def
  by (rule expect_range_answer) (use assms in \<open>simp_all add: header_def\<close>)

text \<open>
  C27. The functions for nil, Booleans and the headers of strings, binary data, arrays and maps, in front of an
  encoded value, answer its length or count and leave its content, exactly when the value has the type asked
  for; the variants with a limit refuse a larger count, those with \<open>or_nil\<close> accept a nil. Every other value is
  a type error and answered with 0.
\<close>

theorem expect_headers_checked:
  assumes "at_value src v rest r"
  shows "replies src r mpack_error_type () (if v = Msg_nil then Some ((), rest) else None)
      (unit_result (mpack_expect_nil r)) \<and>
    replies src r mpack_error_type (hd (msgpack_encode v) AND 1 \<noteq> 0)
      (case v of Msg_bool b \<Rightarrow> Some (b, rest) | _ \<Rightarrow> None) (mpack_expect_bool r) \<and>
    replies src r mpack_error_type 0 (header str_of_tag v rest) (mpack_expect_str r) \<and>
    replies src r mpack_error_type 0 (header bin_of_tag v rest) (mpack_expect_bin r) \<and>
    replies src r mpack_error_type 0 (header array_of_tag v rest) (mpack_expect_array r) \<and>
    replies src r mpack_error_type 0 (header map_of_tag v rest) (mpack_expect_map r) \<and>
    replies src r mpack_error_type (False, 0) (header (or_nil array_of_tag) v rest) (mpack_expect_array_or_nil r) \<and>
    replies src r mpack_error_type (False, 0) (header (or_nil map_of_tag) v rest) (mpack_expect_map_or_nil r) \<and>
    replies src r mpack_error_type 0 (header (\<lambda>t. limited uint 0 m (array_of_tag t)) v rest) (mpack_expect_array_max m r) \<and>
    replies src r mpack_error_type 0 (header (\<lambda>t. limited uint 0 m (map_of_tag t)) v rest) (mpack_expect_map_max m r)"
  unfolding mpack_expect_array_max_def mpack_expect_array_range_def mpack_expect_map_max_def mpack_expect_map_range_def
  by (intro conjI nil_answers bool_answers str_answers bin_answers array_answers map_answers array_or_nil_answers
      map_or_nil_answers header_max_answers assms)

theorem expect_headers_checked_witness:
  "\<exists>r. mpack_expect_array (piecewise_reader 2 [0x92, 5, 6, 7]) = Ret (2, r) \<and> unread id r = [5, 6, 7]"
proof -
  have "at_value id (Msg_array [Msg_int 5, Msg_int 6]) [7] (piecewise_reader 2 [0x92, 5, 6, 7])"
    using at_value_piecewise [of 2 "Msg_array [Msg_int 5, Msg_int 6]" "[7]"]
    by (simp add: msgpack_array_header_def msgpack_int_def be_bytes_def fix_tag_def)
  then show ?thesis
    using expect_headers_checked [of id _ "[7]" "piecewise_reader 2 [0x92, 5, 6, 7]"]
    by (fastforce simp: replies_def header_def msgpack_int_def be_bytes_def)
qed

text \<open>
  C26. Each integer function of the expect API, on a reader in front of the encoding of a value, returns
  the integer and leaves what follows it, exactly when the value is an integer in the range of its
  type; otherwise it returns 0 with a type error. The variants with bounds answer an integer exactly when it
  lies also between these, and otherwise the lower bound with a type error.
\<close>

theorem expect_integers_checked:
  assumes "at_value src v rest r"
  shows "expects_integer src v rest r 0 255 mpack_expect_u8 \<and>
    expects_integer src v rest r 0 65535 mpack_expect_u16 \<and>
    expects_integer src v rest r 0 4294967295 mpack_expect_u32 \<and>
    expects_integer src v rest r 0 18446744073709551615 mpack_expect_u64 \<and>
    expects_integer src v rest r (- 128) 127 mpack_expect_i8 \<and>
    expects_integer src v rest r (- 32768) 32767 mpack_expect_i16 \<and>
    expects_integer src v rest r (- 2147483648) 2147483647 mpack_expect_i32 \<and>
    expects_integer src v rest r (- 9223372036854775808) 9223372036854775807 mpack_expect_i64 \<and>
    (uint a \<le> uint b \<longrightarrow> replies src r mpack_error_type a
      (map_option (\<lambda>n. (n, rest)) (limited uint a b (int_within 0 4294967295 v))) (mpack_expect_u32_range a b r)) \<and>
    (sint c \<le> sint d \<longrightarrow> replies src r mpack_error_type c
      (map_option (\<lambda>n. (n, rest)) (limited sint c d (int_within (- 2147483648) 2147483647 v)))
      (mpack_expect_i32_range c d r))"
  unfolding mpack_expect_u8_def mpack_expect_u16_def mpack_expect_u32_def mpack_expect_i8_def
    mpack_expect_i16_def mpack_expect_i32_def mpack_expect_u32_range_def mpack_expect_i32_range_def expect_64_eq
  by (intro conjI impI integer_range_answers; (rule expect_number_answer [OF assms]; simp)?)

theorem expect_integers_checked_witness:
  "(\<exists>r. mpack_expect_u8 (piecewise_reader 2 [0xCC, 200, 9]) = Ret (200, r) \<and> unread id r = [9]) \<and>
   (\<exists>r. mpack_expect_i8 (piecewise_reader 2 [0xCC, 200, 9]) = Ret (0, r) \<and> rerror r = mpack_error_type)"
proof -
  have "at_value id (Msg_int 200) [9] (piecewise_reader 2 [0xCC, 200, 9])"
    using at_value_piecewise [of 2 "Msg_int 200" "[9]"] by (simp add: msgpack_int_def be_bytes_def)
  from expect_integers_checked [OF this, of 0 0 0 0]
  show ?thesis by (auto simp: expects_integer_def replies_def int_within_def)
qed

end
