(* ===== verification/Mpack_Expect_Keys.thy ===== *)
theory Mpack_Expect_Keys
  imports Mpack_Expect_Values
begin

text \<open>
  The enumerations and keys of the expect API, in front of an encoded value.
\<close>

subsection \<open>Enumerations and keys\<close>

text \<open>Objects that hold given C strings.\<close>

definition cstrings :: "bytes list \<Rightarrow> bytes list \<Rightarrow> bool" where
  "cstrings = list_all2 (\<lambda>m name. \<exists>t. m = name @ 0 # t \<and> 0 \<notin> set name)"

definition find_name :: "bytes \<Rightarrow> bytes list \<Rightarrow> nat" where
  "find_name key names = length (takeWhile (\<lambda>name. name \<noteq> key) names)"

lemma enum_scan_finds:
  assumes "cstrings mems names" "keylen \<le> length key"
  shows "enum_scan key keylen mems i = Ret (i + find_name (take keylen key) names)"
  using assms(1) unfolding cstrings_def
proof (induction arbitrary: i rule: list_all2_induct)
  case (Cons m mems name names)
  then obtain t where m: "m = name @ 0 # t" "0 \<notin> set name" by blast
  show ?case
  proof (cases "keylen = length name")
    case True
    have "returns (mpack_memcmp key m keylen)" using True m assms(2) by (intro memcmp_returns) simp_all
    then obtain c where c: "mpack_memcmp key m keylen = Ret c" by (cases "mpack_memcmp key m keylen") simp_all
    then have "c = 0 \<longleftrightarrow> take keylen key = name"
      using memcmp_eq_0 [of keylen key m] True m assms(2) by simp
    then show ?thesis using Cons c True m by (auto simp: find_name_def)
  next
    case False
    then have "take keylen key \<noteq> name" using assms(2) by auto
    then show ?thesis using Cons False m by (auto simp: find_name_def)
  qed
qed (simp add: find_name_def)

lemma find_name_le: "find_name key names \<le> length names"
  unfolding find_name_def by (rule length_takeWhile_le)

lemma cstrings_length: "cstrings mems names \<Longrightarrow> length mems = length names"
  unfolding cstrings_def by (rule list_all2_lengthD)

text \<open>A buffer that can hold the string of a value.\<close>

definition room_for :: "msgpack \<Rightarrow> 's mpack_reader \<Rightarrow> bool" where
  "room_for v r \<longleftrightarrow> rfill r \<noteq> None \<longrightarrow> length (value_body v) \<le> rsize r"

lemma expect_enum_key_str:
  assumes "at_value src (Msg_str s) rest r" "room_for (Msg_str s) r" "cstrings mems names"
  obtains r' where "expect_enum_key mems finish r = finish (find_name s names) r'" "reader_ok src r'"
    "same_source r r'" "rerror r' = mpack_ok" "unread src r' = rest"
proof -
  obtain r1 where r1: "mpack_expect_str r = Ret (word_of_nat (length s), r1)" "reader_ok src r1" "same_source r r1"
    "rerror r1 = mpack_ok" "unread src r1 = s @ rest"
    using str_answers [OF assms(1)] by (auto simp: replies_def header_def)
  have len: "unat (word_of_nat (length s) :: u32) = length s"
    using at_valueD(4) [OF assms(1)] by (simp add: unat_len)
  have steady: "steady src r1" using at_valueD(3) [OF assms(1)] same_source_steady [OF r1(3)] by simp
  obtain str r' where r': "mpack_read_bytes_inplace (length s) r1 = Ret (str, r')" "reader_ok src r'" "same_source r1 r'"
    "if rerror r' = mpack_ok
     then length s \<le> length (unread src r1) \<and> unread src r' = drop (length s) (unread src r1) \<and>
       (\<exists>p. str = Some p \<and> load_at (length s) id (robj r') p = Ret (take (length s) (unread src r1)))
     else str = None \<and>
       (steady src r1 \<longrightarrow> length (unread src r1) < length s \<or> rfill r1 \<noteq> None \<and> rsize r1 < length s)"
    using read_bytes_inplace_spec [OF r1(2,4)] by blast
  have room: "\<not> (rfill r1 \<noteq> None \<and> rsize r1 < length s)"
    using assms(2) r1(3) by (auto simp: room_for_def same_source_def)
  have ok: "rerror r' = mpack_ok" using r'(4) steady room r1(5) by (cases "rerror r' = mpack_ok") auto
  then obtain p where p: "str = Some p" "load_at (length s) id (robj r') p = Ret s" "unread src r' = rest"
    using r'(4) r1(5) by auto
  then have key: "length s \<le> length (drop p (robj r'))" "take (length s) (drop p (robj r')) = s"
    by (simp_all add: load_at_def split: if_splits)
  have "expect_enum_key mems finish r = finish (find_name s names) r'"
    using r1(1) len r'(1) ok p(1) enum_scan_finds [OF assms(3) key(1), of 0] key(2)
    by (simp add: expect_enum_key_def)
  then show ?thesis using that r'(2) ok p(3) same_source_trans [OF r1(3) r'(3)] by blast
qed

lemma expect_enum_key_other:
  assumes "at_value src v rest r" "str_of_tag (value_tag v) = None"
  obtains r' where "expect_enum_key mems finish r = Ret (length mems, r')" "reader_ok src r'"
    "same_source r r'" "rerror r' = mpack_error_type"
proof -
  obtain r' where r': "mpack_expect_str r = Ret (0, r')" "reader_ok src r'" "same_source r r'"
    "rerror r' = mpack_error_type"
    using str_answers [OF assms(1)] assms(2) by (auto simp: replies_def header_def)
  then have "expect_enum_key mems finish r = Ret (length mems, r')"
    by (simp add: expect_enum_key_def mpack_read_bytes_inplace_def mpack_read_bytes_inplace_notrack_def)
  then show ?thesis using that r' by blast
qed

text \<open>The number of a value among the names or integers of a set of keys, when it is one of them.\<close>

definition enum_of :: "bytes list \<Rightarrow> msgpack \<Rightarrow> nat option" where
  "enum_of names v =
     (case v of Msg_str s \<Rightarrow> if s \<in> set names then Some (find_name s names) else None | _ \<Rightarrow> None)"

definition key_number :: "nat \<Rightarrow> msgpack \<Rightarrow> nat option" where
  "key_number count v =
     (case v of Msg_int i \<Rightarrow> if 0 \<le> i \<and> i < int count then Some (nat i) else None | _ \<Rightarrow> None)"

text \<open>A key that is unknown, met for the first time, or met again.\<close>

definition next_key :: "nat \<Rightarrow> bool list \<Rightarrow> nat option \<Rightarrow> (nat \<times> bool list option) option" where
  "next_key count found k =
     (case k of
        None \<Rightarrow> Some (count, Some found)
      | Some i \<Rightarrow> if found ! i then None else Some (i, Some (found[i := True])))"

lemma find_name_less: "find_name s names < length names \<longleftrightarrow> s \<in> set names"
  by (induction names) (auto simp: find_name_def)

lemma enum_answers:
  assumes "at_value src v rest r" "room_for v r" "cstrings mems names"
  shows "replies src r mpack_error_type (length names) (map_option (\<lambda>i. (i, rest)) (enum_of names v))
    (mpack_expect_enum mems r)"
proof (cases "str_of_tag (value_tag v)")
  case None
  then have "enum_of names v = None" by (cases v) (simp_all add: enum_of_def)
  moreover obtain r' where "mpack_expect_enum mems r = Ret (length mems, r')" "reader_ok src r'"
    "same_source r r'" "rerror r' = mpack_error_type"
    unfolding mpack_expect_enum_def by (rule expect_enum_key_other [OF assms(1) None])
  ultimately show ?thesis
    using cstrings_length [OF assms(3)] by (auto simp: replies_def)
next
  case (Some n)
  then obtain s where s: "v = Msg_str s" by (cases v) (auto split: if_splits)
  let ?finish = "\<lambda>i r. if i < length mems then Ret (i, r) else fail_with mpack_error_type (length mems) r"
  obtain r' where r': "mpack_expect_enum mems r = ?finish (find_name s names) r'" "reader_ok src r'"
    "same_source r r'" "rerror r' = mpack_ok" "unread src r' = rest"
    unfolding mpack_expect_enum_def
    by (rule expect_enum_key_str [OF assms(1,2) [unfolded s] assms(3)])
  show ?thesis
    using r' s cstrings_length [OF assms(3)] find_name_less [of s names] flag_error_ok [OF r'(2)]
      same_source_trans [OF r'(3) flag_error_source]
    by (auto simp: replies_def enum_of_def fail_with_def)
qed

lemma enum_optional_answers:
  assumes "at_value src v rest r" "room_for v r" "cstrings mems names" "names \<noteq> []"
    "length (unread src r) < fuel"
  obtains r' where
    "mpack_expect_enum_optional fuel (Some mems) (length names) r =
       Ret (case enum_of names v of None \<Rightarrow> length names | Some i \<Rightarrow> i, r')"
    "reader_ok src r'" "same_source r r'" "rerror r' = mpack_ok" "unread src r' = rest"
proof -
  note v = at_valueD [OF assms(1)]
  obtain r1 where r1: "mpack_peek_tag r = Ret (value_tag v, r1)" "same_source r r1" "at_value src v rest r1"
    by (rule peek_at_value [OF assms(1)])
  have fuel: "length (unread src r1) < fuel" using assms(5) v(5) at_valueD(5) [OF r1(3)] by simp
  have "room_for v r1" using assms(2) r1(2) by (simp add: room_for_def same_source_def)
  note len = cstrings_length [OF assms(3)]
  show ?thesis
  proof (cases "\<exists>s. v = Msg_str s")
    case True
    then obtain s where s: "v = Msg_str s" ..
    obtain r' where r': "expect_enum_key mems (\<lambda>i r. Ret (i, r)) r1 = Ret (find_name s names, r')" "reader_ok src r'"
      "same_source r1 r'" "rerror r' = mpack_ok" "unread src r' = rest"
      by (rule expect_enum_key_str [OF r1(3) [unfolded s] \<open>room_for v r1\<close> [unfolded s] assms(3)])
    have "(case enum_of names v of None \<Rightarrow> length names | Some i \<Rightarrow> i) = find_name s names"
      using s find_name_less [of s names] find_name_le [of s names] by (auto simp: enum_of_def)
    then show ?thesis
      using that [of r'] r1(1) r' v(2) assms(4) s len same_source_trans [OF r1(2) r'(3)]
      by (simp add: mpack_expect_enum_optional_def mpack_assert_def)
  next
    case False
    obtain r' where r': "mpack_discard fuel r1 = Ret r'" "reader_ok src r'" "same_source r1 r'" "rerror r' = mpack_ok"
      "unread src r' = rest"
      by (rule discard_at_value [OF r1(3) fuel])
    have "mpack_tag_type (value_tag v) \<noteq> mpack_type_str" "enum_of names v = None"
      using False by (cases v; simp add: enum_of_def)+
    then show ?thesis
      using that [of r'] r1(1) r' v(2) assms(4) same_source_trans [OF r1(2) r'(3)]
      by (simp add: mpack_expect_enum_optional_def mpack_assert_def)
  qed
qed

lemma enum_of_less: "enum_of names v = Some i \<Longrightarrow> i < length names"
  by (cases v) (auto simp: enum_of_def find_name_less split: if_splits)

lemma key_cstr_answers:
  assumes "at_value src v rest r" "room_for v r" "cstrings mems names" "names \<noteq> []"
    "length found = length names" "length (unread src r) < fuel"
  shows "replies src r mpack_error_invalid (length names, Some found)
      (map_option (\<lambda>x. (x, rest)) (next_key (length names) found (enum_of names v)))
      (mpack_expect_key_cstr fuel (Some mems) (Some found) (length names) r)"
proof -
  obtain r' where r':
    "mpack_expect_enum_optional fuel (Some mems) (length names) r =
       Ret (case enum_of names v of None \<Rightarrow> length names | Some i \<Rightarrow> i, r')"
    "reader_ok src r'" "same_source r r'" "rerror r' = mpack_ok" "unread src r' = rest"
    by (rule enum_optional_answers [OF assms(1-4,6)])
  show ?thesis
  proof (cases "enum_of names v")
    case None
    then show ?thesis
      using r' by (auto simp: replies_def mpack_expect_key_cstr_def next_key_def)
  next
    case (Some i)
    then show ?thesis
      using r' assms(5) enum_of_less [OF Some] flag_error_ok [OF r'(2)] same_source_trans [OF r'(3) flag_error_source]
      by (auto simp: replies_def mpack_expect_key_cstr_def next_key_def fail_with_def)
  qed
qed

lemma key_uint_answers:
  assumes "at_value src v rest r" "length found = count" "0 < count" "length (unread src r) < fuel"
  shows "replies src r mpack_error_invalid (count, Some found)
      (map_option (\<lambda>x. (x, rest)) (next_key count found (key_number count v)))
      (mpack_expect_key_uint fuel (Some found) count r)"
proof -
  note v = at_valueD [OF assms(1)]
  obtain r1 where r1: "mpack_peek_tag r = Ret (value_tag v, r1)" "same_source r r1" "at_value src v rest r1"
    by (rule peek_at_value [OF assms(1)])
  have fuel: "length (unread src r1) < fuel" using assms(4) v(5) at_valueD(5) [OF r1(3)] by simp
  show ?thesis
  proof (cases "\<exists>i. v = Msg_int i \<and> 0 \<le> i")
    case True
    then obtain i where i: "v = Msg_int i" "0 \<le> i" "i < 18446744073709551616" using v(4) by auto
    have "expects_integer src v rest r1 0 18446744073709551615 mpack_expect_u64"
      unfolding expect_64_eq by (rule expect_number_answer [OF r1(3)]) simp_all
    then obtain r' where r': "mpack_expect_u64 r1 = Ret (word_of_int i, r')" "reader_ok src r'" "same_source r1 r'"
      "rerror r' = mpack_ok" "unread src r' = rest"
      using i by (auto simp: expects_integer_def replies_def int_within_def)
    have n: "unat (word_of_int i :: u64) = nat i"
      using i(2,3) by (simp add: unat_eq_nat_uint word_of_int_range)
    have key: "key_number count v = (if nat i < count then Some (nat i) else None)"
      using i by (auto simp: key_number_def)
    show ?thesis
      using i r1(1) r' n key v(2) assms(2,3) flag_error_ok [OF r'(2)] same_source_trans [OF r1(2) r'(3)]
        same_source_trans [OF same_source_trans [OF r1(2) r'(3)] flag_error_source]
      by (simp add: replies_def mpack_expect_key_uint_def next_key_def fail_with_def)
  next
    case False
    obtain r' where r': "mpack_discard fuel r1 = Ret r'" "reader_ok src r'" "same_source r1 r'" "rerror r' = mpack_ok"
      "unread src r' = rest"
      by (rule discard_at_value [OF r1(3) fuel])
    have "mpack_tag_type (value_tag v) \<noteq> mpack_type_uint" "key_number count v = None"
      using False by (cases v; auto simp: key_number_def)+
    then show ?thesis
      using r1(1) r' v(2) assms(3) same_source_trans [OF r1(2) r'(3)]
      by (auto simp: replies_def mpack_expect_key_uint_def next_key_def)
  qed
qed

text \<open>
  C29. Enumerations and keys, in front of an encoded value: \<open>mpack_expect_enum\<close> answers the number of
  the first name that is the string read, and flags a type error on every other value. The functions
  for keys answer the number of a key that is met for the first time and mark it; a second time is
  an invalid error that leaves the marks alone; any other value is discarded as a whole, whatever it
  contains, and answered with the number of keys.
\<close>

theorem expect_keys_checked:
  assumes "at_value src v rest r" "room_for v r" "cstrings mems names" "names \<noteq> []"
    "length found = length names" "length (unread src r) < fuel"
  shows "replies src r mpack_error_type (length names) (map_option (\<lambda>i. (i, rest)) (enum_of names v))
      (mpack_expect_enum mems r) \<and>
    replies src r mpack_error_invalid (length names, Some found)
      (map_option (\<lambda>x. (x, rest)) (next_key (length names) found (enum_of names v)))
      (mpack_expect_key_cstr fuel (Some mems) (Some found) (length names) r) \<and>
    replies src r mpack_error_invalid (length names, Some found)
      (map_option (\<lambda>x. (x, rest)) (next_key (length names) found (key_number (length names) v)))
      (mpack_expect_key_uint fuel (Some found) (length names) r)"
  using enum_answers [OF assms(1-3)] key_cstr_answers [OF assms] key_uint_answers [OF assms(1,5) _ assms(6)] assms(4)
  by blast

theorem expect_keys_checked_witness:
  "(\<exists>r. mpack_expect_key_cstr 9 (Some [[65, 0], [66, 67, 0]]) (Some [False, False]) 2
        (piecewise_reader 1 [0xA2, 66, 67, 7]) = Ret ((1, Some [False, True]), r) \<and> unread id r = [7]) \<and>
   (\<exists>r. mpack_expect_key_cstr 9 (Some [[65, 0], [66, 67, 0]]) (Some [False, True]) 2
        (piecewise_reader 1 [0xA2, 66, 67, 7]) = Ret ((2, Some [False, True]), r) \<and> rerror r = mpack_error_invalid)"
proof -
  have v: "at_value id (Msg_str [66, 67]) [7] (piecewise_reader 1 [0xA2, 66, 67, 7])"
    using at_str_piecewise [of 1 "[66, 67]" "[7]"] by simp
  have room: "room_for (Msg_str [66, 67]) (piecewise_reader 1 [0xA2, 66, 67, 7])"
    by (simp add: room_for_def piecewise_reader_def zeroed_reader_def)
  have names: "cstrings [[65, 0], [66, 67, 0]] [[65], [66, 67]]"
    by (simp add: cstrings_def)
  have fuel: "length (unread id (piecewise_reader 1 [0xA2, 66, 67, 7])) < 9"
    using at_valueD(5) [OF v] by (simp add: msgpack_str_header_def fix_tag_def)
  have len: "length [a, b] = 2" for a b :: bytes by simp
  have "enum_of [[65], [66, 67]] (Msg_str [66, 67]) = Some 1"
    by (simp add: enum_of_def find_name_def)
  then show ?thesis
    using expect_keys_checked [OF v room names _ _ fuel, of "[False, False]", THEN conjunct2, THEN conjunct1, unfolded len]
      expect_keys_checked [OF v room names _ _ fuel, of "[False, True]", THEN conjunct2, THEN conjunct1, unfolded len]
    by (auto simp: replies_def next_key_def)
qed

end
