(* ===== verification/Mpack_Expect_Safety.thy ===== *)
theory Mpack_Expect_Safety
  imports Mpack_Expect_Keys
begin

text \<open>
  What holds of the reading functions on any bytes: they leave an intact reader, and what they answer
  does not depend on the pieces in which the source delivers the bytes.
\<close>

subsection \<open>Reads into a buffer\<close>

lemma read_native_yields:
  assumes "reader_ok src r" "rerror r = mpack_ok" "n \<le> length p"
  shows "yields src r (list_word n (\<lambda>bs. bs @ drop n p)) (mpack_read_native p n r)"
proof -
  obtain p' r' where r': "mpack_read_native p n r = Ret (p', r')" "reader_ok src r'" "same_source r r'"
    "length p' = length p" "drop n p' = drop n p"
    "if rerror r \<noteq> mpack_ok then r' = r \<and> take n p' = replicate n 0
     else if rerror r' = mpack_ok then take n p' @ unread src r' = unread src r
     else steady src r \<longrightarrow> length (unread src r) < n"
    using read_native_spec [OF assms(1,3)] unfolding read_into_def by blast
  show ?thesis
  proof (cases "rerror r' = mpack_ok")
    case True
    then have un: "unread src r = take n p' @ unread src r'" using r'(6) assms(2) by simp
    have "p' = take n p' @ drop n p" using r'(5) append_take_drop_id [of n p'] by simp
    then have "list_word n (\<lambda>bs. bs @ drop n p) (unread src r) = Some (p', unread src r')"
      using assms(3) r'(4) by (simp add: list_word_def un)
    then show ?thesis using r'(1-3) True un by (simp add: yields_ok)
  next
    case False
    then show ?thesis using r'(1-3,6) assms(2) by (auto simp: list_word_def intro!: yields_err)
  qed
qed

definition list_buf :: "u32 list_parser \<Rightarrow> bytes \<Rightarrow> nat \<Rightarrow> (nat \<times> bytes) list_parser" where
  "list_buf q p bufsize = then_parse q (\<lambda>len. if unat len \<le> bufsize
     then list_word (unat len) (\<lambda>bs. (unat len, bs @ drop (unat len) p)) else (\<lambda>s. None))"

lemma list_word_map:
  "(\<lambda>s. map_option (\<lambda>(x, s). (h x, s)) (list_word n f s)) = list_word n (h \<circ> f)"
  by (auto simp: list_word_def)

lemma expect_buf_yields:
  assumes "reader_ok src r" "rerror r = mpack_ok" "bufsize \<le> length p" "yields src r q (f r)"
  shows "yields src r (list_buf q p bufsize) (expect_buf f (Some p) bufsize r)"
  unfolding list_buf_def expect_buf_def with_dest_def option.case
proof (rule yields_then [OF assms(4)], goal_cases)
  case (1 len r')
  show ?case
  proof (cases "unat len \<le> bufsize")
    case True
    have "yields src r' (list_word (unat len) (Pair (unat len) \<circ> (\<lambda>bs. bs @ drop (unat len) p)))
        (and_then (mpack_read_native p (unat len) r')
          (\<lambda>(buf, r). if rerror r \<noteq> mpack_ok then Ret ((0, buf), r) else Ret ((unat len, buf), r)))"
      using read_native_yields [OF 1(1,3), of "unat len" p] True assms(3)
      unfolding list_word_map [symmetric]
      by (cases rule: yieldsE) (auto intro: yields_ok yields_err simp: yields_def)
    then show ?thesis using True 1(3) by (simp add: mpack_read_bytes_def with_dest_def comp_def)
  next
    case False
    then show ?thesis using 1(1,3) by (auto simp: fail_with_def intro!: yields_err flag_error_ok)
  qed
next
  case (2 len r')
  then show ?case by (simp add: gives_upI)
qed

lemma buf_yields:
  assumes "reader_ok src r" "rerror r = mpack_ok" "bufsize \<le> length p"
  shows "yields src r (list_buf (accept list_tag str_of_tag) p bufsize) (mpack_expect_str_buf (Some p) bufsize r)"
    and "yields src r (list_buf (accept list_tag bin_of_tag) p bufsize) (mpack_expect_bin_buf (Some p) bufsize r)"
  unfolding mpack_expect_str_buf_def mpack_expect_bin_buf_def
  by (rule expect_buf_yields [OF assms], rule expect_str.live expect_bin.live, rule assms, rule assms)+

definition list_cstr :: "(bytes \<Rightarrow> bool) \<Rightarrow> bytes \<Rightarrow> nat \<Rightarrow> u32 \<Rightarrow> bytes list_parser" where
  "list_cstr check p bufsize len =
     (if unat len < bufsize
      then accept (list_word (unat len) id) (\<lambda>bs. if check bs then Some (bs @ 0 # drop (unat len + 1) p) else None)
      else (\<lambda>s. None))"

lemma read_cstr_yields:
  assumes "reader_ok src r" "rerror r = mpack_ok" "1 \<le> bufsize" "bufsize \<le> length p"
  shows "yields src r (list_cstr check p bufsize len) (read_cstr_checked check (Some p) bufsize (unat len) r)"
proof (cases "unat len < bufsize")
  case False
  have "p \<noteq> []" using assms(3,4) by auto
  then show ?thesis
    using False assms flag_error_ok [OF assms(1)]
    by (auto simp: list_cstr_def read_cstr_checked_def mpack_read_cstr_unchecked_def with_dest_def
        mpack_assert_def store_zero intro!: yields_err)
next
  case True
  let ?n = "unat len"
  have n: "?n \<le> length p" "?n < length p" using True assms(4) by simp_all
  show ?thesis
    using read_native_yields [OF assms(1,2) n(1)]
  proof (cases rule: yieldsE)
    case (ok p' r' c)
    define bs where "bs = take ?n (unread src r)"
    have "?n \<le> length (unread src r)" "p' = bs @ drop ?n p" "unread src r' = drop ?n (unread src r)"
      using ok(5) by (auto simp: list_word_def bs_def split: if_splits)
    then have bs: "length bs = ?n" "p' = bs @ drop ?n p" "unread src r = bs @ unread src r'"
      by (simp_all add: bs_def)
    have store: "store_at p' ?n [0] = Ret (bs @ 0 # drop (?n + 1) p)"
      using bs(1,2) n(2) by (simp add: store_zero)
    have "mpack_read_cstr_unchecked (Some p) bufsize ?n r = Ret (bs @ 0 # drop (?n + 1) p, r')"
      using True assms(2,3) ok(1) store by (auto simp: mpack_read_cstr_unchecked_def with_dest_def mpack_assert_def)
    note run = this bs(1,3) ok(2-4) flag_error_ok [OF ok(2)] same_source_trans [OF ok(3) flag_error_source]
    show ?thesis
    proof (cases "check bs")
      case check: True
      then show ?thesis
        using True run by (auto simp: read_cstr_checked_def list_cstr_def accept_def then_parse_def
            list_word_def intro!: yields_ok [where c = bs])
    next
      case False
      then show ?thesis
        using True run by (auto simp: read_cstr_checked_def list_cstr_def accept_def then_parse_def
            list_word_def store_zero intro!: yields_err)
    qed
  next
    case (err p' r')
    have len: "length p' = length p" using read_native_spec [OF assms(1) n(1)] err(1) by (auto simp: read_into_def)
    have "steady src r \<Longrightarrow> length (unread src r) < ?n"
      using err(5) by (auto simp: list_word_def split: if_splits)
    then show ?thesis
      using True assms(2,3) err(1-4) n(2) len
      by (auto simp: read_cstr_checked_def mpack_read_cstr_unchecked_def with_dest_def mpack_assert_def
          store_zero list_cstr_def accept_def then_parse_def list_word_def intro!: yields_err)
  next
    case float
    then show ?thesis using read_native_spec [OF assms(1) n(1)] by (auto simp: read_into_def)
  qed
qed

lemma expect_cstr_yields:
  assumes "reader_ok src r" "rerror r = mpack_ok" "1 \<le> bufsize" "bufsize \<le> length p"
  shows "yields src r (then_parse (accept list_tag str_of_tag) (list_cstr check p bufsize))
    (and_then (mpack_expect_str r) (\<lambda>(len, r). read_cstr_checked check (Some p) bufsize (unat len) r))"
proof (rule yields_then [OF expect_str.live [OF assms(1,2)]], goal_cases)
  case (1 len r')
  then show ?case using read_cstr_yields [OF 1(1,3) assms(3,4)] by simp
next
  case (2 len r')
  have "p \<noteq> []" using assms(3,4) by auto
  then show ?case
    using cstr_error [OF 2(1) same_source_refl 2(3) _ assms(3), of p "[]" check "unat len"]
    by (auto simp: cstr_read_def gives_up_def)
qed

text \<open>A range test behind an operation.\<close>

lemma expect_range_yields:
  assumes "yields src r p (f r)" "num lo \<le> num hi"
  shows "yields src r (accept p (\<lambda>x. if num lo \<le> num x \<and> num x \<le> num hi then Some x else None))
    (expect_range f num lo hi r)"
  unfolding accept_def expect_range_def using assms(2)
  apply (simp add: mpack_assert_def)
proof (rule yields_then [OF assms(1)], goal_cases)
  case (1 x r')
  then show ?case
    by (cases "num lo \<le> num x \<and> num x \<le> num hi")
      (auto simp: fail_with_def not_le intro: yields_ok [where c = "[]"], (auto intro!: yields_err flag_error_ok)?)
next
  case (2 x r')
  then show ?case by (simp add: gives_upI)
qed

subsection \<open>Comparisons\<close>

definition list_match :: "bool \<Rightarrow> bytes \<Rightarrow> unit list_parser" where
  "list_match signed_char str =
     accept (list_word (length str) id) (\<lambda>s. if matches signed_char s str then Some () else None)"

lemma list_match_Cons:
  "list_match signed_char (c # str) =
     then_parse (list_word 1 mpack_load_u8)
       (\<lambda>b. if uint b = char_value signed_char c then list_match signed_char str else (\<lambda>s. None))"
proof
  show "list_match signed_char (c # str) s =
      then_parse (list_word 1 mpack_load_u8)
       (\<lambda>b. if uint b = char_value signed_char c then list_match signed_char str else (\<lambda>s. None)) s" for s
    by (cases s) (auto simp: list_match_def accept_def then_parse_def list_byte list_word_def load_u8_hd matches_Cons)
qed

lemma match_bytes_dead:
  "rerror r \<noteq> mpack_ok \<Longrightarrow> match_bytes signed_char str (length str) r = Ret r"
  by (induction str) (simp_all add: native_u8.dead)

lemma match_bytes_yields:
  "reader_ok src r \<Longrightarrow> rerror r = mpack_ok \<Longrightarrow>
     yields src r (list_match signed_char str) (unit_result (match_bytes signed_char str (length str) r))"
proof (induction str arbitrary: r)
  case Nil
  then show ?case
    by (auto simp: list_match_def accept_def then_parse_def list_word_def matches_def intro!: yields_ok [where c = "[]"])
next
  case (Cons c str)
  show ?case
    unfolding list_match_Cons length_Cons match_bytes.simps unit_result_then
  proof (rule yields_then [OF native_u8.live [OF Cons.prems]], goal_cases)
    case (1 b r')
    then show ?case using Cons.IH [OF 1(1,3)] by (auto intro!: yields_err flag_error_ok)
  next
    case (2 b r')
    then show ?case
      by (simp add: gives_upI match_bytes_dead)
  qed
qed

definition list_str_match :: "bool \<Rightarrow> bytes \<Rightarrow> unit list_parser" where
  "list_str_match signed_char str =
     (if length str > 4294967295 then (\<lambda>s. None)
      else then_parse (accept (accept list_tag str_of_tag) (\<lambda>n. if n = word_of_nat (length str) then Some () else None))
        (\<lambda>_. list_match signed_char str))"

interpretation str_length: reader_equal mpack_expect_str 0 "accept list_tag str_of_tag" n mpack_error_type for n
  by unfold_locales simp

lemma str_match_yields:
  assumes "reader_ok src r" "rerror r = mpack_ok"
  shows "yields src r (list_str_match signed_char str)
    (unit_result (mpack_expect_str_match signed_char (Some str) (length str) r))"
proof (cases "length str > 4294967295")
  case True
  then show ?thesis
    using assms flag_error_ok [OF assms(1)] str_length.equal.dead [of "mpack_reader_flag_error mpack_error_type r"]
    by (auto simp: list_str_match_def mpack_expect_str_match_def with_dest_def mpack_expect_str_length_def
        unit_result_then and_then_unit [of "expect_equal _ _ _ _"] intro!: yields_err)
next
  case False
  have "yields src r (list_str_match signed_char str)
    (and_then (unit_result (expect_equal mpack_error_type mpack_expect_str (word_of_nat (length str)) r))
      (\<lambda>(x, r). unit_result (if rerror r \<noteq> mpack_ok then Ret r else match_bytes signed_char str (length str) r)))"
    unfolding list_str_match_def if_not_P [OF False]
  proof (rule yields_then [OF str_length.equal.live [OF assms]], goal_cases)
    case (1 x r')
    then show ?case using match_bytes_yields [OF 1(1,3)] by simp
  next
    case (2 x r')
    then show ?case by (simp add: gives_upI)
  qed
  then show ?thesis
    using False by (simp add: mpack_expect_str_match_def with_dest_def mpack_expect_str_length_def
        unit_result_then and_then_unit [of "expect_equal _ _ _ _"] case_prod_beta')
qed

subsection \<open>Pieces of the source\<close>

definition fails :: "('a \<times> 's mpack_reader) outcome \<Rightarrow> bool" where
  "fails m \<longleftrightarrow> (\<forall>x r. m = Ret (x, r) \<longrightarrow> rerror r \<noteq> mpack_ok)"

text \<open>Both answer the same and leave the same bytes, or both fail.\<close>

definition agree ::
    "('s \<Rightarrow> bytes) \<Rightarrow> ('t \<Rightarrow> bytes) \<Rightarrow> ('a \<times> 's mpack_reader) outcome \<Rightarrow> ('a \<times> 't mpack_reader) outcome \<Rightarrow> bool" where
  "agree src src' m m' \<longleftrightarrow>
     (\<exists>x r r'. m = Ret (x, r) \<and> m' = Ret (x, r') \<and> rerror r = mpack_ok \<and> rerror r' = mpack_ok \<and>
        unread src r = unread src' r') \<or>
     fails m \<and> fails m'"

definition same_bytes :: "('s \<Rightarrow> bytes) \<Rightarrow> ('t \<Rightarrow> bytes) \<Rightarrow> 's mpack_reader \<Rightarrow> 't mpack_reader \<Rightarrow> bool" where
  "same_bytes src src' r r' \<longleftrightarrow>
     reader_ok src r \<and> rerror r = mpack_ok \<and> steady src r \<and>
     reader_ok src' r' \<and> rerror r' = mpack_ok \<and> steady src' r' \<and> unread src r = unread src' r'"

lemma yields_fails:
  assumes "yields src r p m" "steady src r"
  shows "case p (unread src r) of
      None \<Rightarrow> fails m | Some (x, s) \<Rightarrow> \<exists>r'. m = Ret (x, r') \<and> rerror r' = mpack_ok \<and> unread src r' = s"
  using assms(1)
proof (cases rule: yieldsE)
  case (ok x r' c)
  then show ?thesis by auto
next
  case (err x r')
  then show ?thesis using assms(2) by (simp add: fails_def)
next
  case float
  then show ?thesis by (simp add: fails_def)
qed

lemma yields_agree:
  assumes "same_bytes src src' r r'" "yields src r p m" "yields src' r' p m'"
  shows "agree src src' m m'"
proof -
  have r: "steady src r" "steady src' r'" "unread src' r' = unread src r"
    using assms(1) by (simp_all add: same_bytes_def)
  show ?thesis
    using yields_fails [OF assms(2) r(1)] yields_fails [OF assms(3) r(2)] unfolding r(3)
    by (cases "p (unread src r)") (auto simp: agree_def)
qed

text \<open>
  C15. What the reading functions answer depends only on the bytes that the source delivers, not on the
  pieces it delivers them in, the buffer, or whether they lie in memory: two readers over steady sources
  with the same bytes to come answer the same and leave the same bytes, or both fail.
\<close>

theorem chunking_irrelevant:
  assumes "same_bytes src src' r r'" "bufsize \<le> length p" "length (unread src r) < fuel"
  shows "agree src src' (mpack_read_tag r) (mpack_read_tag r') \<and>
    agree src src' (mpack_expect_u64 r) (mpack_expect_u64 r') \<and>
    agree src src' (mpack_expect_i64 r) (mpack_expect_i64 r') \<and>
    agree src src' (mpack_expect_bool r) (mpack_expect_bool r') \<and>
    agree src src' (mpack_expect_map r) (mpack_expect_map r') \<and>
    agree src src' (mpack_expect_array r) (mpack_expect_array r') \<and>
    agree src src' (mpack_expect_str_buf (Some p) bufsize r) (mpack_expect_str_buf (Some p) bufsize r') \<and>
    agree src src' (unit_result (mpack_expect_str_match signed_char (Some str) (length str) r))
      (unit_result (mpack_expect_str_match signed_char (Some str) (length str) r')) \<and>
    agree src src' (unit_result (mpack_discard fuel r)) (unit_result (mpack_discard fuel r'))"
proof -
  note agree = yields_agree [OF assms(1)]
  have r: "reader_ok src r" "rerror r = mpack_ok" "reader_ok src' r'" "rerror r' = mpack_ok"
    "length (unread src' r') < fuel"
    using assms by (simp_all add: same_bytes_def)
  show ?thesis
    unfolding expect_64_eq
    by (intro conjI agree [OF read_tag.live read_tag.live] agree [OF expect_number.live expect_number.live]
        agree [OF expect_bool.live expect_bool.live] agree [OF expect_map.live expect_map.live]
        agree [OF expect_array.live expect_array.live] agree [OF str_match_yields str_match_yields]
        agree [OF buf_yields(1) buf_yields(1)]
        agree [OF discard_yields discard_yields] r assms(2,3))
qed

subsection \<open>Safety on any bytes\<close>

definition intact :: "('s \<Rightarrow> bytes) \<Rightarrow> 's mpack_reader \<Rightarrow> ('a \<times> 's mpack_reader) outcome \<Rightarrow> bool" where
  "intact src r m \<longleftrightarrow>
     (\<exists>x r'. m = Ret (x, r') \<and> reader_ok src r' \<and> same_source r r' \<and>
        (rerror r \<noteq> mpack_ok \<longrightarrow> rerror r' = rerror r)) \<or>
     m = Fault Assert_failed \<and> float_byte (unread src r)"

lemma intactI:
  "reader_ok src r' \<Longrightarrow> same_source r r' \<Longrightarrow> rerror r = mpack_ok \<or> rerror r' = rerror r \<Longrightarrow> intact src r (Ret (x, r'))"
  by (auto simp: intact_def)

lemma yields_intact: "yields src r p m \<Longrightarrow> rerror r = mpack_ok \<Longrightarrow> intact src r m"
  by (erule yieldsE) (auto simp: intact_def)

lemma op_intact:
  fixes op :: "('s, 'a) read_op"
  assumes "reader_op op d p" "reader_ok src r"
  shows "intact src r (op r)"
  using reader_op.total [OF assms] by (simp add: intact_def)

lemma buf_intact:
  assumes "reader_ok src r" "bufsize \<le> length p"
  shows "intact src r (mpack_expect_str_buf (Some p) bufsize r)"
    and "intact src r (mpack_expect_bin_buf (Some p) bufsize r)"
proof -
  have "intact src r (mpack_expect_str_buf (Some p) bufsize r) \<and> intact src r (mpack_expect_bin_buf (Some p) bufsize r)"
  proof (cases "rerror r = mpack_ok")
    case True
    then show ?thesis using buf_yields [OF assms(1) True assms(2)] by (blast intro: yields_intact)
  next
    case False
    then show ?thesis
      using assms(1) by (auto simp: mpack_expect_str_buf_def mpack_expect_bin_buf_def expect_buf_def with_dest_def
          expect_str.dead expect_bin.dead intro!: intactI)
  qed
  then show "intact src r (mpack_expect_str_buf (Some p) bufsize r)"
    "intact src r (mpack_expect_bin_buf (Some p) bufsize r)" by simp_all
qed

lemma cstr_intact:
  assumes "reader_ok src r" "1 \<le> bufsize" "bufsize \<le> length p"
  shows "intact src r (and_then (mpack_expect_str r) (\<lambda>(len, r). read_cstr_checked check (Some p) bufsize (unat len) r))"
proof (cases "rerror r = mpack_ok")
  case True
  then show ?thesis using expect_cstr_yields [OF assms(1) True assms(2,3)] by (blast intro: yields_intact)
next
  case False
  have "p \<noteq> []" using assms(2,3) by auto
  then show ?thesis
    using False assms by (auto simp: expect_str.dead read_cstr_checked_def mpack_read_cstr_unchecked_def with_dest_def
        mpack_assert_def store_zero intro!: intactI)
qed

lemma str_match_intact:
  assumes "reader_ok src r"
  shows "intact src r (unit_result (mpack_expect_str_match signed_char (Some str) (length str) r))"
proof (cases "rerror r = mpack_ok")
  case True
  then show ?thesis using str_match_yields [OF assms True] by (blast intro: yields_intact)
next
  case False
  then show ?thesis
    using assms by (auto simp: mpack_expect_str_match_def with_dest_def mpack_expect_str_length_def expect_equal_def
        expect_str.dead intro!: intactI)
qed

lemma range_intact:
  fixes f :: "('s, 'a::len word) read_op"
  assumes "reader_op f d p" "reader_ok src r" "num lo \<le> num hi"
  shows "intact src r (expect_range f num lo hi r)"
proof (cases "rerror r = mpack_ok")
  case True
  then show ?thesis
    using expect_range_yields [where f = f and num = num and lo = lo and hi = hi, OF reader_op.live [OF assms(1,2) True] assms(3)] by (blast intro: yields_intact)
next
  case False
  then show ?thesis
    using assms by (auto simp: expect_range_def mpack_assert_def reader_op.dead intro!: intactI)
qed

lemma enum_key_intact:
  assumes "reader_ok src r" "cstrings mems names"
    "\<And>i r'. reader_ok src r' \<Longrightarrow> \<exists>x r''. finish i r' = Ret (x, r'') \<and> reader_ok src r'' \<and> same_source r' r''"
  shows "intact src r (expect_enum_key mems finish r)"
proof (cases "rerror r = mpack_ok")
  case False
  then show ?thesis
    using assms(1) by (auto simp: expect_enum_key_def expect_str.dead mpack_read_bytes_inplace_def
        mpack_read_bytes_inplace_notrack_def intro!: intactI)
next
  case True
  from expect_str.live [OF assms(1) True] show ?thesis
  proof (cases rule: yieldsE)
    case (ok n r1 c)
    obtain str r' where r': "mpack_read_bytes_inplace (unat n) r1 = Ret (str, r')" "reader_ok src r'" "same_source r1 r'"
      "if rerror r' = mpack_ok
       then unat n \<le> length (unread src r1) \<and> unread src r' = drop (unat n) (unread src r1) \<and>
         (\<exists>p. str = Some p \<and> load_at (unat n) id (robj r') p = Ret (take (unat n) (unread src r1)))
       else str = None \<and>
         (steady src r1 \<longrightarrow> length (unread src r1) < unat n \<or> rfill r1 \<noteq> None \<and> rsize r1 < unat n)"
      using read_bytes_inplace_spec [OF ok(2,4)] by blast
    have src: "same_source r r'" using same_source_trans [OF ok(3) r'(3)] .
    show ?thesis
    proof (cases "rerror r' = mpack_ok")
      case rok: True
      then obtain q where q: "str = Some q" "load_at (unat n) id (robj r') q = Ret (take (unat n) (unread src r1))"
        "unat n \<le> length (unread src r1)"
        using r'(4) by auto
      then have "unat n \<le> length (drop q (robj r'))" by (auto simp: load_at_def split: if_splits)
      from enum_scan_finds [OF assms(2) this, of 0]
      have "expect_enum_key mems finish r = finish (find_name (take (unat n) (drop q (robj r'))) names) r'"
        using ok(1) r'(1) rok q(1) by (simp add: expect_enum_key_def)
      then show ?thesis
        using assms(3) [OF r'(2)] True same_source_trans [OF src] by (fastforce simp: intact_def)
    next
      case False
      then show ?thesis
        using ok(1) r'(1,2) src True by (auto simp: expect_enum_key_def intro!: intactI)
    qed
  next
    case (err n r1)
    then show ?thesis
      using True by (auto simp: expect_enum_key_def mpack_read_bytes_inplace_def mpack_read_bytes_inplace_notrack_def
          intro!: intactI)
  next
    case float
    then show ?thesis by (simp add: intact_def expect_enum_key_def)
  qed
qed

lemma discard_intact:
  assumes "reader_ok src r" "length (unread src r) < fuel"
  shows "intact src r (unit_result (mpack_discard fuel r))"
proof (cases "rerror r = mpack_ok")
  case True
  then show ?thesis using discard_yields [OF assms(1) True assms(2)] by (blast intro: yields_intact)
next
  case False
  then show ?thesis
    using assms discard_sticky [OF False] by (cases fuel) (auto intro!: intactI)
qed

text \<open>An operation behind a peek at the next tag.\<close>

lemma peek_intact:
  assumes "reader_ok src r" "rerror r = mpack_ok"
    "\<And>t r'. reader_ok src r' \<Longrightarrow> same_source r r' \<Longrightarrow> rerror r' = mpack_ok \<Longrightarrow>
       unread src r' = unread src r \<Longrightarrow> intact src r' (f (t, r'))"
    "\<And>r'. reader_ok src r' \<Longrightarrow> same_source r r' \<Longrightarrow> rerror r' \<noteq> mpack_ok \<Longrightarrow> \<exists>x. f (Tag_nil, r') = Ret (x, r')"
  shows "intact src r (and_then (mpack_peek_tag r) f)"
  using parse_tag_parsed [OF assms(1,2)]
proof (cases rule: parsed_tagE)
  case (ok count tag r')
  then have "intact src r' (and_then (mpack_peek_tag r) f)"
    using assms(2) assms(3) [OF ok(2-4,7)] by (simp add: mpack_peek_tag_def)
  then show ?thesis using ok(3,7) assms(2) same_source_trans [OF ok(3)] unfolding intact_def by auto
next
  case (err tag r')
  then obtain x where "and_then (mpack_peek_tag r) f = Ret (x, r')"
    using assms(2) assms(4) [OF err(2-4)] by (auto simp: mpack_peek_tag_def mpack_tag_make_nil_def)
  then show ?thesis using err(2,3) assms(2) by (simp add: intactI)
next
  case float
  then show ?thesis using assms(2) by (simp add: mpack_peek_tag_def intact_def)
qed

lemma intact_map:
  assumes "intact src r m"
    "\<And>x r'. reader_ok src r' \<Longrightarrow> same_source r r' \<Longrightarrow>
       \<exists>y r''. f (x, r') = Ret (y, r'') \<and> reader_ok src r'' \<and> same_source r' r'' \<and>
         (rerror r' \<noteq> mpack_ok \<longrightarrow> rerror r'' = rerror r')"
  shows "intact src r (and_then m f)"
  using assms(1) unfolding intact_def
proof (elim disjE exE conjE)
  fix x r'
  assume r': "m = Ret (x, r')" "reader_ok src r'" "same_source r r'" "rerror r \<noteq> mpack_ok \<longrightarrow> rerror r' = rerror r"
  from assms(2) [OF r'(2,3)] obtain y r'' where "f (x, r') = Ret (y, r'')" "reader_ok src r''" "same_source r' r''"
    "rerror r' \<noteq> mpack_ok \<longrightarrow> rerror r'' = rerror r'" by blast
  then show "(\<exists>y r''. and_then m f = Ret (y, r'') \<and> reader_ok src r'' \<and> same_source r r'' \<and>
      (rerror r \<noteq> mpack_ok \<longrightarrow> rerror r'' = rerror r)) \<or> and_then m f = Fault Assert_failed \<and> float_byte (unread src r)"
    using r' same_source_trans [OF r'(3)] by auto
qed simp

lemma discard_then_intact:
  assumes "reader_ok src r" "length (unread src r) < fuel"
  shows "intact src r (and_then (mpack_discard fuel r) (\<lambda>r. Ret (d, r)))"
  using intact_map [OF discard_intact [OF assms], of "\<lambda>(_, r). Ret (d, r)"]
  by (simp add: and_then_unit [of "mpack_discard fuel r"])

lemma discard_dead: "rerror r \<noteq> mpack_ok \<Longrightarrow> 0 < fuel \<Longrightarrow> mpack_discard fuel r = Ret r"
  using discard_sticky [of r "fuel - 1"] by simp

lemma enum_optional_intact:
  assumes "reader_ok src r" "cstrings mems names" "names \<noteq> []" "length (unread src r) < fuel"
  shows "intact src r (mpack_expect_enum_optional fuel (Some mems) (length names) r)"
proof (cases "rerror r = mpack_ok")
  case False
  then show ?thesis using assms(1) by (simp add: mpack_expect_enum_optional_def intactI)
next
  case True
  let ?f = "\<lambda>(tag, r). if mpack_tag_type tag \<noteq> mpack_type_str
      then and_then (mpack_discard fuel r) (\<lambda>r. Ret (length names, r))
      else expect_enum_key (take (length names) mems) (\<lambda>i r. Ret (i, r)) r"
  have "intact src r (and_then (mpack_peek_tag r) ?f)"
  proof (rule peek_intact [OF assms(1) True], goal_cases)
    case (1 t r')
    then show ?case
      using discard_then_intact [OF 1(1), of fuel "length names"]
        enum_key_intact [OF 1(1) assms(2), of "\<lambda>i r. Ret (i, r)"] assms(4) cstrings_length [OF assms(2)]
      by simp
  next
    case (2 r')
    then show ?case using assms(4) by (simp add: discard_dead)
  qed
  then show ?thesis
    using True assms(3) by (simp add: mpack_expect_enum_optional_def mpack_assert_def)
qed

lemma enum_optional_bound:
  assumes "mpack_expect_enum_optional fuel (Some mems) (length names) r = Ret (i, r')" "cstrings mems names"
  shows "i \<le> length names"
proof -
  have scan: "enum_scan key n ms k = Ret j \<Longrightarrow> j \<le> k + length ms" for key n ms k j
    by (induction key n ms k rule: enum_scan.induct) (auto split: if_splits simp: and_then_eq_Ret)
  show ?thesis
    using assms(1) cstrings_length [OF assms(2)]
    by (auto simp: mpack_expect_enum_optional_def mpack_assert_def expect_enum_key_def and_then_eq_Ret
        split: if_splits option.splits dest!: scan)
qed

lemma key_cstr_intact:
  assumes "reader_ok src r" "cstrings mems names" "names \<noteq> []" "length found = length names"
    "length (unread src r) < fuel"
  shows "intact src r (mpack_expect_key_cstr fuel (Some mems) (Some found) (length names) r)"
proof -
  let ?m = "mpack_expect_enum_optional fuel (Some mems) (length names) r"
  from enum_optional_intact [OF assms(1,2,3,5)] show ?thesis
    unfolding intact_def
  proof (elim disjE exE conjE)
    fix i r'
    assume r': "?m = Ret (i, r')" "reader_ok src r'" "same_source r r'" "rerror r \<noteq> mpack_ok \<longrightarrow> rerror r' = rerror r"
    have "i \<le> length names" by (rule enum_optional_bound [OF r'(1) assms(2)])
    then show "(\<exists>x r'. mpack_expect_key_cstr fuel (Some mems) (Some found) (length names) r = Ret (x, r') \<and>
        reader_ok src r' \<and> same_source r r' \<and> (rerror r \<noteq> mpack_ok \<longrightarrow> rerror r' = rerror r)) \<or>
      mpack_expect_key_cstr fuel (Some mems) (Some found) (length names) r = Fault Assert_failed \<and>
        float_byte (unread src r)"
      using r' assms(4) flag_error_ok [OF r'(2)] same_source_trans [OF r'(3) flag_error_source]
      by (auto simp: mpack_expect_key_cstr_def fail_with_def)
  qed (simp add: mpack_expect_key_cstr_def)
qed

lemma key_uint_intact:
  assumes "reader_ok src r" "length found = count" "length (unread src r) < fuel"
  shows "intact src r (mpack_expect_key_uint fuel (Some found) count r)"
proof (cases "rerror r = mpack_ok")
  case False
  then show ?thesis using assms(1) by (simp add: mpack_expect_key_uint_def intactI)
next
  case True
  let ?g = "\<lambda>(value', r).
      if rerror r \<noteq> mpack_ok then Ret ((count, Some found), r)
      else if unat value' \<ge> count then Ret ((count, Some found), r)
      else if unat value' \<ge> length found then Fault Oob_read
      else if found ! unat value' then fail_with mpack_error_invalid (count, Some found) r
      else Ret ((unat value', Some (found[unat value' := True])), r)"
  let ?f = "\<lambda>(tag, r). if mpack_tag_type tag \<noteq> mpack_type_uint
      then and_then (mpack_discard fuel r) (\<lambda>r. Ret ((count, Some found), r))
      else and_then (mpack_expect_u64 r) ?g"
  have "intact src r (and_then (mpack_peek_tag r) ?f)"
  proof (rule peek_intact [OF assms(1) True], goal_cases)
    case (1 t r')
    have "intact src r' (and_then (mpack_expect_u64 r') ?g)"
      unfolding expect_64_eq
      by (rule intact_map [OF op_intact [OF expect_number.reader_op_axioms 1(1)]])
        (use assms(2) in \<open>auto simp: fail_with_def flag_error_ok\<close>)
    then show ?case
      using discard_then_intact [OF 1(1), of fuel "(count, Some found)"] 1(4) assms(3) by simp
  next
    case (2 r')
    then show ?case using assms(3) by (simp add: discard_dead)
  qed
  then show ?thesis
    using True assms(1) flag_error_ok [OF assms(1)] by (auto simp: mpack_expect_key_uint_def fail_with_def intro: intactI)
qed

lemma skip_intact: "reader_ok src r \<Longrightarrow> intact src r (unit_result (mpack_skip_bytes n r))"
  by (rule op_intact [OF skip_bytes.reader_op_axioms])

lemma read_bytes_intact:
  assumes "reader_ok src r" "n \<le> length p"
  shows "intact src r (mpack_read_bytes (Some p) n r)"
  using read_native_spec [OF assms]
  by (cases "rerror r = mpack_ok")
    (auto simp: read_into_def mpack_read_bytes_def with_dest_def intro!: intactI split del: if_split)

text \<open>
  C14. On a reader that is well-formed over its source, in error or not, and whatever bytes and errors the
  source delivers, the reading functions return and leave a reader that is well-formed over the same
  source, with a first error kept; they read and write only inside their objects. They stop only at the
  assertion behind the float types, when a byte of such a type is to come.
\<close>

theorem reading_keeps_reader:
  assumes "reader_ok src r" "1 \<le> bufsize" "bufsize \<le> length p" "cstrings mems names" "names \<noteq> []"
    "length found = length names" "length (unread src r) < fuel"
  shows "intact src r (mpack_read_bytes (Some p) bufsize r) \<and> intact src r (unit_result (mpack_skip_bytes n r)) \<and>
    intact src r (mpack_read_tag r) \<and> intact src r (mpack_peek_tag r) \<and>
    intact src r (unit_result (mpack_discard fuel r)) \<and>
    intact src r (mpack_expect_u8 r) \<and> intact src r (mpack_expect_i16 r) \<and>
    intact src r (mpack_expect_u64 r) \<and> intact src r (mpack_expect_u32_max m r) \<and>
    intact src r (unit_result (mpack_expect_nil r)) \<and> intact src r (mpack_expect_bool r) \<and>
    intact src r (mpack_expect_map_max m r) \<and> intact src r (mpack_expect_array_or_nil r) \<and>
    intact src r (mpack_expect_str r) \<and> intact src r (mpack_expect_bin_buf (Some p) bufsize r) \<and>
    intact src r (mpack_expect_str_buf (Some p) bufsize r) \<and>
    intact src r (mpack_expect_cstr (Some p) bufsize r) \<and>
    intact src r (mpack_expect_utf8_cstr (Some p) bufsize r) \<and>
    intact src r (unit_result (mpack_expect_str_match signed_char (Some str) (length str) r)) \<and>
    intact src r (mpack_expect_enum mems r) \<and>
    intact src r (mpack_expect_key_uint fuel (Some found) (length names) r) \<and>
    intact src r (mpack_expect_key_cstr fuel (Some mems) (Some found) (length names) r)"
proof -
  have enum: "intact src r (mpack_expect_enum mems r)"
    unfolding mpack_expect_enum_def
    by (rule enum_key_intact [OF assms(1,4)]) (auto simp: fail_with_def flag_error_ok)
  note ops = read_tag.reader_op_axioms peek_tag.reader_op_axioms expect_number.reader_op_axioms
    expect_bool.reader_op_axioms expect_array_or_nil.reader_op_axioms expect_str.reader_op_axioms
  have limits: "intact src r (mpack_expect_u32_max m r)" "intact src r (mpack_expect_map_max m r)"
    unfolding mpack_expect_u32_max_def mpack_expect_u32_range_def mpack_expect_u32_def
      mpack_expect_map_max_def mpack_expect_map_range_def
    by (rule range_intact [OF expect_number.reader_op_axioms assms(1)], simp,
        rule range_intact [OF expect_map.reader_op_axioms assms(1)], simp)
  have nil: "intact src r (unit_result (mpack_expect_nil r))"
    unfolding mpack_expect_nil_def by (rule op_intact [OF expect_nil.equal.reader_op_axioms assms(1)])
  show ?thesis
    unfolding mpack_expect_u8_def mpack_expect_i16_def expect_64_eq mpack_expect_cstr_def mpack_expect_utf8_cstr_def
      mpack_read_cstr_def mpack_read_utf8_cstr_def
    by (intro conjI read_bytes_intact skip_intact discard_intact buf_intact cstr_intact str_match_intact
        key_uint_intact key_cstr_intact [OF assms(1,4-7)] enum limits nil ops [THEN op_intact] assms)
qed

theorem reading_keeps_reader_witness:
  "\<exists>x r'. mpack_expect_str_buf (Some [0, 0, 0]) 3 (piecewise_reader 1 [0xA4, 65, 66]) = Ret (x, r') \<and> reader_ok id r'"
proof -
  note r = piecewise_reader_ok [of 1 "[0xA4, 65, 66]"]
  have "cstrings [[65, 0]] [[65]]" by (simp add: cstrings_def)
  then have "intact id (piecewise_reader 1 [0xA4, 65, 66])
      (mpack_expect_str_buf (Some [0, 0, 0]) 3 (piecewise_reader 1 [0xA4, 65, 66]))"
    using reading_keeps_reader [OF r(1), of 3 "[0, 0, 0]" "[[65, 0]]" "[[65]]" "[False]" 4] r(4) by simp
  then show ?thesis using r(4) by (simp add: intact_def float_byte_def) blast
qed

theorem chunking_irrelevant_witness:
  "\<exists>r r'. mpack_expect_u64 (piecewise_reader 1 [0xCC, 200, 9]) = Ret (200, r) \<and>
     mpack_expect_u64 (piecewise_reader 3 [0xCC, 200, 9]) = Ret (200, r') \<and> unread id r = unread id r'"
proof -
  note r = piecewise_reader_ok [of 1 "[0xCC, 200, 9]"] piecewise_reader_ok [of 3 "[0xCC, 200, 9]"]
  have "same_bytes id id (piecewise_reader 1 [0xCC, 200, 9]) (piecewise_reader 3 [0xCC, 200, 9])"
    using r by (simp add: same_bytes_def)
  then have agree: "agree id id (mpack_expect_u64 (piecewise_reader 1 [0xCC, 200, 9]))
      (mpack_expect_u64 (piecewise_reader 3 [0xCC, 200, 9]))"
    using chunking_irrelevant [of id id _ _ 0 "[]" 5] r(4) by simp
  have "at_value id (Msg_int 200) [9] (piecewise_reader 1 [0xCC, 200, 9])"
    using at_value_piecewise [of 1 "Msg_int 200" "[9]"] by (simp add: msgpack_int_def be_bytes_def)
  then have "expects_integer id (Msg_int 200) [9] (piecewise_reader 1 [0xCC, 200, 9]) 0 18446744073709551615 mpack_expect_u64"
    unfolding expect_64_eq by (rule expect_number_answer) simp_all
  then obtain r' where "mpack_expect_u64 (piecewise_reader 1 [0xCC, 200, 9]) = Ret (200, r')" "rerror r' = mpack_ok"
    by (auto simp: expects_integer_def replies_def int_within_def)
  then show ?thesis using agree by (auto simp: agree_def fails_def)
qed

end
