(* ===== verification/Mpack_Flush.thy ===== *)
theory Mpack_Flush
  imports Mpack_Emit "HOL-Library.Sublist"
begin

text \<open>
  The writer with a flush callback. The locale \<open>flusher\<close> is the contract between the writer and the
  callback; whatever callback keeps it, each write operation hands on exactly its encoding, and the
  callback is given the bytes in order. The calls of a client are a datatype, so that a property can
  speak of any sequence of them.
\<close>

subsection \<open>The contract\<close>

text \<open>
  \<open>content w\<close> is all that has been written, \<open>sink w\<close> what the callback has passed on for good.
  \<open>sent enc w w'\<close>: without an error \<open>enc\<close> is added to the content; with one, what has been passed
  on is still a prefix of what was to be written; after an error nothing more is passed on. What makes
  a callback fail is part of \<open>valid\<close>.
\<close>

definition sent :: "('s writer \<Rightarrow> bool) \<Rightarrow> ('s writer \<Rightarrow> bytes) \<Rightarrow> ('s writer \<Rightarrow> bytes) \<Rightarrow>
    bytes \<Rightarrow> 's writer \<Rightarrow> 's writer \<Rightarrow> bool" where
  "sent valid content sink enc w w' \<longleftrightarrow>
     valid w' \<and>
     (if werror w \<noteq> mpack_ok then werror w' = werror w \<and> sink w' = sink w
      else if werror w' = mpack_ok then content w' = content w @ enc
      else prefix (sink w') (content w @ enc))"

text \<open>An operation may fail to return only when the content grows beyond all bounds.\<close>

definition cut_off :: "(nat \<Rightarrow> bool) \<Rightarrow> ('s writer \<Rightarrow> bytes) \<Rightarrow> bytes \<Rightarrow> 's writer \<Rightarrow> fault \<Rightarrow> bool" where
  "cut_off toolong content enc w x \<longleftrightarrow>
     werror w = mpack_ok \<and> toolong (length (content w) + length enc)"

locale flusher =
  fixes f :: "'s flush_fn" and valid :: "'s writer \<Rightarrow> bool"
    and content :: "'s writer \<Rightarrow> bytes" and sink :: "'s writer \<Rightarrow> bytes"
    and drained :: "'s writer \<Rightarrow> bool" and toolong :: "nat \<Rightarrow> bool"
  assumes within: "valid w \<Longrightarrow> writer_ok w"
    and stored: "valid w \<Longrightarrow> put_current bs (length bs) w = Ret w' \<Longrightarrow>
        length bs \<le> mpack_writer_buffer_left w \<Longrightarrow> sent valid content sink bs w w'"
    and flushed: "valid w \<Longrightarrow> werror w = mpack_ok \<Longrightarrow>
        \<exists>w'. mpack_writer_flush_unchecked f w = Ret w' \<and>
          sent valid content sink [] w w' \<and>
          (werror w' = mpack_ok \<longrightarrow>
             drained w' \<and> MPACK_WRITER_MINIMUM_BUFFER_SIZE \<le> mpack_writer_buffer_left w')"
    and passed: "valid w \<Longrightarrow> werror w = mpack_ok \<Longrightarrow> drained w \<Longrightarrow> mpack_writer_buffer_left w < length bs \<Longrightarrow>
        case f w (From_caller bs) of Ret w' \<Rightarrow> sent valid content sink bs w w'
        | Fault x \<Rightarrow> cut_off toolong content bs w x"
    and longer: "toolong m \<Longrightarrow> m \<le> n \<Longrightarrow> toolong n"
begin

abbreviation did :: "bytes \<Rightarrow> 's writer \<Rightarrow> 's writer \<Rightarrow> bool" where
  "did \<equiv> sent valid content sink"

abbreviation stuck :: "bytes \<Rightarrow> 's writer \<Rightarrow> fault \<Rightarrow> bool" where
  "stuck \<equiv> cut_off toolong content"

lemma did_append:
  assumes "did e1 w w1" "did e2 w1 w2"
  shows "did (e1 @ e2) w w2"
  using assms prefix_prefix [of "sink w1" "content w @ e1" e2] by (auto simp: sent_def split: if_splits)

lemma flush_then:
  "did [] w w1 \<Longrightarrow> did bs w1 w2 \<Longrightarrow> did bs w w2"
  using did_append [of "[]" w w1 bs w2] by simp

lemma unsent: "valid w \<Longrightarrow> werror w \<noteq> mpack_ok \<Longrightarrow> did bs w w"
  by (simp add: sent_def)

lemma fits_in_place:
  assumes "valid w" "length bs \<le> mpack_writer_buffer_left w"
  shows "\<exists>w'. put_current bs (length bs) w = Ret w' \<and> did bs w w'"
proof -
  have "writer_ok w" "wcurrent w + length bs \<le> length (wbuffer w)"
    using within [OF assms(1)] assms(2) by (auto simp: mpack_writer_buffer_left_def writer_ok_def)
  from put_current_wrote [OF this] show ?thesis using stored [OF assms(1) _ assms(2)] by blast
qed

text \<open>What flushing leaves to be done is done by the rest of the operation.\<close>

lemma flush_and:
  assumes "valid w" "werror w = mpack_ok"
    "\<And>w1. valid w1 \<Longrightarrow> werror w1 = mpack_ok \<Longrightarrow> content w1 = content w \<Longrightarrow>
        drained w1 \<Longrightarrow> MPACK_WRITER_MINIMUM_BUFFER_SIZE \<le> mpack_writer_buffer_left w1 \<Longrightarrow>
        case k w1 of Ret w' \<Rightarrow> did bs w1 w' | Fault x \<Rightarrow> stuck bs w1 x"
    "\<And>w1. werror w1 \<noteq> mpack_ok \<Longrightarrow> k w1 = Ret w1"
  shows "case and_then (mpack_writer_flush_unchecked f w) k of
      Ret w' \<Rightarrow> did bs w w' | Fault x \<Rightarrow> stuck bs w x"
proof -
  obtain w1 where w1: "mpack_writer_flush_unchecked f w = Ret w1" "did [] w w1"
    "werror w1 = mpack_ok \<longrightarrow>
       drained w1 \<and> MPACK_WRITER_MINIMUM_BUFFER_SIZE \<le> mpack_writer_buffer_left w1"
    using flushed [OF assms(1,2)] by blast
  have ok: "valid w1" using w1(2) by (simp add: sent_def)
  show ?thesis
  proof (cases "werror w1 = mpack_ok")
    case True
    then have same: "content w1 = content w" using w1(2) assms(2) by (simp add: sent_def)
    from assms(3) [OF ok True same] w1(3) True show ?thesis
      using w1(1,2) same assms(2) True
      by (auto simp: cut_off_def split: outcome.splits intro: flush_then)
  next
    case False
    then show ?thesis
      using w1(1,2) assms(4) [OF False] flush_then [OF w1(2) unsent [OF ok False]] by simp
  qed
qed

lemma native_sent:
  "case mpack_write_native (Some f) bs w of Ret w' \<Rightarrow> did bs w w' | Fault x \<Rightarrow> stuck bs w x"
  if "valid w"
proof (cases "mpack_writer_buffer_left w < length bs")
  case False
  then show ?thesis using fits_in_place [OF that, of bs] by (auto simp: mpack_write_native_def)
next
  case True
  show ?thesis
  proof (cases "werror w = mpack_ok")
    case False
    then show ?thesis
      using True unsent [OF that False]
      by (simp add: mpack_write_native_def mpack_write_native_straddle_def)
  next
    case ok: True
    have "case and_then (mpack_writer_flush_unchecked f w) (\<lambda>w.
          if werror w \<noteq> mpack_ok then Ret w
          else if length bs > mpack_writer_buffer_left w then f w (From_caller bs)
          else put_current bs (length bs) w) of
        Ret w' \<Rightarrow> did bs w w' | Fault x \<Rightarrow> stuck bs w x"
    proof (rule flush_and [OF that ok])
      fix w1
      assume "valid w1" "werror w1 = mpack_ok" "drained w1"
      then show "case if werror w1 \<noteq> mpack_ok then Ret w1
            else if mpack_writer_buffer_left w1 < length bs then f w1 (From_caller bs)
            else put_current bs (length bs) w1 of
          Ret w' \<Rightarrow> did bs w1 w' | Fault x \<Rightarrow> stuck bs w1 x"
        using passed [of w1 bs] fits_in_place [of w1 bs] by (auto simp: not_less)
    qed simp
    then show ?thesis
      using True ok by (simp add: mpack_write_native_def mpack_write_native_straddle_def)
  qed
qed

lemma encoded_sent:
  "case write_encoded (Some f) (Ret bs) (length bs) w of
     Ret w' \<Rightarrow> did bs w w' | Fault x \<Rightarrow> stuck bs w x"
  if "valid w" "0 < length bs" "length bs \<le> 32"
proof (cases "length bs \<le> mpack_writer_buffer_left w")
  case True
  then show ?thesis using fits_in_place [OF that(1), of bs] by (auto simp: write_encoded_def)
next
  case False
  show ?thesis
  proof (cases "werror w = mpack_ok")
    case err: False
    then show ?thesis
      using False that unsent [OF that(1) err]
      by (simp add: write_encoded_def mpack_writer_ensure_def MPACK_WRITER_MINIMUM_BUFFER_SIZE_def)
  next
    case ok: True
    let ?rest = "\<lambda>w. if werror w \<noteq> mpack_ok then Ret w
        else if length bs \<le> mpack_writer_buffer_left w then put_current bs (length bs) w
        else Ret (mpack_writer_flag_error mpack_error_io w)"
    have "write_encoded (Some f) (Ret bs) (length bs) w =
        and_then (mpack_writer_flush_unchecked f w) ?rest"
      using False ok that(2,3)
      by (auto simp: write_encoded_def mpack_writer_ensure_def and_then_assoc
          MPACK_WRITER_MINIMUM_BUFFER_SIZE_def intro!: and_then_cong)
    moreover have "case and_then (mpack_writer_flush_unchecked f w) ?rest of
        Ret w' \<Rightarrow> did bs w w' | Fault x \<Rightarrow> stuck bs w x"
    proof (rule flush_and [OF that(1) ok])
      fix w1
      assume w1: "valid w1" "werror w1 = mpack_ok"
        "MPACK_WRITER_MINIMUM_BUFFER_SIZE \<le> mpack_writer_buffer_left w1"
      then show "case ?rest w1 of Ret w' \<Rightarrow> did bs w1 w' | Fault x \<Rightarrow> stuck bs w1 x"
        using fits_in_place [of w1 bs] that(3)
        by (auto simp: MPACK_WRITER_MINIMUM_BUFFER_SIZE_def)
    qed simp
    ultimately show ?thesis by simp
  qed
qed

end

sublocale flusher \<subseteq> writing "Some f" valid "sent valid content sink" "cut_off toolong content"
proof
  fix w w1 w2 :: "'s writer" and e1 e2 bs :: bytes and x
  show "valid w \<Longrightarrow> did [] w w" by (simp add: sent_def)
  show "did e1 w w1 \<Longrightarrow> valid w1" by (simp add: sent_def)
  show "valid w \<Longrightarrow> did e1 w w1 \<Longrightarrow> did e2 w1 w2 \<Longrightarrow> did (e1 @ e2) w w2" by (rule did_append)
  show "stuck e1 w x \<Longrightarrow> stuck (e1 @ e2) w x" by (auto simp: cut_off_def elim: longer)
  show "valid w \<Longrightarrow> did e1 w w1 \<Longrightarrow> stuck e2 w1 x \<Longrightarrow> stuck (e1 @ e2) w x"
    by (auto simp: cut_off_def sent_def add.assoc split: if_splits)
  show "emits valid did stuck (mpack_write_native (Some f) bs) bs"
    using native_sent by (simp add: emits_def)
  show "0 < length bs \<Longrightarrow> length bs \<le> 32 \<Longrightarrow>
      emits valid did stuck (write_encoded (Some f) (Ret bs) (length bs)) bs"
    using encoded_sent by (simp add: emits_def)
  show "valid w \<Longrightarrow> length bs \<le> mpack_writer_buffer_left w \<Longrightarrow>
      case put_current bs (length bs) w of Ret w' \<Rightarrow> did bs w w' | Fault x \<Rightarrow> stuck bs w x"
    using fits_in_place [of w bs] by auto
qed

subsection \<open>The calls of a client\<close>

datatype write_call =
    Write_nil | Write_bool bool
  | Write_u8 u8 | Write_u16 u16 | Write_u32 u32 | Write_u64 u64
  | Write_i8 u8 | Write_i16 u16 | Write_i32 u32 | Write_i64 u64
  | Write_str bytes | Write_bin bytes | Write_bytes bytes | Write_object_bytes bytes
  | Start_array u32 | Start_map u32 | Start_str u32 | Start_bin u32

primrec perform :: "'s mpack_flush \<Rightarrow> write_call \<Rightarrow> 's write_op" where
  "perform fl Write_nil = mpack_write_nil fl"
| "perform fl (Write_bool b) = mpack_write_bool fl b"
| "perform fl (Write_u8 v) = mpack_write_u8 fl v"
| "perform fl (Write_u16 v) = mpack_write_u16 fl v"
| "perform fl (Write_u32 v) = mpack_write_u32 fl v"
| "perform fl (Write_u64 v) = mpack_write_u64 fl v"
| "perform fl (Write_i8 v) = mpack_write_i8 fl v"
| "perform fl (Write_i16 v) = mpack_write_i16 fl v"
| "perform fl (Write_i32 v) = mpack_write_i32 fl v"
| "perform fl (Write_i64 v) = mpack_write_i64 fl v"
| "perform fl (Write_str s) = mpack_write_str fl (Some s) (of_nat (length s))"
| "perform fl (Write_bin s) = mpack_write_bin fl (Some s) (of_nat (length s))"
| "perform fl (Write_bytes s) = mpack_write_bytes fl (Some s) (length s)"
| "perform fl (Write_object_bytes s) = mpack_write_object_bytes fl s"
| "perform fl (Start_array n) = mpack_start_array fl n"
| "perform fl (Start_map n) = mpack_start_map fl n"
| "perform fl (Start_str n) = mpack_start_str fl n"
| "perform fl (Start_bin n) = mpack_start_bin fl n"

primrec call_bytes :: "write_call \<Rightarrow> bytes" where
  "call_bytes Write_nil = msgpack_encode Msg_nil"
| "call_bytes (Write_bool b) = msgpack_encode (Msg_bool b)"
| "call_bytes (Write_u8 v) = msgpack_encode (Msg_int (uint v))"
| "call_bytes (Write_u16 v) = msgpack_encode (Msg_int (uint v))"
| "call_bytes (Write_u32 v) = msgpack_encode (Msg_int (uint v))"
| "call_bytes (Write_u64 v) = msgpack_encode (Msg_int (uint v))"
| "call_bytes (Write_i8 v) = msgpack_encode (Msg_int (sint v))"
| "call_bytes (Write_i16 v) = msgpack_encode (Msg_int (sint v))"
| "call_bytes (Write_i32 v) = msgpack_encode (Msg_int (sint v))"
| "call_bytes (Write_i64 v) = msgpack_encode (Msg_int (sint v))"
| "call_bytes (Write_str s) = msgpack_encode (Msg_str s)"
| "call_bytes (Write_bin s) = msgpack_encode (Msg_bin s)"
| "call_bytes (Write_bytes s) = s"
| "call_bytes (Write_object_bytes s) = s"
| "call_bytes (Start_array n) = msgpack_array_header (uint n)"
| "call_bytes (Start_map n) = msgpack_map_header (uint n)"
| "call_bytes (Start_str n) = msgpack_str_header (uint n)"
| "call_bytes (Start_bin n) = msgpack_bin_header (uint n)"

text \<open>The length of a string or of binary data is passed as a \<open>uint32_t\<close>.\<close>

fun call_ok :: "write_call \<Rightarrow> bool" where
  "call_ok (Write_str s) = (length s < 2 ^ 32)"
| "call_ok (Write_bin s) = (length s < 2 ^ 32)"
| "call_ok c = True"

definition perform_all :: "'s mpack_flush \<Rightarrow> write_call list \<Rightarrow> 's write_op" where
  "perform_all fl calls = write_all (map (perform fl) calls)"

definition calls_bytes :: "write_call list \<Rightarrow> bytes" where
  "calls_bytes calls = concat (map call_bytes calls)"

lemma unat_length: "length s < 2 ^ 32 \<Longrightarrow> unat (of_nat (length s) :: u32) = length s"
  by (simp add: unat_of_nat take_bit_nat_eq_self)

context writing
begin

lemma says_perform: "call_ok c \<Longrightarrow> says (perform fl c) (call_bytes c)"
proof (cases c)
  case (Write_str s)
  then show ?thesis if "call_ok c"
    using that says_write_str [of "of_nat (length s)" s] unat_length [of s] by simp
next
  case (Write_bin s)
  then show ?thesis if "call_ok c"
    using that says_write_bin [of "of_nat (length s)" s] unat_length [of s] by simp
next
  case (Write_bytes s)
  then show ?thesis using says_write_bytes [of "length s" s] by simp
qed (simp_all only: perform.simps call_bytes.simps write_nil write_bool write_u8 write_u16 write_u32
    write_u64 write_i8 write_i16 write_i32 write_i64 object_bytes start_array start_map start_str
    start_bin)

lemma says_perform_all:
  "\<forall>c \<in> set calls. call_ok c \<Longrightarrow> says (perform_all fl calls) (calls_bytes calls)"
  unfolding perform_all_def calls_bytes_def
  by (rule says_write_all) (simp add: list_all2_conv_all_nth says_perform)

lemma performs:
  "valid w \<Longrightarrow> \<forall>c \<in> set calls. call_ok c \<Longrightarrow>
     case perform_all fl calls w of Ret w' \<Rightarrow> did (calls_bytes calls) w w'
     | Fault x \<Rightarrow> stuck (calls_bytes calls) w x"
  using says_perform_all unfolding emits_def by blast

end

text \<open>A writer that could not get a buffer, with its error set, ignores every call.\<close>

definition is_inert :: "'s writer \<Rightarrow> bool" where
  "is_inert w \<longleftrightarrow> wbuffer w = [] \<and> wcurrent w = 0 \<and> werror w \<noteq> mpack_ok"

interpretation inert: writing None is_inert "\<lambda>_ w w'. is_inert w \<and> w' = w" "\<lambda>_ _ _. False"
proof
  show "emits is_inert (\<lambda>_ w w'. is_inert w \<and> w' = w) (\<lambda>_ _ _. False)
      (mpack_write_native None bs) bs" for bs
    by (auto simp: emits_def is_inert_def mpack_write_native_def mpack_write_native_straddle_def
        mpack_writer_buffer_left_def put_current_def store_at_def)
  show "emits is_inert (\<lambda>_ w w'. is_inert w \<and> w' = w) (\<lambda>_ _ _. False)
      (write_encoded None (Ret bs) (length bs)) bs" if "0 < length bs" "length bs \<le> 32" for bs
    using that
    by (auto simp: emits_def is_inert_def write_encoded_def mpack_writer_ensure_def
        mpack_writer_buffer_left_def MPACK_WRITER_MINIMUM_BUFFER_SIZE_def)
qed (auto simp: is_inert_def mpack_writer_buffer_left_def put_current_def store_at_def)

lemma inert_ignores:
  assumes "is_inert w" "\<forall>c \<in> set calls. call_ok c"
  shows "perform_all None calls w = Ret w"
  using inert.performs [OF assms] by (cases "perform_all None calls w") simp_all

subsection \<open>Property\<close>

text \<open>
  C23. Any sequence of calls of the write functions on a writer without a flush callback appends exactly
  the encodings of the values, in order, when they fit the buffer, each in the shortest form that
  MessagePack has. When they do not fit it flags \<open>mpack_error_too_big\<close>. It never writes outside
  the buffer and keeps every byte written before.
\<close>

theorem fixed_buffer_writes:
  assumes "writer_ok w" "\<forall>c \<in> set calls. call_ok c"
  shows "\<exists>w'. perform_all None calls w = Ret w' \<and> wrote (calls_bytes calls) w w'"
  using plain.performs [OF assms] by (auto split: outcome.splits)

theorem fixed_buffer_writes_witness:
  "\<exists>w'. perform_all None [Start_array 2, Write_i32 (- 70000), Write_str [104, 105]]
       \<lparr>wbuffer = replicate 9 0, wcurrent = 0, werror = mpack_ok\<rparr> = Ret w' \<and>
     wrote [0x92, 0xD2, 0xFF, 0xFE, 0xEE, 0x90, 0xA2, 104, 105]
       \<lparr>wbuffer = replicate 9 0, wcurrent = 0, werror = mpack_ok\<rparr> w'"
proof -
  let ?calls = "[Start_array 2, Write_i32 (- 70000), Write_str [104, 105]]"
  have "calls_bytes ?calls = [0x92, 0xD2, 0xFF, 0xFE, 0xEE, 0x90, 0xA2, 104, 105]"
    by (simp add: calls_bytes_def msgpack_array_header_def msgpack_str_header_def msgpack_int_def
        fix_tag_def be_bytes_def upt_rec)
  then show ?thesis
    using fixed_buffer_writes [of "\<lparr>wbuffer = replicate 9 0, wcurrent = 0, werror = mpack_ok\<rparr>" ?calls]
    by (simp add: writer_ok_def)
qed

end
