(* ===== verification/Mpack_Growable.thy ===== *)
theory Mpack_Growable
  imports Mpack_Flush
begin

text \<open>
  The growable writer of \<open>mpack.c\<close>, whose flush callback enlarges the buffer instead of emptying it. It
  is compiled only where MPack has an allocator, which is a parameter; the kernel module has none.
\<close>

subsection \<open>The allocator\<close>

text \<open>
  \<open>MPACK_MALLOC\<close> returns the contents of the new block, which are arbitrary, or \<open>None\<close> for NULL.
  \<open>'m\<close> is the state of the allocator.
\<close>

record 'm allocator =
  MPACK_MALLOC :: "nat \<Rightarrow> 'm \<Rightarrow> bytes option \<times> 'm"
  MPACK_FREE :: "bytes \<Rightarrow> 'm \<Rightarrow> 'm"

definition mpack_realloc ::
    "'m allocator \<Rightarrow> bytes option \<Rightarrow> nat \<Rightarrow> nat \<Rightarrow> 'm \<Rightarrow> (bytes option \<times> 'm) outcome" where
  "mpack_realloc al old_ptr used_size new_size h =
     (if new_size = 0 then
        Ret (None, case old_ptr of None \<Rightarrow> h | Some old \<Rightarrow> MPACK_FREE al old h)
      else case MPACK_MALLOC al new_size h of
          (None, h) \<Rightarrow> Ret (None, h)
        | (Some new_ptr, h) \<Rightarrow>
            (case old_ptr of
               None \<Rightarrow> if used_size = 0 then Ret (Some new_ptr, h) else Fault Null_deref
             | Some old \<Rightarrow>
                 and_then (load_at used_size (\<lambda>bs. bs) old 0) (\<lambda>bs.
                 and_then (store_at new_ptr 0 bs) (\<lambda>new_ptr.
                   Ret (Some new_ptr, MPACK_FREE al old h)))))"

text \<open>
  What is relied on: a block has the size asked for, which is below \<open>PTRDIFF_MAX\<close>, and the number of
  live blocks and of refused requests are counted right.
\<close>

definition allocator_ok :: "'m allocator \<Rightarrow> ('m \<Rightarrow> int) \<Rightarrow> ('m \<Rightarrow> nat) \<Rightarrow> bool" where
  "allocator_ok al live refused \<longleftrightarrow>
     (\<forall>n h b h'. MPACK_MALLOC al n h = (Some b, h') \<longrightarrow>
        length b = n \<and> n < 2 ^ 63 \<and> live h' = live h + 1 \<and> refused h' = refused h) \<and>
     (\<forall>n h h'. MPACK_MALLOC al n h = (None, h') \<longrightarrow>
        live h' = live h \<and> refused h' = refused h + 1) \<and>
     (\<forall>b h. live (MPACK_FREE al b h) = live h - 1 \<and> refused (MPACK_FREE al b h) = refused h)"

lemma mpack_realloc_result:
  assumes "allocator_ok al live refused" "used \<le> length old" "used \<le> n" "0 < n"
  obtains h' where "mpack_realloc al (Some old) used n h = Ret (None, h')"
      "live h' = live h" "refused h' = refused h + 1"
    | m h' where "mpack_realloc al (Some old) used n h = Ret (Some m, h')"
      "length m = n" "n < 2 ^ 63" "take used m = take used old" "live h' = live h"
      "refused h' = refused h"
proof (cases "MPACK_MALLOC al n h")
  case (Pair p h1)
  show ?thesis
  proof (cases p)
    case None
    with Pair assms(1,4) have "mpack_realloc al (Some old) used n h = Ret (None, h1)"
        "live h1 = live h" "refused h1 = refused h + 1"
      by (auto simp: mpack_realloc_def allocator_ok_def)
    then show ?thesis by (rule that(1))
  next
    case (Some m)
    with Pair assms(1) have m: "length m = n" "n < 2 ^ 63" "live h1 = live h + 1"
        "refused h1 = refused h"
      by (auto simp: allocator_ok_def)
    have "mpack_realloc al (Some old) used n h =
        Ret (Some (take used old @ drop used m), MPACK_FREE al old h1)"
      using Pair Some assms(2-4) m(1) by (simp add: mpack_realloc_def load_at_def store_at_def)
    then show ?thesis
      by (rule that(2)) (use assms(1-3) m in \<open>simp_all add: allocator_ok_def\<close>)
  qed
qed

lemma mpack_realloc_block:
  assumes "allocator_ok al live refused" "0 < n" "mpack_realloc al (Some old) used n h = Ret (Some m, h')"
  shows "length m < 2 ^ 63"
proof -
  obtain b h1 where b: "MPACK_MALLOC al n h = (Some b, h1)"
    using assms(2,3) by (cases "MPACK_MALLOC al n h"; cases "fst (MPACK_MALLOC al n h)")
      (simp_all add: mpack_realloc_def)
  then have "length b < 2 ^ 63" using assms(1) by (auto simp: allocator_ok_def)
  with b assms(2,3) show ?thesis
    by (auto simp: mpack_realloc_def store_at_def outcome_simps split: if_splits)
qed

subsection \<open>State\<close>

text \<open>
  The fields of \<open>mpack_growable_writer_t\<close>, kept in the reserved space of the writer, point to the
  places of the result. The buffer is not NULL until the teardown, which leaves it empty here.
\<close>

record 'm growable_writer = mpack_writer +
  gheap :: 'm
  target_data :: "bytes option"
  target_size :: nat

definition MPACK_BUFFER_SIZE :: nat where
  "MPACK_BUFFER_SIZE = 4096"

subsection \<open>Operations\<close>

text \<open>The loop that doubles the size; \<open>size_t\<close> wraps, and the loop then never ends.\<close>

partial_function (option) grow_to :: "nat \<Rightarrow> nat \<Rightarrow> nat option" where
  "grow_to need new_size =
     (if new_size < need then grow_to need (new_size * 2 mod (SIZE_MAX + 1)) else Some new_size)"

definition grow_buffer :: "'m allocator \<Rightarrow> bool \<Rightarrow> bytes \<Rightarrow> 'm growable_writer \<Rightarrow>
    'm growable_writer outcome" where
  "grow_buffer al own data w =
     (let used = mpack_writer_buffer_used w; size = mpack_writer_buffer_size w in
      mpack_assert (own \<or> size_add used (length data) > size)
      (case grow_to (size_add used (length data)) (size * 2 mod (SIZE_MAX + 1)) of
         None \<Rightarrow> Fault Diverged
       | Some new_size \<Rightarrow>
           and_then (mpack_realloc al (Some (wbuffer w)) used new_size (gheap w)) (\<lambda>(new_buffer, h).
             case new_buffer of
               None \<Rightarrow> Ret (mpack_writer_flag_error mpack_error_memory (w\<lparr>gheap := h\<rparr>))
             | Some m \<Rightarrow>
                 put_current data (length data) (w\<lparr>wbuffer := m, wcurrent := used, gheap := h\<rparr>))))"

definition mpack_growable_writer_flush :: "'m allocator \<Rightarrow> 'm growable_writer \<Rightarrow> flush_data \<Rightarrow>
    'm growable_writer outcome" where
  "mpack_growable_writer_flush al w data =
     (case data of
        From_buffer count \<Rightarrow>
          if mpack_writer_buffer_used w = count then Ret w
          else grow_buffer al True [] (w\<lparr>wcurrent := count\<rparr>)
      | From_caller bs \<Rightarrow> grow_buffer al False bs w)"

definition mpack_growable_writer_teardown :: "'m allocator \<Rightarrow> 'm growable_writer \<Rightarrow>
    'm growable_writer outcome" where
  "mpack_growable_writer_teardown al w =
     (if werror w = mpack_ok then
        let used = mpack_writer_buffer_used w;
            hand_over = (\<lambda>block w. Ret (w\<lparr>target_data := Some block,
              target_size := mpack_writer_buffer_used w, wbuffer := []\<rparr>))
        in if used < mpack_writer_buffer_size w div 2 then
             and_then (mpack_realloc al (Some (wbuffer w)) used (if used \<noteq> 0 then used else 1) (gheap w))
               (\<lambda>(buffer, h).
                 case buffer of
                   None \<Rightarrow> Ret (mpack_writer_flag_error mpack_error_memory
                     (w\<lparr>gheap := MPACK_FREE al (wbuffer w) h\<rparr>))
                 | Some m \<Rightarrow>
                     hand_over m (w\<lparr>wbuffer := take used m, wcurrent := used, gheap := h\<rparr>))
           else hand_over (wbuffer w) w
      else Ret (w\<lparr>gheap := MPACK_FREE al (wbuffer w) (gheap w), wbuffer := []\<rparr>))"

text \<open>The writer comes with the callbacks that are installed in it.\<close>

definition mpack_writer_init_growable :: "'m allocator \<Rightarrow> 'm \<Rightarrow>
    (('m growable_writer \<Rightarrow> flush_data \<Rightarrow> 'm growable_writer outcome) option \<times>
     ('m growable_writer \<Rightarrow> 'm growable_writer outcome) option \<times> 'm growable_writer) outcome" where
  "mpack_writer_init_growable al h =
     (case MPACK_MALLOC al MPACK_BUFFER_SIZE h of
        (None, h) \<Rightarrow>
          Ret (None, None,
            mpack_writer.extend (mpack_writer_init_error mpack_error_memory)
              (growable_writer.fields h None 0))
      | (Some buffer, h) \<Rightarrow>
          and_then (mpack_writer_init (Some buffer)) (\<lambda>w.
            case mpack_writer_set_flush None (Some (mpack_growable_writer_flush al))
                   (mpack_writer.extend w (growable_writer.fields h None 0)) of
              (flush, w) \<Rightarrow> Ret (flush, Some (mpack_growable_writer_teardown al), w)))"

subsection \<open>Growing\<close>

lemma grow_to_enough:
  assumes "0 < sz" "need \<le> 2 ^ 63"
  shows "\<exists>n. grow_to need sz = Some n \<and> need \<le> n \<and> sz \<le> n"
  using assms
proof (induction "need - sz" arbitrary: sz rule: less_induct)
  case less
  show ?case
  proof (cases "sz < need")
    case True
    then have "sz * 2 mod (SIZE_MAX + 1) = sz * 2" using less.prems by (simp add: SIZE_MAX_def)
    moreover have "need - sz * 2 < need - sz" using True less.prems by simp
    ultimately show ?thesis
      using less.hyps [of "sz * 2"] less.prems True by (subst grow_to.simps) auto
  next
    case False
    then show ?thesis by (subst grow_to.simps) simp
  qed
qed

lemma grow_to_at_least: "grow_to need sz = Some n \<Longrightarrow> need \<le> n"
  by (rule grow_to.raw_induct [where P = "\<lambda>need new_size y. need \<le> y"])
    (auto simp: not_less split: if_splits)

subsection \<open>The contract of a flush callback\<close>

text \<open>
  Of a growable writer in use: one live block, its buffer; nothing handed over; and an error only when
  the allocator has refused a request.
\<close>

definition growable_ok :: "'m allocator \<Rightarrow> ('m \<Rightarrow> int) \<Rightarrow> ('m \<Rightarrow> nat) \<Rightarrow> 'm \<Rightarrow> 'm growable_writer \<Rightarrow> bool" where
  "growable_ok al live refused h w \<longleftrightarrow>
     allocator_ok al live refused \<and>
     writer_ok w \<and> 32 \<le> length (wbuffer w) \<and> length (wbuffer w) < 2 ^ 63 \<and>
     live (gheap w) = live h + 1 \<and> refused h \<le> refused (gheap w) \<and>
     target_data w = None \<and> target_size w = 0 \<and>
     (werror w \<noteq> mpack_ok \<longrightarrow> werror w = mpack_error_memory \<and> refused h < refused (gheap w))"

abbreviation grown :: "'m allocator \<Rightarrow> ('m \<Rightarrow> int) \<Rightarrow> ('m \<Rightarrow> nat) \<Rightarrow> 'm \<Rightarrow> bytes \<Rightarrow> 'm growable_writer \<Rightarrow>
    'm growable_writer \<Rightarrow> bool" where
  "grown al live refused h \<equiv> sent (growable_ok al live refused h) written (\<lambda>_. [])"

lemma growable_allocator: "growable_ok al live refused h w \<Longrightarrow> allocator_ok al live refused"
  by (simp add: growable_ok_def)

lemma put_current_more:
  "put_current bs n w = Ret w' \<Longrightarrow> mpack_writer.more w' = mpack_writer.more w \<and> werror w' = werror w"
  by (auto simp: put_current_def outcome_simps)

lemma growable_more:
  "mpack_writer.more (w' :: 'm growable_writer) = mpack_writer.more w \<Longrightarrow>
     gheap w' = gheap w \<and> target_data w' = target_data w \<and> target_size w' = target_size w"
  by (cases w, cases w') simp

lemma growable_put:
  assumes "growable_ok al live refused h w" "length bs \<le> mpack_writer_buffer_left w"
  shows "\<exists>w'. put_current bs (length bs) w = Ret w' \<and> grown al live refused h bs w w'"
proof -
  have "writer_ok w" "wcurrent w + length bs \<le> length (wbuffer w)"
    using assms by (auto simp: growable_ok_def mpack_writer_buffer_left_def writer_ok_def)
  from put_current_wrote [OF this] obtain w' where
    w': "put_current bs (length bs) w = Ret w'" "wrote bs w w'" by blast
  with assms \<open>wcurrent w + length bs \<le> _\<close> put_current_more [OF w'(1)] growable_more [of w' w]
  show ?thesis by (auto simp: sent_def growable_ok_def wrote_def)
qed

lemma grow_buffer_grown:
  assumes al: "allocator_ok al live refused"
    and w: "growable_ok al live refused h w" "werror w = mpack_ok"
    and need: "own \<or> mpack_writer_buffer_left w < length bs" "wcurrent w + length bs \<le> 2 ^ 63"
  shows "\<exists>w'. grow_buffer al own bs w = Ret w' \<and> grown al live refused h bs w w' \<and>
     (werror w' = mpack_ok \<longrightarrow>
        2 * length (wbuffer w) \<le> mpack_writer_buffer_left w' + wcurrent w + length bs)"
proof -
  have used: "wcurrent w \<le> length (wbuffer w)" "length (wbuffer w) < 2 ^ 63" "0 < length (wbuffer w)"
    using w by (auto simp: growable_ok_def writer_ok_def)
  have room: "own \<or> length (wbuffer w) < wcurrent w + length bs"
    using need(1) used(1) by (auto simp: mpack_writer_buffer_left_def)
  have sum: "size_add (wcurrent w) (length bs) = wcurrent w + length bs"
    using need by (simp add: size_add_eq SIZE_MAX_def)
  have dbl: "length (wbuffer w) * 2 mod Suc SIZE_MAX = length (wbuffer w) * 2"
    using used by (simp add: SIZE_MAX_def)
  obtain n where n: "grow_to (wcurrent w + length bs) (length (wbuffer w) * 2) = Some n"
      "wcurrent w + length bs \<le> n" "length (wbuffer w) * 2 \<le> n"
    using grow_to_enough [of "length (wbuffer w) * 2" "wcurrent w + length bs"] used need by auto
  have run: "grow_buffer al own bs w =
      and_then (mpack_realloc al (Some (wbuffer w)) (wcurrent w) n (gheap w)) (\<lambda>(new_buffer, h).
        case new_buffer of
          None \<Rightarrow> Ret (mpack_writer_flag_error mpack_error_memory (w\<lparr>gheap := h\<rparr>))
        | Some m \<Rightarrow> put_current bs (length bs) (w\<lparr>wbuffer := m, wcurrent := wcurrent w, gheap := h\<rparr>))"
    using n(1) room
    by (simp add: grow_buffer_def Let_def sum dbl mpack_writer_buffer_used_def
        mpack_writer_buffer_size_def)
  have "wcurrent w \<le> n" "0 < n" using used(3) n(2,3) by linarith+
  from al used(1) this show ?thesis
  proof (cases rule: mpack_realloc_result [where h = "gheap w"])
    case (1 h')
    with run w show ?thesis
      by (auto simp: sent_def growable_ok_def writer_ok_def mpack_writer_flag_error_def)
  next
    case (2 m h')
    let ?w = "w\<lparr>wbuffer := m, wcurrent := wcurrent w, gheap := h'\<rparr>"
    have ok: "growable_ok al live refused h ?w"
      using 2 w n(3) used by (auto simp: growable_ok_def writer_ok_def)
    have "length bs \<le> mpack_writer_buffer_left ?w"
      using 2 n(2) by (simp add: mpack_writer_buffer_left_def)
    from growable_put [OF ok this] obtain w' where
      w': "put_current bs (length bs) ?w = Ret w'" "grown al live refused h bs ?w w'" by blast
    have "written ?w = written w" using 2 used by (simp add: written_def)
    then have "grown al live refused h bs w w'" using w'(2) by (simp add: sent_def)
    moreover have "length (wbuffer w') = n" "wcurrent w' = wcurrent w + length bs"
      using w'(1) 2 n used(1) by (auto simp: put_current_def store_at_def)
    ultimately show ?thesis
      using run w'(1) 2 n(2,3) by (auto simp: mpack_writer_buffer_left_def)
  qed
qed

text \<open>Beyond that size the loop does not end, or the allocator refuses.\<close>

lemma grow_too_long:
  assumes al: "allocator_ok al live refused"
    and w: "growable_ok al live refused h w" "werror w = mpack_ok"
    and long: "\<not> wcurrent w + length bs \<le> 2 ^ 63" "grow_buffer al False bs w = Ret w'"
  shows "grown al live refused h bs w w'"
proof -
  let ?need = "size_add (wcurrent w) (length bs)"
  from long(2) obtain n where n: "length (wbuffer w) < ?need"
      "grow_to ?need (length (wbuffer w) * 2 mod (SIZE_MAX + 1)) = Some n" and run:
    "and_then (mpack_realloc al (Some (wbuffer w)) (wcurrent w) n (gheap w)) (\<lambda>(new_buffer, h).
       case new_buffer of
         None \<Rightarrow> Ret (mpack_writer_flag_error mpack_error_memory (w\<lparr>gheap := h\<rparr>))
       | Some m \<Rightarrow> put_current bs (length bs) (w\<lparr>wbuffer := m, wcurrent := wcurrent w, gheap := h\<rparr>)) = Ret w'"
    by (cases "grow_to ?need (length (wbuffer w) * 2 mod (SIZE_MAX + 1))")
      (simp_all add: grow_buffer_def Let_def mpack_assert_eq_Ret mpack_writer_buffer_used_def
        mpack_writer_buffer_size_def)
  have pos: "0 < n" using grow_to_at_least [OF n(2)] n(1) by linarith
  from run obtain p h' where p: "mpack_realloc al (Some (wbuffer w)) (wcurrent w) n (gheap w) = Ret (p, h')"
    by (auto simp: outcome_simps)
  show ?thesis
  proof (cases p)
    case None
    with p pos al have "live h' = live (gheap w)" "refused h' = refused (gheap w) + 1"
      by (auto simp: mpack_realloc_def allocator_ok_def outcome_simps split: prod.splits option.splits)
    with p None run w show ?thesis
      by (auto simp: sent_def growable_ok_def writer_ok_def mpack_writer_flag_error_def)
  next
    case (Some m)
    with mpack_realloc_block [OF al pos] p have "length m < 2 ^ 63" by simp
    with p Some run long(1) show ?thesis by (simp add: put_current_def store_at_def)
  qed
qed

interpretation growable: flusher "mpack_growable_writer_flush al" "growable_ok al live refused h"
    written "\<lambda>_. []" "\<lambda>_. True" "\<lambda>n. 2 ^ 63 < n" for al :: "'a allocator" and live refused h
proof
  fix w w' :: "'a growable_writer" and bs :: bytes and m n :: nat
  show "growable_ok al live refused h w \<Longrightarrow> writer_ok w" by (simp add: growable_ok_def)
  show "2 ^ 63 < m \<Longrightarrow> m \<le> n \<Longrightarrow> 2 ^ 63 < n" by simp
  show "grown al live refused h bs w w'"
    if "growable_ok al live refused h w" "put_current bs (length bs) w = Ret w'"
      "length bs \<le> mpack_writer_buffer_left w"
    using growable_put [OF that(1,3)] that(2) by simp
  show "\<exists>w'. mpack_writer_flush_unchecked (mpack_growable_writer_flush al) w = Ret w' \<and>
      grown al live refused h [] w w' \<and>
      (werror w' = mpack_ok \<longrightarrow>
         True \<and> MPACK_WRITER_MINIMUM_BUFFER_SIZE \<le> mpack_writer_buffer_left w')"
    if w: "growable_ok al live refused h w" "werror w = mpack_ok"
  proof (cases "wcurrent w = 0")
    case True
    then have "w\<lparr>wcurrent := 0\<rparr> = w" by simp
    then show ?thesis
      using w True
      by (simp add: mpack_writer_flush_unchecked_def mpack_growable_writer_flush_def sent_def
          writer_ok_def written_def
          mpack_writer_buffer_used_def growable_ok_def mpack_writer_buffer_left_def
          MPACK_WRITER_MINIMUM_BUFFER_SIZE_def)
  next
    case False
    then have "mpack_writer_flush_unchecked (mpack_growable_writer_flush al) w =
        grow_buffer al True [] w"
      by (simp add: mpack_writer_flush_unchecked_def mpack_growable_writer_flush_def
          mpack_writer_buffer_used_def)
    then show ?thesis
      using grow_buffer_grown [OF growable_allocator [OF w(1)] w, of True "[]"] w
      by (auto simp: growable_ok_def writer_ok_def MPACK_WRITER_MINIMUM_BUFFER_SIZE_def)
  qed
  show "case mpack_growable_writer_flush al w (From_caller bs) of
      Ret w' \<Rightarrow> grown al live refused h bs w w' | Fault x \<Rightarrow> cut_off (\<lambda>n. 2 ^ 63 < n) written bs w x"
    if w: "growable_ok al live refused h w" "werror w = mpack_ok" "mpack_writer_buffer_left w < length bs"
  proof (cases "wcurrent w + length bs \<le> 2 ^ 63")
    case True
    then show ?thesis
      using grow_buffer_grown [OF growable_allocator [OF w(1)] w(1,2), of False bs] w(3)
      by (auto simp: mpack_growable_writer_flush_def)
  next
    case False
    with w(1) have "2 ^ 63 < length (written w) + length bs"
      by (simp add: growable_ok_def length_written)
    then show ?thesis
      using grow_too_long [OF growable_allocator [OF w(1)] w(1,2)] False w(2)
      by (auto simp: mpack_growable_writer_flush_def cut_off_def split: outcome.splits)
  qed
qed


subsection \<open>The life of a growable writer\<close>

definition growable_run :: "'m allocator \<Rightarrow> write_call list \<Rightarrow> 'm \<Rightarrow> 'm growable_writer outcome" where
  "growable_run al calls h =
     and_then (mpack_writer_init_growable al h) (\<lambda>(flush, teardown, w).
     and_then (perform_all flush calls w) (mpack_writer_destroy flush teardown))"

text \<open>What the client finds in its places, and what is left of the memory, at the end.\<close>

definition collected :: "('m \<Rightarrow> int) \<Rightarrow> ('m \<Rightarrow> nat) \<Rightarrow> 'm \<Rightarrow> bytes \<Rightarrow> 'm growable_writer \<Rightarrow> bool" where
  "collected live refused h enc w \<longleftrightarrow>
     (if werror w = mpack_ok
      then target_size w = length enc \<and>
           (\<exists>block. target_data w = Some block \<and> take (length enc) block = enc) \<and>
           live (gheap w) = live h + 1
      else werror w = mpack_error_memory \<and> refused h < refused (gheap w) \<and>
           target_data w = None \<and> target_size w = 0 \<and> live (gheap w) = live h)"

lemma teardown_collected:
  assumes w: "growable_ok al live refused h w" and enc: "werror w = mpack_ok \<Longrightarrow> written w = enc"
  shows "\<exists>w'. mpack_growable_writer_teardown al w = Ret w' \<and> collected live refused h enc w'"
proof (cases "werror w = mpack_ok")
  case False
  then show ?thesis
    using w by (auto simp: mpack_growable_writer_teardown_def collected_def growable_ok_def allocator_ok_def)
next
  case True
  have used: "wcurrent w \<le> length (wbuffer w)" "length enc = wcurrent w"
    "take (wcurrent w) (wbuffer w) = enc"
    using w enc [OF True] by (auto simp: growable_ok_def writer_ok_def written_def)
  show ?thesis
  proof (cases "wcurrent w < length (wbuffer w) div 2")
    case False
    then show ?thesis
      using True w used
      by (auto simp: mpack_growable_writer_teardown_def collected_def growable_ok_def Let_def
          mpack_writer_buffer_used_def mpack_writer_buffer_size_def)
  next
    case shrink: True
    let ?n = "if wcurrent w \<noteq> 0 then wcurrent w else 1"
    have n: "wcurrent w \<le> ?n" "0 < ?n" by simp_all
    from growable_allocator [OF w] used(1) n show ?thesis
    proof (cases rule: mpack_realloc_result [where h = "gheap w"])
      case (1 h')
      then show ?thesis
        using True shrink w
        by (simp add: mpack_growable_writer_teardown_def collected_def growable_ok_def Let_def
            mpack_writer_buffer_used_def mpack_writer_buffer_size_def mpack_writer_flag_error_def
            allocator_ok_def)
    next
      case (2 m h')
      then show ?thesis
        using True shrink w used
        by (simp add: mpack_growable_writer_teardown_def collected_def growable_ok_def Let_def
            mpack_writer_buffer_used_def mpack_writer_buffer_size_def)
    qed
  qed
qed

lemma destroy_collected:
  assumes "growable_ok al live refused h w" "werror w = mpack_ok \<Longrightarrow> written w = enc"
  shows "\<exists>w'. mpack_writer_destroy (Some (mpack_growable_writer_flush al))
      (Some (mpack_growable_writer_teardown al)) w = Ret w' \<and> collected live refused h enc w'"
  using teardown_collected [OF assms]
  by (simp add: mpack_writer_destroy_def mpack_growable_writer_flush_def)

lemma init_growable_result:
  assumes "allocator_ok al live refused"
  obtains w where "mpack_writer_init_growable al h = Ret (None, None, w)" "is_inert w"
      "\<And>enc. collected live refused h enc w"
    | w where "mpack_writer_init_growable al h = Ret (Some (mpack_growable_writer_flush al),
        Some (mpack_growable_writer_teardown al), w)"
      "growable_ok al live refused h w" "werror w = mpack_ok" "written w = []"
proof (cases "MPACK_MALLOC al MPACK_BUFFER_SIZE h")
  case (Pair p h1)
  show ?thesis
  proof (cases p)
    case None
    with Pair assms show ?thesis
      by (intro that(1)) (auto simp: mpack_writer_init_growable_def mpack_writer_init_error_def
          mpack_writer.extend_def growable_writer.fields_def is_inert_def collected_def allocator_ok_def)
  next
    case (Some m)
    with Pair assms have "length m = 4096" "live h1 = live h + 1" "refused h1 = refused h"
      by (auto simp: allocator_ok_def MPACK_BUFFER_SIZE_def)
    with Pair Some assms show ?thesis
      by (intro that(2)) (auto simp: mpack_writer_init_growable_def mpack_writer_init_def
          mpack_writer_set_flush_def mpack_writer_buffer_size_def MPACK_WRITER_MINIMUM_BUFFER_SIZE_def
          mpack_writer.extend_def growable_writer.fields_def growable_ok_def writer_ok_def written_def)
  qed
qed

text \<open>
  C24. A growable writer collects exactly the encodings of all its calls, in a block it hands over to
  the client, however the calls straddle the edges of its buffer. It fails only when the allocator
  has refused a request; then nothing is handed over and no block is left behind. It can fail to return
  only when the message is longer than half the address space, where the doubling of the size wraps.
\<close>

theorem growable_writer_collects:
  assumes al: "allocator_ok al live refused" and calls: "\<forall>c \<in> set calls. call_ok c"
  shows "case growable_run al calls h of
      Ret w \<Rightarrow> collected live refused h (calls_bytes calls) w
    | Fault x \<Rightarrow> 2 ^ 63 < length (calls_bytes calls)"
  using al
proof (cases rule: init_growable_result [where h = h])
  case (1 w)
  then show ?thesis
    using inert_ignores [OF 1(2) calls] by (simp add: growable_run_def mpack_writer_destroy_def)
next
  case (2 w)
  let ?f = "mpack_growable_writer_flush al"
  have run: "growable_run al calls h = and_then (perform_all (Some ?f) calls w)
      (mpack_writer_destroy (Some ?f) (Some (mpack_growable_writer_teardown al)))"
    using 2(1) by (simp add: growable_run_def)
  have writes: "case perform_all (Some ?f) calls w of
      Ret w' \<Rightarrow> grown al live refused h (calls_bytes calls) w w'
    | Fault x \<Rightarrow> cut_off (\<lambda>n. 2 ^ 63 < n) written (calls_bytes calls) w x"
    using growable.performs [OF 2(2) calls] .
  show ?thesis
  proof (cases "perform_all (Some ?f) calls w")
    case (Ret w')
    with writes 2 have "growable_ok al live refused h w'"
        "werror w' = mpack_ok \<Longrightarrow> written w' = calls_bytes calls"
      by (auto simp: sent_def)
    from destroy_collected [OF this] show ?thesis using run Ret by auto
  next
    case (Fault x)
    with writes 2 run show ?thesis by (simp add: cut_off_def)
  qed
qed

text \<open>An allocator that refuses only what exceeds \<open>PTRDIFF_MAX\<close>; its state is the two counts.\<close>

definition counting_allocator :: "(int \<times> nat) allocator" where
  "counting_allocator =
     \<lparr>MPACK_MALLOC = (\<lambda>n (live, refused).
        if n < 2 ^ 63 then (Some (replicate n 0), (live + 1, refused)) else (None, (live, refused + 1))),
      MPACK_FREE = (\<lambda>b (live, refused). (live - 1, refused))\<rparr>"

lemma counting_allocator_ok: "allocator_ok counting_allocator fst snd"
  by (auto simp: allocator_ok_def counting_allocator_def split: if_splits)

theorem growable_writer_collects_witness:
  "case growable_run counting_allocator
       [Start_array 2, Write_u32 70000, Write_str [104, 105], Write_bytes (replicate 5000 7)] (0, 0) of
     Ret w \<Rightarrow> collected fst snd (0, 0)
       ([0x92, 0xCE, 0, 1, 0x11, 0x70, 0xA2, 104, 105] @ replicate 5000 7) w
   | Fault x \<Rightarrow> False"
proof -
  let ?calls = "[Start_array 2, Write_u32 70000, Write_str [104, 105], Write_bytes (replicate 5000 7)]"
  have "calls_bytes ?calls = [0x92, 0xCE, 0, 1, 0x11, 0x70, 0xA2, 104, 105] @ replicate 5000 7"
    by (simp add: calls_bytes_def msgpack_array_header_def msgpack_str_header_def msgpack_int_def
        fix_tag_def be_bytes_def upt_rec)
  then show ?thesis
    using growable_writer_collects [OF counting_allocator_ok, of ?calls "(0, 0)"]
    by (simp split: outcome.splits)
qed

end
