(* ===== verification/Mpack_File.thy ===== *)
theory Mpack_File
  imports Mpack_Growable
begin

text \<open>
  The writer of \<open>mpack.c\<close> that writes to a file, whose flush callback passes the buffer on. It is
  compiled only with \<open>MPACK_STDIO\<close>; the functions of \<open>stdio.h\<close> are parameters.
\<close>

subsection \<open>The stream\<close>

text \<open>
  \<open>'fs\<close> is the state of the one stream of the writer. \<open>fopen\<close> tells whether it has opened it, \<open>fwrite\<close>
  how many bytes it has written.
\<close>

record 'fs stdio =
  fopen :: "bytes \<Rightarrow> 'fs \<Rightarrow> bool \<times> 'fs"
  fwrite :: "bytes \<Rightarrow> 'fs \<Rightarrow> nat \<times> 'fs"
  fclose :: "'fs \<Rightarrow> int \<times> 'fs"

text \<open>
  What is relied on: \<open>fopen\<close> in mode \<open>"wb"\<close> starts with an empty file, \<open>fwrite\<close> appends as many bytes as
  it reports, a \<open>fclose\<close> that fails may lose the end of them, and the open streams and the calls that
  report a failure are counted right.
\<close>

definition stdio_ok :: "'fs stdio \<Rightarrow> ('fs \<Rightarrow> bytes) \<Rightarrow> ('fs \<Rightarrow> int) \<Rightarrow> ('fs \<Rightarrow> nat) \<Rightarrow> bool" where
  "stdio_ok io sink opened failed \<longleftrightarrow>
     (\<forall>name fs fs'. fopen io name fs = (True, fs') \<longrightarrow>
        sink fs' = [] \<and> opened fs' = opened fs + 1 \<and> failed fs' = failed fs) \<and>
     (\<forall>name fs fs'. fopen io name fs = (False, fs') \<longrightarrow>
        opened fs' = opened fs \<and> failed fs' = failed fs + 1) \<and>
     (\<forall>bs fs n fs'. fwrite io bs fs = (n, fs') \<longrightarrow>
        n \<le> length bs \<and> sink fs' = sink fs @ take n bs \<and> opened fs' = opened fs \<and>
        failed fs' = failed fs + (if n = length bs then 0 else 1)) \<and>
     (\<forall>fs r fs'. fclose io fs = (r, fs') \<longrightarrow>
        (if r = 0 then sink fs' = sink fs else prefix (sink fs') (sink fs)) \<and>
        opened fs' = opened fs - 1 \<and> failed fs' = failed fs + (if r = 0 then 0 else 1))"

subsection \<open>State and operations\<close>

record ('m, 'fs) file_writer = mpack_writer +
  fheap :: 'm
  fstream :: 'fs
  fcontext :: bool       \<comment> \<open>\<open>context\<close> is the stream, not NULL\<close>

text \<open>The bytes a flush callback is given, read from the buffer or from the caller.\<close>

definition flushed_bytes :: "'s writer \<Rightarrow> flush_data \<Rightarrow> bytes outcome" where
  "flushed_bytes w data =
     (case data of From_buffer n \<Rightarrow> load_at n (\<lambda>bs. bs) (wbuffer w) 0 | From_caller bs \<Rightarrow> Ret bs)"

definition mpack_file_writer_flush ::
    "'fs stdio \<Rightarrow> ('m, 'fs) file_writer \<Rightarrow> flush_data \<Rightarrow> ('m, 'fs) file_writer outcome" where
  "mpack_file_writer_flush io w data =
     and_then (flushed_bytes w data) (\<lambda>buffer.
       case fwrite io buffer (fstream w) of
         (count, fs) \<Rightarrow>
           Ret (if count \<noteq> length buffer
                then mpack_writer_flag_error mpack_error_io (w\<lparr>fstream := fs\<rparr>) else w\<lparr>fstream := fs\<rparr>))"

definition mpack_file_writer_teardown ::
    "'m allocator \<Rightarrow> ('m, 'fs) file_writer \<Rightarrow> ('m, 'fs) file_writer outcome" where
  "mpack_file_writer_teardown al w =
     Ret (w\<lparr>fheap := MPACK_FREE al (wbuffer w) (fheap w), wbuffer := [], fcontext := False\<rparr>)"

definition mpack_file_writer_teardown_close ::
    "'m allocator \<Rightarrow> 'fs stdio \<Rightarrow> ('m, 'fs) file_writer \<Rightarrow> ('m, 'fs) file_writer outcome" where
  "mpack_file_writer_teardown_close al io w =
     mpack_file_writer_teardown al
       (if fcontext w then
          case fclose io (fstream w) of
            (ret, fs) \<Rightarrow> if ret \<noteq> 0 then mpack_writer_flag_error mpack_error_io (w\<lparr>fstream := fs\<rparr>)
                         else w\<lparr>fstream := fs\<rparr>
        else w)"

text \<open>A writer with the callbacks that are installed in it, and its fields before any is used.\<close>

type_synonym ('m, 'fs) opened_writer =
  "(('m, 'fs) file_writer \<Rightarrow> flush_data \<Rightarrow> ('m, 'fs) file_writer outcome) option \<times>
   (('m, 'fs) file_writer \<Rightarrow> ('m, 'fs) file_writer outcome) option \<times> ('m, 'fs) file_writer"

definition failed_file_writer :: "mpack_error_t \<Rightarrow> 'm \<Rightarrow> 'fs \<Rightarrow> ('m, 'fs) opened_writer" where
  "failed_file_writer error h fs =
     (None, None,
      mpack_writer.extend (mpack_writer_init_error error) (file_writer.fields h fs False))"

definition mpack_writer_init_stdfile :: "'m allocator \<Rightarrow> 'fs stdio \<Rightarrow> bool \<Rightarrow> 'm \<Rightarrow> 'fs \<Rightarrow>
    ('m, 'fs) opened_writer outcome" where
  "mpack_writer_init_stdfile al io close_when_done h fs =
     (case MPACK_MALLOC al MPACK_BUFFER_SIZE h of
        (None, h) \<Rightarrow>
          Ret (failed_file_writer mpack_error_memory h
            (if close_when_done then snd (fclose io fs) else fs))
      | (Some buffer, h) \<Rightarrow>
          and_then (mpack_writer_init (Some buffer)) (\<lambda>w.
            case mpack_writer_set_flush None (Some (mpack_file_writer_flush io))
                   (mpack_writer.extend w (file_writer.fields h fs True)) of
              (flush, w) \<Rightarrow>
                Ret (flush,
                  Some (if close_when_done then mpack_file_writer_teardown_close al io
                        else mpack_file_writer_teardown al), w)))"

definition mpack_writer_init_filename :: "'m allocator \<Rightarrow> 'fs stdio \<Rightarrow> bytes option \<Rightarrow> 'm \<Rightarrow> 'fs \<Rightarrow>
    ('m, 'fs) opened_writer outcome" where
  "mpack_writer_init_filename al io filename h fs =
     (case filename of
        None \<Rightarrow> Fault Assert_failed
      | Some name \<Rightarrow>
          case fopen io name fs of
            (False, fs) \<Rightarrow> Ret (failed_file_writer mpack_error_io h fs)
          | (True, fs) \<Rightarrow> mpack_writer_init_stdfile al io True h fs)"

subsection \<open>The contract of a flush callback\<close>

text \<open>
  Of a file writer in use: its buffer is the one live block, its stream is open and holds at least what it
  held at the start, and its error is set exactly when the stream has failed. The parameters are the
  allocator and the library with the observers they are judged by.
\<close>

record ('m, 'fs) environment =
  env_al :: "'m allocator"
  env_live :: "'m \<Rightarrow> int"
  env_refused :: "'m \<Rightarrow> nat"
  env_io :: "'fs stdio"
  env_sink :: "'fs \<Rightarrow> bytes"
  env_opened :: "'fs \<Rightarrow> int"
  env_failed :: "'fs \<Rightarrow> nat"

definition env_ok :: "('m, 'fs) environment \<Rightarrow> bool" where
  "env_ok e \<longleftrightarrow> allocator_ok (env_al e) (env_live e) (env_refused e) \<and>
     stdio_ok (env_io e) (env_sink e) (env_opened e) (env_failed e)"

definition file_ok :: "('m, 'fs) environment \<Rightarrow> 'm \<Rightarrow> 'fs \<Rightarrow> ('m, 'fs) file_writer \<Rightarrow> bool" where
  "file_ok e h fs w \<longleftrightarrow>
     env_ok e \<and> writer_ok w \<and> 32 \<le> length (wbuffer w) \<and> fcontext w \<and>
     env_live e (fheap w) = env_live e h + 1 \<and> env_refused e (fheap w) = env_refused e h \<and>
     env_opened e (fstream w) = env_opened e fs \<and>
     prefix (env_sink e fs) (env_sink e (fstream w)) \<and>
     env_failed e fs \<le> env_failed e (fstream w) \<and>
     werror w = (if env_failed e (fstream w) = env_failed e fs then mpack_ok else mpack_error_io)"

definition file_content :: "('m, 'fs) environment \<Rightarrow> ('m, 'fs) file_writer \<Rightarrow> bytes" where
  "file_content e w = env_sink e (fstream w) @ written w"

definition file_sink :: "('m, 'fs) environment \<Rightarrow> ('m, 'fs) file_writer \<Rightarrow> bytes" where
  "file_sink e w = env_sink e (fstream w)"

lemma file_put:
  assumes "file_ok e h fs w" "length bs \<le> mpack_writer_buffer_left w"
    "put_current bs (length bs) w = Ret w'"
  shows "sent (file_ok e h fs) (file_content e) (file_sink e) bs w w'"
proof -
  have "writer_ok w" "wcurrent w + length bs \<le> length (wbuffer w)"
    using assms by (auto simp: file_ok_def mpack_writer_buffer_left_def writer_ok_def)
  from put_current_wrote [OF this] assms(3) have "wrote bs w w'" by simp
  moreover have "fheap w' = fheap w" "fstream w' = fstream w" "fcontext w' = fcontext w"
    using assms(3) by (auto simp: put_current_def outcome_simps)
  ultimately show ?thesis
    using assms(1) \<open>wcurrent w + length bs \<le> _\<close>
    by (auto simp: sent_def file_ok_def wrote_def file_content_def file_sink_def)
qed

lemma file_flush:
  assumes "file_ok e h fs w" "werror w = mpack_ok" "flushed_bytes w data = Ret bs"
  shows "\<exists>fs'. mpack_file_writer_flush (env_io e) w data = Ret (w\<lparr>fstream := fs'\<rparr>) \<and>
      env_sink e fs' = env_sink e (fstream w) @ bs \<and> file_ok e h fs (w\<lparr>fstream := fs'\<rparr>) \<or>
    mpack_file_writer_flush (env_io e) w data = Ret (w\<lparr>fstream := fs', werror := mpack_error_io\<rparr>) \<and>
      prefix (env_sink e fs') (env_sink e (fstream w) @ bs) \<and>
      file_ok e h fs (w\<lparr>fstream := fs', werror := mpack_error_io\<rparr>)"
proof -
  obtain n fs' where w: "fwrite (env_io e) bs (fstream w) = (n, fs')" by (metis surj_pair)
  then have "n \<le> length bs" "env_sink e fs' = env_sink e (fstream w) @ take n bs"
      "env_opened e fs' = env_opened e (fstream w)"
      "env_failed e fs' = env_failed e (fstream w) + (if n = length bs then 0 else 1)"
    using assms(1) unfolding file_ok_def env_ok_def stdio_ok_def by blast+
  with w assms show ?thesis
    by (intro exI [of _ fs'])
      (auto simp: mpack_file_writer_flush_def file_ok_def writer_ok_def mpack_writer_flag_error_def
        take_is_prefix intro: prefix_order.trans)
qed

lemma file_ok_rewind: "file_ok e h fs w \<Longrightarrow> file_ok e h fs (w\<lparr>wcurrent := 0\<rparr>)"
  by (auto simp: file_ok_def writer_ok_def)

interpretation stdfile: flusher "mpack_file_writer_flush (env_io e)" "file_ok e h fs" "file_content e"
    "file_sink e" "\<lambda>w. wcurrent w = 0" "\<lambda>_. False" for e :: "('m, 'fs) environment" and h fs
proof
  fix w w' :: "('m, 'fs) file_writer" and bs :: bytes
  show "file_ok e h fs w \<Longrightarrow> writer_ok w" by (simp add: file_ok_def)
  show "sent (file_ok e h fs) (file_content e) (file_sink e) bs w w'"
    if "file_ok e h fs w" "put_current bs (length bs) w = Ret w'"
      "length bs \<le> mpack_writer_buffer_left w"
    using file_put [OF that(1,3,2)] .
  show "\<exists>w'. mpack_writer_flush_unchecked (mpack_file_writer_flush (env_io e)) w = Ret w' \<and>
      sent (file_ok e h fs) (file_content e) (file_sink e) [] w w' \<and>
      (werror w' = mpack_ok \<longrightarrow>
         wcurrent w' = 0 \<and> MPACK_WRITER_MINIMUM_BUFFER_SIZE \<le> mpack_writer_buffer_left w')"
    if w: "file_ok e h fs w" "werror w = mpack_ok"
  proof -
    have "werror (w\<lparr>wcurrent := 0\<rparr>) = mpack_ok"
      "flushed_bytes (w\<lparr>wcurrent := 0\<rparr>) (From_buffer (wcurrent w)) = Ret (written w)"
      using w by (auto simp: flushed_bytes_def load_at_def written_def file_ok_def writer_ok_def)
    from file_flush [OF file_ok_rewind [OF w(1)] this] w show ?thesis
      by (auto simp: mpack_writer_flush_unchecked_def mpack_writer_buffer_used_def sent_def
          file_content_def file_sink_def written_def mpack_writer_buffer_left_def
          MPACK_WRITER_MINIMUM_BUFFER_SIZE_def file_ok_def)
  qed
  show "case mpack_file_writer_flush (env_io e) w (From_caller bs) of
      Ret w' \<Rightarrow> sent (file_ok e h fs) (file_content e) (file_sink e) bs w w'
    | Fault x \<Rightarrow> cut_off (\<lambda>_. False) (file_content e) bs w x"
    if w: "file_ok e h fs w" "werror w = mpack_ok" "wcurrent w = 0"
  proof -
    have "flushed_bytes w (From_caller bs) = Ret bs" by (simp add: flushed_bytes_def)
    from file_flush [OF w(1,2) this] w(2,3) show ?thesis
      by (auto simp: sent_def file_content_def file_sink_def written_def)
  qed
qed simp

subsection \<open>The life of a file writer\<close>

definition file_run :: "'m allocator \<Rightarrow> 'fs stdio \<Rightarrow> bytes option \<Rightarrow> write_call list \<Rightarrow> 'm \<Rightarrow> 'fs \<Rightarrow>
    ('m, 'fs) file_writer outcome" where
  "file_run al io filename calls h fs =
     and_then (mpack_writer_init_filename al io filename h fs) (\<lambda>(flush, teardown, w).
     and_then (perform_all flush calls w) (mpack_writer_destroy flush teardown))"

text \<open>
  At the end the buffer is freed and the stream closed. The error of the writer tells exactly whether a
  request for memory was refused or a call of the stream failed since the start; without an error the file
  holds all that was written, and a prefix of it otherwise.
\<close>

definition streamed :: "('m, 'fs) environment \<Rightarrow> 'm \<Rightarrow> 'fs \<Rightarrow> bytes \<Rightarrow> ('m, 'fs) file_writer \<Rightarrow> bool" where
  "streamed e h fs enc w \<longleftrightarrow>
     env_live e (fheap w) = env_live e h \<and> env_opened e (fstream w) = env_opened e fs - 1 \<and>
     env_refused e h \<le> env_refused e (fheap w) \<and> env_failed e fs \<le> env_failed e (fstream w) \<and>
     werror w =
       (if env_refused e (fheap w) \<noteq> env_refused e h then mpack_error_memory
        else if env_failed e (fstream w) \<noteq> env_failed e fs then mpack_error_io else mpack_ok) \<and>
     (if werror w = mpack_ok then env_sink e (fstream w) = enc
      else prefix (env_sink e (fstream w)) enc)"

lemma fclose_closes:
  assumes "env_ok e" "fclose (env_io e) fs = (r, fs')"
  shows "if r = 0 then env_sink e fs' = env_sink e fs else prefix (env_sink e fs') (env_sink e fs)"
    "env_opened e fs' = env_opened e fs - 1"
    "env_failed e fs' = env_failed e fs + (if r = 0 then 0 else 1)"
  using assms unfolding env_ok_def stdio_ok_def by blast+

lemma close_streamed:
  assumes "file_ok e h fs w" "werror w = mpack_ok \<Longrightarrow> env_sink e (fstream w) = enc"
    "prefix (env_sink e (fstream w)) enc"
  shows "\<exists>w'. mpack_file_writer_teardown_close (env_al e) (env_io e) w = Ret w' \<and> streamed e h fs enc w'"
proof -
  obtain r fs' where r: "fclose (env_io e) (fstream w) = (r, fs')" by (metis surj_pair)
  have "env_ok e" using assms(1) by (simp add: file_ok_def)
  from fclose_closes [OF this r] have
    "if r = 0 then env_sink e fs' = env_sink e (fstream w)
     else prefix (env_sink e fs') (env_sink e (fstream w))"
    "env_opened e fs' = env_opened e (fstream w) - 1"
    "env_failed e fs' = env_failed e (fstream w) + (if r = 0 then 0 else 1)" .
  moreover have "env_live e (MPACK_FREE (env_al e) b g) = env_live e g - 1"
      "env_refused e (MPACK_FREE (env_al e) b g) = env_refused e g" for b g
    using assms(1) by (simp_all add: file_ok_def env_ok_def allocator_ok_def)
  ultimately show ?thesis
    using assms r
    by (auto simp: mpack_file_writer_teardown_close_def mpack_file_writer_teardown_def file_ok_def
        streamed_def mpack_writer_flag_error_def intro: prefix_order.trans split: if_splits)
qed

lemma destroy_streamed:
  assumes w: "file_ok e h fs w" and ok: "werror w = mpack_ok \<Longrightarrow> file_content e w = enc"
    and err: "werror w \<noteq> mpack_ok \<Longrightarrow> prefix (file_sink e w) enc"
  shows "\<exists>w'. mpack_writer_destroy (Some (mpack_file_writer_flush (env_io e)))
      (Some (mpack_file_writer_teardown_close (env_al e) (env_io e))) w = Ret w' \<and>
    streamed e h fs enc w'"
proof (cases "werror w = mpack_ok \<and> wcurrent w \<noteq> 0")
  case True
  have "flushed_bytes w (From_buffer (wcurrent w)) = Ret (written w)"
    using w by (auto simp: flushed_bytes_def load_at_def written_def file_ok_def writer_ok_def)
  from file_flush [OF w _ this] True obtain fs' where
    "mpack_file_writer_flush (env_io e) w (From_buffer (wcurrent w)) = Ret (w\<lparr>fstream := fs'\<rparr>) \<and>
       env_sink e fs' = enc \<and> file_ok e h fs (w\<lparr>fstream := fs'\<rparr>) \<or>
     mpack_file_writer_flush (env_io e) w (From_buffer (wcurrent w)) =
         Ret (w\<lparr>fstream := fs', werror := mpack_error_io\<rparr>) \<and>
       prefix (env_sink e fs') enc \<and> file_ok e h fs (w\<lparr>fstream := fs', werror := mpack_error_io\<rparr>)"
    using ok by (auto simp: file_content_def)
  then show ?thesis
    using close_streamed [of e h fs "w\<lparr>fstream := fs'\<rparr>" enc] True
      close_streamed [of e h fs "w\<lparr>fstream := fs', werror := mpack_error_io\<rparr>" enc]
    by (auto simp: mpack_writer_destroy_def mpack_writer_buffer_used_def)
next
  case False
  moreover have "prefix (env_sink e (fstream w)) enc"
    using ok err by (cases "werror w = mpack_ok") (auto simp: file_content_def file_sink_def)
  moreover have "werror w = mpack_ok \<Longrightarrow> env_sink e (fstream w) = enc"
    using False ok by (simp add: file_content_def written_def)
  ultimately show ?thesis
    using close_streamed [OF w, of enc]
    by (auto simp: mpack_writer_destroy_def mpack_writer_buffer_used_def)
qed

text \<open>The writer on an open stream, which starts empty.\<close>

lemma stdfile_streams:
  assumes e: "env_ok e" and calls: "\<forall>c \<in> set calls. call_ok c" and fs: "env_sink e fs = []"
  shows "\<exists>w. and_then (mpack_writer_init_stdfile (env_al e) (env_io e) True h fs) (\<lambda>(flush, teardown, w).
      and_then (perform_all flush calls w) (mpack_writer_destroy flush teardown)) = Ret w \<and>
    streamed e h fs (calls_bytes calls) w"
proof (cases "MPACK_MALLOC (env_al e) MPACK_BUFFER_SIZE h")
  case (Pair p h1)
  obtain r fs1 where r: "fclose (env_io e) fs = (r, fs1)" by (metis surj_pair)
  have fs1: "env_sink e fs1 = []" "env_opened e fs1 = env_opened e fs - 1"
      "env_failed e fs \<le> env_failed e fs1"
    using fclose_closes [OF e r] fs by (auto split: if_splits)
  show ?thesis
  proof (cases p)
    case None
    let ?w = "snd (snd (failed_file_writer mpack_error_memory h1 fs1))"
    have "is_inert ?w"
      by (simp add: is_inert_def failed_file_writer_def mpack_writer.extend_def mpack_writer_init_error_def)
    from inert_ignores [OF this calls] show ?thesis
      using Pair None e fs fs1 r
      by (auto simp: mpack_writer_init_stdfile_def failed_file_writer_def mpack_writer_destroy_def
          streamed_def mpack_writer.extend_def mpack_writer_init_error_def file_writer.fields_def
          env_ok_def allocator_ok_def)
  next
    case (Some m)
    define w where "w = mpack_writer.extend \<lparr>wbuffer = m, wcurrent = 0, werror = mpack_ok\<rparr>
        (file_writer.fields h1 fs True)"
    have m: "length m = 4096" "env_live e h1 = env_live e h + 1" "env_refused e h1 = env_refused e h"
      using Pair Some e by (auto simp: env_ok_def allocator_ok_def MPACK_BUFFER_SIZE_def)
    have init: "mpack_writer_init_stdfile (env_al e) (env_io e) True h fs =
        Ret (Some (mpack_file_writer_flush (env_io e)),
             Some (mpack_file_writer_teardown_close (env_al e) (env_io e)), w)"
      using Pair Some m by (simp add: mpack_writer_init_stdfile_def mpack_writer_init_def w_def
          mpack_writer_set_flush_def mpack_writer_buffer_size_def MPACK_WRITER_MINIMUM_BUFFER_SIZE_def
          mpack_writer.extend_def file_writer.fields_def)
    have w: "file_ok e h fs w" "werror w = mpack_ok" "file_content e w = []"
      using m e fs by (simp_all add: w_def file_ok_def writer_ok_def mpack_writer.extend_def
          file_writer.fields_def file_content_def written_def)
    then obtain w' where w': "perform_all (Some (mpack_file_writer_flush (env_io e))) calls w = Ret w'"
        "sent (file_ok e h fs) (file_content e) (file_sink e) (calls_bytes calls) w w'"
      using stdfile.performs [OF w(1) calls] by (auto simp: cut_off_def split: outcome.splits)
    then show ?thesis
      using init w destroy_streamed [of e h fs w' "calls_bytes calls"]
      by (auto simp: sent_def split: if_splits)
  qed
qed

subsection \<open>Property\<close>

text \<open>
  C25. A file writer passes exactly the encodings of all its calls to the file, in order, through however
  many flushes of its buffer, and then ends without an error, unless memory, a write or the closing fails:
  every such failure leaves it with the error of memory or of the stream, nothing else does, and the file
  then holds a prefix of them. In every case it returns, has closed the stream it opened and has freed its
  buffer; a file that cannot be opened leaves the error of the stream.
\<close>

theorem file_writer_streams:
  assumes "env_ok e" "\<forall>c \<in> set calls. call_ok c"
  shows "\<exists>w. file_run (env_al e) (env_io e) (Some name) calls h fs = Ret w \<and>
    (case fopen (env_io e) name fs of
       (True, fs1) \<Rightarrow> streamed e h fs1 (calls_bytes calls) w
     | (False, fs1) \<Rightarrow> werror w = mpack_error_io \<and> fstream w = fs1 \<and> fheap w = h)"
proof (cases "fopen (env_io e) name fs")
  case (Pair r fs1)
  show ?thesis
  proof (cases r)
    case True
    then have "env_sink e fs1 = []" using Pair assms(1) by (simp add: env_ok_def stdio_ok_def)
    from stdfile_streams [OF assms this] True Pair show ?thesis
      by (simp add: file_run_def mpack_writer_init_filename_def)
  next
    case False
    let ?w = "snd (snd (failed_file_writer mpack_error_io h fs1))"
    have "is_inert ?w"
      by (simp add: is_inert_def failed_file_writer_def mpack_writer.extend_def mpack_writer_init_error_def)
    from inert_ignores [OF this assms(2)] False Pair show ?thesis
      by (simp add: file_run_def mpack_writer_init_filename_def failed_file_writer_def
          mpack_writer_destroy_def mpack_writer.extend_def mpack_writer_init_error_def
          file_writer.fields_def)
  qed
qed

text \<open>A disk of 6000 bytes; its state is the file, the number of open streams and of failures.\<close>

definition small_disk :: "(bytes \<times> int \<times> nat) stdio" where
  "small_disk =
     \<lparr>fopen = (\<lambda>name (s, opened, failed). (True, ([], opened + 1, failed))),
      fwrite = (\<lambda>bs (s, opened, failed).
        let n = min (length bs) (6000 - length s)
        in (n, (s @ take n bs, opened, if n = length bs then failed else failed + 1))),
      fclose = (\<lambda>(s, opened, failed). (0, (s, opened - 1, failed)))\<rparr>"

definition disk_environment :: "(int \<times> nat, bytes \<times> int \<times> nat) environment" where
  "disk_environment =
     \<lparr>env_al = counting_allocator, env_live = fst, env_refused = snd, env_io = small_disk,
      env_sink = fst, env_opened = fst \<circ> snd, env_failed = snd \<circ> snd\<rparr>"

lemma disk_environment_ok: "env_ok disk_environment"
  using counting_allocator_ok
  by (auto simp: env_ok_def disk_environment_def stdio_ok_def small_disk_def Let_def min_def
      split: if_splits)

theorem file_writer_streams_witness:
  "\<exists>w. file_run counting_allocator small_disk (Some [97])
       [Start_array 2, Write_u32 300, Write_bytes (replicate 5000 7)] (0, 0) ([], 0, 0) = Ret w \<and>
     streamed disk_environment (0, 0) ([], 1, 0) ([0x92, 0xCD, 1, 0x2C] @ replicate 5000 7) w"
proof -
  let ?calls = "[Start_array 2, Write_u32 300, Write_bytes (replicate 5000 7)]"
  have "calls_bytes ?calls = [0x92, 0xCD, 1, 0x2C] @ replicate 5000 7"
    by (simp add: calls_bytes_def msgpack_array_header_def msgpack_int_def fix_tag_def be_bytes_def
        upt_rec)
  then show ?thesis
    using file_writer_streams [OF disk_environment_ok, of ?calls "[97]" "(0, 0)" "([], 0, 0)"]
    by (simp add: disk_environment_def small_disk_def)
qed

end
