(* ===== verification/Spec2Isabelle.thy ===== *)
theory Spec2Isabelle
  imports Driver_Handshake Mpack_Expect_Safety Mpack_File
begin

text \<open>
  \<^bold>\<open>Cremona\<close> is a Linux kernel module (\<open>src/driver/src/\<close>) that lends a character device to each
  account of a social network. A program that opens such a device makes a \<^emph>\<open>toot\<close>, what it writes
  becomes the \<^emph>\<open>elements\<close> of the toot, and closing the file sends it. The network side is a daemon in
  user space; the two exchange MessagePack arrays over netlink. This development models the module, and
  the MessagePack library MPack that comes with it (\<open>cremona/mpack.c\<close>, \<open>cremona/mpack.h\<close>), as far as
  the build of the module compiles it.

  \<^bold>\<open>How the parts interact.\<close>
  A message of the daemon reaches \<open>recive_data\<close> (\<open>module/net_link_comm.c\<close>), which has
  \<open>process_recive_data\<close> called on it. That parses it with the MPack tree parser
  (\<open>cremona/serializer.c\<close>), makes an action of it and dispatches the action (\<open>cremona/device.c\<close>,
  \<open>cremona/toot.c\<close>, \<open>cremona/dispatch.c\<close>). The handlers change the store (\<open>module/device_store.c\<close>,
  \<open>module/toot_store.c\<close>, \<open>module/element_store.c\<close>) through the functions declared in
  \<open>cremona/central_store.h\<close>, and answer through the communicator, which writes messages with the MPack
  writer. The file operations of a device (\<open>module/device_store.c\<close>) make actions too; they wait for the
  daemon's answers, which other threads put into the store. \<open>module/main.c\<close> and \<open>module/store.c\<close> start
  and end all of this.

  \<^bold>\<open>How C is modelled.\<close>
  Machine integers are words of their width. A function that can go wrong in a way C or the kernel
  leaves without a result (an access outside an object, a use after free, a null pointer, a false
  assertion, a lock that nobody releases) returns an \<open>outcome\<close> (theory Cremona_Prelude): \<open>Ret\<close> with
  the result and the new state, or \<open>Fault\<close>. So each theorem that gives a \<open>Ret\<close> also says that the
  function returns and stays inside its objects. Errors that the code reports are values: the sticky
  error fields of MPack, Boolean and errno results, and the error object of the driver (format strings
  and arguments, at most ten). An object of C is a list of bytes, whose length need not be the size the
  program has in mind, or an entry of a heap, a map from addresses; an address outside the map is freed
  memory. What the module takes from Linux and has to give back beside its objects (a block that is not an
  object yet, the block of the \<open>store_t\<close>, the device numbers, the device class, the socket) is the list
  \<open>held\<close>: \<open>settle\<close> makes a block an object, \<open>give_back\<close> is \<open>kfree\<close> and the like and faults on what is not
  held, and \<open>cdevs\<close> are the devices registered with Linux. Uninitialised memory is a parameter.

  \<^bold>\<open>The build.\<close>
  MPack is read as the module compiles it (\<open>mpack-config.h\<close> with \<open>MPACK_HAS_CONFIG\<close>): reader, expect,
  writer and node API on; no standard library, no stdio, no allocator, no extension types, no debug
  checks and no tracking; no floats, since \<open>MPACK_SSE_ENABLED\<close> is undefined; \<open>MPACK_OPTIMIZE_FOR_SIZE\<close>
  off; \<open>size_t\<close> of 64 bits. In this build \<open>mpack_assert\<close> tells the compiler that a false condition is
  unreachable (a fault of the model), and \<open>mpack_break\<close> does nothing. The driver itself uses the tree,
  the node API and the writer; the reader and the expect API are compiled in and modelled too.

  \<^bold>\<open>Linux\<close> is not part of the repository: what the module calls is the record of functions
  \<open>kernel\<close> (Driver_Kernel), a parameter of every operation, with the documented behaviour the proofs need
  in \<open>kernel_ok\<close>: \<open>idr\<close> as a map of ids, an allocator that gives blocks that are not in use, and stack
  frames of the declared sizes. The other threads are the function \<open>k_sleep\<close>, one arbitrary step for
  each wait; \<open>sleep_ok\<close> asks that they keep the invariant of the store and what the waiting thread
  relies on. \<open>netlink_rcv_skb\<close>, which walks over the messages of a packet, is an argument of
  \<open>recive_data\<close>; \<open>delivers\<close> (Driver_Runs) says what it is documented to do. What the module does not provide for is
  collected in \<open>hazards\<close> (Driver_Module_Safety): an allocator that gives no byte beyond the size asked for,
  \<open>cdev_device_add\<close> failing, a toot removed while a thread waits for it, and \<open>nlmsg_new\<close> failing. The
  instance \<open>sample_kernel\<close> (Driver_Sample) has the documented behaviour and none of the hazards.
\<close>

text \<open>
  \<^bold>\<open>The theories\<close>, in the order of the code.

  \<^item> Cremona_Prelude: words, outcomes and their sequencing, facts about lists.
  \<^item> Mpack_Bytes, Mpack_Utf8, Mpack_Tag: loads and stores, \<open>mpack_memcmp\<close>, \<open>mpack_memmove\<close>,
    \<open>mpack_strlen\<close>; the UTF-8 check, proved to accept exactly the encodings of Unicode scalar values; tags,
    with \<open>mpack_tag_cmp\<close> proved a total order.
  \<^item> Msgpack_Format, Msgpack_Values: the MessagePack format, as a datatype of values with their shortest
    encodings, and values as headers with children. They depend on no C code and are what both
    directions are measured by.
  \<^item> Mpack_Writer, Mpack_Emit: the writer, over the type of its context. The locale \<open>writing\<close> says
    what the write functions need of the way a writer makes room; inside it each of them is shown to emit
    its encoding. Its first interpretation is the writer without a flush callback, whose operations keep
    the contract \<open>emitter\<close> (append the encoding, or flag \<open>mpack_error_too_big\<close>, inside the buffer).
  \<^item> Mpack_Flush: the locale \<open>flusher\<close>, the contract of a flush callback, which gives one of \<open>writing\<close>;
    the calls of a client as a datatype, and what any sequence of them writes.
  \<^item> Mpack_Growable, Mpack_File: the two writers of \<open>mpack.c\<close> with a flush callback, in memory that grows
    and to a file, as interpretations of \<open>flusher\<close>. The module compiles neither; the allocator and
    \<open>stdio.h\<close> are parameters, with their documented behaviour in \<open>allocator_ok\<close> and \<open>stdio_ok\<close>.
  \<^item> Mpack_Tree, Mpack_Tree_Safety, Mpack_Tree_Decode, Mpack_Tree_Roundtrip: the tree parser. Safety is an
    invariant of the parse loop over its stack of open levels; the round trip relates the nodes
    of a tree to values by the inductive predicate \<open>denotes\<close>.
  \<^item> Mpack_Node, Mpack_Node_Facts, Mpack_Node_Values: the node API. The locale \<open>node_reader\<close> is the
    discipline all of its functions share; what they answer is stated in terms of the denoted value.
  \<^item> Mpack_Reader, Mpack_Reader_Facts, Mpack_Read_Tag, Mpack_Read_Facts, Mpack_Read_Encodings: the reader.
    Its callbacks are fields that work on the reader's context. \<open>unread\<close> is what a reader has still to
    deliver, buffered or not; the locales \<open>reader_op\<close> and \<open>reader_seq\<close> state that an operation does
    to it what a parser of byte lists does, which makes the pieces of the source irrelevant.
  \<^item> Mpack_Expect, Mpack_Expect_Facts, Mpack_Expect_Values, Mpack_Expect_Keys, Mpack_Expect_Safety: the
    expect API, by the locales \<open>reader_check\<close> and \<open>reader_equal\<close> over the former.
  \<^item> Cremona_Serializer, Cremona_Messages: the messages of the driver (\<open>cremona/message.h\<close>,
    \<open>cremona/buffer.h\<close>, \<open>cremona/serializer.c\<close>), their serializers as emitters of a value and their
    deserializers as checked readers of it.
  \<^item> Driver_Communicator, Driver_Handlers: the communicator interface (\<open>cremona/communicator.c\<close>) and the
    actions with their handlers, over a record \<open>store_ops\<close> of the store's functions.
  \<^item> Driver_Contract, Driver_Model: the contracts of that record, as two locales. \<open>store_contract\<close> asks that
    operations keep an invariant or stop with a fault from a given set; \<open>store_model\<close> adds what they do
    to the abstract store \<open>astore\<close>, three maps from ids to objects. The handlers are verified in them.
  \<^item> Driver_Kernel, Driver_Store, Driver_Module: Linux and the state \<open>world\<close> of the module; the three
    stores; netlink, the file operations, the start and the end of the module.
  \<^item> Driver_Store_Facts, Driver_Store_Refine, Driver_Store_Alloc, Driver_Store_Add, Driver_Store_Remove,
    Driver_Store_Props: the invariant \<open>store_inv\<close> (heaps and \<open>idr\<close>s in step: nothing dangles, nothing
    leaks, no lock is held, no id is allocated without an object) with the abstraction \<open>abs_store\<close>, and each
    operation of the stores as a function on it. \<open>reaches\<close> relates the states around an operation: what it
    does to the abstract store, and that all else that can be observed, \<open>held\<close> included, stays; \<open>unchanged\<close>
    says that heaps, allocated ids, held memory and registered devices are as before.
  \<^item> Driver_Module_Safety, Driver_Module_Model: the two contracts interpreted on the module's own functions.
  \<^item> Driver_Sample, Driver_Create, Driver_Props, Driver_Life: concrete instances; the creation of a device
    with every failure rolled back; the properties of the handlers on the module's store; the start, with
    what it gives back when it fails (\<open>given_back\<close>), the end and the files.
  \<^item> Driver_Sending: what opening, writing to and closing a file stores and sends to the daemon before it
    waits for the answer: a third contract, \<open>store_sender\<close>, which extends \<open>store_model\<close> by the additions of
    the store, and its interpretation.
  \<^item> Driver_Runs: the module as a state machine. Linux enters it with packets and file operations in any
    order, with other behaviour of the other threads each time (rely and guarantee); \<open>reached\<close> is the
    inductive relation of the states it gets into, and the invariant holds in all of them. A \<open>footing\<close> is
    what the start took: it is held in all these states, no more and no less, and the end gives it back.
  \<^item> Driver_Handshake: a request and the daemon's answer together. When the answer is received while
    the program sleeps (\<open>answered\<close>), opening and closing a file come to their good end.
\<close>

text \<open>
  \<^bold>\<open>Loops and fuel.\<close>
  The parse loop gets the length of the data plus one rounds, and every round but the last consumes a
  byte; the theorems show that it never runs out. \<open>idr_for_each_entry\<close> gets \<open>IDS\<close>, the number of 32-bit
  ids, and is proved to need no more. The loop that doubles the buffer of the growing writer is a partial
  function, shown to end unless the message is longer than half the address space. The depth of \<open>mpack_discard\<close> has no bound in the code; with more
  fuel than bytes to come it is proved to return, whatever these are.

  \<^bold>\<open>Not modelled.\<close>
  What the build leaves out, but for the growing and the file writer: floats, extension types and
  timestamps, the reading of files, reads and strings that allocate, node pages, tracking, the debug and print functions, and
  \<open>mpack_done_*\<close> and \<open>mpack_finish_*\<close>, which are empty without tracking. The flush and teardown callbacks of the writer are
  parameters; its error callback and the read callback of a streaming tree are set by nothing in the
  repository. In the module: the calls of \<open>printk_err\<close> (what it writes is modelled), and the text that
  \<open>snprintf\<close> makes of an error entry. Blocks of names and those behind files are in their heaps and never in
  \<open>held\<close>; where the code does not free them, the theorems say that they stay. Sections under a spinlock run without interleaving, and between
  its waits a call of Linux runs alone. Outside the module: the tests, and the daemon, which is written in Go.
\<close>

text \<open>
  C8. An answer of the daemon to a new toot, as bytes of a netlink message: when it carries the id of a
  toot whose device belongs to the sending process, that device and a result, the toot becomes open, or
  an error when the result is not zero; nothing else in the store changes and nothing is sent.
\<close>

theorem daemon_answer_opens_toot:
  fixes r :: u32
  assumes "working K w" "com_heap w com \<noteq> None"
    "carries (Msg_array [Msg_int (uint toot), Msg_int (uint dev), Msg_int (sint r)])
       (DEFINE_CRMNA_BUF_FROM_MEMORY mem len)"
    "toot_owner (abs_store K w) toot = Some (pid, dev)"
  shows "module_gives K (if r = 0 then 0 else 1)
    (toot_state_spec (if r = 0 then OPEND else TOOT_ERROR) toot (abs_store K w)) (wsent w)
    (process_recive_data K com CRMNA_NEW_TOOT_RESULT pid len mem w)"
proof -
  let ?w = "w\<lparr>werr := []\<rparr>" and ?v = "Msg_array [Msg_int (uint toot), Msg_int (uint dev), Msg_int (sint r)]"
  let ?p = "\<lparr>rp_pid = pid, rp_device_id = dev, rp_toot_id = toot, rp_result = r\<rparr>"
  have w: "working K ?w" "module_inv K ?w"
    using assms(1) by (simp_all add: working_def module_err link_up_def)
  have fields: "msg_u32 0 ?v = Some toot" "msg_u32 1 ?v = Some dev" "msg_i32 2 ?v = Some r"
    using uint_less(3) [of toot] uint_less(3) [of dev] sint_range(3,7) [of r]
    by (simp_all add: msg_u32_def msg_i32_def msg_field_def)
  have action: "create_action_from_message (module_ops K) CRMNA_NEW_TOOT_RESULT pid
      (DEFINE_CRMNA_BUF_FROM_MEMORY mem len) ?w = Ret (Some (CREATE_TOOT_RESULT ?p), ?w)"
    using actions_of_messages [OF w(2) assms(3), of pid, THEN conjunct1] by (simp add: fields del: One_nat_def)
  have "module_gives K (r = 0) (toot_state_spec (if r = 0 then OPEND else TOOT_ERROR) toot (abs_store K w))
      (wsent w) (create_toot_result ?p (module_ops K) ?w)"
    using model.create_toot_result_gives [OF w(1), of ?p] assms(4) by simp
  then show ?thesis
    using assms(2) action
    by (auto simp: process_recive_data_def with_err_def gives_def read_at_def
        working_def module_err module_error link_up_def add_error_def)
qed

theorem daemon_answer_opens_toot_witness:
  "\<exists>w. process_recive_data sample_kernel 30 CRMNA_NEW_TOOT_RESULT 100 4 [0x93, 5, 1, 0] sample_world = Ret (0, w) \<and>
     a_toot (abs_store sample_kernel w) 5 = Some (sample_toot\<lparr>t_state := OPEND\<rparr>)"
proof -
  have "carries (Msg_array [Msg_int (uint (5 :: u32)), Msg_int (uint (1 :: u32)), Msg_int (sint (0 :: u32))])
      (DEFINE_CRMNA_BUF_FROM_MEMORY [0x93, 5, 1, 0] 4)"
    by (simp add: carries_def DEFINE_CRMNA_BUF_FROM_MEMORY_def msgpack_array_header_def
        msgpack_int_def be_bytes_def fix_tag_def SIZE_MAX_def)
  moreover have "usable_toot (abs_store sample_kernel sample_world) 5"
    by (simp add: usable_toot_def ready_dev_def sample_toot_def sample_dev_def)
  then have "toot_owner (abs_store sample_kernel sample_world) 5 = Some (100, 1)"
      "toot_state_spec OPEND 5 (abs_store sample_kernel sample_world) =
        put_toot 5 (Some (sample_toot\<lparr>t_state := OPEND\<rparr>)) (abs_store sample_kernel sample_world)"
    by (simp_all add: toot_owner_def toot_state_spec_def) (simp_all add: sample_toot_def sample_dev_def)
  moreover have "com_heap sample_world 30 \<noteq> None" by (simp add: sample_defs)
  ultimately show ?thesis
    using daemon_answer_opens_toot [OF sample_working(2), of 30 5 1 0 "[0x93, 5, 1, 0]" 4 100] by (auto simp: gives_def put_toot_def)
qed
end
